(* ===== verification/Fab_Prelude.thy ===== *)
theory Fab_Prelude
  imports
    Main
    "HOL-Library.Word"
    "HOL-Library.Multiset"
    "HOL-Library.Char_ord"
    "HOL-Library.List_Lexorder"
    "HOL-Library.Product_Lexorder"
begin

text \<open>
  The prelude of the development: the collections of hints the components share, the
  model of \<^verbatim>\<open>std::map\<close> as a sorted association list together with the interface
  (a locale) its clients use, and generic facts on lists and sorting.

  Conventions. \<^verbatim>\<open>std::string\<close> is \<open>string\<close>, a list of \<open>char\<close> whose order (from
  \<open>Char_ord\<close> and \<open>List_Lexorder\<close>) is the lexicographic order of unsigned bytes that
  \<^verbatim>\<open>std::char_traits<char>\<close> implements. Tuples and \<^verbatim>\<open>std::pair\<close> compare
  lexicographically (\<open>Product_Lexorder\<close>), as a defaulted \<^verbatim>\<open>operator<=>\<close> does member by
  member. \<^verbatim>\<open>std::sort\<close> is \<open>sort_key\<close> for the key the comparator compares.
\<close>

unbundle bit_operations_syntax

section \<open>Hint collections\<close>

named_theorems store_simps \<open>laws of the keyed stores\<close>
named_theorems codec_intros \<open>what each decoder reads back from what the encoder wrote\<close>
named_theorems frame_simps \<open>fields of a state an operation leaves alone\<close>

type_synonym byte = "8 word"

section \<open>std::map as a sorted association list\<close>

text \<open>
  A \<^verbatim>\<open>std::map\<close> that is iterated is a list of pairs in increasing key order. Lookup
  (\<^verbatim>\<open>find\<close>) is \<open>map_of\<close>; \<open>om_put\<close> is assignment through \<^verbatim>\<open>operator[]\<close> and
  \<open>om_emplace\<close> is \<^verbatim>\<open>emplace\<close>, which leaves an existing entry alone.
\<close>

fun om_put :: "'k::linorder \<Rightarrow> 'v \<Rightarrow> ('k \<times> 'v) list \<Rightarrow> ('k \<times> 'v) list" where
  "om_put k v [] = [(k, v)]"
| "om_put k v ((k', v') # m) =
     (if k < k' then (k, v) # (k', v') # m
      else if k = k' then (k, v) # m
      else (k', v') # om_put k v m)"

definition om_emplace :: "'k::linorder \<Rightarrow> 'v \<Rightarrow> ('k \<times> 'v) list \<Rightarrow> ('k \<times> 'v) list" where
  "om_emplace k v m = (case map_of m k of None \<Rightarrow> om_put k v m | Some _ \<Rightarrow> m)"

definition om_sorted :: "('k::linorder \<times> 'v) list \<Rightarrow> bool" where
  "om_sorted m \<longleftrightarrow> sorted_wrt (<) (map fst m)"

lemma om_put_keys: "fst ` set (om_put k v m) = insert k (fst ` set m)"
  by (induction m rule: om_put.induct) auto

lemma om_put_set: "set (om_put k v m) \<subseteq> insert (k, v) (set m)"
  by (induction m rule: om_put.induct) auto

lemma om_sorted_put: "om_sorted m \<Longrightarrow> om_sorted (om_put k v m)"
proof (induction k v m rule: om_put.induct)
  case (1 k v)
  then show ?case by (simp add: om_sorted_def)
next
  case (2 k v k' v' m)
  have keys: "set (map fst (om_put k v m)) = insert k (fst ` set m)"
    using om_put_keys[of k v m] by simp
  show ?case
  proof (cases "k' < k")
    case True
    with 2 keys show ?thesis by (auto simp: om_sorted_def)
  next
    case False
    with 2 show ?thesis by (force simp: om_sorted_def)
  qed
qed

lemma map_of_om_put:
  "om_sorted m \<Longrightarrow> map_of (om_put k v m) = (map_of m)(k \<mapsto> v)"
  by (induction k v m rule: om_put.induct) (auto simp: om_sorted_def fun_eq_iff)

lemma om_sorted_Nil [simp]: "om_sorted []"
  by (simp add: om_sorted_def)

lemma om_sorted_distinct: "om_sorted m \<Longrightarrow> distinct (map fst m)"
  by (simp add: om_sorted_def strict_sorted_iff)

lemma om_sorted_emplace: "om_sorted m \<Longrightarrow> om_sorted (om_emplace k v m)"
  by (simp add: om_emplace_def om_sorted_put split: option.split)

lemma length_om_put:
  "om_sorted m \<Longrightarrow>
     length (om_put k v m) = (if k \<in> fst ` set m then length m else Suc (length m))"
  by (induction k v m rule: om_put.induct) (auto simp: om_sorted_def)

subsection \<open>The interface\<close>

text \<open>
  What a client of a keyed container relies on: the entry written is the one read back,
  other entries are untouched, and the representation invariant is kept. The client
  facts below are proved once from these laws.
\<close>

locale keyed_store =
  fixes empty_store :: "'m"
    and find_in :: "'m \<Rightarrow> 'k \<Rightarrow> 'v option"
    and put_in :: "'k \<Rightarrow> 'v \<Rightarrow> 'm \<Rightarrow> 'm"
    and emplace_in :: "'k \<Rightarrow> 'v \<Rightarrow> 'm \<Rightarrow> 'm"
    and invar :: "'m \<Rightarrow> bool"
  assumes find_empty: "find_in empty_store k = None"
    and invar_empty: "invar empty_store"
    and invar_put: "invar m \<Longrightarrow> invar (put_in k v m)"
    and find_put: "invar m \<Longrightarrow> find_in (put_in k v m) = (find_in m)(k \<mapsto> v)"
    and emplace_absent: "find_in m k = None \<Longrightarrow> emplace_in k v m = put_in k v m"
    and emplace_present: "find_in m k = Some w \<Longrightarrow> emplace_in k v m = m"
begin

lemma invar_emplace: "invar m \<Longrightarrow> invar (emplace_in k v m)"
  by (cases "find_in m k") (simp_all add: emplace_absent emplace_present invar_put)

lemma find_emplace:
  "invar m \<Longrightarrow> find_in (emplace_in k v m) k' =
     (case find_in m k' of None \<Rightarrow> (if k' = k then Some v else None) | Some w \<Rightarrow> Some w)"
  by (cases "find_in m k")
     (auto simp: emplace_absent emplace_present find_put split: option.splits)

text \<open>Emplacing a sequence of entries: the first entry for a key wins.\<close>

lemma invar_fold_emplace:
  "invar m \<Longrightarrow> invar (fold (\<lambda>x. emplace_in (kf x) (vf x)) xs m)"
  by (induction xs arbitrary: m) (simp_all add: invar_emplace)

lemma find_fold_emplace:
  "invar m \<Longrightarrow> find_in (fold (\<lambda>x. emplace_in (kf x) (vf x)) xs m) k =
     (case find_in m k of Some w \<Rightarrow> Some w
      | None \<Rightarrow> map_of (map (\<lambda>x. (kf x, vf x)) xs) k)"
proof (induction xs arbitrary: m)
  case Nil
  then show ?case by (simp split: option.split)
next
  case (Cons x xs)
  then show ?case
    by (auto simp: invar_emplace find_emplace split: option.splits)
qed

end

interpretation om: keyed_store
  "[] :: ('k::linorder \<times> 'v) list" map_of om_put om_emplace om_sorted
  by unfold_locales
     (simp_all add: om_sorted_put map_of_om_put om_emplace_def)

lemmas om_facts = om.find_put om.invar_put om.find_emplace om.invar_emplace

section \<open>Sorting\<close>

text \<open>
  Sorting by a key that tells the elements apart forgets the order of the input: this is
  what makes the results of the runtime independent of arrival order.
\<close>

lemma sort_key_perm_eq:
  assumes "mset xs = mset ys" and "inj_on f (set xs)"
  shows "sort_key f xs = sort_key f ys"
proof -
  have "mset xs = mset (sort_key f ys)"
    using assms(1) by simp
  then show ?thesis
    using assms(2) by (rule sort_key_inj_key_eq) simp
qed

lemma sort_key_perm_eq_inj:
  "mset xs = mset ys \<Longrightarrow> inj f \<Longrightarrow> sort_key f xs = sort_key f ys"
  by (rule sort_key_perm_eq) (auto intro: inj_on_subset)

section \<open>Bounded appends\<close>

text \<open>The vector operation the runtime bounds its retained refusals with.\<close>

definition drop_excess :: "nat \<Rightarrow> 'a list \<Rightarrow> 'a list" where
  "drop_excess bound xs = (if length xs > bound then tl xs else xs)"

lemma length_drop_excess:
  "length xs \<le> bound \<Longrightarrow> length (drop_excess bound (xs @ [x])) \<le> bound"
  by (auto simp: drop_excess_def)

lemma set_drop_excess: "set (drop_excess bound xs) \<subseteq> set xs"
  by (auto simp: drop_excess_def dest: list.set_sel(2)[rotated])

section \<open>Searching\<close>

lemma find_in_set: "find P xs = Some x \<Longrightarrow> x \<in> set xs \<and> P x"
  by (auto simp: find_Some_iff in_set_conv_nth)

section \<open>Words\<close>

lemma unat_lt2p: "unat (w :: 'a::len word) < 2 ^ LENGTH('a)"
  by (rule unsigned_less)

lemma word_eq_unatI: "unat a = unat b \<Longrightarrow> a = (b :: 'a::len word)"
  by (simp add: word_unat_eq_iff)

lemma unat_of_nat_small: "n < 2 ^ LENGTH('a) \<Longrightarrow> unat (of_nat n :: 'a::len word) = n"
  by (simp add: unat_of_nat)

lemma of_nat_word_inject:
  "m < 2 ^ LENGTH('a) \<Longrightarrow> n < 2 ^ LENGTH('a) \<Longrightarrow> (of_nat m :: 'a::len word) = of_nat n \<longleftrightarrow> m = n"
  by (metis unat_of_nat_small)

lemma unat_minus_one_word: "unat (- 1 :: 'a::len word) = 2 ^ LENGTH('a) - 1"
  by (simp add: unsigned_minus_1_eq_mask mask_eq_exp_minus_1)

section \<open>Sums as results\<close>

lemma case_sum_eq_Inr:
  "(case r of Inl e \<Rightarrow> Inl e | Inr x \<Rightarrow> f x) = Inr y \<longleftrightarrow> (\<exists>x. r = Inr x \<and> f x = Inr y)"
  by (cases r) auto

end
