(* ===== verification/Fab_Status.thy ===== *)
theory Fab_Status
  imports Fab_Prelude
begin

text \<open>
  The foundation layer: status codes and results (\<^verbatim>\<open>status.hpp\<close>, \<^verbatim>\<open>status.cpp\<close>), checked
  arithmetic (\<^verbatim>\<open>checked.hpp\<close>) and the text utilities (\<^verbatim>\<open>util.cpp\<close>). \<^verbatim>\<open>Result<T>\<close> is
  \<open>'a result\<close>: \<open>Inl\<close> a non-ok status, \<open>Inr\<close> the value. A status keeps its message, because
  messages reach the snapshot through the recorded refusals. \<^verbatim>\<open>size_t\<close> is the 64-bit one.
\<close>

section \<open>Enumerations and their names\<close>

text \<open>
  Every enumeration of the runtime is printed from a constant table and parsed by the first
  entry whose name matches.
\<close>

definition enum_name :: "('e \<times> string) list \<Rightarrow> string \<Rightarrow> 'e \<Rightarrow> string" where
  "enum_name table fallback e = (case map_of table e of Some n \<Rightarrow> n | None \<Rightarrow> fallback)"

definition enum_of_name :: "('e \<times> string) list \<Rightarrow> string \<Rightarrow> 'e option" where
  "enum_of_name table n = map_of (map prod.swap table) n"

locale named_enum =
  fixes table :: "('e \<times> string) list"
    and fallback :: string
  assumes constructors: "\<And>e. e \<in> fst ` set table"
    and names_distinct: "distinct (map snd table)"
    and constructors_distinct: "distinct (map fst table)"
begin

lemma name_in_table: "(e, enum_name table fallback e) \<in> set table"
proof -
  obtain n where n: "(e, n) \<in> set table"
    using constructors[of e] by auto
  then have "map_of table e = Some n"
    using constructors_distinct by simp
  with n show ?thesis by (simp add: enum_name_def)
qed

lemma of_name_name: "enum_of_name table (enum_name table fallback e) = Some e"
proof -
  have "(enum_name table fallback e, e) \<in> set (map prod.swap table)"
    using name_in_table[of e] by force
  then show ?thesis
    using names_distinct unfolding enum_of_name_def
    by (intro map_of_is_SomeI) (simp_all add: comp_def)
qed

lemma of_name_Some: "enum_of_name table n = Some e \<longleftrightarrow> n = enum_name table fallback e"
proof
  assume "enum_of_name table n = Some e"
  then have "(e, n) \<in> set table"
    by (auto simp: enum_of_name_def dest!: map_of_SomeD)
  then show "n = enum_name table fallback e"
    using constructors_distinct by (simp add: enum_name_def)
qed (simp add: of_name_name)

end

section \<open>Status codes and results\<close>

datatype status_code =
    SC_Ok
  | SC_InvalidArgument
  | SC_OutOfRange
  | SC_NotFound
  | SC_AlreadyExists
  | SC_Unsupported
  | SC_NotPermittedByBoundary
  | SC_ResourceExhausted
  | SC_QueueFull
  | SC_TooLarge
  | SC_LimitExceeded
  | SC_DepthExceeded
  | SC_MalformedInput
  | SC_IntegrityFailure
  | SC_VersionMismatch
  | SC_Corrupt
  | SC_FencedSequence
  | SC_FencedIncarnation
  | SC_FencedStaleGeneration
  | SC_FencedStaleEpoch
  | SC_FencedAuthority
  | SC_FencedRevision
  | SC_FencedDuplicateContent
  | SC_ClockInconsistent
  | SC_FabricMismatch
  | SC_SourceUnknown
  | SC_IoError
  | SC_Cancelled
  | SC_ShuttingDown
  | SC_NotOpen
  | SC_Internal

definition status_names :: "(status_code \<times> string) list" where
  "status_names =
    [(SC_Ok, ''Ok''),
     (SC_InvalidArgument, ''InvalidArgument''),
     (SC_OutOfRange, ''OutOfRange''),
     (SC_NotFound, ''NotFound''),
     (SC_AlreadyExists, ''AlreadyExists''),
     (SC_Unsupported, ''Unsupported''),
     (SC_NotPermittedByBoundary, ''NotPermittedByBoundary''),
     (SC_ResourceExhausted, ''ResourceExhausted''),
     (SC_QueueFull, ''QueueFull''),
     (SC_TooLarge, ''TooLarge''),
     (SC_LimitExceeded, ''LimitExceeded''),
     (SC_DepthExceeded, ''DepthExceeded''),
     (SC_MalformedInput, ''MalformedInput''),
     (SC_IntegrityFailure, ''IntegrityFailure''),
     (SC_VersionMismatch, ''VersionMismatch''),
     (SC_Corrupt, ''Corrupt''),
     (SC_FencedSequence, ''FencedSequence''),
     (SC_FencedIncarnation, ''FencedIncarnation''),
     (SC_FencedStaleGeneration, ''FencedStaleGeneration''),
     (SC_FencedStaleEpoch, ''FencedStaleEpoch''),
     (SC_FencedAuthority, ''FencedAuthority''),
     (SC_FencedRevision, ''FencedRevision''),
     (SC_FencedDuplicateContent, ''FencedDuplicateContent''),
     (SC_ClockInconsistent, ''ClockInconsistent''),
     (SC_FabricMismatch, ''FabricMismatch''),
     (SC_SourceUnknown, ''SourceUnknown''),
     (SC_IoError, ''IoError''),
     (SC_Cancelled, ''Cancelled''),
     (SC_ShuttingDown, ''ShuttingDown''),
     (SC_NotOpen, ''NotOpen''),
     (SC_Internal, ''Internal'')]"

definition status_code_text :: "status_code \<Rightarrow> string" where
  "status_code_text c = enum_name status_names ''Unknown'' c"

definition status_code_from_string :: "string \<Rightarrow> status_code option" where
  "status_code_from_string text = enum_of_name status_names text"

text \<open>The numeric values of the enumerators are consecutive from zero, in table order.\<close>

fun index_of :: "'a \<Rightarrow> 'a list \<Rightarrow> nat" where
  "index_of x [] = 0"
| "index_of x (y # ys) = (if x = y then 0 else Suc (index_of x ys))"

definition status_code_u16 :: "status_code \<Rightarrow> 16 word" where
  "status_code_u16 c = of_nat (index_of c (map fst status_names))"

interpretation status_enum: named_enum status_names "''Unknown''"
proof
  fix e :: status_code
  show "e \<in> fst ` set status_names"
    by (cases e) (simp_all add: status_names_def)
qed (simp_all add: status_names_def)

datatype status = Status (st_code: status_code) (st_message: string)

type_synonym 'a result = "status + 'a"

definition err :: "status_code \<Rightarrow> string \<Rightarrow> 'a result" where
  "err c m = Inl (Status c m)"

definition status_text :: "status \<Rightarrow> string" where
  "status_text s = status_code_text (st_code s) @
     (if st_message s = [] then [] else '': '' @ st_message s)"

fun rbind :: "'a result \<Rightarrow> ('a \<Rightarrow> 'b result) \<Rightarrow> 'b result" where
  "rbind (Inl e) f = Inl e"
| "rbind (Inr x) f = f x"

lemma rbind_Inr_iff: "rbind r f = Inr y \<longleftrightarrow> (\<exists>x. r = Inr x \<and> f x = Inr y)"
  by (cases r) auto

lemma err_simps [simp]: "err c m \<noteq> Inr x" "err c m = Inl s \<longleftrightarrow> s = Status c m"
  by (auto simp: err_def)

section \<open>Checked arithmetic\<close>

text \<open>\<^verbatim>\<open>std::numeric_limits<T>::max()\<close> of an unsigned type.\<close>

abbreviation word_max :: "'a::len word" where
  "word_max \<equiv> - 1"

definition checked_add :: "'a::len word \<Rightarrow> 'a word \<Rightarrow> 'a word option" where
  "checked_add lhs rhs = (if rhs > word_max - lhs then None else Some (lhs + rhs))"

definition checked_sub :: "'a::len word \<Rightarrow> 'a word \<Rightarrow> 'a word option" where
  "checked_sub lhs rhs = (if rhs > lhs then None else Some (lhs - rhs))"

definition checked_mul :: "'a::len word \<Rightarrow> 'a word \<Rightarrow> 'a word option" where
  "checked_mul lhs rhs =
     (if lhs = 0 \<or> rhs = 0 then Some 0
      else if lhs > word_max div rhs then None
      else Some (lhs * rhs))"

definition checked_u32 :: "64 word \<Rightarrow> 32 word option" where
  "checked_u32 v = (if v > ucast (word_max :: 32 word) then None else Some (ucast v))"

definition checked_from_i64 :: "64 word \<Rightarrow> 64 word option" where
  "checked_from_i64 v = (if v <s 0 then None else Some v)"

definition checked_accumulate ::
  "'a::len word \<Rightarrow> 'a word \<Rightarrow> 'a word \<Rightarrow> bool \<times> 'a word" where
  "checked_accumulate accumulator delta limit =
     (case checked_add accumulator delta of
        None \<Rightarrow> (False, limit)
      | Some added \<Rightarrow> if added > limit then (False, limit) else (True, added))"

lemma unat_word_max_minus: "unat (word_max - (x :: 'a::len word)) = 2 ^ LENGTH('a) - 1 - unat x"
  by (simp add: unat_sub unat_minus_one_word)

lemma checked_add_iff:
  "checked_add a b =
     (if unat a + unat b < 2 ^ LENGTH('a) then Some ((a :: 'a::len word) + b) else None)"
proof -
  have "2 ^ LENGTH('a) - 1 - unat a < unat b \<longleftrightarrow> \<not> unat a + unat b < 2 ^ LENGTH('a)"
    using unat_lt2p[of a] by (auto; linarith)
  then show ?thesis
    by (simp only: checked_add_def word_less_nat_alt unat_word_max_minus) simp
qed

lemma checked_add_Some:
  "checked_add a b = Some (c :: 'a::len word) \<longleftrightarrow> unat c = unat a + unat b"
proof
  assume "checked_add a b = Some c"
  then show "unat c = unat a + unat b"
    by (auto simp: checked_add_iff unat_word_ariths split: if_splits)
next
  assume eq: "unat c = unat a + unat b"
  then have "unat a + unat b < 2 ^ LENGTH('a)"
    using unat_lt2p[of c] by simp
  moreover from this have "c = a + b"
    using eq by (intro word_eq_unatI) (simp add: unat_word_ariths)
  ultimately show "checked_add a b = Some c"
    by (simp add: checked_add_iff)
qed

lemma checked_sub_Some:
  "checked_sub a b = Some (c :: 'a::len word) \<longleftrightarrow> unat b + unat c = unat a"
proof
  assume "checked_sub a b = Some c"
  then show "unat b + unat c = unat a"
    by (auto simp: checked_sub_def unat_sub word_less_nat_alt word_le_nat_alt split: if_splits)
next
  assume eq: "unat b + unat c = unat a"
  then have "b \<le> a" by (simp add: word_le_nat_alt)
  moreover from this eq have "c = a - b"
    by (intro word_eq_unatI) (simp add: unat_sub)
  ultimately show "checked_sub a b = Some c"
    by (simp add: checked_sub_def not_less)
qed

lemma checked_mul_Some:
  "checked_mul a b = Some (c :: 'a::len word) \<longleftrightarrow> unat c = unat a * unat b"
proof (cases "a = 0 \<or> b = 0")
  case True
  then show ?thesis
    by (auto simp: checked_mul_def unat_eq_zero)
next
  case False
  then have pos: "0 < unat b" by (simp add: unat_gt_0)
  have div: "unat (word_max div b) = (2 ^ LENGTH('a) - 1) div unat b"
    by (simp add: unat_div unat_minus_one_word)
  have fits: "a \<le> word_max div b \<longleftrightarrow> unat a * unat b < 2 ^ LENGTH('a)"
  proof -
    have "a \<le> word_max div b \<longleftrightarrow> unat a * unat b \<le> 2 ^ LENGTH('a) - 1"
      by (simp add: word_le_nat_alt div less_eq_div_iff_mult_less_eq pos)
    also have "\<dots> \<longleftrightarrow> unat a * unat b < 2 ^ LENGTH('a)"
      by (metis Suc_pred' less_Suc_eq_le zero_less_numeral zero_less_power)
    finally show ?thesis .
  qed
  have def: "checked_mul a b = (if unat a * unat b < 2 ^ LENGTH('a) then Some (a * b) else None)"
    using False fits by (auto simp: checked_mul_def not_less)
  show ?thesis
  proof
    assume "checked_mul a b = Some c"
    then show "unat c = unat a * unat b"
      by (auto simp: def unat_word_ariths split: if_splits)
  next
    assume eq: "unat c = unat a * unat b"
    then have "unat a * unat b < 2 ^ LENGTH('a)"
      using unat_lt2p[of c] by simp
    moreover from this eq have "c = a * b"
      by (intro word_eq_unatI) (simp add: unat_word_ariths)
    ultimately show "checked_mul a b = Some c" by (simp add: def)
  qed
qed

section \<open>Text utilities\<close>

definition byte_of_char :: "char \<Rightarrow> byte" where
  "byte_of_char c = word_of_nat (of_char c)"

definition char_of_byte :: "byte \<Rightarrow> char" where
  "char_of_byte b = char_of (unat b)"

definition bytes_of_string :: "string \<Rightarrow> byte list" where
  "bytes_of_string = map byte_of_char"

definition string_of_bytes :: "byte list \<Rightarrow> string" where
  "string_of_bytes = map char_of_byte"

lemma char_of_byte_of_char [simp]: "char_of_byte (byte_of_char c) = c"
  by (simp add: char_of_byte_def byte_of_char_def unat_of_nat)

lemma byte_of_char_of_byte [simp]: "byte_of_char (char_of_byte b) = b"
  using unat_lt2p[of b] by (simp add: char_of_byte_def byte_of_char_def of_char_of)

lemma string_of_bytes_of_string [simp]: "string_of_bytes (bytes_of_string s) = s"
  by (simp add: string_of_bytes_def bytes_of_string_def comp_def)

lemma bytes_of_string_of_bytes [simp]: "bytes_of_string (string_of_bytes bs) = bs"
  by (simp add: string_of_bytes_def bytes_of_string_def comp_def)

lemma length_bytes_of_string [simp]: "length (bytes_of_string s) = length s"
  by (simp add: bytes_of_string_def)

lemma length_string_of_bytes [simp]: "length (string_of_bytes s) = length s"
  by (simp add: string_of_bytes_def)

definition starts_with :: "string \<Rightarrow> string \<Rightarrow> bool" where
  "starts_with text prefix \<longleftrightarrow>
     length text \<ge> length prefix \<and> take (length prefix) text = prefix"

lemma starts_with_append [simp]: "starts_with (p @ s) p"
  by (simp add: starts_with_def)

definition is_trim_char :: "char \<Rightarrow> bool" where
  "is_trim_char ch \<longleftrightarrow> ch = CHR '' '' \<or> ch = CHR 0x09 \<or> ch = CHR 0x0D \<or> ch = CHR 0x0A"

definition trim :: "string \<Rightarrow> string" where
  "trim text = rev (dropWhile is_trim_char (rev (dropWhile is_trim_char text)))"

definition is_valid_identifier :: "string \<Rightarrow> nat \<Rightarrow> bool" where
  "is_valid_identifier text max_length \<longleftrightarrow>
     text \<noteq> [] \<and> length text \<le> max_length \<and>
     list_all (\<lambda>ch. (CHR ''a'' \<le> ch \<and> ch \<le> CHR ''z'') \<or> (CHR ''0'' \<le> ch \<and> ch \<le> CHR ''9'') \<or>
       ch = CHR ''.'' \<or> ch = CHR ''_'' \<or> ch = CHR ''-'') text"

definition is_valid_authority_name :: "string \<Rightarrow> bool" where
  "is_valid_authority_name text \<longleftrightarrow>
     text \<noteq> [] \<and> length text \<le> 64 \<and>
     list_all (\<lambda>ch. (CHR ''a'' \<le> ch \<and> ch \<le> CHR ''z'') \<or> (CHR ''A'' \<le> ch \<and> ch \<le> CHR ''Z'') \<or>
       (CHR ''0'' \<le> ch \<and> ch \<le> CHR ''9'') \<or>
       ch = CHR ''.'' \<or> ch = CHR ''_'' \<or> ch = CHR ''-'' \<or> ch = CHR ''@'' \<or> ch = CHR '':'') text"

subsection \<open>Hexadecimal\<close>

definition hex_digits :: string where
  "hex_digits = ''0123456789abcdef''"

text \<open>The table built by \<^verbatim>\<open>build_hex_table\<close>: \<open>None\<close> stands for the entry \<^verbatim>\<open>-1\<close>.\<close>

definition hex_value :: "char \<Rightarrow> byte option" where
  "hex_value c = map_option word_of_nat
     (map_of (zip hex_digits [0..<16] @ zip ''ABCDEF'' [10..<16]) c)"

fun hex_encode :: "byte list \<Rightarrow> string" where
  "hex_encode [] = []"
| "hex_encode (b # bs) =
     (hex_digits ! unat (drop_bit 4 b)) # (hex_digits ! unat (b AND 0x0F)) # hex_encode bs"

fun hex_pairs :: "string \<Rightarrow> byte list result" where
  "hex_pairs (h # l # text) =
     (case (hex_value h, hex_value l) of
        (Some high, Some low) \<Rightarrow>
          rbind (hex_pairs text) (\<lambda>bs. Inr ((push_bit 4 high OR low) # bs))
      | _ \<Rightarrow> err SC_MalformedInput ''hex text contains a non-hexadecimal character'')"
| "hex_pairs _ = Inr []"

definition hex_decode :: "string \<Rightarrow> byte list result" where
  "hex_decode text =
     (if length text mod 2 \<noteq> 0
      then err SC_MalformedInput ''hex text must have an even number of characters''
      else hex_pairs text)"

lemma hex_value_digit: "n < 16 \<Longrightarrow> hex_value (hex_digits ! n) = Some (word_of_nat n)"
proof -
  assume "n < 16"
  then have "n \<in> set [0..<16]" by simp
  then show ?thesis
    by (simp add: upt_rec hex_value_def hex_digits_def) (elim disjE; simp)
qed

lemma unat_high_nibble: "unat (drop_bit 4 (b :: byte)) < 16"
  using unat_lt2p[of b] by (simp add: drop_bit_eq_div unat_div)

lemma unat_low_nibble: "unat ((b :: byte) AND 0x0F) < 16"
proof -
  have "(b AND 0x0F :: byte) = take_bit 4 b"
    by (simp add: take_bit_eq_mask mask_numeral and.commute)
  then show ?thesis by (simp add: unsigned_take_bit_eq take_bit_nat_less_exp[of 4, simplified])
qed

lemma nibbles_join: "push_bit 4 (drop_bit 4 b) OR (b AND 0x0F) = (b :: byte)"
proof -
  have "(b AND 0x0F :: byte) = take_bit 4 b"
    by (simp add: take_bit_eq_mask mask_numeral and.commute)
  then show ?thesis
    by (simp only:) (rule bit_word_eqI,
      auto simp: bit_or_iff bit_push_bit_iff bit_drop_bit_eq bit_take_bit_iff)
qed

lemma hex_pairs_encode: "hex_pairs (hex_encode bs) = Inr bs"
  by (induction bs)
     (simp_all add: hex_value_digit unat_high_nibble unat_low_nibble nibbles_join)

lemma length_hex_encode [simp]: "length (hex_encode bs) = 2 * length bs"
  by (induction bs) simp_all

lemma hex_decode_encode: "hex_decode (hex_encode bs) = Inr bs"
  by (simp add: hex_decode_def hex_pairs_encode)

lemma hex_pairs_length: "hex_pairs cs = Inr bs \<Longrightarrow> length bs = length cs div 2"
  by (induction cs arbitrary: bs rule: hex_pairs.induct)
     (auto simp: rbind_Inr_iff split: option.splits)

text \<open>The characters \<^verbatim>\<open>hex_encode\<close> writes: no separator of the identity texts is one.\<close>

lemma set_hex_digits: "n < 16 \<Longrightarrow> hex_digits ! n \<in> set hex_digits"
  by (rule nth_mem) (simp add: hex_digits_def)

lemma set_hex_encode: "set (hex_encode bs) \<subseteq> set hex_digits"
  by (induction bs) (auto simp: set_hex_digits unat_high_nibble unat_low_nibble)

subsection \<open>Decimal\<close>

text \<open>\<^verbatim>\<open>std::to_string\<close> of an unsigned and of a signed integer.\<close>

definition digit_char :: "nat \<Rightarrow> char" where
  "digit_char d = char_of (48 + d)"

fun nat_text :: "nat \<Rightarrow> string" where
  "nat_text n =
     (if n < 10 then [digit_char n] else nat_text (n div 10) @ [digit_char (n mod 10)])"

declare nat_text.simps [simp del]

definition u64_text :: "64 word \<Rightarrow> string" where
  "u64_text w = nat_text (unat w)"

definition int_text :: "int \<Rightarrow> string" where
  "int_text i = (if i < 0 then ''-'' @ nat_text (nat (- i)) else nat_text (nat i))"

definition is_digit_char :: "char \<Rightarrow> bool" where
  "is_digit_char ch \<longleftrightarrow> CHR ''0'' \<le> ch \<and> ch \<le> CHR ''9''"

definition digit_value :: "char \<Rightarrow> nat" where
  "digit_value ch = of_char ch - 48"

lemma digit_char_facts:
  assumes "d < 10"
  shows "is_digit_char (digit_char d)" and "digit_value (digit_char d) = d"
proof -
  have "(of_char (digit_char d) :: nat) = 48 + d"
    using assms by (simp add: digit_char_def of_char_of)
  then show "is_digit_char (digit_char d)" and "digit_value (digit_char d) = d"
    using assms by (simp_all add: is_digit_char_def digit_value_def less_eq_char_def)
qed

lemma nat_text_digits: "list_all is_digit_char (nat_text n)"
proof (induction n rule: nat_text.induct)
  case (1 n)
  then show ?case
    by (subst nat_text.simps) (auto simp: digit_char_facts)
qed

lemma nat_text_nonempty: "nat_text n \<noteq> []"
  by (subst nat_text.simps) simp

lemma nat_text_value: "foldl (\<lambda>v ch. v * 10 + digit_value ch) 0 (nat_text n) = n"
proof (induction n rule: nat_text.induct)
  case (1 n)
  then show ?case
    by (subst nat_text.simps) (auto simp: digit_char_facts)
qed

end
