(* ===== verification/Fab_Digest.thy ===== *)
theory Fab_Digest
  imports Fab_Status
begin

text \<open>
  \<^verbatim>\<open>digest.cpp\<close>: the streaming SHA-256 (a 64-byte buffer filled by \<^verbatim>\<open>append\<close>), its
  padding, digests and their hexadecimal form, and the table-driven CRC-32C. The abstract
  specification \<open>sha256_spec\<close> hashes the whole padded message block by block; the streaming
  object is proved to compute it for every way of cutting the message into updates. The CRC
  table is proved equivalent to the bit-serial definition.
\<close>

section \<open>SHA-256\<close>

definition round_constants :: "32 word list" where
  "round_constants = concat [
    [0x428a2f98, 0x71374491, 0xb5c0fbcf, 0xe9b5dba5],
    [0x3956c25b, 0x59f111f1, 0x923f82a4, 0xab1c5ed5],
    [0xd807aa98, 0x12835b01, 0x243185be, 0x550c7dc3],
    [0x72be5d74, 0x80deb1fe, 0x9bdc06a7, 0xc19bf174],
    [0xe49b69c1, 0xefbe4786, 0x0fc19dc6, 0x240ca1cc],
    [0x2de92c6f, 0x4a7484aa, 0x5cb0a9dc, 0x76f988da],
    [0x983e5152, 0xa831c66d, 0xb00327c8, 0xbf597fc7],
    [0xc6e00bf3, 0xd5a79147, 0x06ca6351, 0x14292967],
    [0x27b70a85, 0x2e1b2138, 0x4d2c6dfc, 0x53380d13],
    [0x650a7354, 0x766a0abb, 0x81c2c92e, 0x92722c85],
    [0xa2bfe8a1, 0xa81a664b, 0xc24b8b70, 0xc76c51a3],
    [0xd192e819, 0xd6990624, 0xf40e3585, 0x106aa070],
    [0x19a4c116, 0x1e376c08, 0x2748774c, 0x34b0bcb5],
    [0x391c0cb3, 0x4ed8aa4a, 0x5b9cca4f, 0x682e6ff3],
    [0x748f82ee, 0x78a5636f, 0x84c87814, 0x8cc70208],
    [0x90befffa, 0xa4506ceb, 0xbef9a3f7, 0xc67178f2]]"

definition rotr :: "32 word \<Rightarrow> nat \<Rightarrow> 32 word" where
  "rotr x n = drop_bit n x OR push_bit (32 - n) x"

definition choose_bits :: "32 word \<Rightarrow> 32 word \<Rightarrow> 32 word \<Rightarrow> 32 word" where
  "choose_bits x y z = (x AND y) XOR (NOT x AND z)"

definition majority :: "32 word \<Rightarrow> 32 word \<Rightarrow> 32 word \<Rightarrow> 32 word" where
  "majority x y z = (x AND y) XOR (x AND z) XOR (y AND z)"

definition big_sigma0 :: "32 word \<Rightarrow> 32 word" where
  "big_sigma0 x = rotr x 2 XOR rotr x 13 XOR rotr x 22"

definition big_sigma1 :: "32 word \<Rightarrow> 32 word" where
  "big_sigma1 x = rotr x 6 XOR rotr x 11 XOR rotr x 25"

definition small_sigma0 :: "32 word \<Rightarrow> 32 word" where
  "small_sigma0 x = rotr x 7 XOR rotr x 18 XOR drop_bit 3 x"

definition small_sigma1 :: "32 word \<Rightarrow> 32 word" where
  "small_sigma1 x = rotr x 17 XOR rotr x 19 XOR drop_bit 10 x"

definition load_be32 :: "byte \<Rightarrow> byte \<Rightarrow> byte \<Rightarrow> byte \<Rightarrow> 32 word" where
  "load_be32 b0 b1 b2 b3 =
     push_bit 24 (ucast b0) OR push_bit 16 (ucast b1) OR push_bit 8 (ucast b2) OR ucast b3"

text \<open>The first sixteen schedule words, read big-endian from the block.\<close>

fun block_words :: "byte list \<Rightarrow> 32 word list" where
  "block_words (b0 # b1 # b2 # b3 # bs) = load_be32 b0 b1 b2 b3 # block_words bs"
| "block_words _ = []"

definition extend_schedule :: "32 word list \<Rightarrow> nat \<Rightarrow> 32 word list" where
  "extend_schedule w i =
     w @ [small_sigma1 (w ! (i - 2)) + w ! (i - 7) + small_sigma0 (w ! (i - 15)) + w ! (i - 16)]"

definition schedule :: "byte list \<Rightarrow> 32 word list" where
  "schedule block = foldl extend_schedule (block_words block) [16..<64]"

datatype hash_state = HashState
  (hs_a: "32 word") (hs_b: "32 word") (hs_c: "32 word") (hs_d: "32 word")
  (hs_e: "32 word") (hs_f: "32 word") (hs_g: "32 word") (hs_h: "32 word")

fun sha_round :: "hash_state \<Rightarrow> 32 word \<times> 32 word \<Rightarrow> hash_state" where
  "sha_round (HashState a b c d e f g h) (k, w) =
     (let temp1 = h + big_sigma1 e + choose_bits e f g + k + w;
          temp2 = big_sigma0 a + majority a b c
      in HashState (temp1 + temp2) a b c (d + temp1) e f g)"

fun add_states :: "hash_state \<Rightarrow> hash_state \<Rightarrow> hash_state" where
  "add_states (HashState a b c d e f g h) (HashState a' b' c' d' e' f' g' h') =
     HashState (a + a') (b + b') (c + c') (d + d') (e + e') (f + f') (g + g') (h + h')"

definition compress :: "hash_state \<Rightarrow> byte list \<Rightarrow> hash_state" where
  "compress st block =
     add_states st (foldl sha_round st (zip round_constants (schedule block)))"

definition initial_hash :: hash_state where
  "initial_hash = HashState 0x6a09e667 0xbb67ae85 0x3c6ef372 0xa54ff53a
                            0x510e527f 0x9b05688c 0x1f83d9ab 0x5be0cd19"

subsection \<open>The streaming object\<close>

record sha256_object =
  sh_state :: hash_state
  sh_buffer :: "byte list"
  sh_buffered :: nat
  sh_total_bytes :: "64 word"
  sh_finalized :: bool

definition sha256_new :: sha256_object where
  "sha256_new = \<lparr>sh_state = initial_hash, sh_buffer = replicate 64 0, sh_buffered = 0,
                 sh_total_bytes = 0, sh_finalized = False\<rparr>"

text \<open>\<^verbatim>\<open>memcpy(buffer + at, data, size)\<close>.\<close>

definition buffer_copy :: "byte list \<Rightarrow> nat \<Rightarrow> byte list \<Rightarrow> byte list" where
  "buffer_copy buffer pos data = take pos buffer @ data @ drop (pos + length data) buffer"

text \<open>The middle loop of \<^verbatim>\<open>append\<close>: whole blocks straight from the input.\<close>

function absorb_blocks :: "hash_state \<Rightarrow> byte list \<Rightarrow> hash_state \<times> byte list" where
  "absorb_blocks st data =
     (if length data \<ge> 64 then absorb_blocks (compress st (take 64 data)) (drop 64 data)
      else (st, data))"
  by pat_completeness auto
termination
  by (relation "measure (\<lambda>(st, data). length data)") auto

declare absorb_blocks.simps [simp del]

definition sha_append :: "sha256_object \<Rightarrow> byte list \<Rightarrow> sha256_object" where
  "sha_append h data =
     (let h0 = h\<lparr>sh_total_bytes := sh_total_bytes h + of_nat (length data)\<rparr>;
          needed = 64 - sh_buffered h0;
          first = (if length data < needed then length data else needed);
          (h1, rest) =
            (if sh_buffered h0 > 0 then
               (let buffer = buffer_copy (sh_buffer h0) (sh_buffered h0) (take first data);
                    buffered = sh_buffered h0 + first
                in (if buffered = 64
                    then h0\<lparr>sh_buffer := buffer, sh_state := compress (sh_state h0) buffer,
                            sh_buffered := 0\<rparr>
                    else h0\<lparr>sh_buffer := buffer, sh_buffered := buffered\<rparr>,
                    drop first data))
             else (h0, data));
          (st, tail) = absorb_blocks (sh_state h1) rest;
          h2 = h1\<lparr>sh_state := st\<rparr>
      in if length tail > 0
         then h2\<lparr>sh_buffer := buffer_copy (sh_buffer h2) 0 tail, sh_buffered := length tail\<rparr>
         else h2)"

text \<open>\<^verbatim>\<open>update\<close> aborts on a finalized object: \<open>None\<close>.\<close>

definition sha_update :: "sha256_object \<Rightarrow> byte list \<Rightarrow> sha256_object option" where
  "sha_update h data = (if sh_finalized h then None else Some (sha_append h data))"

definition be32_bytes :: "32 word \<Rightarrow> byte list" where
  "be32_bytes w = [ucast (drop_bit 24 w), ucast (drop_bit 16 w), ucast (drop_bit 8 w), ucast w]"

definition be64_bytes :: "64 word \<Rightarrow> byte list" where
  "be64_bytes w = be32_bytes (ucast (drop_bit 32 w)) @ be32_bytes (ucast w)"

fun hash_bytes :: "hash_state \<Rightarrow> byte list" where
  "hash_bytes (HashState a b c d e f g h) =
     be32_bytes a @ be32_bytes b @ be32_bytes c @ be32_bytes d @
     be32_bytes e @ be32_bytes f @ be32_bytes g @ be32_bytes h"

text \<open>
  The zero-padding loop \<^verbatim>\<open>while (buffered_ != 56)\<close>, with fuel: \<open>None\<close> when it is used up.
  Sixty-four iterations always suffice (\<open>sha_finish_spec\<close>).
\<close>

fun pad_zeros :: "nat \<Rightarrow> sha256_object \<Rightarrow> sha256_object option" where
  "pad_zeros fuel h =
     (if sh_buffered h = 56 then Some h
      else (case fuel of 0 \<Rightarrow> None | Suc n \<Rightarrow> pad_zeros n (sha_append h [0])))"

declare pad_zeros.simps [simp del]

definition sha_finish :: "sha256_object \<Rightarrow> byte list option" where
  "sha_finish h =
     (if sh_finalized h then None
      else
        let total_bits = sh_total_bytes h * 8;
            h1 = sha_append (h\<lparr>sh_finalized := True\<rparr>) [0x80]
        in case pad_zeros 64 h1 of
             None \<Rightarrow> None
           | Some h2 \<Rightarrow>
               (let h3 = sha_append h2 (be64_bytes total_bits)
                in if sh_buffered h3 \<noteq> 0 then None else Some (hash_bytes (sh_state h3))))"

type_synonym digest256 = "byte list"

text \<open>A sequence of updates followed by \<^verbatim>\<open>finish\<close>, as every caller uses the object.\<close>

definition sha_updates :: "byte list list \<Rightarrow> sha256_object option" where
  "sha_updates chunks =
     foldl (\<lambda>h chunk. Option.bind h (\<lambda>hasher. sha_update hasher chunk)) (Some sha256_new) chunks"

definition sha256_chunks :: "byte list list \<Rightarrow> digest256" where
  "sha256_chunks chunks =
     (case Option.bind (sha_updates chunks) sha_finish of Some d \<Rightarrow> d | None \<Rightarrow> [])"

definition sha256 :: "byte list \<Rightarrow> digest256" where
  "sha256 data = sha256_chunks [data]"

subsection \<open>The specification\<close>

text \<open>How many zero bytes bring a buffer holding \<open>r\<close> bytes to 56.\<close>

definition zero_gap :: "nat \<Rightarrow> nat" where
  "zero_gap r = (if r \<le> 56 then 56 - r else 120 - r)"

definition pad_message :: "byte list \<Rightarrow> byte list" where
  "pad_message m = m @ [0x80] @ replicate (zero_gap (Suc (length m) mod 64)) 0 @
     be64_bytes (of_nat (length m) * 8)"

definition sha256_spec :: "byte list \<Rightarrow> digest256" where
  "sha256_spec m = hash_bytes (fst (absorb_blocks initial_hash (pad_message m)))"

subsection \<open>The streaming object computes the specification\<close>

text \<open>
  \<open>absorbed h m\<close>: the object has taken in exactly the bytes \<open>m\<close>. Its chaining value is the
  one after the whole blocks of \<open>m\<close> and its buffer starts with what is left over.
\<close>

definition absorbed :: "sha256_object \<Rightarrow> byte list \<Rightarrow> bool" where
  "absorbed h m \<longleftrightarrow>
     length (sh_buffer h) = 64 \<and> sh_buffered h < 64 \<and>
     absorb_blocks initial_hash m = (sh_state h, take (sh_buffered h) (sh_buffer h)) \<and>
     sh_total_bytes h = of_nat (length m)"

lemma absorb_blocks_rest: "absorb_blocks st data = (st', rest) \<Longrightarrow> length rest < 64"
  by (induction st data rule: absorb_blocks.induct)
     (subst (asm) (2) absorb_blocks.simps, auto split: if_splits)

lemma absorb_blocks_append:
  "absorb_blocks st a = (st', rest) \<Longrightarrow> absorb_blocks st (a @ b) = absorb_blocks st' (rest @ b)"
proof (induction st a rule: absorb_blocks.induct)
  case (1 st a)
  show ?case
  proof (cases "64 \<le> length a")
    case True
    with 1 show ?thesis
      by (simp add: absorb_blocks.simps[of st a] absorb_blocks.simps[of st "a @ b"])
  next
    case False
    with 1 show ?thesis
      by (simp add: absorb_blocks.simps[of st a])
  qed
qed

lemma absorb_blocks_short: "length data < 64 \<Longrightarrow> absorb_blocks st data = (st, data)"
  by (subst absorb_blocks.simps) simp

lemma absorb_blocks_block:
  "length block = 64 \<Longrightarrow> absorb_blocks st (block @ rest) = absorb_blocks (compress st block) rest"
  by (subst absorb_blocks.simps) simp

lemma absorb_blocks_rest_mod:
  "absorb_blocks st data = (st', rest) \<Longrightarrow> length rest = length data mod 64"
proof (induction st data rule: absorb_blocks.induct)
  case (1 st data)
  then show ?case
    by (cases "64 \<le> length data")
       (simp_all add: absorb_blocks.simps[of st data] le_mod_geq)
qed

lemma absorbed_new: "absorbed sha256_new []"
  by (simp add: absorbed_def sha256_new_def absorb_blocks_short)

lemma buffer_copy_length:
  "pos + length data \<le> length buffer \<Longrightarrow> length (buffer_copy buffer pos data) = length buffer"
  by (simp add: buffer_copy_def)

lemma buffer_copy_take:
  "pos \<le> length buffer \<Longrightarrow>
     take (pos + length data) (buffer_copy buffer pos data) = take pos buffer @ data"
  by (simp add: buffer_copy_def)

lemma sha_append_finalized [simp]: "sh_finalized (sha_append h d) = sh_finalized h"
  by (simp add: sha_append_def Let_def split: prod.split)

lemma absorbed_finalized [simp]:
  "absorbed (h\<lparr>sh_finalized := b\<rparr>) m \<longleftrightarrow> absorbed h m"
  by (simp add: absorbed_def)

text \<open>Filling a partly filled buffer that stays partly filled.\<close>

lemma sha_append_fill:
  assumes "absorbed h m" and "length data < 64 - sh_buffered h" and "data \<noteq> []"
    and "sh_buffered h > 0"
  shows "absorbed (sha_append h data) (m @ data)"
proof -
  let ?buf = "buffer_copy (sh_buffer h) (sh_buffered h) data"
  have inv: "length (sh_buffer h) = 64" "sh_buffered h < 64"
    "absorb_blocks initial_hash m = (sh_state h, take (sh_buffered h) (sh_buffer h))"
    "sh_total_bytes h = of_nat (length m)"
    using assms(1) by (simp_all add: absorbed_def)
  have copy: "take (sh_buffered h + length data) ?buf = take (sh_buffered h) (sh_buffer h) @ data"
    using inv by (intro buffer_copy_take) simp
  have result: "sha_append h data =
      h\<lparr>sh_total_bytes := sh_total_bytes h + of_nat (length data), sh_buffer := ?buf,
        sh_buffered := sh_buffered h + length data\<rparr>"
    using assms by (simp add: sha_append_def Let_def absorb_blocks_short)
  show ?thesis
    using inv assms(2) copy
    by (simp add: result absorbed_def buffer_copy_length absorb_blocks_append[OF inv(3)]
        absorb_blocks_short)
qed

text \<open>Once the buffer is empty or has been flushed, the rest goes through the block loop.\<close>

lemma absorbed_tail:
  assumes "length buffer = 64"
    and "absorb_blocks initial_hash (m @ data) = absorb_blocks st rest"
    and "absorb_blocks st rest = (st', tail)"
  shows "absorbed
    (if length tail > 0
     then h\<lparr>sh_total_bytes := of_nat (length (m @ data)), sh_state := st',
            sh_buffer := buffer_copy buffer 0 tail, sh_buffered := length tail\<rparr>
     else h\<lparr>sh_total_bytes := of_nat (length (m @ data)), sh_state := st',
            sh_buffer := buffer, sh_buffered := 0\<rparr>) (m @ data)"
proof -
  have short: "length tail < 64"
    using assms(3) by (rule absorb_blocks_rest)
  have copy: "take (length tail) (buffer_copy buffer 0 tail) = tail"
    using buffer_copy_take[of 0 buffer tail] by simp
  show ?thesis
    using assms short copy by (simp add: absorbed_def buffer_copy_length)
qed

lemma absorbed_append:
  assumes "absorbed h m"
  shows "absorbed (sha_append h data) (m @ data)"
proof -
  have inv: "length (sh_buffer h) = 64" "sh_buffered h < 64"
    "absorb_blocks initial_hash m = (sh_state h, take (sh_buffered h) (sh_buffer h))"
    "sh_total_bytes h = of_nat (length m)"
    using assms by (simp_all add: absorbed_def)
  have total: "sh_total_bytes h + of_nat (length data) = of_nat (length (m @ data))"
    by (simp add: inv)
  let ?take = "take (64 - sh_buffered h) data" and ?rest = "drop (64 - sh_buffered h) data"
  let ?buf = "buffer_copy (sh_buffer h) (sh_buffered h) ?take"
  consider (empty) "sh_buffered h = 0" | (fill) "sh_buffered h > 0" "length data < 64 - sh_buffered h"
    | (flush) "sh_buffered h > 0" "64 - sh_buffered h \<le> length data"
    by linarith
  then show ?thesis
  proof cases
    case empty
    obtain st tail where split: "absorb_blocks (sh_state h) data = (st, tail)"
      by fastforce
    have "absorb_blocks initial_hash (m @ data) = absorb_blocks (sh_state h) data"
      using absorb_blocks_append[OF inv(3), of data] empty by simp
    from absorbed_tail[OF inv(1) this split, of h] show ?thesis
      using empty split total
      by (auto simp: sha_append_def Let_def absorbed_def split: if_splits)
  next
    case fill
    show ?thesis
    proof (cases "data = []")
      case True
      with assms fill inv(2) show ?thesis
        by (simp add: sha_append_def Let_def absorb_blocks_short buffer_copy_def absorbed_def)
    next
      case False
      with assms fill show ?thesis by (intro sha_append_fill)
    qed
  next
    case flush
    have len: "length ?buf = 64"
      using inv flush by (subst buffer_copy_length) auto
    have buf: "?buf = take (sh_buffered h) (sh_buffer h) @ ?take"
      using inv flush by (simp add: buffer_copy_def)
    obtain st tail where split: "absorb_blocks (compress (sh_state h) ?buf) ?rest = (st, tail)"
      by fastforce
    have "absorb_blocks initial_hash (m @ data) = absorb_blocks (sh_state h) (?buf @ ?rest)"
      using absorb_blocks_append[OF inv(3), of data] buf by simp
    also have "\<dots> = absorb_blocks (compress (sh_state h) ?buf) ?rest"
      using len by (rule absorb_blocks_block)
    finally show ?thesis
      using absorbed_tail[OF len _ split, of m data h] flush split total inv(2)
      by (auto simp: sha_append_def Let_def min_def absorbed_def split: if_splits)
  qed
qed

lemma absorbed_buffered: "absorbed h m \<Longrightarrow> sh_buffered h = length m mod 64"
  using absorb_blocks_rest_mod by (fastforce simp: absorbed_def)

lemma length_be64_bytes [simp]: "length (be64_bytes w) = 8"
  by (simp add: be64_bytes_def be32_bytes_def)

lemma zero_gap_facts:
  "zero_gap (n mod 64) = 0 \<longleftrightarrow> n mod 64 = 56"
  "zero_gap (n mod 64) = Suc k \<Longrightarrow> zero_gap (Suc n mod 64) = k"
  "zero_gap (n mod 64) \<le> 64"
  using mod_less_divisor[of 64 n] by (auto simp: zero_gap_def mod_Suc split: if_splits)

lemma zero_gap_fills: "(n + zero_gap (n mod 64)) mod 64 = 56"
proof -
  have "(n mod 64 + zero_gap (n mod 64)) mod 64 = 56"
    using mod_less_divisor[of 64 n] by (auto simp: zero_gap_def)
  then show ?thesis by (simp add: mod_add_left_eq)
qed

lemma pad_zeros_absorbed:
  assumes "absorbed h m" and "zero_gap (length m mod 64) = k" and "k \<le> fuel"
  shows "\<exists>h'. pad_zeros fuel h = Some h' \<and> absorbed h' (m @ replicate k 0)"
  using assms
proof (induction k arbitrary: h m fuel)
  case 0
  then have "length m mod 64 = 56" by (simp add: zero_gap_facts)
  with 0 show ?case
    by (simp add: pad_zeros.simps absorbed_buffered)
next
  case (Suc k)
  from Suc.prems(2) have "length m mod 64 \<noteq> 56" using zero_gap_facts(1)[of "length m"] by simp
  with Suc.prems(1) have open_buffer: "sh_buffered h \<noteq> 56"
    by (simp add: absorbed_buffered)
  obtain n where fuel: "fuel = Suc n" and "k \<le> n"
    using Suc.prems(3) by (cases fuel) auto
  have "zero_gap (length (m @ [0 :: byte]) mod 64) = k"
    using zero_gap_facts(2)[OF Suc.prems(2)] by simp
  then obtain h' where "pad_zeros n (sha_append h [0]) = Some h'"
    and "absorbed h' ((m @ [0]) @ replicate k 0)"
    using Suc.IH[OF absorbed_append[OF Suc.prems(1)] _ \<open>k \<le> n\<close>] by blast
  with open_buffer show ?case
    by (simp add: fuel pad_zeros.simps[of "Suc n"])
qed

lemma sha_finish_spec:
  assumes "absorbed h m" and "\<not> sh_finalized h"
  shows "sha_finish h = Some (sha256_spec m)"
proof -
  let ?k = "zero_gap (Suc (length m) mod 64)"
  let ?padded = "(m @ [0x80]) @ replicate ?k 0"
  define h1 where "h1 = sha_append (h\<lparr>sh_finalized := True\<rparr>) [0x80]"
  have "absorbed h1 (m @ [0x80])"
    using assms(1) by (simp add: h1_def absorbed_append)
  moreover have "zero_gap (length (m @ [0x80 :: byte]) mod 64) = ?k"
    by simp
  moreover have "?k \<le> 64"
    by (rule zero_gap_facts)
  ultimately obtain h2 where h2: "pad_zeros 64 h1 = Some h2" "absorbed h2 ?padded"
    using pad_zeros_absorbed by blast
  define h3 where "h3 = sha_append h2 (be64_bytes (sh_total_bytes h * 8))"
  have "absorbed h3 (?padded @ be64_bytes (sh_total_bytes h * 8))"
    using h2(2) by (simp add: h3_def absorbed_append del: append_assoc)
  then have h3: "absorbed h3 (pad_message m)"
    using assms(1) by (simp add: pad_message_def absorbed_def)
  have "length (pad_message m) mod 64 = (Suc (length m) + ?k + 8) mod 64"
    by (simp add: pad_message_def ac_simps)
  also have "\<dots> = ((Suc (length m) + ?k) mod 64 + 8) mod 64"
    by (simp only: mod_add_left_eq)
  also have "\<dots> = 0"
    by (simp only: zero_gap_fills) simp
  finally have "length (pad_message m) mod 64 = 0" .
  with h3 have "sh_buffered h3 = 0"
    by (simp add: absorbed_buffered)
  with h3 have "absorb_blocks initial_hash (pad_message m) = (sh_state h3, [])"
    by (simp add: absorbed_def)
  with h2 \<open>sh_buffered h3 = 0\<close> assms(2) show ?thesis
    by (simp add: sha_finish_def Let_def h1_def[symmetric] h3_def[symmetric] sha256_spec_def)
qed

lemma sha_updates_absorbed:
  "\<exists>h. sha_updates chunks = Some h \<and> absorbed h (concat chunks) \<and> \<not> sh_finalized h"
proof (induction chunks rule: rev_induct)
  case Nil
  show ?case
    by (simp add: sha_updates_def absorbed_new) (simp add: sha256_new_def)
next
  case (snoc chunk chunks)
  then show ?case
    by (auto simp: sha_updates_def sha_update_def absorbed_append)
qed

lemma sha256_chunks_concat: "sha256_chunks chunks = sha256_spec (concat chunks)"
  using sha_updates_absorbed[of chunks] by (auto simp: sha256_chunks_def sha_finish_spec)

lemma sha256_eq_spec: "sha256 data = sha256_spec data"
  by (simp add: sha256_def sha256_chunks_concat)

lemma length_hash_bytes [simp]: "length (hash_bytes st) = 32"
  by (cases st) (simp add: be32_bytes_def)

lemma length_sha256_chunks [simp]: "length (sha256_chunks chunks) = 32"
  by (simp add: sha256_chunks_concat sha256_spec_def)

lemma length_sha256 [simp]: "length (sha256 data) = 32"
  by (simp add: sha256_def)

section \<open>Digests\<close>

definition digest_is_zero :: "digest256 \<Rightarrow> bool" where
  "digest_is_zero d \<longleftrightarrow> list_all (\<lambda>b. b = 0) d"

definition digest_to_hex :: "digest256 \<Rightarrow> string" where
  "digest_to_hex d = hex_encode d"

definition digest_to_short_hex :: "digest256 \<Rightarrow> string" where
  "digest_to_short_hex d = take 12 (digest_to_hex d)"

definition digest_from_hex :: "string \<Rightarrow> digest256 result" where
  "digest_from_hex cs =
     (if length cs \<noteq> 64
      then err SC_InvalidArgument ''digest hex text must be exactly 64 characters''
      else rbind (hex_decode cs) (\<lambda>decoded.
        if length decoded \<noteq> 32
        then err SC_InvalidArgument ''digest must be exactly 32 bytes (64 hex characters)''
        else Inr decoded))"

lemma digest_from_hex_to_hex:
  "length d = 32 \<Longrightarrow> digest_from_hex (digest_to_hex d) = Inr d"
  by (simp add: digest_from_hex_def digest_to_hex_def hex_decode_encode)

section \<open>CRC-32C\<close>

definition crc_step :: "32 word \<Rightarrow> 32 word" where
  "crc_step v = (if v AND 1 \<noteq> 0 then drop_bit 1 v XOR 0x82F63B78 else drop_bit 1 v)"

definition crc32c_table :: "32 word list" where
  "crc32c_table = map (\<lambda>index. (crc_step ^^ 8) (of_nat index)) [0..<256]"

definition crc_update_byte :: "32 word \<Rightarrow> byte \<Rightarrow> 32 word" where
  "crc_update_byte state b =
     crc32c_table ! unat ((state XOR ucast b) AND 0xFF) XOR drop_bit 8 state"

definition crc32c :: "byte list \<Rightarrow> 32 word" where
  "crc32c data = NOT (foldl crc_update_byte 0xFFFFFFFF data)"

text \<open>The bit-serial definition: eight shifts of the register per byte.\<close>

definition crc32c_serial :: "byte list \<Rightarrow> 32 word" where
  "crc32c_serial data = NOT (foldl (\<lambda>state b. (crc_step ^^ 8) (state XOR ucast b)) 0xFFFFFFFF data)"

lemma crc_step_bit: "crc_step v = drop_bit 1 v XOR (if bit v 0 then 0x82F63B78 else 0)"
  by (simp add: crc_step_def and_one_eq bit_0 odd_iff_mod_2_eq_one)

lemma crc_step_xor: "crc_step (a XOR b) = crc_step a XOR crc_step b"
  by (simp add: crc_step_bit bit_xor_iff ac_simps)

lemma crc_steps_xor: "(crc_step ^^ n) (a XOR b) = (crc_step ^^ n) a XOR (crc_step ^^ n) b"
  by (induction n) (simp_all add: crc_step_xor)

text \<open>Eight steps shift out a register whose low byte is clear.\<close>

lemma crc_steps_high:
  assumes "\<And>i. i < 8 \<Longrightarrow> \<not> bit v i" and "n \<le> 8"
  shows "(crc_step ^^ n) v = drop_bit n v"
  using assms(2)
proof (induction n)
  case 0
  then show ?case by simp
next
  case (Suc n)
  then have "\<not> bit (drop_bit n v) 0"
    using assms(1)[of n] by (simp add: bit_drop_bit_eq)
  with Suc show ?case
    by (simp add: crc_step_bit drop_bit_drop_bit)
qed

lemma low_byte_mask: "v AND 0xFF = (take_bit 8 v :: 32 word)"
  by (simp add: take_bit_eq_mask mask_numeral and.commute)

lemma unat_take_bit_8: "unat (take_bit 8 (v :: 32 word)) < 256"
  by (simp add: unsigned_take_bit_eq take_bit_nat_less_exp[of 8, simplified])

lemma crc_update_byte_serial: "crc_update_byte state b = (crc_step ^^ 8) (state XOR ucast b)"
proof -
  let ?v = "state XOR ucast b"
  let ?low = "take_bit 8 ?v" and ?high = "?v XOR take_bit 8 ?v"
  have bits: "bit ?high i \<longleftrightarrow> 8 \<le> i \<and> bit ?v i" for i
    by (auto simp: bit_xor_iff bit_take_bit_iff)
  have "drop_bit 8 ?high = drop_bit 8 state"
    by (rule bit_word_eqI)
       (auto simp: bit_drop_bit_eq bit_xor_iff bit_take_bit_iff bit_ucast_iff
          dest: bit_imp_le_length)
  then have high: "(crc_step ^^ 8) ?high = drop_bit 8 state"
    using crc_steps_high[of ?high 8] bits by simp
  have "unat ?low < 256"
    by (rule unat_take_bit_8)
  then have low: "crc32c_table ! unat ?low = (crc_step ^^ 8) ?low"
    by (simp add: crc32c_table_def)
  have "?v = ?low XOR ?high"
    by (simp add: xor.left_commute)
  then have "(crc_step ^^ 8) ?v = (crc_step ^^ 8) ?low XOR (crc_step ^^ 8) ?high"
    by (metis crc_steps_xor)
  then show ?thesis
    by (simp only: crc_update_byte_def low_byte_mask low high)
qed

lemma crc32c_eq_serial: "crc32c data = crc32c_serial data"
  unfolding crc32c_def crc32c_serial_def crc_update_byte_serial[abs_def] ..

end
