(* ===== verification/Fab_Canonical.thy ===== *)
theory Fab_Canonical
  imports Fab_Digest
begin

text \<open>
  \<^verbatim>\<open>canonical.cpp\<close>: the canonical big-endian, length-prefixed encoding and its decoder. An
  encoder operation is the list of bytes it appends; a decoder operation is a function on the
  decoder object (data, position, poison flag) that returns a result and the object after it.

  \<open>reads f bs v\<close> says that \<open>f\<close>, on any healthy decoder whose unread input starts with \<open>bs\<close>,
  returns \<open>v\<close> and moves past exactly \<open>bs\<close>. The locale \<open>codec\<close> is the contract between an
  encoder and its decoder; every pair of the runtime interprets it, and unambiguity of the
  encoding (no encoding is a prefix of another, equal bytes mean equal values) is proved once
  inside it.
\<close>

section \<open>CanonicalEncoder\<close>

definition enc_u8 :: "byte \<Rightarrow> byte list" where
  "enc_u8 v = [v]"

definition enc_u16 :: "16 word \<Rightarrow> byte list" where
  "enc_u16 v = enc_u8 (ucast (drop_bit 8 v AND 0xFF)) @ enc_u8 (ucast (v AND 0xFF))"

definition enc_u32 :: "32 word \<Rightarrow> byte list" where
  "enc_u32 v = enc_u8 (ucast (drop_bit 24 v AND 0xFF)) @ enc_u8 (ucast (drop_bit 16 v AND 0xFF)) @
     enc_u8 (ucast (drop_bit 8 v AND 0xFF)) @ enc_u8 (ucast (v AND 0xFF))"

definition enc_u64 :: "64 word \<Rightarrow> byte list" where
  "enc_u64 v = enc_u32 (ucast (drop_bit 32 v AND 0xFFFFFFFF)) @ enc_u32 (ucast (v AND 0xFFFFFFFF))"

text \<open>\<^verbatim>\<open>static_cast<std::uint64_t>\<close> keeps the bits, so a signed value is the same word.\<close>

definition enc_i64 :: "64 word \<Rightarrow> byte list" where
  "enc_i64 v = enc_u64 v"

definition enc_bool :: "bool \<Rightarrow> byte list" where
  "enc_bool b = enc_u8 (if b then 1 else 0)"

definition enc_bytes :: "byte list \<Rightarrow> byte list" where
  "enc_bytes bs = enc_u64 (of_nat (length bs)) @ bs"

definition enc_text :: "string \<Rightarrow> byte list" where
  "enc_text s = enc_bytes (bytes_of_string s)"

definition enc_tag :: "string \<Rightarrow> byte list" where
  "enc_tag s = enc_u8 (of_nat (length s) AND 0xFF) @ bytes_of_string s"

section \<open>CanonicalDecoder\<close>

record canonical_decoder =
  cd_data :: "byte list"
  cd_position :: nat
  cd_ok :: bool

type_synonym 'a dec = "canonical_decoder \<Rightarrow> 'a result \<times> canonical_decoder"

definition decoder_of :: "byte list \<Rightarrow> canonical_decoder" where
  "decoder_of data = \<lparr>cd_data = data, cd_position = 0, cd_ok = True\<rparr>"

definition cd_remaining :: "canonical_decoder \<Rightarrow> nat" where
  "cd_remaining d = (if cd_position d \<le> length (cd_data d)
     then length (cd_data d) - cd_position d else 0)"

text \<open>
  Plumbing of the decoder functions: \<open>dec_bind\<close> is the early return
  \<^verbatim>\<open>if (!r) return Err(r.status().code(), r.status().message())\<close>.
\<close>

definition dec_return :: "'a \<Rightarrow> 'a dec" where
  "dec_return v d = (Inr v, d)"

definition dec_fail :: "status_code \<Rightarrow> string \<Rightarrow> 'a dec" where
  "dec_fail c m d = (err c m, d)"

definition dec_poison_fail :: "status_code \<Rightarrow> string \<Rightarrow> 'a dec" where
  "dec_poison_fail c m d = (err c m, d\<lparr>cd_ok := False\<rparr>)"

definition dec_lift :: "'a result \<Rightarrow> 'a dec" where
  "dec_lift r d = (r, d)"

definition dec_bind :: "'a dec \<Rightarrow> ('a \<Rightarrow> 'b dec) \<Rightarrow> 'b dec" where
  "dec_bind f g d = (case f d of (Inl e, d') \<Rightarrow> (Inl e, d') | (Inr v, d') \<Rightarrow> g v d')"

text \<open>\<^verbatim>\<open>for (index = 0; index < count; ++index)\<close> around a decoder call that may return early.\<close>

primrec dec_repeat :: "nat \<Rightarrow> 'a dec \<Rightarrow> 'a list dec" where
  "dec_repeat 0 f = dec_return []"
| "dec_repeat (Suc n) f = dec_bind f (\<lambda>v. dec_bind (dec_repeat n f) (\<lambda>vs. dec_return (v # vs)))"

definition dec_take :: "nat \<Rightarrow> byte list dec" where
  "dec_take n d =
     (if \<not> cd_ok d then (err SC_Corrupt ''decoder is poisoned'', d)
      else if n > cd_remaining d
      then (err SC_Corrupt ''canonical input ended inside a field'', d\<lparr>cd_ok := False\<rparr>)
      else (Inr (take n (drop (cd_position d) (cd_data d))),
            d\<lparr>cd_position := cd_position d + n\<rparr>))"

text \<open>The accumulation loop of the multi-byte readers.\<close>

definition be_fold :: "byte list \<Rightarrow> 'a::len word" where
  "be_fold bs = foldl (\<lambda>v raw. push_bit 8 v OR ucast raw) 0 bs"

definition dec_u8 :: "byte dec" where
  "dec_u8 = dec_bind (dec_take 1) (\<lambda>slice. dec_return (hd slice))"

definition dec_u16 :: "16 word dec" where
  "dec_u16 = dec_bind (dec_take 2) (\<lambda>slice. dec_return (be_fold slice))"

definition dec_u32 :: "32 word dec" where
  "dec_u32 = dec_bind (dec_take 4) (\<lambda>slice. dec_return (be_fold slice))"

definition dec_u64 :: "64 word dec" where
  "dec_u64 = dec_bind (dec_take 8) (\<lambda>slice. dec_return (be_fold slice))"

definition dec_i64 :: "64 word dec" where
  "dec_i64 = dec_bind dec_u64 dec_return"

definition dec_bool :: "bool dec" where
  "dec_bool = dec_bind dec_u8 (\<lambda>v.
     if v > 1 then dec_poison_fail SC_Corrupt ''canonical boolean is not 0 or 1''
     else dec_return (v = 1))"

text \<open>\<^verbatim>\<open>checked_size\<close> never fails on the 64-bit hosts the model describes.\<close>

definition dec_bytes :: "byte list dec" where
  "dec_bytes = dec_bind dec_u64 (\<lambda>len. dec_take (unat len))"

definition dec_text :: "string dec" where
  "dec_text = dec_bind dec_bytes (\<lambda>slice. dec_return (string_of_bytes slice))"

definition dec_tag :: "string \<Rightarrow> unit dec" where
  "dec_tag expected = dec_bind dec_u8 (\<lambda>len. dec_bind (dec_take (unat len)) (\<lambda>slice.
     if string_of_bytes slice \<noteq> expected
     then dec_poison_fail SC_Corrupt ''canonical domain tag does not match''
     else dec_return ()))"

definition dec_expect_u8 :: "byte \<Rightarrow> unit dec" where
  "dec_expect_u8 expected = dec_bind dec_u8 (\<lambda>v.
     if v \<noteq> expected
     then dec_poison_fail SC_VersionMismatch ''unexpected canonical encoding revision''
     else dec_return ())"

definition dec_expect_end :: "unit dec" where
  "dec_expect_end d =
     (if cd_remaining d \<noteq> 0
      then (err SC_Corrupt ''trailing bytes after a canonical structure'', d\<lparr>cd_ok := False\<rparr>)
      else (Inr (), d))"

section \<open>Reading back\<close>

definition reads :: "'a dec \<Rightarrow> byte list \<Rightarrow> 'a \<Rightarrow> bool" where
  "reads f bs v \<longleftrightarrow> (\<forall>d rest. cd_ok d \<longrightarrow> cd_position d \<le> length (cd_data d) \<longrightarrow>
     drop (cd_position d) (cd_data d) = bs @ rest \<longrightarrow>
     f d = (Inr v, d\<lparr>cd_position := cd_position d + length bs\<rparr>))"

lemma readsD:
  "reads f bs v \<Longrightarrow> cd_ok d \<Longrightarrow> cd_position d \<le> length (cd_data d) \<Longrightarrow>
   drop (cd_position d) (cd_data d) = bs @ rest \<Longrightarrow>
   f d = (Inr v, d\<lparr>cd_position := cd_position d + length bs\<rparr>)"
  by (simp add: reads_def)

lemma reads_return [codec_intros]: "reads (dec_return v) [] v"
  by (simp add: reads_def dec_return_def)

lemma reads_lift [codec_intros]: "r = Inr v \<Longrightarrow> reads (dec_lift r) [] v"
  by (simp add: reads_def dec_lift_def)

lemma reads_bind [codec_intros]:
  assumes "reads f bs v" and "reads (g v) bs' w"
  shows "reads (dec_bind f g) (bs @ bs') w"
  unfolding reads_def
proof (intro allI impI)
  fix d :: canonical_decoder and rest
  assume d: "cd_ok d" "cd_position d \<le> length (cd_data d)"
    and input: "drop (cd_position d) (cd_data d) = (bs @ bs') @ rest"
  let ?d' = "d\<lparr>cd_position := cd_position d + length bs\<rparr>"
  have first: "f d = (Inr v, ?d')"
    using assms(1) d input by (intro readsD[where rest = "bs' @ rest"]) simp_all
  have "length (drop (cd_position d) (cd_data d)) = length bs + length bs' + length rest"
    by (simp add: input)
  then have fits: "cd_position d + length bs \<le> length (cd_data d)"
    using d by simp
  have "drop (cd_position d + length bs) (cd_data d) = bs' @ rest"
    using input by (metis append_assoc append_eq_conv_conj drop_drop add.commute)
  then have "g v ?d' = (Inr w, ?d'\<lparr>cd_position := cd_position ?d' + length bs'\<rparr>)"
    using assms(2) d fits by (intro readsD[where rest = rest]) simp_all
  then show "dec_bind f g d = (Inr w, d\<lparr>cd_position := cd_position d + length (bs @ bs')\<rparr>)"
    by (simp add: dec_bind_def first add.assoc)
qed

lemma reads_bind_last [codec_intros]:
  "reads f bs v \<Longrightarrow> reads (g v) [] w \<Longrightarrow> reads (dec_bind f g) bs w"
  using reads_bind[of f bs v g "[]" w] by simp

lemma reads_bind_first [codec_intros]:
  "reads f [] v \<Longrightarrow> reads (g v) bs w \<Longrightarrow> reads (dec_bind f g) bs w"
  using reads_bind[of f "[]" v g bs w] by simp

lemma reads_if [codec_intros]:
  "\<not> c \<Longrightarrow> reads g bs v \<Longrightarrow> reads (if c then f else g) bs v"
  by simp

lemma reads_take [codec_intros]: "n = length bs \<Longrightarrow> reads (dec_take n) bs bs"
proof (unfold reads_def, intro allI impI)
  fix d :: canonical_decoder and rest
  assume n: "n = length bs" and d: "cd_ok d" "cd_position d \<le> length (cd_data d)"
    and input: "drop (cd_position d) (cd_data d) = bs @ rest"
  have "length (drop (cd_position d) (cd_data d)) = length bs + length rest"
    by (simp add: input)
  then have "length bs \<le> cd_remaining d"
    using d by (simp add: cd_remaining_def)
  then show "dec_take n d = (Inr bs, d\<lparr>cd_position := cd_position d + length bs\<rparr>)"
    using d n by (simp add: dec_take_def input)
qed

subsection \<open>The contract of an encoder and its decoder\<close>

locale codec =
  fixes enc :: "'a \<Rightarrow> byte list"
    and dec :: "'a dec"
    and wf :: "'a \<Rightarrow> bool"
  assumes reads_enc: "wf v \<Longrightarrow> reads dec (enc v) v"
begin

lemma decode_encode:
  "wf v \<Longrightarrow> dec (decoder_of (enc v @ rest)) =
     (Inr v, (decoder_of (enc v @ rest))\<lparr>cd_position := length (enc v)\<rparr>)"
  using readsD[OF reads_enc, of v "decoder_of (enc v @ rest)" rest]
  by (simp add: decoder_of_def)

text \<open>Unambiguous: the bytes determine the value and where it ends.\<close>

lemma unambiguous:
  assumes "wf v" and "wf w" and "enc v @ r = enc w @ s"
  shows "v = w \<and> r = s"
proof -
  have "(Inr v :: status + 'a, (decoder_of (enc v @ r))\<lparr>cd_position := length (enc v)\<rparr>) =
        (Inr w, (decoder_of (enc w @ s))\<lparr>cd_position := length (enc w)\<rparr>)"
    using decode_encode[OF assms(1), of r] decode_encode[OF assms(2), of s] assms(3) by simp
  then have "v = w" by simp
  with assms(3) show ?thesis by simp
qed

lemma append_eq_iff: "wf v \<Longrightarrow> wf w \<Longrightarrow> enc v @ r = enc w @ s \<longleftrightarrow> v = w \<and> r = s"
  using unambiguous by blast

lemma enc_inject: "wf v \<Longrightarrow> wf w \<Longrightarrow> enc v = enc w \<Longrightarrow> v = w"
  using unambiguous[of v w "[]" "[]"] by simp

lemma reads_repeat:
  "list_all wf vs \<Longrightarrow> n = length vs \<Longrightarrow> reads (dec_repeat n dec) (concat (map enc vs)) vs"
proof (induction vs arbitrary: n)
  case Nil
  then show ?case by (simp add: reads_return)
next
  case (Cons v vs)
  then have "reads (dec_bind (dec_repeat (length vs) dec) (\<lambda>vs. dec_return (v # vs)))
      (concat (map enc vs)) (v # vs)"
    by (intro reads_bind_last[OF Cons.IH]) (simp_all add: reads_return)
  then have "reads (dec_bind dec (\<lambda>v. dec_bind (dec_repeat (length vs) dec)
      (\<lambda>vs. dec_return (v # vs)))) (enc v @ concat (map enc vs)) (v # vs)"
    using Cons.prems by (intro reads_bind[OF reads_enc]) simp_all
  with Cons.prems show ?case by simp
qed

end

subsection \<open>Integers\<close>

lemma ucast_and_255: "(ucast ((v :: 'a::len word) AND 0xFF) :: byte) = ucast v"
proof -
  have "v AND 0xFF = take_bit 8 v"
    by (simp add: take_bit_eq_mask mask_numeral and.commute)
  then show ?thesis
    by (simp only:) (rule bit_word_eqI, simp add: bit_ucast_iff bit_take_bit_iff)
qed

lemma ucast_and_mask32: "(ucast ((v :: 64 word) AND 0xFFFFFFFF) :: 32 word) = ucast v"
proof -
  have "v AND 0xFFFFFFFF = take_bit 32 v"
    by (simp add: take_bit_eq_mask mask_numeral and.commute)
  then show ?thesis
    by (simp only:) (rule bit_word_eqI, simp add: bit_ucast_iff bit_take_bit_iff)
qed

lemma byte_of_half:
  "n + 8 \<le> 32 \<Longrightarrow> (ucast (drop_bit n (ucast (v :: 64 word) :: 32 word)) :: byte) = ucast (drop_bit n v)"
  by (rule bit_word_eqI) (simp add: bit_ucast_iff bit_drop_bit_eq)

text \<open>One accumulation step puts back the byte that was shifted out.\<close>

lemma be_step:
  "push_bit 8 (drop_bit (n + 8) v) OR ucast (ucast (drop_bit n v) :: byte) = drop_bit n (v :: 'a::len word)"
  by (rule bit_word_eqI)
     (auto simp: bit_or_iff bit_push_bit_iff bit_drop_bit_eq bit_ucast_iff add.commute
       dest: bit_imp_le_length)

lemma be_start:
  "LENGTH('a) \<le> n + 8 \<Longrightarrow> ucast (ucast (drop_bit n v) :: byte) = drop_bit n (v :: 'a::len word)"
  by (rule bit_word_eqI)
     (auto simp: bit_drop_bit_eq bit_ucast_iff dest: bit_imp_le_length)

lemma be_fold_u16: "be_fold (enc_u16 v) = v"
  using be_start[of 8 v] be_step[of 0 v]
  by (simp add: be_fold_def enc_u16_def enc_u8_def ucast_and_255)

lemma be_fold_u32: "be_fold (enc_u32 v) = v"
  using be_start[of 24 v] be_step[of 16 v] be_step[of 8 v] be_step[of 0 v]
  by (simp add: be_fold_def enc_u32_def enc_u8_def ucast_and_255)

lemma low_byte_of_half: "(ucast (ucast (v :: 64 word) :: 32 word) :: byte) = ucast v"
  using byte_of_half[of 0 v] by simp

lemma enc_u64_bytes:
  "enc_u64 v = map (\<lambda>n. ucast (drop_bit n v)) [56, 48, 40, 32, 24, 16, 8, 0]"
  by (simp add: enc_u64_def enc_u32_def enc_u8_def ucast_and_255 ucast_and_mask32 byte_of_half
      low_byte_of_half drop_bit_drop_bit)

lemma be_fold_u64: "be_fold (enc_u64 v) = v"
  using be_start[of 56 v] be_step[of 48 v] be_step[of 40 v] be_step[of 32 v] be_step[of 24 v]
    be_step[of 16 v] be_step[of 8 v] be_step[of 0 v]
  by (simp add: be_fold_def enc_u64_bytes)

lemma length_enc [simp]:
  "length (enc_u8 b) = 1" "length (enc_u16 w) = 2" "length (enc_u32 x) = 4"
  "length (enc_u64 y) = 8" "length (enc_i64 y) = 8"
  by (simp_all add: enc_u8_def enc_u16_def enc_u32_def enc_u64_def enc_i64_def)

lemma reads_u8: "reads dec_u8 (enc_u8 v) v"
  unfolding dec_u8_def
  by (rule reads_bind_last[OF reads_take]) (simp_all add: enc_u8_def reads_return)

lemma reads_u16: "reads dec_u16 (enc_u16 v) v"
  unfolding dec_u16_def
  by (rule reads_bind_last[OF reads_take]) (simp_all add: be_fold_u16 reads_return)

lemma reads_u32: "reads dec_u32 (enc_u32 v) v"
  unfolding dec_u32_def
  by (rule reads_bind_last[OF reads_take]) (simp_all add: be_fold_u32 reads_return)

lemma reads_u64: "reads dec_u64 (enc_u64 v) v"
  unfolding dec_u64_def
  by (rule reads_bind_last[OF reads_take]) (simp_all add: be_fold_u64 reads_return)

lemma reads_i64: "reads dec_i64 (enc_i64 v) v"
  unfolding dec_i64_def enc_i64_def
  by (rule reads_bind_last[OF reads_u64 reads_return])

lemma reads_bool: "reads dec_bool (enc_bool b) b"
  unfolding dec_bool_def enc_bool_def
  by (rule reads_bind_last[OF reads_u8]) (cases b; simp add: reads_return)

lemma reads_bytes: "length bs < 2 ^ 64 \<Longrightarrow> reads dec_bytes (enc_bytes bs) bs"
  unfolding dec_bytes_def enc_bytes_def
  by (rule reads_bind[OF reads_u64 reads_take]) (simp add: unat_of_nat)

lemma reads_text: "length s < 2 ^ 64 \<Longrightarrow> reads dec_text (enc_text s) s"
  unfolding dec_text_def enc_text_def
  by (rule reads_bind_last[OF reads_bytes]) (simp_all add: reads_return)

lemma reads_tag: "length s < 256 \<Longrightarrow> reads (dec_tag s) (enc_tag s) ()"
proof -
  assume "length s < 256"
  moreover have "(of_nat (length s) AND 0xFF :: byte) = of_nat (length s)"
    using ucast_and_255[of "of_nat (length s) :: byte"] by simp
  ultimately show ?thesis
    unfolding dec_tag_def enc_tag_def
    by (intro reads_bind[OF reads_u8] reads_bind_last[OF reads_take] reads_if)
       (simp_all add: unat_of_nat reads_return)
qed

lemma reads_expect_u8: "reads (dec_expect_u8 b) (enc_u8 b) ()"
  unfolding dec_expect_u8_def
  by (rule reads_bind_last[OF reads_u8]) (simp add: reads_return)

lemmas reads_prims = reads_u8 reads_u16 reads_u32 reads_u64 reads_i64 reads_bool reads_bytes
  reads_text reads_tag reads_expect_u8

declare reads_prims [codec_intros]

interpretation u8_codec: codec enc_u8 dec_u8 "\<lambda>_. True"
  by unfold_locales (rule reads_u8)

interpretation u32_codec: codec enc_u32 dec_u32 "\<lambda>_. True"
  by unfold_locales (rule reads_u32)

interpretation u64_codec: codec enc_u64 dec_u64 "\<lambda>_. True"
  by unfold_locales (rule reads_u64)

interpretation bool_codec: codec enc_bool dec_bool "\<lambda>_. True"
  by unfold_locales (rule reads_bool)

interpretation bytes_codec: codec enc_bytes dec_bytes "\<lambda>bs. length bs < 2 ^ 64"
  by unfold_locales (rule reads_bytes)

interpretation text_codec: codec enc_text dec_text "\<lambda>s. length s < 2 ^ 64"
  by unfold_locales (rule reads_text)

interpretation u16_codec: codec enc_u16 dec_u16 "\<lambda>_. True"
  by unfold_locales (rule reads_u16)

interpretation i64_codec: codec enc_i64 dec_i64 "\<lambda>_. True"
  by unfold_locales (rule reads_i64)

text \<open>Equality of two encodings, read field by field.\<close>

lemmas enc_append_iff = u8_codec.append_eq_iff[OF TrueI TrueI] u16_codec.append_eq_iff[OF TrueI TrueI]
  u32_codec.append_eq_iff[OF TrueI TrueI] u64_codec.append_eq_iff[OF TrueI TrueI]
  i64_codec.append_eq_iff[OF TrueI TrueI] bool_codec.append_eq_iff[OF TrueI TrueI]
  text_codec.append_eq_iff bytes_codec.append_eq_iff

lemma enc_eq_iff:
  "enc_u8 a = enc_u8 b \<longleftrightarrow> a = b" "enc_u32 c = enc_u32 d \<longleftrightarrow> c = d"
  "enc_u64 e = enc_u64 f \<longleftrightarrow> e = f" "enc_i64 e = enc_i64 f \<longleftrightarrow> e = f"
  "enc_bool x = enc_bool y \<longleftrightarrow> x = y"
  by (auto dest: u8_codec.enc_inject[OF TrueI TrueI] u32_codec.enc_inject[OF TrueI TrueI]
      u64_codec.enc_inject[OF TrueI TrueI] i64_codec.enc_inject[OF TrueI TrueI]
      bool_codec.enc_inject[OF TrueI TrueI])

lemma enc_text_eq_iff:
  "length s < 2 ^ 64 \<Longrightarrow> length t < 2 ^ 64 \<Longrightarrow> enc_text s = enc_text t \<longleftrightarrow> s = t"
  using text_codec.enc_inject by metis

section \<open>Bounds and poisoning\<close>

text \<open>
  A decoder function is safe when it keeps the read position inside the data, never touches
  the data, and once the decoder is poisoned fails and leaves it poisoned.
\<close>

definition safe_decoder :: "'a dec \<Rightarrow> bool" where
  "safe_decoder f \<longleftrightarrow> (\<forall>d. cd_position d \<le> length (cd_data d) \<longrightarrow>
     cd_data (snd (f d)) = cd_data d \<and>
     cd_position d \<le> cd_position (snd (f d)) \<and>
     cd_position (snd (f d)) \<le> length (cd_data d) \<and>
     (\<not> cd_ok d \<longrightarrow> \<not> cd_ok (snd (f d))))"

definition poison_safe :: "'a dec \<Rightarrow> bool" where
  "poison_safe f \<longleftrightarrow> (\<forall>d. \<not> cd_ok d \<longrightarrow> (\<exists>e. fst (f d) = Inl e))"

lemma safe_return: "safe_decoder (dec_return v)"
  by (simp add: safe_decoder_def dec_return_def)

lemma safe_lift: "safe_decoder (dec_lift r)"
  by (simp add: safe_decoder_def dec_lift_def)

lemma safe_fail: "safe_decoder (dec_fail c m)" "safe_decoder (dec_poison_fail c m)"
  by (simp_all add: safe_decoder_def dec_fail_def dec_poison_fail_def)

lemma safe_if: "safe_decoder f \<Longrightarrow> safe_decoder g \<Longrightarrow> safe_decoder (if b then f else g)"
  by simp

lemma safe_bind:
  assumes "safe_decoder f" and "\<And>v. safe_decoder (g v)"
  shows "safe_decoder (dec_bind f g)"
  unfolding safe_decoder_def
proof (intro allI impI)
  fix d :: canonical_decoder
  assume d: "cd_position d \<le> length (cd_data d)"
  obtain r d' where fd: "f d = (r, d')" by fastforce
  have first: "cd_data d' = cd_data d" "cd_position d \<le> cd_position d'"
    "cd_position d' \<le> length (cd_data d)" "\<not> cd_ok d \<longrightarrow> \<not> cd_ok d'"
    using assms(1) d fd by (auto simp: safe_decoder_def dest!: spec[of _ d])
  show "cd_data (snd (dec_bind f g d)) = cd_data d \<and>
      cd_position d \<le> cd_position (snd (dec_bind f g d)) \<and>
      cd_position (snd (dec_bind f g d)) \<le> length (cd_data d) \<and>
      (\<not> cd_ok d \<longrightarrow> \<not> cd_ok (snd (dec_bind f g d)))"
  proof (cases r)
    case (Inl e)
    with fd first show ?thesis by (simp add: dec_bind_def)
  next
    case (Inr v)
    have "cd_position d' \<le> length (cd_data d')"
      using first by simp
    with assms(2)[of v] Inr fd first show ?thesis
      by (auto simp: dec_bind_def safe_decoder_def intro: order_trans dest!: spec[of _ d'])
  qed
qed

lemma safe_take: "safe_decoder (dec_take n)"
  by (auto simp: safe_decoder_def dec_take_def cd_remaining_def)

lemma safe_repeat: "safe_decoder f \<Longrightarrow> safe_decoder (dec_repeat n f)"
  by (induction n) (simp_all add: safe_return safe_bind)

lemmas safe_plumbing = safe_return safe_lift safe_fail safe_if safe_bind safe_take safe_repeat

lemma safe_prims:
  "safe_decoder dec_u8" "safe_decoder dec_u16" "safe_decoder dec_u32" "safe_decoder dec_u64"
  "safe_decoder dec_i64" "safe_decoder dec_bool" "safe_decoder dec_bytes" "safe_decoder dec_text"
  "safe_decoder (dec_tag s)" "safe_decoder (dec_expect_u8 b)"
  by (simp_all add: dec_u8_def dec_u16_def dec_u32_def dec_u64_def dec_i64_def dec_bool_def
      dec_bytes_def dec_text_def dec_tag_def dec_expect_u8_def safe_plumbing del: if_split)

lemma poison_bind: "poison_safe f \<Longrightarrow> poison_safe (dec_bind f g)"
  by (fastforce simp: poison_safe_def dec_bind_def split: prod.splits sum.splits)

lemma poison_take: "poison_safe (dec_take n)"
  by (simp add: poison_safe_def dec_take_def err_def)

lemma poison_prims:
  "poison_safe dec_u8" "poison_safe dec_u16" "poison_safe dec_u32" "poison_safe dec_u64"
  "poison_safe dec_i64" "poison_safe dec_bool" "poison_safe dec_bytes" "poison_safe dec_text"
  "poison_safe (dec_tag s)" "poison_safe (dec_expect_u8 b)"
  by (simp_all add: dec_u8_def dec_u16_def dec_u32_def dec_u64_def dec_i64_def dec_bool_def
      dec_bytes_def dec_text_def dec_tag_def dec_expect_u8_def poison_bind poison_take)

end
