(* ===== verification/Fab_Ids.thy ===== *)
theory Fab_Ids
  imports Fab_Canonical
begin

text \<open>
  \<^verbatim>\<open>ids.hpp\<close> and \<^verbatim>\<open>ids.cpp\<close>: strongly typed identities, their derivation by SHA-256 and
  their text forms. \<^verbatim>\<open>BasicId<Tag>\<close> is a datatype with a phantom tag, so identities of
  different kinds are of different types here as well. The main results are the round trips
  of every text form and the canonical order of the two ends of a link.
\<close>

section \<open>128-bit values and tagged identities\<close>

datatype uint128 = Uint128 (u_hi: "64 word") (u_lo: "64 word")

instantiation uint128 :: linorder
begin

definition less_eq_uint128 :: "uint128 \<Rightarrow> uint128 \<Rightarrow> bool" where
  "a \<le> b \<longleftrightarrow> (u_hi a, u_lo a) \<le> (u_hi b, u_lo b)"

definition less_uint128 :: "uint128 \<Rightarrow> uint128 \<Rightarrow> bool" where
  "a < b \<longleftrightarrow> (u_hi a, u_lo a) < (u_hi b, u_lo b)"

instance
  by standard
     (auto simp: less_eq_uint128_def less_uint128_def less_prod_def less_eq_prod_def
       intro: uint128.expand split: prod.splits)

end

definition u128_is_zero :: "uint128 \<Rightarrow> bool" where
  "u128_is_zero v \<longleftrightarrow> u_hi v = 0 \<and> u_lo v = 0"

definition u128_of_bytes :: "byte list \<Rightarrow> uint128" where
  "u128_of_bytes bs = Uint128 (be_fold (take 8 bs)) (be_fold (take 8 (drop 8 bs)))"

text \<open>The leading sixteen bytes of the digest of a length-prefixed domain and the text.\<close>

definition derive_u128_bytes :: "string \<Rightarrow> byte list \<Rightarrow> uint128" where
  "derive_u128_bytes domain canonical_bytes =
     u128_of_bytes (sha256_chunks [[of_nat (length domain) AND 0xFF], bytes_of_string domain,
       canonical_bytes])"

definition derive_u128 :: "string \<Rightarrow> string \<Rightarrow> uint128" where
  "derive_u128 domain canonical_text = derive_u128_bytes domain (bytes_of_string canonical_text)"

definition u128_to_hex :: "uint128 \<Rightarrow> string" where
  "u128_to_hex v = hex_encode (enc_u64 (u_hi v) @ enc_u64 (u_lo v))"

definition u128_from_hex :: "string \<Rightarrow> uint128 result" where
  "u128_from_hex cs =
     (if length cs \<noteq> 32
      then err SC_InvalidArgument ''identity hex text must be exactly 32 characters''
      else rbind (hex_decode cs) (\<lambda>decoded. Inr (u128_of_bytes decoded)))"

lemma u128_from_to_hex: "u128_from_hex (u128_to_hex v) = Inr v"
  by (simp add: u128_from_hex_def u128_to_hex_def hex_decode_encode u128_of_bytes_def be_fold_u64)

lemma length_u128_to_hex [simp]: "length (u128_to_hex v) = 32"
  by (simp add: u128_to_hex_def)

lemma set_u128_to_hex: "set (u128_to_hex v) \<subseteq> set hex_digits"
  by (simp only: u128_to_hex_def set_hex_encode)

datatype 'tag basic_id = BasicId (id_value: uint128)

instantiation basic_id :: (type) linorder
begin

definition less_eq_basic_id :: "'a basic_id \<Rightarrow> 'a basic_id \<Rightarrow> bool" where
  "a \<le> b \<longleftrightarrow> id_value a \<le> id_value b"

definition less_basic_id :: "'a basic_id \<Rightarrow> 'a basic_id \<Rightarrow> bool" where
  "a < b \<longleftrightarrow> id_value a < id_value b"

instance
  by standard (auto simp: less_eq_basic_id_def less_basic_id_def intro: basic_id.expand)

end

datatype fabric_tag = FabricTag
datatype site_tag = SiteTag
datatype pod_tag = PodTag
datatype rack_tag = RackTag
datatype device_tag = DeviceTag
datatype source_tag = SourceTag
datatype incarnation_tag = IncarnationTag

type_synonym fabric_id = "fabric_tag basic_id"
type_synonym site_id = "site_tag basic_id"
type_synonym pod_id = "pod_tag basic_id"
type_synonym rack_id = "rack_tag basic_id"
type_synonym device_id = "device_tag basic_id"
type_synonym source_id = "source_tag basic_id"
type_synonym incarnation_id = "incarnation_tag basic_id"

text \<open>Monotonic counters: unsigned 64-bit values.\<close>

type_synonym generation_id = "64 word"
type_synonym epoch_id = "64 word"
type_synonym source_sequence = "64 word"
type_synonym claim_revision = "64 word"
type_synonym history_index = "64 word"
type_synonym restart_epoch = "64 word"

definition id_is_nil :: "'tag basic_id \<Rightarrow> bool" where
  "id_is_nil i \<longleftrightarrow> u128_is_zero (id_value i)"

text \<open>The text functions take \<^verbatim>\<open>IdPrefix<Tag>::value\<close> as an argument.\<close>

definition id_to_text :: "string \<Rightarrow> 'tag basic_id \<Rightarrow> string" where
  "id_to_text prefix i = prefix @ '':'' @ u128_to_hex (id_value i)"

definition id_from_text :: "string \<Rightarrow> string \<Rightarrow> 'tag basic_id result" where
  "id_from_text prefix cs =
     (let body = (if length cs > length prefix \<and> take (length prefix) cs = prefix \<and>
                     cs ! length prefix = CHR '':''
                  then drop (length prefix + 1) cs else cs)
      in rbind (u128_from_hex body) (\<lambda>v. Inr (BasicId v)))"

definition id_derive :: "string \<Rightarrow> string \<Rightarrow> 'tag basic_id" where
  "id_derive prefix canonical_text = BasicId (derive_u128 prefix canonical_text)"

lemma id_from_to_text: "id_from_text prefix (id_to_text prefix i) = Inr i"
  by (simp add: id_from_text_def id_to_text_def Let_def nth_append u128_from_to_hex)

section \<open>Splitting texts\<close>

text \<open>\<^verbatim>\<open>text.find(c)\<close> and \<^verbatim>\<open>text.rfind(c)\<close> with the two substrings around the hit.\<close>

definition split_first :: "char \<Rightarrow> string \<Rightarrow> (string \<times> string) option" where
  "split_first c cs =
     (case dropWhile (\<lambda>x. x \<noteq> c) cs of [] \<Rightarrow> None
      | _ # rest \<Rightarrow> Some (takeWhile (\<lambda>x. x \<noteq> c) cs, rest))"

definition split_last :: "char \<Rightarrow> string \<Rightarrow> (string \<times> string) option" where
  "split_last c cs =
     (case split_first c (rev cs) of None \<Rightarrow> None | Some (b, a) \<Rightarrow> Some (rev a, rev b))"

lemma split_first_append: "c \<notin> set a \<Longrightarrow> split_first c (a @ c # b) = Some (a, b)"
proof -
  assume "c \<notin> set a"
  then have "\<And>x. x \<in> set a \<Longrightarrow> x \<noteq> c" by auto
  then show ?thesis
    by (simp add: split_first_def dropWhile_append2 takeWhile_append2)
qed

lemma split_last_append: "c \<notin> set b \<Longrightarrow> split_last c (a @ c # b) = Some (a, b)"
  by (simp add: split_last_def split_first_append)

definition remove_prefix :: "string \<Rightarrow> string \<Rightarrow> string" where
  "remove_prefix prefix cs = (if starts_with cs prefix then drop (length prefix) cs else cs)"

lemma remove_prefix_append [simp]: "remove_prefix p (p @ cs) = cs"
  by (simp add: remove_prefix_def)

section \<open>Ports, links, paths\<close>

datatype port_id = PortId (port_device: device_id) (port_index: "32 word")

instantiation port_id :: linorder
begin

definition less_eq_port_id :: "port_id \<Rightarrow> port_id \<Rightarrow> bool" where
  "a \<le> b \<longleftrightarrow> (port_device a, port_index a) \<le> (port_device b, port_index b)"

definition less_port_id :: "port_id \<Rightarrow> port_id \<Rightarrow> bool" where
  "a < b \<longleftrightarrow> (port_device a, port_index a) < (port_device b, port_index b)"

instance
  by standard
     (auto simp: less_eq_port_id_def less_port_id_def less_prod_def less_eq_prod_def
       intro: port_id.expand split: prod.splits)

end

definition port_to_text :: "port_id \<Rightarrow> string" where
  "port_to_text p = ''port:'' @ id_to_text ''dev'' (port_device p) @ ''/'' @
     nat_text (unat (port_index p))"

fun port_index_loop :: "64 word \<Rightarrow> string \<Rightarrow> 64 word result" where
  "port_index_loop index [] = Inr index"
| "port_index_loop index (ch # cs) =
     (if \<not> is_digit_char ch
      then err SC_MalformedInput ''port index must be a decimal number''
      else case checked_mul index 10 of
             None \<Rightarrow> err SC_OutOfRange ''port index overflows''
           | Some scaled \<Rightarrow>
               (case checked_add scaled (of_nat (digit_value ch)) of
                  None \<Rightarrow> err SC_OutOfRange ''port index overflows''
                | Some next_index \<Rightarrow> port_index_loop next_index cs))"

definition port_from_text :: "string \<Rightarrow> port_id result" where
  "port_from_text cs =
     (case split_last (CHR ''/'') (remove_prefix ''port:'' cs) of
        None \<Rightarrow> err SC_MalformedInput ''port identity must have the form port:<device>/<index>''
      | Some (device_text, index_text) \<Rightarrow>
          if device_text = [] \<or> index_text = []
          then err SC_MalformedInput ''port identity must have the form port:<device>/<index>''
          else rbind (id_from_text ''dev'' device_text) (\<lambda>device.
               rbind (port_index_loop 0 index_text) (\<lambda>index.
               case checked_u32 index of
                 None \<Rightarrow> err SC_OutOfRange ''port index exceeds the supported range''
               | Some narrowed \<Rightarrow> Inr (PortId device narrowed))))"

datatype link_id = LinkId (link_local: port_id) (link_remote: port_id)

definition link_make :: "port_id \<Rightarrow> port_id \<Rightarrow> link_id result" where
  "link_make first second =
     (if id_is_nil (port_device first) \<or> id_is_nil (port_device second)
      then err SC_InvalidArgument ''link endpoints must be real ports''
      else if first = second
      then err SC_InvalidArgument ''a link requires two distinct ports''
      else if second < first then Inr (LinkId second first) else Inr (LinkId first second))"

definition link_to_text :: "link_id \<Rightarrow> string" where
  "link_to_text l = ''link:'' @ port_to_text (link_local l) @ ''|'' @ port_to_text (link_remote l)"

definition link_from_text :: "string \<Rightarrow> link_id result" where
  "link_from_text cs =
     (case split_first (CHR ''|'') (remove_prefix ''link:'' cs) of
        None \<Rightarrow> err SC_MalformedInput ''link identity must have the form link:<local>|<remote>''
      | Some (local_text, remote_text) \<Rightarrow>
          rbind (port_from_text local_text) (\<lambda>lp.
          rbind (port_from_text remote_text) (\<lambda>rp. link_make lp rp)))"

datatype path_id = PathId (path_value: uint128)

definition path_from_hops :: "link_id list \<Rightarrow> path_id" where
  "path_from_hops hops =
     PathId (u128_of_bytes (sha256_chunks
       ([[of_nat (length ''path'')], bytes_of_string ''path''] @
        map (\<lambda>b. [b]) (enc_u64 (of_nat (length hops))) @
        concat (map (\<lambda>hop. [[of_nat (length (link_to_text hop)) AND 0xFF],
                            bytes_of_string (link_to_text hop)]) hops))))"

definition path_to_text :: "path_id \<Rightarrow> string" where
  "path_to_text p = ''path:'' @ u128_to_hex (path_value p)"

definition path_from_text :: "string \<Rightarrow> path_id result" where
  "path_from_text cs = rbind (u128_from_hex (remove_prefix ''path:'' cs)) (\<lambda>v. Inr (PathId v))"

definition wf_link :: "link_id \<Rightarrow> bool" where
  "wf_link l \<longleftrightarrow> \<not> id_is_nil (port_device (link_local l)) \<and>
     \<not> id_is_nil (port_device (link_remote l)) \<and> link_local l < link_remote l"

section \<open>Entities\<close>

datatype entity_kind = EK_Fabric | EK_Site | EK_Pod | EK_Rack | EK_Device | EK_Port | EK_Link | EK_Path

definition entity_kind_names :: "(entity_kind \<times> string) list" where
  "entity_kind_names =
    [(EK_Fabric, ''fabric''), (EK_Site, ''site''), (EK_Pod, ''pod''), (EK_Rack, ''rack''),
     (EK_Device, ''device''), (EK_Port, ''port''), (EK_Link, ''link''), (EK_Path, ''path'')]"

definition entity_kind_text :: "entity_kind \<Rightarrow> string" where
  "entity_kind_text k = enum_name entity_kind_names ''unknown'' k"

definition entity_kind_from_string :: "string \<Rightarrow> entity_kind result" where
  "entity_kind_from_string cs =
     (case enum_of_name entity_kind_names cs of
        Some k \<Rightarrow> Inr k | None \<Rightarrow> err SC_InvalidArgument ''unknown entity kind'')"

definition entity_kind_number :: "entity_kind \<Rightarrow> nat" where
  "entity_kind_number k = index_of k (map fst entity_kind_names)"

interpretation kind_enum: named_enum entity_kind_names "''unknown''"
proof
  fix e :: entity_kind
  show "e \<in> fst ` set entity_kind_names"
    by (cases e) (simp_all add: entity_kind_names_def)
qed (simp_all add: entity_kind_names_def)

lemma entity_kind_number_inject [simp]:
  "entity_kind_number a = entity_kind_number b \<longleftrightarrow> a = b"
  by (cases a; cases b) (simp_all add: entity_kind_number_def entity_kind_names_def)

lemma entity_kind_number_less: "entity_kind_number k < 8"
  by (cases k) (simp_all add: entity_kind_number_def entity_kind_names_def)

instantiation entity_kind :: linorder
begin

definition less_eq_entity_kind :: "entity_kind \<Rightarrow> entity_kind \<Rightarrow> bool" where
  "a \<le> b \<longleftrightarrow> entity_kind_number a \<le> entity_kind_number b"

definition less_entity_kind :: "entity_kind \<Rightarrow> entity_kind \<Rightarrow> bool" where
  "a < b \<longleftrightarrow> entity_kind_number a < entity_kind_number b"

instance
  by standard (auto simp: less_eq_entity_kind_def less_entity_kind_def)

end

datatype entity_id = EntityId (entity_value: uint128)

instantiation entity_id :: linorder
begin

definition less_eq_entity_id :: "entity_id \<Rightarrow> entity_id \<Rightarrow> bool" where
  "a \<le> b \<longleftrightarrow> entity_value a \<le> entity_value b"

definition less_entity_id :: "entity_id \<Rightarrow> entity_id \<Rightarrow> bool" where
  "a < b \<longleftrightarrow> entity_value a < entity_value b"

instance
  by standard (auto simp: less_eq_entity_id_def less_entity_id_def intro: entity_id.expand)

end

definition entity_is_nil :: "entity_id \<Rightarrow> bool" where
  "entity_is_nil i \<longleftrightarrow> u128_is_zero (entity_value i)"

definition entity_id_to_text :: "entity_id \<Rightarrow> string" where
  "entity_id_to_text i = ''e:'' @ u128_to_hex (entity_value i)"

definition entity_id_from_text :: "string \<Rightarrow> entity_id result" where
  "entity_id_from_text cs =
     rbind (u128_from_hex (remove_prefix ''e:'' cs)) (\<lambda>v. Inr (EntityId v))"

type_synonym entity_ref = "entity_kind \<times> entity_id"

definition entity_ref_to_text :: "entity_ref \<Rightarrow> string" where
  "entity_ref_to_text r = entity_kind_text (fst r) @ ''/'' @ u128_to_hex (entity_value (snd r))"

definition entity_ref_from_text :: "string \<Rightarrow> entity_ref result" where
  "entity_ref_from_text cs =
     (case split_first (CHR ''/'') cs of
        None \<Rightarrow> err SC_MalformedInput ''entity reference must have the form <kind>/<hex>''
      | Some (kind_text, id_text) \<Rightarrow>
          rbind (entity_kind_from_string kind_text) (\<lambda>kind.
          rbind (entity_id_from_text id_text) (\<lambda>i. Inr (kind, i))))"

text \<open>\<^verbatim>\<open>derive_entity\<close> on the typed text of an identity of the given kind.\<close>

definition derive_entity :: "entity_kind \<Rightarrow> string \<Rightarrow> entity_id" where
  "derive_entity kind typed_text =
     EntityId (derive_u128 ''entity'' (entity_kind_text kind @ ''/'' @ typed_text))"

section \<open>Subjects\<close>

record subject_identity =
  su_kind :: entity_kind
  su_id :: entity_id
  su_fabric :: fabric_id
  su_site :: site_id
  su_pod :: pod_id
  su_rack :: rack_id
  su_device :: device_id
  su_port :: port_id
  su_link :: link_id
  su_path :: path_id

definition nil_u128 :: uint128 where
  "nil_u128 = Uint128 0 0"

definition nil_port :: port_id where
  "nil_port = PortId (BasicId nil_u128) 0"

text \<open>A default-constructed \<^verbatim>\<open>SubjectIdentity\<close>.\<close>

definition subject_default :: subject_identity where
  "subject_default = \<lparr>su_kind = EK_Fabric, su_id = EntityId nil_u128, su_fabric = BasicId nil_u128,
     su_site = BasicId nil_u128, su_pod = BasicId nil_u128, su_rack = BasicId nil_u128,
     su_device = BasicId nil_u128, su_port = nil_port, su_link = LinkId nil_port nil_port,
     su_path = PathId nil_u128\<rparr>"

definition typed_subject :: "entity_kind \<Rightarrow> string \<Rightarrow> subject_identity" where
  "typed_subject kind typed =
     subject_default\<lparr>su_kind := kind, su_id := derive_entity kind typed\<rparr>"

definition subject_of_fabric :: "fabric_id \<Rightarrow> subject_identity" where
  "subject_of_fabric v = (typed_subject EK_Fabric (id_to_text ''fab'' v))\<lparr>su_fabric := v\<rparr>"

definition subject_of_site :: "site_id \<Rightarrow> subject_identity" where
  "subject_of_site v = (typed_subject EK_Site (id_to_text ''site'' v))\<lparr>su_site := v\<rparr>"

definition subject_of_pod :: "pod_id \<Rightarrow> subject_identity" where
  "subject_of_pod v = (typed_subject EK_Pod (id_to_text ''pod'' v))\<lparr>su_pod := v\<rparr>"

definition subject_of_rack :: "rack_id \<Rightarrow> subject_identity" where
  "subject_of_rack v = (typed_subject EK_Rack (id_to_text ''rack'' v))\<lparr>su_rack := v\<rparr>"

definition subject_of_device :: "device_id \<Rightarrow> subject_identity" where
  "subject_of_device v = (typed_subject EK_Device (id_to_text ''dev'' v))\<lparr>su_device := v\<rparr>"

definition subject_of_port :: "port_id \<Rightarrow> subject_identity" where
  "subject_of_port v = (typed_subject EK_Port (port_to_text v))\<lparr>su_port := v\<rparr>"

definition subject_of_link :: "link_id \<Rightarrow> subject_identity" where
  "subject_of_link v = (typed_subject EK_Link (link_to_text v))\<lparr>su_link := v\<rparr>"

definition subject_of_path :: "path_id \<Rightarrow> subject_identity" where
  "subject_of_path v = (typed_subject EK_Path (path_to_text v))\<lparr>su_path := v\<rparr>"

definition subject_ref :: "subject_identity \<Rightarrow> entity_ref" where
  "subject_ref s = (su_kind s, su_id s)"

definition typed_body :: "subject_identity \<Rightarrow> string" where
  "typed_body s =
     (case su_kind s of
        EK_Fabric \<Rightarrow> id_to_text ''fab'' (su_fabric s)
      | EK_Site \<Rightarrow> id_to_text ''site'' (su_site s)
      | EK_Pod \<Rightarrow> id_to_text ''pod'' (su_pod s)
      | EK_Rack \<Rightarrow> id_to_text ''rack'' (su_rack s)
      | EK_Device \<Rightarrow> id_to_text ''dev'' (su_device s)
      | EK_Port \<Rightarrow> port_to_text (su_port s)
      | EK_Link \<Rightarrow> link_to_text (su_link s)
      | EK_Path \<Rightarrow> path_to_text (su_path s))"

definition typed_text :: "subject_identity \<Rightarrow> string" where
  "typed_text s = entity_kind_text (su_kind s) @ ''/'' @ typed_body s"

definition subject_from_text :: "string \<Rightarrow> subject_identity result" where
  "subject_from_text cs =
     (case split_first (CHR ''/'') cs of
        None \<Rightarrow> err SC_MalformedInput ''typed identity must have the form <kind>/<identity>''
      | Some (kind_text, body) \<Rightarrow>
          rbind (entity_kind_from_string kind_text) (\<lambda>kind.
          case kind of
            EK_Fabric \<Rightarrow> rbind (id_from_text ''fab'' body) (\<lambda>v. Inr (subject_of_fabric v))
          | EK_Site \<Rightarrow> rbind (id_from_text ''site'' body) (\<lambda>v. Inr (subject_of_site v))
          | EK_Pod \<Rightarrow> rbind (id_from_text ''pod'' body) (\<lambda>v. Inr (subject_of_pod v))
          | EK_Rack \<Rightarrow> rbind (id_from_text ''rack'' body) (\<lambda>v. Inr (subject_of_rack v))
          | EK_Device \<Rightarrow> rbind (id_from_text ''dev'' body) (\<lambda>v. Inr (subject_of_device v))
          | EK_Port \<Rightarrow> rbind (port_from_text body) (\<lambda>v. Inr (subject_of_port v))
          | EK_Link \<Rightarrow> rbind (link_from_text body) (\<lambda>v. Inr (subject_of_link v))
          | EK_Path \<Rightarrow> rbind (path_from_text body) (\<lambda>v. Inr (subject_of_path v))))"

text \<open>The member-wise order of \<^verbatim>\<open>SubjectIdentity\<close>, as the tuple of its members.\<close>

definition link_key :: "link_id \<Rightarrow> port_id \<times> port_id" where
  "link_key l = (link_local l, link_remote l)"

definition subject_key where
  "subject_key s = (su_kind s, su_id s, su_fabric s, su_site s, su_pod s, su_rack s, su_device s,
     su_port s, link_key (su_link s), path_value (su_path s))"

text \<open>The subjects the runtime can build: what one of the \<^verbatim>\<open>of\<close> functions returns.\<close>

definition wf_subject :: "subject_identity \<Rightarrow> bool" where
  "wf_subject s \<longleftrightarrow>
     (case su_kind s of
        EK_Fabric \<Rightarrow> s = subject_of_fabric (su_fabric s)
      | EK_Site \<Rightarrow> s = subject_of_site (su_site s)
      | EK_Pod \<Rightarrow> s = subject_of_pod (su_pod s)
      | EK_Rack \<Rightarrow> s = subject_of_rack (su_rack s)
      | EK_Device \<Rightarrow> s = subject_of_device (su_device s)
      | EK_Port \<Rightarrow> s = subject_of_port (su_port s)
      | EK_Link \<Rightarrow> s = subject_of_link (su_link s) \<and> wf_link (su_link s)
      | EK_Path \<Rightarrow> s = subject_of_path (su_path s))"

section \<open>Round trips\<close>

subsection \<open>Ports\<close>

abbreviation decimal_value :: "nat \<Rightarrow> string \<Rightarrow> nat" where
  "decimal_value \<equiv> foldl (\<lambda>v ch. v * 10 + digit_value ch)"

lemma decimal_value_mono: "v \<le> decimal_value v cs"
proof (induction cs arbitrary: v)
  case (Cons ch cs)
  have "v \<le> v * 10 + digit_value ch" by simp
  also have "\<dots> \<le> decimal_value (v * 10 + digit_value ch) cs" by (rule Cons.IH)
  finally show ?case by simp
qed simp

lemma port_index_loop_decimal:
  assumes "list_all is_digit_char cs" and "decimal_value (unat i) cs < 2 ^ 64"
  shows "port_index_loop i cs = Inr (of_nat (decimal_value (unat i) cs))"
  using assms
proof (induction i cs rule: port_index_loop.induct)
  case (2 i ch cs)
  let ?v = "unat i * 10 + digit_value ch"
  have v: "?v < 2 ^ 64"
    using decimal_value_mono[of ?v cs] "2.prems" by simp
  have mul: "checked_mul i 10 = Some (of_nat (unat i * 10))"
    by (subst checked_mul_Some, subst unat_of_nat_small) (use v in simp_all)
  have add: "checked_add (of_nat (unat i * 10)) (of_nat (digit_value ch)) =
      Some (of_nat ?v :: 64 word)"
  proof -
    have "unat (of_nat n :: 64 word) = n" if "n \<le> ?v" for n
      using that v by (intro unat_of_nat_small) simp
    then show ?thesis by (simp only: checked_add_Some)
  qed
  have digits: "unat (of_nat ?v :: 64 word) = ?v"
    by (rule unat_of_nat_small) (use v in simp)
  have "port_index_loop (of_nat ?v) cs = Inr (of_nat (decimal_value ?v cs))"
    using "2.IH"[of "of_nat (unat i * 10)" "of_nat ?v"] "2.prems" mul add digits by simp
  then show ?case
    using "2.prems" mul add by simp
qed simp

lemma port_index_loop_nat_text:
  "n < 2 ^ 64 \<Longrightarrow> port_index_loop 0 (nat_text n) = Inr (of_nat n)"
  using port_index_loop_decimal[of "nat_text n" 0]
  by (simp add: nat_text_digits nat_text_value)

lemma no_separator_digits:
  "c \<in> set (nat_text n) \<Longrightarrow> is_digit_char c"
  using nat_text_digits[of n] by (auto simp: list_all_iff)

lemma slash_not_digit: "\<not> is_digit_char (CHR ''/'')" "\<not> is_digit_char (CHR ''|'')"
  by (simp_all add: is_digit_char_def less_eq_char_def)

lemma hex_no_separator:
  "CHR ''/'' \<notin> set (u128_to_hex v)" "CHR ''|'' \<notin> set (u128_to_hex v)"
  using set_u128_to_hex[of v] by (auto simp: hex_digits_def)

lemma checked_u32_of_u32: "checked_u32 (ucast (i :: 32 word)) = Some i"
proof -
  have up: "unat (ucast j :: 64 word) = unat j" for j :: "32 word"
    using unat_lt2p[of j] by (simp add: unsigned_ucast_eq take_bit_nat_eq_self)
  have "unat i \<le> unat (word_max :: 32 word)"
    using unat_lt2p[of i] by (simp add: unat_minus_one_word)
  then have "\<not> ucast i > (ucast (word_max :: 32 word) :: 64 word)"
    by (simp only: word_less_nat_alt up not_less)
  moreover have "ucast (ucast i :: 64 word) = i"
    by (rule bit_word_eqI) (auto simp: bit_ucast_iff dest: bit_imp_le_length)
  ultimately show ?thesis
    by (simp add: checked_u32_def)
qed

lemma port_text_split:
  "split_last (CHR ''/'') (remove_prefix ''port:'' (port_to_text p)) =
     Some (id_to_text ''dev'' (port_device p), nat_text (unat (port_index p)))"
proof -
  have "CHR ''/'' \<notin> set (nat_text (unat (port_index p)))"
    using no_separator_digits slash_not_digit by blast
  then have "split_last (CHR ''/'') (id_to_text ''dev'' (port_device p) @ CHR ''/'' #
      nat_text (unat (port_index p))) =
      Some (id_to_text ''dev'' (port_device p), nat_text (unat (port_index p)))"
    by (rule split_last_append)
  moreover have "remove_prefix ''port:'' (port_to_text p) =
      id_to_text ''dev'' (port_device p) @ CHR ''/'' # nat_text (unat (port_index p))"
    unfolding port_to_text_def remove_prefix_append by simp
  ultimately show ?thesis by simp
qed

lemma port_from_to_text: "port_from_text (port_to_text p) = Inr p"
proof -
  have "unat (port_index p) < 2 ^ 64"
    using unat_lt2p[of "port_index p"] by simp
  then show ?thesis
    by (cases p) (simp add: port_from_text_def port_text_split nat_text_nonempty id_from_to_text
        port_index_loop_nat_text checked_u32_of_u32, simp add: id_to_text_def)
qed

lemma id_text_no_bar: "CHR ''|'' \<notin> set (id_to_text ''dev'' i)"
  by (simp add: id_to_text_def hex_no_separator)

lemma port_text_no_bar: "CHR ''|'' \<notin> set (port_to_text p)"
  using no_separator_digits slash_not_digit id_text_no_bar[of "port_device p"]
  by (auto simp: port_to_text_def)

subsection \<open>Links and paths\<close>

lemma link_make_commutes: "link_make a b = link_make b a"
  by (auto simp: link_make_def)

lemma link_make_wf: "link_make a b = Inr l \<Longrightarrow> wf_link l"
  by (auto simp: link_make_def wf_link_def split: if_splits)

lemma link_make_ends:
  "link_make a b = Inr l \<Longrightarrow> {link_local l, link_remote l} = {a, b}"
  by (auto simp: link_make_def split: if_splits)

lemma link_make_of_wf: "wf_link l \<Longrightarrow> link_make (link_local l) (link_remote l) = Inr l"
  by (cases l) (auto simp: wf_link_def link_make_def)

lemma link_text_split:
  "split_first (CHR ''|'') (remove_prefix ''link:'' (link_to_text l)) =
     Some (port_to_text (link_local l), port_to_text (link_remote l))"
proof -
  have "remove_prefix ''link:'' (link_to_text l) =
      port_to_text (link_local l) @ CHR ''|'' # port_to_text (link_remote l)"
    unfolding link_to_text_def remove_prefix_append by simp
  then show ?thesis by (simp add: split_first_append port_text_no_bar)
qed

lemma link_from_to_text: "wf_link l \<Longrightarrow> link_from_text (link_to_text l) = Inr l"
  by (simp add: link_from_text_def link_text_split port_from_to_text link_make_of_wf)

lemma link_from_text_wf: "link_from_text cs = Inr l \<Longrightarrow> wf_link l"
  by (auto simp: link_from_text_def rbind_Inr_iff link_make_wf split: option.splits)

lemma path_from_to_text: "path_from_text (path_to_text p) = Inr p"
  unfolding path_from_text_def path_to_text_def
  by (simp only: remove_prefix_append u128_from_to_hex rbind.simps path_id.collapse)

subsection \<open>Entities and subjects\<close>

lemma kind_text_no_slash: "CHR ''/'' \<notin> set (entity_kind_text k)"
  by (cases k) (simp_all add: entity_kind_text_def enum_name_def entity_kind_names_def)

lemma entity_kind_from_to_text: "entity_kind_from_string (entity_kind_text k) = Inr k"
  by (simp add: entity_kind_from_string_def entity_kind_text_def kind_enum.of_name_name)

lemma entity_id_from_to_text: "entity_id_from_text (entity_id_to_text i) = Inr i"
  unfolding entity_id_from_text_def entity_id_to_text_def remove_prefix_append
  by (simp add: u128_from_to_hex)

lemma hex_not_colon: "CHR '':'' \<notin> set (u128_to_hex v)"
  using set_u128_to_hex[of v] by (auto simp: hex_digits_def)

lemma remove_prefix_hex: "remove_prefix ''e:'' (u128_to_hex v) = u128_to_hex v"
proof -
  have "\<not> starts_with (u128_to_hex v) ''e:''"
  proof
    assume "starts_with (u128_to_hex v) ''e:''"
    then have "take 2 (u128_to_hex v) = ''e:''"
      by (simp add: starts_with_def numeral_2_eq_2)
    then have "CHR '':'' \<in> set (take 2 (u128_to_hex v))" by simp
    then show False using hex_not_colon set_take_subset by fast
  qed
  then show ?thesis by (simp add: remove_prefix_def)
qed

lemma entity_ref_from_to_text: "entity_ref_from_text (entity_ref_to_text r) = Inr r"
  by (cases r) (simp add: entity_ref_from_text_def entity_ref_to_text_def split_first_append
      kind_text_no_slash entity_kind_from_to_text entity_id_from_text_def remove_prefix_hex
      u128_from_to_hex)

lemma typed_text_split:
  "split_first (CHR ''/'') (typed_text s) = Some (entity_kind_text (su_kind s), typed_body s)"
  by (simp add: typed_text_def split_first_append kind_text_no_slash)

lemmas subject_of_defs = subject_of_fabric_def subject_of_site_def subject_of_pod_def
  subject_of_rack_def subject_of_device_def subject_of_port_def subject_of_link_def
  subject_of_path_def

lemma su_kind_of [simp]:
  "su_kind (subject_of_fabric a) = EK_Fabric" "su_kind (subject_of_site b) = EK_Site"
  "su_kind (subject_of_pod c) = EK_Pod" "su_kind (subject_of_rack d) = EK_Rack"
  "su_kind (subject_of_device e) = EK_Device" "su_kind (subject_of_port f) = EK_Port"
  "su_kind (subject_of_link g) = EK_Link" "su_kind (subject_of_path h) = EK_Path"
  by (simp_all add: subject_of_defs typed_subject_def)

lemma su_field_of [simp]:
  "su_fabric (subject_of_fabric a) = a" "su_site (subject_of_site b) = b"
  "su_pod (subject_of_pod c) = c" "su_rack (subject_of_rack d) = d"
  "su_device (subject_of_device e) = e" "su_port (subject_of_port f) = f"
  "su_link (subject_of_link g) = g" "su_path (subject_of_path h) = h"
  by (simp_all add: subject_of_defs)

lemma wf_subject_of:
  "wf_subject (subject_of_fabric a)" "wf_subject (subject_of_site b)"
  "wf_subject (subject_of_pod c)" "wf_subject (subject_of_rack d)"
  "wf_subject (subject_of_device e)" "wf_subject (subject_of_port f)"
  "wf_link g \<Longrightarrow> wf_subject (subject_of_link g)" "wf_subject (subject_of_path h)"
  by (simp_all add: wf_subject_def)

lemmas typed_codecs = id_from_to_text port_from_to_text link_from_to_text path_from_to_text

lemma subject_from_typed_text: "wf_subject s \<Longrightarrow> subject_from_text (typed_text s) = Inr s"
  by (cases "su_kind s")
     (simp_all add: wf_subject_def subject_from_text_def typed_text_split typed_body_def
       entity_kind_from_to_text typed_codecs)

lemma subject_from_text_wf: "subject_from_text cs = Inr s \<Longrightarrow> wf_subject s"
  by (auto simp: subject_from_text_def rbind_Inr_iff wf_subject_of link_from_text_wf
      split: option.splits entity_kind.splits)
     (metis entity_kind.exhaust)

lemma wf_subject_cases:
  assumes "wf_subject s"
  obtains (fabric) a where "s = subject_of_fabric a" | (site) b where "s = subject_of_site b"
  | (pod) c where "s = subject_of_pod c" | (rack) d where "s = subject_of_rack d"
  | (device) e where "s = subject_of_device e" | (port) f where "s = subject_of_port f"
  | (link) g where "s = subject_of_link g" "wf_link g" | (path) h where "s = subject_of_path h"
  using assms by (cases "su_kind s") (auto simp: wf_subject_def)

text \<open>The identifier of a subject is the derivation of its own typed text.\<close>

lemma su_id_of:
  "su_id (subject_of_fabric a) = derive_entity EK_Fabric (id_to_text ''fab'' a)"
  "su_id (subject_of_site b) = derive_entity EK_Site (id_to_text ''site'' b)"
  "su_id (subject_of_pod c) = derive_entity EK_Pod (id_to_text ''pod'' c)"
  "su_id (subject_of_rack d) = derive_entity EK_Rack (id_to_text ''rack'' d)"
  "su_id (subject_of_device e) = derive_entity EK_Device (id_to_text ''dev'' e)"
  "su_id (subject_of_port f) = derive_entity EK_Port (port_to_text f)"
  "su_id (subject_of_link g) = derive_entity EK_Link (link_to_text g)"
  "su_id (subject_of_path h) = derive_entity EK_Path (path_to_text h)"
  by (simp_all add: subject_of_defs typed_subject_def)

lemma subject_id_derived:
  "wf_subject s \<Longrightarrow> su_id s = EntityId (derive_u128 ''entity'' (typed_text s))"
  by (erule wf_subject_cases)
     (simp_all add: su_id_of derive_entity_def typed_text_def typed_body_def)

lemma subject_key_inject: "subject_key a = subject_key b \<Longrightarrow> a = (b :: subject_identity)"
  by (auto simp: subject_key_def link_key_def intro!: subject_identity.equality
      link_id.expand path_id.expand)

lemma inj_subject_key: "inj (subject_key :: subject_identity \<Rightarrow> _)"
  by (rule injI) (rule subject_key_inject)

subsection \<open>Lengths, and what a path is hashed from\<close>

lemma length_nat_text: "n < 10 ^ Suc k \<Longrightarrow> length (nat_text n) \<le> Suc k"
proof (induction k arbitrary: n)
  case 0
  then show ?case by (subst nat_text.simps) simp
next
  case (Suc k)
  then have "n div 10 < 10 ^ Suc k" by (simp add: div_less_iff_less_mult mult.commute)
  with Suc.IH[of "n div 10"] show ?case
    by (subst nat_text.simps) simp
qed

lemma length_port_text: "length (port_to_text p) \<le> 52"
proof -
  have "unat (port_index p) < 10 ^ Suc 9"
    using unat_lt2p[of "port_index p"] by simp
  then have "length (nat_text (unat (port_index p))) \<le> 10"
    using length_nat_text by fastforce
  then show ?thesis
    by (simp add: port_to_text_def id_to_text_def)
qed

lemma length_link_text: "length (link_to_text l) \<le> 110"
  using length_port_text[of "link_local l"] length_port_text[of "link_remote l"]
  by (simp add: link_to_text_def)

lemma length_typed_text: "length (typed_text s) \<le> 117"
proof -
  have "length (entity_kind_text (su_kind s)) \<le> 6"
    by (cases "su_kind s") (simp_all add: entity_kind_text_def enum_name_def entity_kind_names_def)
  moreover have "length (typed_body s) \<le> 110"
    using length_port_text[of "su_port s"] length_link_text[of "su_link s"]
    by (cases "su_kind s") (simp_all add: typed_body_def id_to_text_def path_to_text_def)
  ultimately show ?thesis by (simp add: typed_text_def)
qed

text \<open>
  The bytes \<^verbatim>\<open>PathId::from_hops\<close> feeds to the hash. A hop is length-prefixed by one byte, and
  its text is never long enough for that byte to wrap.
\<close>

definition path_preimage :: "link_id list \<Rightarrow> byte list" where
  "path_preimage hops = enc_tag ''path'' @ enc_u64 (of_nat (length hops)) @
     concat (map (\<lambda>hop. enc_tag (link_to_text hop)) hops)"

lemma concat_singletons: "concat (map (\<lambda>b. [b]) bs) = bs"
  by (induction bs) simp_all

lemma path_from_hops_preimage:
  "path_from_hops hops = PathId (u128_of_bytes (sha256_spec (path_preimage hops)))"
proof -
  have hops: "concat (concat (map (\<lambda>hop. [[of_nat (length (link_to_text hop)) AND 0xFF],
      bytes_of_string (link_to_text hop)]) hops)) =
      concat (map (\<lambda>hop. enc_tag (link_to_text hop)) hops)"
    by (induction hops) (simp_all add: enc_tag_def enc_u8_def)
  have tag: "of_nat (length ''path'') # bytes_of_string ''path'' = enc_tag ''path''"
    by (simp add: enc_tag_def enc_u8_def)
  show ?thesis
    unfolding path_from_hops_def path_preimage_def sha256_chunks_concat tag[symmetric]
    by (simp add: hops concat_singletons)
qed

lemma link_text_inject: "wf_link a \<Longrightarrow> wf_link b \<Longrightarrow> link_to_text a = link_to_text b \<Longrightarrow> a = b"
  by (metis link_from_to_text sum.inject(2))

lemma enc_tag_unambiguous:
  assumes "length a < 256" "length b < 256" "enc_tag a @ r = enc_tag b @ s"
  shows "a = b \<and> r = s"
proof -
  have mask: "(of_nat (length c) AND 0xFF :: byte) = of_nat (length c)" for c :: string
    using ucast_and_255[of "of_nat (length c) :: byte"] by simp
  have heads: "(of_nat (length a) :: byte) = of_nat (length b)"
    and tails: "bytes_of_string a @ r = bytes_of_string b @ s"
    using assms(3) by (simp_all add: enc_tag_def enc_u8_def mask)
  have "unat (of_nat (length a) :: byte) = unat (of_nat (length b) :: byte)"
    using heads by simp
  then have "length a = length b"
    using assms(1,2) by (simp add: unat_of_nat take_bit_nat_eq_self)
  with tails have "bytes_of_string a = bytes_of_string b" "r = s"
    by simp_all
  then show ?thesis using string_of_bytes_of_string by metis
qed

lemma hops_unambiguous:
  assumes "length xs = length ys" "list_all wf_link xs" "list_all wf_link ys"
    and "concat (map (\<lambda>hop. enc_tag (link_to_text hop)) xs) =
         concat (map (\<lambda>hop. enc_tag (link_to_text hop)) ys)"
  shows "xs = ys"
  using assms
proof (induction xs ys rule: list_induct2)
  case (Cons x xs y ys)
  have short: "length (link_to_text l) < 256" for l
    using length_link_text[of l] by simp
  have "link_to_text x = link_to_text y \<and>
      concat (map (\<lambda>hop. enc_tag (link_to_text hop)) xs) =
      concat (map (\<lambda>hop. enc_tag (link_to_text hop)) ys)"
    using Cons.prems(3) by (intro enc_tag_unambiguous short) simp
  with Cons show ?case by (auto intro: link_text_inject)
qed simp

lemma path_preimage_inject:
  assumes "length xs < 2 ^ 64" "length ys < 2 ^ 64" "list_all wf_link xs" "list_all wf_link ys"
    and eq: "path_preimage xs = path_preimage ys"
  shows "xs = ys"
proof -
  have "enc_u64 (of_nat (length xs)) @ concat (map (\<lambda>hop. enc_tag (link_to_text hop)) xs) =
      enc_u64 (of_nat (length ys)) @ concat (map (\<lambda>hop. enc_tag (link_to_text hop)) ys)"
    using eq by (simp add: path_preimage_def)
  from u64_codec.unambiguous[OF _ _ this]
  have count: "(of_nat (length xs) :: 64 word) = of_nat (length ys)"
    and hops: "concat (map (\<lambda>hop. enc_tag (link_to_text hop)) xs) =
      concat (map (\<lambda>hop. enc_tag (link_to_text hop)) ys)" by simp_all
  have "length xs = length ys"
    using assms(1,2) arg_cong[OF count, of unat] by (simp add: unat_of_nat take_bit_nat_eq_self)
  then show ?thesis using assms(3,4) hops by (rule hops_unambiguous)
qed

end
