(* ===== verification/Fab_Value.thy ===== *)
theory Fab_Value
  imports Fab_Ids
begin

text \<open>
  \<^verbatim>\<open>value.hpp\<close> and \<^verbatim>\<open>value.cpp\<close>: the bounded value tree of claims. The tagged struct is a
  datatype; the cached \<^verbatim>\<open>depth_\<close> and \<^verbatim>\<open>node_count_\<close> are the functions the constructors
  compute them with. A real is its 64 bits, which is all the runtime looks at (encoding,
  ordering, finiteness). The results: the three-way comparison is a linear order (it is the
  lexicographic order of a prefix-free flattening), the canonical text is injective, and
  decoding is the exact inverse of encoding within the limits.

  \<^verbatim>\<open>display_text\<close> prints reals with \<^verbatim>\<open>std::to_chars\<close> and is not modelled.
\<close>

section \<open>Values and their limits\<close>

record value_limits =
  max_depth :: nat
  max_list_elements :: nat
  max_map_entries :: nat
  max_text_bytes :: nat
  max_blob_bytes :: nat
  max_total_nodes :: nat

definition default_value_limits :: value_limits where
  "default_value_limits = \<lparr>max_depth = 8, max_list_elements = 1024, max_map_entries = 256,
     max_text_bytes = 4096, max_blob_bytes = 4096, max_total_nodes = 4096\<rparr>"

datatype fvalue =
    VNull
  | VBool bool
  | VInt "64 word"
  | VUint "64 word"
  | VReal "64 word"
  | VText string
  | VBlob "byte list"
  | VList "fvalue list"
  | VMap "(string \<times> fvalue) list"

fun value_kind :: "fvalue \<Rightarrow> nat" where
  "value_kind VNull = 0"
| "value_kind (VBool _) = 1"
| "value_kind (VInt _) = 2"
| "value_kind (VUint _) = 3"
| "value_kind (VReal _) = 4"
| "value_kind (VText _) = 5"
| "value_kind (VBlob _) = 6"
| "value_kind (VList _) = 7"
| "value_kind (VMap _) = 8"

fun value_depth :: "fvalue \<Rightarrow> nat" where
  "value_depth (VList xs) = foldl (\<lambda>d x. max d (value_depth x + 1)) 1 xs"
| "value_depth (VMap es) = foldl (\<lambda>d e. max d (value_depth (snd e) + 1)) 1 es"
| "value_depth _ = 1"

fun value_nodes :: "fvalue \<Rightarrow> nat" where
  "value_nodes (VList xs) = Suc (sum_list (map value_nodes xs))"
| "value_nodes (VMap es) = Suc (sum_list (map (\<lambda>e. value_nodes (snd e)) es))"
| "value_nodes _ = 1"

text \<open>\<^verbatim>\<open>checked_add\<close> on \<^verbatim>\<open>size_t\<close> over the children: \<open>None\<close> when the count overflows.\<close>

fun count_nodes :: "nat \<Rightarrow> fvalue list \<Rightarrow> nat option" where
  "count_nodes n [] = Some n"
| "count_nodes n (x # xs) =
     (if n + value_nodes x < 2 ^ 64 then count_nodes (n + value_nodes x) xs else None)"

text \<open>\<^verbatim>\<open>std::isfinite\<close>: an exponent field of all ones is an infinity or a NaN.\<close>

definition real_is_finite :: "64 word \<Rightarrow> bool" where
  "real_is_finite bits \<longleftrightarrow> drop_bit 52 bits AND 0x7FF \<noteq> 0x7FF"

definition value_real :: "64 word \<Rightarrow> fvalue result" where
  "value_real bits =
     (if \<not> real_is_finite bits
      then err SC_InvalidArgument ''non-finite real values are not representable and are rejected''
      else Inr (VReal bits))"

definition value_text :: "string \<Rightarrow> value_limits \<Rightarrow> fvalue result" where
  "value_text s l =
     (if length s > max_text_bytes l
      then err SC_TooLarge ''text value exceeds the configured maximum length''
      else Inr (VText s))"

definition value_blob :: "byte list \<Rightarrow> value_limits \<Rightarrow> fvalue result" where
  "value_blob bs l =
     (if length bs > max_blob_bytes l
      then err SC_TooLarge ''blob value exceeds the configured maximum length''
      else Inr (VBlob bs))"

definition value_list :: "fvalue list \<Rightarrow> value_limits \<Rightarrow> fvalue result" where
  "value_list xs l =
     (if length xs > max_list_elements l
      then err SC_TooLarge ''list value exceeds the configured maximum element count''
      else case count_nodes 1 xs of
        None \<Rightarrow> err SC_TooLarge ''list value node count overflows''
      | Some nodes \<Rightarrow>
          if foldl (\<lambda>d x. max d (value_depth x + 1)) 1 xs > max_depth l
          then err SC_DepthExceeded ''list value exceeds the configured maximum depth''
          else if nodes > max_total_nodes l
          then err SC_TooLarge ''list value exceeds the configured maximum node count''
          else Inr (VList xs))"

fun has_adjacent_duplicate :: "('k \<times> 'v) list \<Rightarrow> bool" where
  "has_adjacent_duplicate (a # b # es) \<longleftrightarrow> fst a = fst b \<or> has_adjacent_duplicate (b # es)"
| "has_adjacent_duplicate _ \<longleftrightarrow> False"

definition value_map :: "(string \<times> fvalue) list \<Rightarrow> value_limits \<Rightarrow> fvalue result" where
  "value_map entries l =
     (if length entries > max_map_entries l
      then err SC_TooLarge ''map value exceeds the configured maximum entry count''
      else if list_ex (\<lambda>e. length (fst e) > max_text_bytes l) entries
      then err SC_TooLarge ''map key exceeds the configured maximum length''
      else let es = sort_key fst entries in
        if has_adjacent_duplicate es
        then err SC_InvalidArgument ''map value contains a duplicate key''
        else case count_nodes 1 (map snd es) of
          None \<Rightarrow> err SC_TooLarge ''map value node count overflows''
        | Some nodes \<Rightarrow>
            if foldl (\<lambda>d e. max d (value_depth (snd e) + 1)) 1 es > max_depth l
            then err SC_DepthExceeded ''map value exceeds the configured maximum depth''
            else if nodes > max_total_nodes l
            then err SC_TooLarge ''map value exceeds the configured maximum node count''
            else Inr (VMap es))"

text \<open>\<^verbatim>\<open>validate\<close>: the first violation met decides the status.\<close>

fun value_validate :: "value_limits \<Rightarrow> fvalue \<Rightarrow> unit result"
  and validate_all :: "value_limits \<Rightarrow> fvalue list \<Rightarrow> unit result"
  and validate_entries :: "value_limits \<Rightarrow> (string \<times> fvalue) list \<Rightarrow> unit result" where
  "value_validate l v =
     (if value_nodes v > max_total_nodes l
      then err SC_TooLarge ''value exceeds the configured node count''
      else if value_depth v > max_depth l
      then err SC_DepthExceeded ''value exceeds the configured depth''
      else case v of
        VText s \<Rightarrow> if length s > max_text_bytes l
                   then err SC_TooLarge ''text value exceeds the configured length'' else Inr ()
      | VBlob bs \<Rightarrow> if length bs > max_blob_bytes l
                    then err SC_TooLarge ''blob value exceeds the configured length'' else Inr ()
      | VList xs \<Rightarrow> if length xs > max_list_elements l
                    then err SC_TooLarge ''list value exceeds the configured element count''
                    else validate_all l xs
      | VMap es \<Rightarrow> if length es > max_map_entries l
                   then err SC_TooLarge ''map value exceeds the configured entry count''
                   else validate_entries l es
      | _ \<Rightarrow> Inr ())"
| "validate_all l [] = Inr ()"
| "validate_all l (x # xs) = rbind (value_validate l x) (\<lambda>_. validate_all l xs)"
| "validate_entries l [] = Inr ()"
| "validate_entries l (e # es) =
     (if length (fst e) > max_text_bytes l
      then err SC_TooLarge ''map key exceeds the configured length''
      else rbind (value_validate l (snd e)) (\<lambda>_. validate_entries l es))"

declare value_validate.simps [simp del]

section \<open>Canonical text\<close>

definition real_hex :: "64 word \<Rightarrow> string" where
  "real_hex bits = hex_encode (enc_u64 bits)"

fun canonical_text :: "fvalue \<Rightarrow> string"
  and list_text :: "fvalue list \<Rightarrow> string"
  and map_text :: "(string \<times> fvalue) list \<Rightarrow> string" where
  "canonical_text VNull = ''n''"
| "canonical_text (VBool b) = (if b then ''b:1'' else ''b:0'')"
| "canonical_text (VInt w) = ''i:'' @ int_text (sint w)"
| "canonical_text (VUint w) = ''u:'' @ u64_text w"
| "canonical_text (VReal bits) = ''r:'' @ real_hex bits"
| "canonical_text (VText s) = ''s:'' @ nat_text (length s) @ '':'' @ s"
| "canonical_text (VBlob bs) = ''x:'' @ hex_encode bs"
| "canonical_text (VList xs) = ''l['' @ list_text xs @ '']''"
| "canonical_text (VMap es) = ''m{'' @ map_text es @ ''}''"
| "list_text [] = []"
| "list_text (x # xs) =
     nat_text (length (canonical_text x)) @ '':'' @ canonical_text x @
     (if xs = [] then [] else '','' @ list_text xs)"
| "map_text [] = []"
| "map_text (e # es) =
     nat_text (length (fst e)) @ '':'' @ fst e @ ''='' @
     nat_text (length (canonical_text (snd e))) @ '':'' @ canonical_text (snd e) @
     (if es = [] then [] else '','' @ map_text es)"

section \<open>Encoding and decoding\<close>

fun value_encode :: "fvalue \<Rightarrow> byte list"
  and encode_values :: "fvalue list \<Rightarrow> byte list"
  and encode_entries :: "(string \<times> fvalue) list \<Rightarrow> byte list" where
  "value_encode VNull = enc_u8 0"
| "value_encode (VBool b) = enc_u8 1 @ enc_bool b"
| "value_encode (VInt w) = enc_u8 2 @ enc_i64 w"
| "value_encode (VUint w) = enc_u8 3 @ enc_u64 w"
| "value_encode (VReal bits) = enc_u8 4 @ enc_u64 bits"
| "value_encode (VText s) = enc_u8 5 @ enc_text s"
| "value_encode (VBlob bs) = enc_u8 6 @ enc_bytes bs"
| "value_encode (VList xs) = enc_u8 7 @ enc_u64 (of_nat (length xs)) @ encode_values xs"
| "value_encode (VMap es) = enc_u8 8 @ enc_u64 (of_nat (length es)) @ encode_entries es"
| "encode_values [] = []"
| "encode_values (x # xs) = value_encode x @ encode_values xs"
| "encode_entries [] = []"
| "encode_entries (e # es) = enc_text (fst e) @ value_encode (snd e) @ encode_entries es"

text \<open>
  The recursion of \<^verbatim>\<open>Value::decode\<close> is bounded by the input: every level reads a kind byte.
  \<open>value_decode\<close> starts with more fuel than there are bytes left; that the fuel never runs
  out is \<open>decode_fuel_enough\<close> below.
\<close>

fun value_decode_fuel :: "nat \<Rightarrow> value_limits \<Rightarrow> fvalue dec" where
  "value_decode_fuel 0 l = dec_fail SC_Internal ''fuel''"
| "value_decode_fuel (Suc fuel) l = dec_bind dec_u8 (\<lambda>raw_kind.
     if raw_kind > 8 then dec_poison_fail SC_Corrupt ''unknown canonical value kind''
     else if raw_kind = 0 then dec_return VNull
     else if raw_kind = 1 then dec_bind dec_bool (\<lambda>b. dec_return (VBool b))
     else if raw_kind = 2 then dec_bind dec_i64 (\<lambda>w. dec_return (VInt w))
     else if raw_kind = 3 then dec_bind dec_u64 (\<lambda>w. dec_return (VUint w))
     else if raw_kind = 4 then dec_bind dec_u64 (\<lambda>bits. dec_lift (value_real bits))
     else if raw_kind = 5 then dec_bind dec_text (\<lambda>s. dec_lift (value_text s l))
     else if raw_kind = 6 then dec_bind dec_bytes (\<lambda>bs. dec_lift (value_blob bs l))
     else if raw_kind = 7 then dec_bind dec_u64 (\<lambda>count.
       if unat count > max_list_elements l
       then dec_poison_fail SC_TooLarge ''canonical list exceeds the configured bound''
       else dec_bind (dec_repeat (unat count) (value_decode_fuel fuel l))
         (\<lambda>xs. dec_lift (value_list xs l)))
     else dec_bind dec_u64 (\<lambda>count.
       if unat count > max_map_entries l
       then dec_poison_fail SC_TooLarge ''canonical map exceeds the configured bound''
       else dec_bind (dec_repeat (unat count)
           (dec_bind dec_text (\<lambda>k. dec_bind (value_decode_fuel fuel l) (\<lambda>v. dec_return (k, v)))))
         (\<lambda>es. dec_lift (value_map es l))))"

definition value_decode :: "value_limits \<Rightarrow> fvalue dec" where
  "value_decode l d = value_decode_fuel (Suc (cd_remaining d)) l d"

section \<open>The decoder inverts the encoder\<close>

definition wf_value_limits :: "value_limits \<Rightarrow> bool" where
  "wf_value_limits l \<longleftrightarrow> max_depth l < 2 ^ 64 \<and> max_list_elements l < 2 ^ 64 \<and>
     max_map_entries l < 2 ^ 64 \<and> max_text_bytes l < 2 ^ 64 \<and> max_blob_bytes l < 2 ^ 64 \<and>
     max_total_nodes l < 2 ^ 64"

text \<open>What the constructors establish beside the limits: finite reals, sorted maps.\<close>

fun value_wf :: "fvalue \<Rightarrow> bool" where
  "value_wf (VReal bits) = real_is_finite bits"
| "value_wf (VList xs) = list_all value_wf xs"
| "value_wf (VMap es) = (om_sorted es \<and> list_all (\<lambda>e. value_wf (snd e)) es)"
| "value_wf _ = True"

definition value_fits :: "value_limits \<Rightarrow> fvalue \<Rightarrow> bool" where
  "value_fits l v \<longleftrightarrow> value_wf v \<and> value_validate l v = Inr ()"

lemma foldl_max_le:
  "foldl (\<lambda>d x. max d (f x + 1)) a xs \<le> n \<longleftrightarrow> a \<le> n \<and> (\<forall>x\<in>set xs. f x + 1 \<le> (n::nat))"
  by (induction xs arbitrary: a) auto

lemma foldl_max_ge: "(a :: nat) \<le> foldl (\<lambda>d x. max d (f x + 1)) a xs"
  using foldl_max_le[of f a xs "foldl (\<lambda>d x. max d (f x + 1)) a xs"] by simp

lemma value_depth_pos: "1 \<le> value_depth v"
  by (cases v) (simp_all only: value_depth.simps le_refl foldl_max_ge)

lemma count_nodes_Some:
  "n + sum_list (map value_nodes xs) < 2 ^ 64 \<Longrightarrow>
     count_nodes n xs = Some (n + sum_list (map value_nodes xs))"
  by (induction xs arbitrary: n) (simp_all add: add.assoc)

lemma validate_all_ok:
  "validate_all l xs = Inr () \<longleftrightarrow> list_all (\<lambda>x. value_validate l x = Inr ()) xs"
  by (induction xs) (auto simp: rbind_Inr_iff)

lemma validate_entries_ok:
  "validate_entries l es = Inr () \<longleftrightarrow>
     list_all (\<lambda>e. length (fst e) \<le> max_text_bytes l \<and> value_validate l (snd e) = Inr ()) es"
  by (induction es) (auto simp: rbind_Inr_iff)

lemma validate_bounds:
  assumes "value_validate l v = Inr ()"
  shows "value_nodes v \<le> max_total_nodes l" "value_depth v \<le> max_depth l"
  using assms by (auto simp: value_validate.simps[of l v] split: if_splits)

lemma validate_list:
  "value_validate l (VList xs) = Inr () \<longleftrightarrow> value_nodes (VList xs) \<le> max_total_nodes l \<and>
     value_depth (VList xs) \<le> max_depth l \<and> length xs \<le> max_list_elements l \<and>
     list_all (\<lambda>x. value_validate l x = Inr ()) xs"
  by (auto simp: value_validate.simps[of l "VList xs"] validate_all_ok simp del: value_nodes.simps
      value_depth.simps)

lemma validate_map:
  "value_validate l (VMap es) = Inr () \<longleftrightarrow> value_nodes (VMap es) \<le> max_total_nodes l \<and>
     value_depth (VMap es) \<le> max_depth l \<and> length es \<le> max_map_entries l \<and>
     list_all (\<lambda>e. length (fst e) \<le> max_text_bytes l \<and> value_validate l (snd e) = Inr ()) es"
  by (auto simp: value_validate.simps[of l "VMap es"] validate_entries_ok simp del: value_nodes.simps
      value_depth.simps)

lemma has_adjacent_duplicate_sorted:
  "sorted (map fst es) \<Longrightarrow> has_adjacent_duplicate es \<longleftrightarrow> \<not> distinct (map fst es)"
proof (induction es rule: has_adjacent_duplicate.induct)
  case (1 a b es)
  then show ?case by (auto simp: image_iff)
qed simp_all

lemma om_sorted_iff: "om_sorted es \<longleftrightarrow> sorted (map fst es) \<and> distinct (map fst es)"
  by (simp add: om_sorted_def strict_sorted_iff)

text \<open>The constructors accept what fits and change nothing.\<close>

lemma value_list_fits:
  assumes "value_validate l (VList xs) = Inr ()" and "wf_value_limits l"
  shows "value_list xs l = Inr (VList xs)"
proof -
  have "1 + sum_list (map value_nodes xs) \<le> max_total_nodes l"
    using validate_bounds[OF assms(1)] by simp
  moreover from this have "1 + sum_list (map value_nodes xs) < 2 ^ 64"
    using assms(2) by (simp add: wf_value_limits_def)
  ultimately show ?thesis
    using assms(1) validate_bounds[OF assms(1)]
    by (simp add: value_list_def count_nodes_Some validate_list not_less)
qed

lemma value_map_fits:
  assumes "value_validate l (VMap es) = Inr ()" and "wf_value_limits l" and "om_sorted es"
  shows "value_map es l = Inr (VMap es)"
proof -
  have count: "1 + sum_list (map (value_nodes \<circ> snd) es) \<le> max_total_nodes l"
    using validate_bounds[OF assms(1)] by (simp add: comp_def)
  then have small: "1 + sum_list (map value_nodes (map snd es)) < 2 ^ 64"
    using assms(2) by (simp add: wf_value_limits_def)
  have "sort_key fst es = es"
    using assms(3) by (intro sort_key_id_if_sorted) (simp add: om_sorted_iff)
  moreover have "\<not> has_adjacent_duplicate es"
    using assms(3) by (simp add: om_sorted_iff has_adjacent_duplicate_sorted)
  ultimately show ?thesis
    using assms(1) validate_bounds[OF assms(1)] count count_nodes_Some[OF small]
    by (auto simp: value_map_def validate_map list_ex_iff list_all_iff not_less)
qed

lemma encode_values_concat: "encode_values xs = concat (map value_encode xs)"
  by (induction xs) simp_all

lemma encode_entries_concat:
  "encode_entries es = concat (map (\<lambda>e. enc_text (fst e) @ value_encode (snd e)) es)"
  by (induction es) simp_all

lemma validate_leaf:
  "value_validate l (VText s) = Inr () \<Longrightarrow> length s \<le> max_text_bytes l"
  "value_validate l (VBlob bs) = Inr () \<Longrightarrow> length bs \<le> max_blob_bytes l"
  by (auto simp: value_validate.simps split: if_splits)

lemma unat_count: "n \<le> k \<Longrightarrow> k < 2 ^ 64 \<Longrightarrow> unat (of_nat n :: 64 word) = n"
  by (rule unat_of_nat_small) simp

lemma reads_values:
  assumes "\<And>v. v \<in> set vs \<Longrightarrow> reads dec (enc v) v" and "n = length vs"
  shows "reads (dec_repeat n dec) (concat (map enc vs)) vs"
  by (rule codec.reads_repeat[OF codec.intro, where wf = "\<lambda>v. reads dec (enc v) v"])
     (use assms in \<open>simp_all add: list_all_iff\<close>)

lemma reads_value_fuel:
  "value_wf v \<Longrightarrow> value_validate l v = Inr () \<Longrightarrow> wf_value_limits l \<Longrightarrow> value_depth v \<le> n \<Longrightarrow>
   reads (value_decode_fuel n l) (value_encode v) v"
proof (induction v arbitrary: n)
  case (VList xs)
  obtain m where n: "n = Suc m"
    using VList.prems(4) value_depth_pos[of "VList xs"] by (cases n) simp_all
  have facts: "length xs \<le> max_list_elements l" "max_list_elements l < 2 ^ 64"
    using VList.prems by (simp_all add: validate_list wf_value_limits_def)
  have elems: "reads (value_decode_fuel m l) (value_encode x) x" if "x \<in> set xs" for x
    using VList.prems that n
    by (intro VList.IH) (auto simp: validate_list list_all_iff foldl_max_le[of value_depth, simplified])
  have "reads (dec_bind (dec_repeat (unat (of_nat (length xs) :: 64 word)) (value_decode_fuel m l))
      (\<lambda>xs. dec_lift (value_list xs l))) (encode_values xs) (VList xs)"
    unfolding encode_values_concat unat_count[OF facts]
    using VList.prems elems by (intro reads_bind_last[OF reads_values] reads_lift value_list_fits) simp_all
  then show ?case
    using facts unat_count[OF facts] unfolding n value_decode_fuel.simps value_encode.simps
    by (intro reads_bind[OF reads_u8]) (auto intro!: reads_bind[OF reads_u64] simp: not_less)
next
  case (VMap es)
  obtain m where n: "n = Suc m"
    using VMap.prems(4) value_depth_pos[of "VMap es"] by (cases n) simp_all
  have facts: "length es \<le> max_map_entries l" "max_map_entries l < 2 ^ 64"
    using VMap.prems by (simp_all add: validate_map wf_value_limits_def)
  have texts: "max_text_bytes l < 2 ^ 64"
    using VMap.prems by (simp add: wf_value_limits_def)
  have elems: "reads (dec_bind dec_text (\<lambda>k. dec_bind (value_decode_fuel m l) (\<lambda>v. dec_return (k, v))))
      (enc_text (fst e) @ value_encode (snd e)) e" if e: "e \<in> set es" for e
  proof -
    have "reads (value_decode_fuel m l) (value_encode (snd e)) (snd e)"
      using VMap.prems e n
      by (intro VMap.IH[of e])
         (auto simp: validate_map list_all_iff snds.simps foldl_max_le[of "\<lambda>e. value_depth (snd e)", simplified])
    moreover have "length (fst e) < 2 ^ 64"
      using VMap.prems e texts by (fastforce simp: validate_map list_all_iff)
    ultimately show ?thesis
      by (intro reads_bind[OF reads_text] reads_bind_last) (simp, assumption, cases e, simp add: reads_return)
  qed
  have "reads (dec_bind (dec_repeat (unat (of_nat (length es) :: 64 word))
        (dec_bind dec_text (\<lambda>k. dec_bind (value_decode_fuel m l) (\<lambda>v. dec_return (k, v)))))
      (\<lambda>es. dec_lift (value_map es l))) (encode_entries es) (VMap es)"
    unfolding encode_entries_concat unat_count[OF facts]
    using VMap.prems elems by (intro reads_bind_last[OF reads_values] reads_lift value_map_fits) simp_all
  then show ?case
    using facts unat_count[OF facts] unfolding n value_decode_fuel.simps value_encode.simps
    by (intro reads_bind[OF reads_u8]) (auto intro!: reads_bind[OF reads_u64] simp: not_less)
next
  case (VText s)
  then obtain m where n: "n = Suc m" by (cases n) simp_all
  have "length s \<le> max_text_bytes l" "max_text_bytes l < 2 ^ 64"
    using VText.prems by (simp_all add: validate_leaf wf_value_limits_def)
  then show ?case
    unfolding n value_decode_fuel.simps value_encode.simps
    by (intro reads_bind[OF reads_u8])
       (simp, intro reads_bind_last[OF reads_text] reads_lift, simp_all add: value_text_def)
next
  case (VBlob bs)
  then obtain m where n: "n = Suc m" by (cases n) simp_all
  have "length bs \<le> max_blob_bytes l" "max_blob_bytes l < 2 ^ 64"
    using VBlob.prems by (simp_all add: validate_leaf wf_value_limits_def)
  then show ?case
    unfolding n value_decode_fuel.simps value_encode.simps
    by (intro reads_bind[OF reads_u8])
       (simp, intro reads_bind_last[OF reads_bytes] reads_lift, simp_all add: value_blob_def)
qed (case_tac n; auto simp: value_real_def
      intro!: reads_bind[OF reads_u8] reads_bind_last[OF reads_u8]
        reads_bind_last[OF reads_bool] reads_bind_last[OF reads_u64] reads_bind_last[OF reads_i64]
        reads_return reads_lift)+

lemma length_value_encode: "value_depth v \<le> length (value_encode v)"
proof (induction v)
  case (VList xs)
  have "value_depth x \<le> length (encode_values xs)" if "x \<in> set xs" for x
    using VList[OF that] that member_le_sum_list[of "length (value_encode x)" "map (length \<circ> value_encode) xs"]
    by (simp add: encode_values_concat length_concat comp_def)
  then show ?case
    by (auto simp: foldl_max_le[of value_depth, simplified] intro!: le_SucI trans_le_add2)
next
  case (VMap es)
  have "value_depth (snd e) \<le> length (encode_entries es)" if "e \<in> set es" for e
    using VMap[of e "snd e"] that
      member_le_sum_list[of "length (enc_text (fst e) @ value_encode (snd e))"
        "map (\<lambda>e. length (enc_text (fst e) @ value_encode (snd e))) es"]
    by (fastforce simp: encode_entries_concat length_concat comp_def snds.simps)
  then show ?case
    by (auto simp: foldl_max_le[of "\<lambda>e. value_depth (snd e)", simplified] intro!: le_SucI trans_le_add2)
qed simp_all

lemma reads_value:
  assumes "value_fits l v" and "wf_value_limits l"
  shows "reads (value_decode l) (value_encode v) v"
  unfolding reads_def
proof (intro allI impI)
  fix d :: canonical_decoder and rest
  assume d: "cd_ok d" "cd_position d \<le> length (cd_data d)"
    and input: "drop (cd_position d) (cd_data d) = value_encode v @ rest"
  have "length (value_encode v) \<le> cd_remaining d"
    using d arg_cong[OF input, of length] by (simp add: cd_remaining_def)
  then have "value_depth v \<le> Suc (cd_remaining d)"
    using length_value_encode[of v] by simp
  then have "reads (value_decode_fuel (Suc (cd_remaining d)) l) (value_encode v) v"
    using assms by (intro reads_value_fuel) (simp_all add: value_fits_def)
  then show "value_decode l d = (Inr v, d\<lparr>cd_position := cd_position d + length (value_encode v)\<rparr>)"
    unfolding value_decode_def using d input by (rule readsD)
qed

interpretation value_codec: codec value_encode "value_decode default_value_limits"
  "value_fits default_value_limits"
  by unfold_locales
     (simp add: reads_value wf_value_limits_def default_value_limits_def)

section \<open>The fuel of the decoder is enough\<close>

text \<open>Two decoders that agree on every input with fewer than \<open>k\<close> bytes left.\<close>

definition agree :: "nat \<Rightarrow> 'a dec \<Rightarrow> 'a dec \<Rightarrow> bool" where
  "agree k f g \<longleftrightarrow> (\<forall>d. cd_position d \<le> length (cd_data d) \<longrightarrow> cd_remaining d < k \<longrightarrow> f d = g d)"

lemma agree_refl: "agree k f f"
  by (simp add: agree_def)

lemma safe_decoder_remaining:
  assumes "safe_decoder f" "cd_position d \<le> length (cd_data d)"
  shows "cd_remaining (snd (f d)) \<le> cd_remaining d"
    "cd_position (snd (f d)) \<le> length (cd_data (snd (f d)))"
  using assms by (fastforce simp: safe_decoder_def cd_remaining_def)+

lemma agree_bind:
  assumes "safe_decoder f" "agree k f f'" "\<And>v. agree k (g v) (g' v)"
  shows "agree k (dec_bind f g) (dec_bind f' g')"
  unfolding agree_def
proof (intro allI impI)
  fix d :: canonical_decoder
  assume d: "cd_position d \<le> length (cd_data d)" "cd_remaining d < k"
  obtain r d' where fd: "f d = (r, d')" by fastforce
  have "cd_remaining d' < k" "cd_position d' \<le> length (cd_data d')"
    using safe_decoder_remaining[OF assms(1) d(1)] d(2) fd by simp_all
  moreover have "f' d = (r, d')"
    using assms(2) d fd by (simp add: agree_def)
  ultimately show "dec_bind f g d = dec_bind f' g' d"
    using assms(3) fd by (cases r) (simp_all add: dec_bind_def agree_def)
qed

lemma agree_repeat:
  "safe_decoder f \<Longrightarrow> agree k f f' \<Longrightarrow> agree k (dec_repeat n f) (dec_repeat n f')"
  by (induction n) (auto intro!: agree_bind safe_repeat simp: agree_refl)

lemma dec_u8_consumes:
  "cd_position d \<le> length (cd_data d) \<Longrightarrow> dec_u8 d = (Inr v, d') \<Longrightarrow>
     cd_remaining d' < cd_remaining d \<and> cd_position d' \<le> length (cd_data d')"
  by (auto simp: dec_u8_def dec_bind_def dec_take_def dec_return_def cd_remaining_def err_def
      split: if_splits)

lemma agree_after_byte:
  "(\<And>v. agree k (g v) (g' v)) \<Longrightarrow> agree (Suc k) (dec_bind dec_u8 g) (dec_bind dec_u8 g')"
  unfolding agree_def dec_bind_def
  by (auto split: prod.split sum.split) (meson dec_u8_consumes less_le_trans less_Suc_eq_le)

lemma safe_value_fuel: "safe_decoder (value_decode_fuel n l)"
  by (induction n) (auto intro!: safe_plumbing safe_prims simp del: dec_repeat.simps)

lemma agree_if: "agree k f f' \<Longrightarrow> agree k g g' \<Longrightarrow> agree k (if b then f else g) (if b then f' else g')"
  by simp

lemma agree_value_fuel:
  "k \<le> n \<Longrightarrow> k \<le> m \<Longrightarrow> agree k (value_decode_fuel n l) (value_decode_fuel m l)"
proof (induction k arbitrary: n m)
  case 0
  then show ?case by (simp add: agree_def)
next
  case (Suc k)
  then obtain n' m' where nm: "n = Suc n'" "m = Suc m'" "k \<le> n'" "k \<le> m'"
    by (metis Suc_le_D Suc_le_mono)
  have sub: "agree k (value_decode_fuel n' l) (value_decode_fuel m' l)"
    using Suc.IH nm by simp
  show ?case
    unfolding nm value_decode_fuel.simps
    by (intro agree_after_byte agree_if agree_refl agree_bind agree_repeat safe_repeat safe_bind
        safe_prims safe_value_fuel safe_return sub)
qed

lemma value_decode_fuel_enough:
  assumes "cd_position d \<le> length (cd_data d)" and "cd_remaining d < n"
  shows "value_decode_fuel n l d = value_decode l d"
  using agree_value_fuel[of "Suc (cd_remaining d)" n "Suc (cd_remaining d)" l] assms
  by (simp add: agree_def value_decode_def del: value_decode_fuel.simps)

lemma safe_value_decode: "safe_decoder (value_decode l)"
  using safe_value_fuel unfolding safe_decoder_def value_decode_def by blast

lemma poison_value_decode: "poison_safe (value_decode l)"
proof -
  have "poison_safe (value_decode_fuel (Suc n) l)" for n
    unfolding value_decode_fuel.simps by (rule poison_bind[OF poison_prims(1)])
  then show ?thesis by (simp only: poison_safe_def value_decode_def) blast
qed

section \<open>Decoding never yields a value outside the limits\<close>

definition yields :: "'a dec \<Rightarrow> ('a \<Rightarrow> bool) \<Rightarrow> bool" where
  "yields f P \<longleftrightarrow> (\<forall>d v d'. f d = (Inr v, d') \<longrightarrow> P v)"

lemma yields_return: "P v \<Longrightarrow> yields (dec_return v) P"
  by (simp add: yields_def dec_return_def)

lemma yields_lift: "(\<And>v. r = Inr v \<Longrightarrow> P v) \<Longrightarrow> yields (dec_lift r) P"
  by (simp add: yields_def dec_lift_def)

lemma yields_fail: "yields (dec_poison_fail c m) P" "yields (dec_fail c m) P"
  by (simp_all add: yields_def dec_poison_fail_def dec_fail_def)

lemma yields_bind: "yields f Q \<Longrightarrow> (\<And>v. Q v \<Longrightarrow> yields (g v) P) \<Longrightarrow> yields (dec_bind f g) P"
  unfolding yields_def dec_bind_def by (auto split: prod.splits sum.splits) metis

lemma yields_any: "yields f (\<lambda>_. True)"
  by (simp add: yields_def)

lemma yields_if: "(b \<Longrightarrow> yields f P) \<Longrightarrow> (\<not> b \<Longrightarrow> yields g P) \<Longrightarrow> yields (if b then f else g) P"
  by simp

lemma yields_repeat: "yields f P \<Longrightarrow> yields (dec_repeat n f) (list_all P)"
proof (induction n)
  case 0
  then show ?case by (simp add: yields_return)
next
  case (Suc n)
  then show ?case
    unfolding dec_repeat.simps
    by (intro yields_bind[where Q = P] yields_bind[where Q = "list_all P"] yields_return) simp_all
qed

lemma count_nodes_value:
  "count_nodes n xs = Some m \<Longrightarrow> m = n + sum_list (map value_nodes xs)"
  by (induction n xs rule: count_nodes.induct) (auto split: if_splits)

lemma value_list_yields:
  assumes "value_list xs l = Inr v" "list_all (value_fits l) xs"
  shows "value_fits l v"
  using assms
  by (auto simp: value_list_def value_fits_def validate_list list_all_iff not_less
      dest!: count_nodes_value split: if_splits option.splits)

lemma value_map_yields:
  assumes "value_map es l = Inr v" "list_all (\<lambda>e. value_fits l (snd e)) es"
  shows "value_fits l v"
proof -
  let ?es = "sort_key fst es"
  have v: "v = VMap ?es" and dup: "\<not> has_adjacent_duplicate ?es"
    and keys: "\<forall>e\<in>set es. length (fst e) \<le> max_text_bytes l"
    using assms(1)
    by (auto simp: value_map_def Let_def list_ex_iff not_less split: if_splits option.splits)
  have "om_sorted ?es"
    using dup by (simp add: om_sorted_iff has_adjacent_duplicate_sorted)
  then show ?thesis
    using assms keys unfolding v
    by (auto simp: value_map_def Let_def value_fits_def validate_map list_all_iff not_less comp_def
      dest!: count_nodes_value split: if_splits option.splits)
qed

lemma value_fits_leaf:
  assumes "1 \<le> max_depth l" "1 \<le> max_total_nodes l"
  shows "value_fits l VNull" "value_fits l (VBool b)" "value_fits l (VInt w)" "value_fits l (VUint w)"
    "value_real bits = Inr v \<Longrightarrow> value_fits l v" "value_text s l = Inr v \<Longrightarrow> value_fits l v"
    "value_blob bs l = Inr v \<Longrightarrow> value_fits l v"
  using assms
  by (auto simp: value_fits_def value_validate.simps value_real_def value_text_def value_blob_def
      not_less split: if_splits)

lemma value_fuel_yields:
  assumes "1 \<le> max_depth l" "1 \<le> max_total_nodes l"
  shows "yields (value_decode_fuel n l) (value_fits l)"
proof (induction n)
  case 0
  then show ?case by (simp add: yields_fail)
next
  case (Suc n)
  have entries: "yields (dec_bind dec_text (\<lambda>k. dec_bind (value_decode_fuel n l)
      (\<lambda>v. dec_return (k, v)))) (\<lambda>e. value_fits l (snd e))"
    by (rule yields_bind[OF yields_any], rule yields_bind[OF Suc.IH]) (simp add: yields_return)
  note pieces = yields_repeat[OF Suc.IH] yields_repeat[OF entries]
  show ?case
    unfolding value_decode_fuel.simps
    by (intro yields_bind[OF yields_any] yields_if yields_fail yields_bind[OF pieces(1)]
        yields_bind[OF pieces(2)] yields_lift yields_return)
       (auto intro: value_list_yields value_map_yields value_fits_leaf[OF assms])
qed

lemma value_decode_yields:
  "1 \<le> max_depth l \<Longrightarrow> 1 \<le> max_total_nodes l \<Longrightarrow> yields (value_decode l) (value_fits l)"
  using value_fuel_yields unfolding yields_def value_decode_def by blast

section \<open>The three-way comparison\<close>

datatype ordering = OLess | OEqual | OGreater

definition compare_of :: "'a::linorder \<Rightarrow> 'a \<Rightarrow> ordering" where
  "compare_of a b = (if a < b then OLess else if a = b then OEqual else OGreater)"

text \<open>Return the first comparison unless it says equal.\<close>

fun or_else :: "ordering \<Rightarrow> ordering \<Rightarrow> ordering" where
  "or_else OEqual r = r"
| "or_else OLess r = OLess"
| "or_else OGreater r = OGreater"

fun value_compare :: "fvalue \<Rightarrow> fvalue \<Rightarrow> ordering"
  and compare_lists :: "fvalue list \<Rightarrow> fvalue list \<Rightarrow> ordering"
  and compare_entries :: "(string \<times> fvalue) list \<Rightarrow> (string \<times> fvalue) list \<Rightarrow> ordering" where
  "value_compare v w =
     (if value_kind v \<noteq> value_kind w then compare_of (value_kind v) (value_kind w)
      else case (v, w) of
        (VBool a, VBool b) \<Rightarrow> compare_of a b
      | (VInt a, VInt b) \<Rightarrow> compare_of (sint a) (sint b)
      | (VUint a, VUint b) \<Rightarrow> compare_of a b
      | (VReal a, VReal b) \<Rightarrow> compare_of a b
      | (VText a, VText b) \<Rightarrow> compare_of a b
      | (VBlob a, VBlob b) \<Rightarrow> compare_of (hex_encode a) (hex_encode b)
      | (VList xs, VList ys) \<Rightarrow> compare_lists xs ys
      | (VMap xs, VMap ys) \<Rightarrow> compare_entries xs ys
      | _ \<Rightarrow> OEqual)"
| "compare_lists (x # xs) (y # ys) = or_else (value_compare x y) (compare_lists xs ys)"
| "compare_lists xs ys = compare_of (length xs) (length ys)"
| "compare_entries (x # xs) (y # ys) =
     or_else (compare_of (fst x) (fst y))
       (or_else (value_compare (snd x) (snd y)) (compare_entries xs ys))"
| "compare_entries xs ys = compare_of (length xs) (length ys)"

declare value_compare.simps [simp del]

subsection \<open>It is the lexicographic order of a prefix-free flattening\<close>

definition flat_text :: "string \<Rightarrow> nat list" where
  "flat_text s = map (\<lambda>c. Suc (of_char c)) s @ [0]"

fun flat :: "fvalue \<Rightarrow> nat list"
  and flat_list :: "fvalue list \<Rightarrow> nat list"
  and flat_entries :: "(string \<times> fvalue) list \<Rightarrow> nat list" where
  "flat VNull = [0]"
| "flat (VBool b) = [1, if b then 1 else 0]"
| "flat (VInt w) = [2, nat (sint w + 2 ^ 63)]"
| "flat (VUint w) = [3, unat w]"
| "flat (VReal w) = [4, unat w]"
| "flat (VText s) = 5 # flat_text s"
| "flat (VBlob bs) = 6 # flat_text (hex_encode bs)"
| "flat (VList xs) = 7 # flat_list xs"
| "flat (VMap es) = 8 # flat_entries es"
| "flat_list [] = [0]"
| "flat_list (x # xs) = 1 # flat x @ flat_list xs"
| "flat_entries [] = [0]"
| "flat_entries (e # es) = 1 # flat_text (fst e) @ flat (snd e) @ flat_entries es"

lemma or_else_simps [simp]: "or_else c OEqual = c" "or_else (or_else a b) c = or_else a (or_else b c)"
  by (cases c; simp) (cases a; simp)

lemma or_else_equal [simp]: "or_else a b = OEqual \<longleftrightarrow> a = OEqual \<and> b = OEqual"
  by (cases a) simp_all

lemma compare_of_refl [simp]: "compare_of a a = OEqual"
  by (simp add: compare_of_def)

lemma compare_of_simps [simp]:
  "compare_of a b = OLess \<longleftrightarrow> a < b" "compare_of a b = OEqual \<longleftrightarrow> a = b"
  "compare_of a b = OGreater \<longleftrightarrow> b < a"
  by (auto simp: compare_of_def)

lemma compare_of_Cons:
  "compare_of (x # xs) (y # ys) = or_else (compare_of x y) (compare_of xs ys)"
  by (simp add: compare_of_def)

lemma compare_of_mono: "strict_mono f \<Longrightarrow> compare_of (f a) (f b) = compare_of (a :: 'a::linorder) b"
  by (simp add: compare_of_def strict_mono_less strict_mono_eq)

lemma compare_flat_text:
  "compare_of (flat_text a @ r) (flat_text b @ s) = or_else (compare_of a b) (compare_of r s)"
proof (induction a b rule: list_induct2')
  case (4 x xs y ys)
  have "compare_of (Suc (of_char x)) (Suc (of_char y)) = compare_of x y"
    by (simp add: compare_of_def less_char_def)
  with 4 show ?case
    by (simp add: flat_text_def compare_of_Cons)
qed (simp_all add: flat_text_def compare_of_Cons, simp_all add: compare_of_def)

lemma compare_sint: "compare_of (nat (sint (a :: 64 word) + 2 ^ 63)) (nat (sint b + 2 ^ 63)) =
    compare_of (sint a) (sint (b :: 64 word))"
proof -
  have "- (2 ^ 63) \<le> sint w" for w :: "64 word"
    using sint_ge[of w] by simp
  from this[of a] this[of b] show ?thesis
    unfolding compare_of_def by (auto simp: nat_less_eq_zless eq_nat_nat_iff)
qed

lemma compare_unat: "compare_of (unat a) (unat b) = compare_of a (b :: 'a::len word)"
  by (simp add: compare_of_def word_less_nat_alt word_unat_eq_iff)

lemma flat_kind: "\<exists>t. flat v = value_kind v # t"
  by (cases v) auto

text \<open>The comparison case by case.\<close>

lemma value_compare_kind:
  "value_kind v \<noteq> value_kind w \<Longrightarrow> value_compare v w = compare_of (value_kind v) (value_kind w)"
  by (simp add: value_compare.simps)

lemma value_compare_same:
  "value_compare VNull VNull = OEqual"
  "value_compare (VBool a) (VBool b) = compare_of a b"
  "value_compare (VInt i) (VInt j) = compare_of (sint i) (sint j)"
  "value_compare (VUint i) (VUint j) = compare_of i j"
  "value_compare (VReal i) (VReal j) = compare_of i j"
  "value_compare (VText s) (VText t) = compare_of s t"
  "value_compare (VBlob as) (VBlob bs) = compare_of (hex_encode as) (hex_encode bs)"
  "value_compare (VList xs) (VList ys) = compare_lists xs ys"
  "value_compare (VMap es) (VMap fs) = compare_entries es fs"
  by (simp_all add: value_compare.simps)

lemma same_kind_cases:
  assumes "value_kind v = value_kind w"
  obtains "v = VNull" "w = VNull" | a b where "v = VBool a" "w = VBool b"
  | i j where "v = VInt i" "w = VInt j" | i j where "v = VUint i" "w = VUint j"
  | i j where "v = VReal i" "w = VReal j" | s t where "v = VText s" "w = VText t"
  | as bs where "v = VBlob as" "w = VBlob bs" | xs ys where "v = VList xs" "w = VList ys"
  | es fs where "v = VMap es" "w = VMap fs"
  using assms by (cases v; cases w) simp_all

lemma compare_flat_ends:
  "compare_of (0 # r) (flat_list ys @ s) = or_else (compare_of 0 (length ys)) (compare_of r s)"
  "compare_of (flat_list ys @ s) (0 # r) = or_else (compare_of (length ys) 0) (compare_of s r)"
  "compare_of (0 # r) (flat_entries es @ s) = or_else (compare_of 0 (length es)) (compare_of r s)"
  "compare_of (flat_entries es @ s) (0 # r) = or_else (compare_of (length es) 0) (compare_of s r)"
  by (cases ys; simp add: compare_of_def; fail)+ (cases es; simp add: compare_of_def; fail)+

lemma flat_compare:
  "compare_of (flat v @ r) (flat w @ s) = or_else (value_compare v w) (compare_of r s)"
  "compare_of (flat_list xs @ r) (flat_list ys @ s) = or_else (compare_lists xs ys) (compare_of r s)"
  "compare_of (flat_entries es @ r) (flat_entries fs @ s) =
     or_else (compare_entries es fs) (compare_of r s)"
proof (induction v w and xs ys and es fs arbitrary: r s and r s and r s
    rule: value_compare_compare_lists_compare_entries.induct)
  case (1 v w)
  show ?case
  proof (cases "value_kind v = value_kind w")
    case False
    obtain a b where "flat v = value_kind v # a" "flat w = value_kind w # b"
      using flat_kind by meson
    moreover have "or_else (compare_of (value_kind v) (value_kind w)) c =
        compare_of (value_kind v) (value_kind w)" for c
      using False unfolding compare_of_def by simp
    ultimately show ?thesis
      using False by (simp add: value_compare_kind compare_of_Cons)
  next
    case True
    then show ?thesis
    proof (cases rule: same_kind_cases)
      case 2
      then show ?thesis by (simp add: value_compare_same compare_of_def)
    next
      case 8
      then show ?thesis
        using 1 by (simp add: value_compare_same compare_of_Cons)
    next
      case 9
      then show ?thesis
        using 1 by (simp add: value_compare_same compare_of_Cons)
    qed (simp_all add: value_compare_same compare_of_Cons compare_flat_text
        compare_sint[simplified] compare_unat)
  qed
qed (simp_all add: compare_of_Cons compare_flat_text compare_flat_ends)

lemma value_compare_flat: "value_compare v w = compare_of (flat v) (flat w)"
  using flat_compare(1)[of v "[]" w "[]"] by simp

lemma hex_encode_inject: "hex_encode a = hex_encode b \<longleftrightarrow> a = b"
  using hex_pairs_encode by (metis sum.inject(2))

lemma value_compare_equal:
  "value_compare v w = OEqual \<Longrightarrow> v = w"
  "compare_lists xs ys = OEqual \<Longrightarrow> xs = ys"
  "compare_entries es fs = OEqual \<Longrightarrow> es = fs"
proof (induction v w and xs ys and es fs rule: value_compare_compare_lists_compare_entries.induct)
  case (1 v w)
  then have "value_kind v = value_kind w"
    by (metis compare_of_simps(2) value_compare_kind)
  then show ?case
    by (cases rule: same_kind_cases)
       (use 1 in \<open>auto simp: value_compare_same hex_encode_inject intro: signed_word_eqI\<close>)
qed (auto simp: prod_eq_iff)

lemma flat_inject: "flat v = flat w \<Longrightarrow> v = w"
  by (rule value_compare_equal(1)) (simp add: value_compare_flat)

instantiation fvalue :: linorder
begin

definition less_fvalue :: "fvalue \<Rightarrow> fvalue \<Rightarrow> bool" where
  "v < w \<longleftrightarrow> value_compare v w = OLess"

definition less_eq_fvalue :: "fvalue \<Rightarrow> fvalue \<Rightarrow> bool" where
  "v \<le> w \<longleftrightarrow> value_compare v w \<noteq> OGreater"

instance
  by standard
     (auto simp: less_fvalue_def less_eq_fvalue_def value_compare_flat intro: flat_inject)

end

section \<open>The canonical text is injective\<close>

lemma nat_text_inject [simp]: "nat_text m = nat_text n \<longleftrightarrow> m = n"
  by (metis nat_text_value)

lemma digits_no_colon: "CHR '':'' \<notin> set (nat_text n)" "CHR ''-'' \<notin> set (nat_text n)"
  using nat_text_digits[of n] by (auto simp: list_all_iff is_digit_char_def less_eq_char_def)

lemma int_text_inject: "int_text i = int_text j \<Longrightarrow> i = j"
proof -
  have "''-'' @ nat_text m \<noteq> nat_text n" for m n
    using digits_no_colon(2)[of n] by (metis append_Cons list.set_intros(1))
  moreover assume "int_text i = int_text j"
  ultimately show "i = j"
    by (auto simp: int_text_def split: if_splits dest: not_sym)
qed

lemma sized_text:
  assumes "nat_text (length x) @ CHR '':'' # x @ r = nat_text (length y) @ CHR '':'' # y @ s"
  shows "x = y \<and> r = s"
proof -
  have "Some (nat_text (length x), x @ r) = Some (nat_text (length y), y @ s)"
    using split_first_append[OF digits_no_colon(1)] assms by metis
  then show ?thesis by auto
qed

lemma list_text_inject:
  "(\<And>x w. x \<in> set xs \<Longrightarrow> canonical_text x = canonical_text w \<Longrightarrow> x = w) \<Longrightarrow>
   list_text xs = list_text ys \<Longrightarrow> xs = ys"
proof (induction xs ys rule: list_induct2')
  case (4 x xs y ys)
  have "canonical_text x = canonical_text y \<and>
      (if xs = [] then [] else '','' @ list_text xs) = (if ys = [] then [] else '','' @ list_text ys)"
    using "4.prems"(2) by (intro sized_text) simp
  with 4 show ?case by (auto split: if_splits)
qed (simp_all add: nat_text_nonempty)

lemma map_text_inject:
  "(\<And>e w. e \<in> set es \<Longrightarrow> canonical_text (snd e) = canonical_text w \<Longrightarrow> snd e = w) \<Longrightarrow>
   map_text es = map_text fs \<Longrightarrow> es = fs"
proof (induction es fs rule: list_induct2')
  case (4 e es f fs)
  let ?tail = "\<lambda>e es. nat_text (length (canonical_text (snd e))) @ '':'' @ canonical_text (snd e) @
      (if es = [] then [] else '','' @ map_text es)"
  have "fst e = fst f \<and> ''='' @ ?tail e es = ''='' @ ?tail f fs"
    using "4.prems"(2) by (intro sized_text) simp
  moreover from this have "canonical_text (snd e) = canonical_text (snd f) \<and>
      (if es = [] then [] else '','' @ map_text es) = (if fs = [] then [] else '','' @ map_text fs)"
    by (intro sized_text) simp
  ultimately show ?case
    using 4 by (auto simp: prod_eq_iff split: if_splits)
qed (simp_all add: nat_text_nonempty)

lemma canonical_text_inject: "canonical_text v = canonical_text w \<Longrightarrow> v = w"
proof (induction v arbitrary: w)
  case (VInt i)
  then show ?case
    by (cases w) (auto split: if_splits intro: signed_word_eqI dest: int_text_inject)
next
  case (VReal bits)
  then show ?case
    by (cases w) (auto simp: real_hex_def hex_encode_inject split: if_splits
      intro: u64_codec.enc_inject)
next
  case (VText s)
  then show ?case
    using sized_text[of s "[]" _ "[]"] by (cases w) (auto split: if_splits)
next
  case (VList xs)
  then show ?case
    by (cases w) (auto split: if_splits dest!: list_text_inject[rotated])
next
  case (VMap es)
  then have "\<And>e w. e \<in> set es \<Longrightarrow> canonical_text (snd e) = canonical_text w \<Longrightarrow> snd e = w"
    by (metis prod.collapse snds.intros)
  with VMap.prems show ?case
    by (cases w) (auto split: if_splits dest!: map_text_inject[rotated])
qed (case_tac w; auto simp: u64_text_def hex_encode_inject word_unat_eq_iff split: if_splits)+

end
