(* ===== verification/Fab_Time.thy ===== *)
theory Fab_Time
  imports Fab_Status "HOL-Library.Signed_Division"
begin

text \<open>
  \<^verbatim>\<open>time.hpp\<close> and \<^verbatim>\<open>time.cpp\<close>: time points and durations are signed 64-bit nanosecond counts.
  The saturating difference is exact where it can be and clamps elsewhere. The calendar and the
  UTC text form are in \<^verbatim>\<open>Fab_Utc\<close>.
\<close>

section \<open>Time points and durations\<close>

datatype time_point = TimePoint (tp_nanos: "64 word")

datatype duration = Duration (du_nanos: "64 word")

lemma sint_eq_iff: "sint a = sint b \<longleftrightarrow> a = (b :: 'a::len word)"
  by (auto intro: signed_word_eqI)

instantiation time_point :: linorder
begin

definition less_eq_time_point :: "time_point \<Rightarrow> time_point \<Rightarrow> bool" where
  "a \<le> b \<longleftrightarrow> sint (tp_nanos a) \<le> sint (tp_nanos b)"

definition less_time_point :: "time_point \<Rightarrow> time_point \<Rightarrow> bool" where
  "a < b \<longleftrightarrow> sint (tp_nanos a) < sint (tp_nanos b)"

instance
  by standard
     (auto simp: less_eq_time_point_def less_time_point_def
       sint_eq_iff intro: time_point.expand)

end

instantiation duration :: linorder
begin

definition less_eq_duration :: "duration \<Rightarrow> duration \<Rightarrow> bool" where
  "a \<le> b \<longleftrightarrow> sint (du_nanos a) \<le> sint (du_nanos b)"

definition less_duration :: "duration \<Rightarrow> duration \<Rightarrow> bool" where
  "a < b \<longleftrightarrow> sint (du_nanos a) < sint (du_nanos b)"

instance
  by standard
     (auto simp: less_eq_duration_def less_duration_def sint_eq_iff intro: duration.expand)

end

abbreviation time_zero :: time_point where
  "time_zero \<equiv> TimePoint 0"

definition duration_is_negative :: "duration \<Rightarrow> bool" where
  "duration_is_negative d \<longleftrightarrow> sint (du_nanos d) < 0"

definition time_after :: "time_point \<Rightarrow> time_point \<Rightarrow> bool" where
  "time_after lhs rhs \<longleftrightarrow> sint (tp_nanos lhs) > sint (tp_nanos rhs)"

text \<open>\<^verbatim>\<open>kMax\<close> is the largest signed value; the subtraction is the unsigned one, which wraps.\<close>

definition i64_max :: "64 word" where
  "i64_max = 0x7FFFFFFFFFFFFFFF"

definition saturating_difference :: "time_point \<Rightarrow> time_point \<Rightarrow> duration" where
  "saturating_difference lhs rhs =
     (if lhs \<le> rhs then Duration 0
      else let delta = tp_nanos lhs - tp_nanos rhs
           in Duration (if delta > i64_max then i64_max else delta))"

lemma sint_bounds64: "- (2 ^ 63) \<le> sint (w :: 64 word)" "sint (w :: 64 word) < 2 ^ 63"
  using sint_ge[of w] sint_lt[of w] by simp_all

lemma uint_of_sint64: "uint (w :: 64 word) = sint w mod 2 ^ 64"
  by (simp add: uint_sint take_bit_eq_mod)

lemma sint_small64: "uint (w :: 64 word) < 2 ^ 63 \<Longrightarrow> sint w = uint w"
  by (simp add: sint_uint signed_take_bit_eq_if_positive bit_iff_odd take_bit_int_eq_self)

lemma uint_i64_max: "uint i64_max = 2 ^ 63 - 1" "sint i64_max = 2 ^ 63 - 1"
proof -
  show u: "uint i64_max = 2 ^ 63 - 1"
    by (simp add: i64_max_def)
  show "sint i64_max = 2 ^ 63 - 1"
    by (subst sint_small64) (simp_all add: u)
qed

text \<open>Exact within the representable range, clamped to the largest duration outside it.\<close>

lemma saturating_difference_value:
  "sint (du_nanos (saturating_difference a b)) =
     min (2 ^ 63 - 1) (max 0 (sint (tp_nanos a) - sint (tp_nanos b)))"
proof (cases "a \<le> b")
  case True
  then show ?thesis
    by (simp add: saturating_difference_def less_eq_time_point_def)
next
  case False
  let ?d = "sint (tp_nanos a) - sint (tp_nanos b)"
  let ?w = "tp_nanos a - tp_nanos b"
  have range: "0 < ?d" "?d < 2 ^ 64"
    using False sint_bounds64[of "tp_nanos a"] sint_bounds64[of "tp_nanos b"]
    by (simp_all add: less_eq_time_point_def)
  have uint: "uint ?w = ?d"
  proof -
    have "uint ?w = (uint (tp_nanos a) - uint (tp_nanos b)) mod 2 ^ 64"
      by (simp add: uint_word_ariths)
    also have "\<dots> = ?d mod 2 ^ 64"
      by (simp add: uint_of_sint64 mod_diff_eq)
    finally show ?thesis using range by simp
  qed
  have clamp: "?w > i64_max \<longleftrightarrow> 2 ^ 63 - 1 < ?d"
    using uint_i64_max(1) uint by (simp add: word_less_def)
  have small: "sint ?w = ?d" if "\<not> ?w > i64_max"
    using that clamp uint by (subst sint_small64) simp_all
  have "du_nanos (saturating_difference a b) = (if ?w > i64_max then i64_max else ?w)"
    using False by (simp add: saturating_difference_def Let_def)
  then show ?thesis
    using small clamp range uint_i64_max(2) by (auto simp: min_def max_def)
qed

lemma saturating_difference_mono:
  "a \<le> a' \<Longrightarrow> saturating_difference a b \<le> saturating_difference a' b"
  by (simp add: less_eq_duration_def less_eq_time_point_def saturating_difference_value)

lemma saturating_difference_antimono:
  "b \<le> b' \<Longrightarrow> saturating_difference a b' \<le> saturating_difference a b"
  by (simp add: less_eq_duration_def less_eq_time_point_def saturating_difference_value)

end
