(* ===== verification/Fab_Policy.thy ===== *)
theory Fab_Policy
  imports Fab_Value Fab_Time
begin

text \<open>
  The vocabulary of evidence and the policy that judges it: \<^verbatim>\<open>truth.cpp\<close> (truth states,
  freshness verdicts, source authority), \<^verbatim>\<open>aspect.cpp\<close> (domains, aspect identifiers and the
  table of well-known aspects), \<^verbatim>\<open>limits.hpp\<close> and \<^verbatim>\<open>policy.cpp\<close> (freshness, coverage and ingest
  policy, validation, canonical encoding). Each enumeration is numbered in declaration order,
  which is also its order.
\<close>

section \<open>Truth states, freshness and authority\<close>

datatype truth_state = TS_Unknown | TS_Unsupported | TS_Conflicting | TS_Stale | TS_Incomplete | TS_Known

definition truth_names :: "(truth_state \<times> string) list" where
  "truth_names =
    [(TS_Unknown, ''unknown''),
     (TS_Unsupported, ''unsupported''),
     (TS_Conflicting, ''conflicting''),
     (TS_Stale, ''stale''),
     (TS_Incomplete, ''incomplete''),
     (TS_Known, ''known'')]"

definition truth_text :: "truth_state \<Rightarrow> string" where
  "truth_text e = enum_name truth_names ''unknown'' e"

definition truth_from_string :: "string \<Rightarrow> truth_state option" where
  "truth_from_string cs = enum_of_name truth_names cs"

definition truth_number :: "truth_state \<Rightarrow> nat" where
  "truth_number e = index_of e (map fst truth_names)"

interpretation truth_enum: named_enum truth_names "''unknown''"
proof
  fix e :: truth_state
  show "e \<in> fst ` set truth_names"
    by (cases e) (simp_all add: truth_names_def)
qed (simp_all add: truth_names_def)

lemma truth_number_inject [simp]: "truth_number a = truth_number b \<longleftrightarrow> a = b"
  by (cases a; cases b) (simp_all add: truth_number_def truth_names_def)

lemma truth_number_less: "truth_number e < 6"
  by (cases e) (simp_all add: truth_number_def truth_names_def)

instantiation truth_state :: linorder
begin

definition less_eq_truth_state :: "truth_state \<Rightarrow> truth_state \<Rightarrow> bool" where
  "a \<le> b \<longleftrightarrow> truth_number a \<le> truth_number b"

definition less_truth_state :: "truth_state \<Rightarrow> truth_state \<Rightarrow> bool" where
  "a < b \<longleftrightarrow> truth_number a < truth_number b"

instance
  by standard (auto simp: less_eq_truth_state_def less_truth_state_def)

end

definition is_positive :: "truth_state \<Rightarrow> bool" where
  "is_positive s \<longleftrightarrow> s = TS_Known"

datatype freshness_verdict = FV_Fresh | FV_Aging | FV_Stale

definition verdict_names :: "(freshness_verdict \<times> string) list" where
  "verdict_names =
    [(FV_Fresh, ''fresh''),
     (FV_Aging, ''aging''),
     (FV_Stale, ''stale'')]"

definition verdict_text :: "freshness_verdict \<Rightarrow> string" where
  "verdict_text e = enum_name verdict_names ''stale'' e"

definition verdict_from_string :: "string \<Rightarrow> freshness_verdict option" where
  "verdict_from_string cs = enum_of_name verdict_names cs"

definition verdict_number :: "freshness_verdict \<Rightarrow> nat" where
  "verdict_number e = index_of e (map fst verdict_names)"

interpretation verdict_enum: named_enum verdict_names "''stale''"
proof
  fix e :: freshness_verdict
  show "e \<in> fst ` set verdict_names"
    by (cases e) (simp_all add: verdict_names_def)
qed (simp_all add: verdict_names_def)

lemma verdict_number_inject [simp]: "verdict_number a = verdict_number b \<longleftrightarrow> a = b"
  by (cases a; cases b) (simp_all add: verdict_number_def verdict_names_def)

lemma verdict_number_less: "verdict_number e < 3"
  by (cases e) (simp_all add: verdict_number_def verdict_names_def)

instantiation freshness_verdict :: linorder
begin

definition less_eq_freshness_verdict :: "freshness_verdict \<Rightarrow> freshness_verdict \<Rightarrow> bool" where
  "a \<le> b \<longleftrightarrow> verdict_number a \<le> verdict_number b"

definition less_freshness_verdict :: "freshness_verdict \<Rightarrow> freshness_verdict \<Rightarrow> bool" where
  "a < b \<longleftrightarrow> verdict_number a < verdict_number b"

instance
  by standard (auto simp: less_eq_freshness_verdict_def less_freshness_verdict_def)

end

text \<open>\<^verbatim>\<open>degrade\<close>: move towards stale, never past it. The sum is an unsigned 32-bit one.\<close>

definition degrade :: "freshness_verdict \<Rightarrow> 32 word \<Rightarrow> freshness_verdict" where
  "degrade v steps =
     (let n = of_nat (verdict_number v) + steps :: 32 word
      in if n \<ge> 3 then FV_Stale else fst (verdict_names ! unat n))"

datatype source_authority = SA_None | SA_Inferred | SA_Reported | SA_Corroborated | SA_Authoritative

definition authority_names :: "(source_authority \<times> string) list" where
  "authority_names =
    [(SA_None, ''none''),
     (SA_Inferred, ''inferred''),
     (SA_Reported, ''reported''),
     (SA_Corroborated, ''corroborated''),
     (SA_Authoritative, ''authoritative'')]"

definition authority_text :: "source_authority \<Rightarrow> string" where
  "authority_text e = enum_name authority_names ''none'' e"

definition authority_from_string :: "string \<Rightarrow> source_authority option" where
  "authority_from_string cs = enum_of_name authority_names cs"

definition authority_number :: "source_authority \<Rightarrow> nat" where
  "authority_number e = index_of e (map fst authority_names)"

interpretation authority_enum: named_enum authority_names "''none''"
proof
  fix e :: source_authority
  show "e \<in> fst ` set authority_names"
    by (cases e) (simp_all add: authority_names_def)
qed (simp_all add: authority_names_def)

lemma authority_number_inject [simp]: "authority_number a = authority_number b \<longleftrightarrow> a = b"
  by (cases a; cases b) (simp_all add: authority_number_def authority_names_def)

lemma authority_number_less: "authority_number e < 5"
  by (cases e) (simp_all add: authority_number_def authority_names_def)

instantiation source_authority :: linorder
begin

definition less_eq_source_authority :: "source_authority \<Rightarrow> source_authority \<Rightarrow> bool" where
  "a \<le> b \<longleftrightarrow> authority_number a \<le> authority_number b"

definition less_source_authority :: "source_authority \<Rightarrow> source_authority \<Rightarrow> bool" where
  "a < b \<longleftrightarrow> authority_number a < authority_number b"

instance
  by standard (auto simp: less_eq_source_authority_def less_source_authority_def)

end

section \<open>Domains and aspects\<close>

datatype fabric_domain = D_Identity | D_Topology | D_Link | D_Device | D_Port | D_Path | D_Capacity | D_Reachability | D_Authority | D_Failure | D_Partition | D_Congestion | D_OperationalState

definition domain_names :: "(fabric_domain \<times> string) list" where
  "domain_names =
    [(D_Identity, ''identity''),
     (D_Topology, ''topology''),
     (D_Link, ''link''),
     (D_Device, ''device''),
     (D_Port, ''port''),
     (D_Path, ''path''),
     (D_Capacity, ''capacity''),
     (D_Reachability, ''reachability''),
     (D_Authority, ''authority''),
     (D_Failure, ''failure''),
     (D_Partition, ''partition''),
     (D_Congestion, ''congestion''),
     (D_OperationalState, ''operational'')]"

definition domain_text :: "fabric_domain \<Rightarrow> string" where
  "domain_text e = enum_name domain_names ''unknown'' e"

definition domain_from_string :: "string \<Rightarrow> fabric_domain option" where
  "domain_from_string cs = enum_of_name domain_names cs"

definition domain_number :: "fabric_domain \<Rightarrow> nat" where
  "domain_number e = index_of e (map fst domain_names)"

interpretation domain_enum: named_enum domain_names "''unknown''"
proof
  fix e :: fabric_domain
  show "e \<in> fst ` set domain_names"
    by (cases e) (simp_all add: domain_names_def)
qed (simp_all add: domain_names_def)

lemma domain_number_inject [simp]: "domain_number a = domain_number b \<longleftrightarrow> a = b"
  by (cases a; cases b) (simp_all add: domain_number_def domain_names_def)

lemma domain_number_less: "domain_number e < 13"
  by (cases e) (simp_all add: domain_number_def domain_names_def)

instantiation fabric_domain :: linorder
begin

definition less_eq_fabric_domain :: "fabric_domain \<Rightarrow> fabric_domain \<Rightarrow> bool" where
  "a \<le> b \<longleftrightarrow> domain_number a \<le> domain_number b"

definition less_fabric_domain :: "fabric_domain \<Rightarrow> fabric_domain \<Rightarrow> bool" where
  "a < b \<longleftrightarrow> domain_number a < domain_number b"

instance
  by standard (auto simp: less_eq_fabric_domain_def less_fabric_domain_def)

end

datatype aspect_id = AspectId (aspect_value: string) (aspect_domain: fabric_domain)

instantiation aspect_id :: linorder
begin

definition less_eq_aspect_id :: "aspect_id \<Rightarrow> aspect_id \<Rightarrow> bool" where
  "a \<le> b \<longleftrightarrow> (aspect_value a, aspect_domain a) \<le> (aspect_value b, aspect_domain b)"

definition less_aspect_id :: "aspect_id \<Rightarrow> aspect_id \<Rightarrow> bool" where
  "a < b \<longleftrightarrow> (aspect_value a, aspect_domain a) < (aspect_value b, aspect_domain b)"

instance
  by standard
     (auto simp: less_eq_aspect_id_def less_aspect_id_def less_prod_def less_eq_prod_def
       intro: aspect_id.expand split: prod.splits)

end

definition aspect_max_length :: nat where
  "aspect_max_length = 64"

definition aspect_parse :: "string \<Rightarrow> aspect_id result" where
  "aspect_parse cs =
     (if cs = [] then err SC_InvalidArgument ''aspect identifier must not be empty''
      else if length cs > aspect_max_length
      then err SC_TooLarge ''aspect identifier exceeds 64 characters''
      else case split_first (CHR ''.'') cs of
        None \<Rightarrow> err SC_InvalidArgument ''aspect identifier must have the form <domain>.<name>''
      | Some (prefix, name) \<Rightarrow>
          if prefix = [] \<or> name = []
          then err SC_InvalidArgument ''aspect identifier must have the form <domain>.<name>''
          else case domain_from_string prefix of
            None \<Rightarrow> err SC_Unsupported ''aspect identifier does not begin with a known domain''
          | Some d \<Rightarrow>
              if \<not> is_valid_identifier cs aspect_max_length
              then err SC_InvalidArgument ''aspect identifier contains characters outside [a-z0-9._-]''
              else Inr (AspectId cs d))"

text \<open>The descriptor table, without the prose descriptions.\<close>

record aspect_descriptor =
  ad_name :: string
  ad_domain :: fabric_domain
  ad_required_sources :: "32 word"
  ad_required_authority :: source_authority

definition well_known_aspects :: "aspect_descriptor list" where
  "well_known_aspects = map (\<lambda>(n, d, c, a).
      \<lparr>ad_name = n, ad_domain = d, ad_required_sources = c, ad_required_authority = a\<rparr>)
    [(''identity.labels'', D_Identity, 1, SA_None),
     (''topology.parent'', D_Topology, 1, SA_None),
     (''link.state'', D_Link, 1, SA_Reported),
     (''device.model'', D_Device, 1, SA_None),
     (''port.state'', D_Port, 1, SA_Reported),
     (''path.state'', D_Path, 2, SA_Reported),
     (''capacity.bandwidth_bps'', D_Capacity, 1, SA_Reported),
     (''reachability.state'', D_Reachability, 2, SA_Corroborated),
     (''authority.owner'', D_Authority, 1, SA_Authoritative),
     (''failure.state'', D_Failure, 1, SA_Reported),
     (''partition.membership'', D_Partition, 1, SA_Reported),
     (''congestion.level'', D_Congestion, 1, SA_Reported),
     (''operational.admin_state'', D_OperationalState, 1, SA_Reported),
     (''operational.health'', D_OperationalState, 1, SA_None)]"

definition find_aspect_descriptor :: "string \<Rightarrow> aspect_descriptor option" where
  "find_aspect_descriptor name = find (\<lambda>d. ad_name d = name) well_known_aspects"

definition well_known_aspect :: "string \<Rightarrow> aspect_id result" where
  "well_known_aspect name =
     (if find_aspect_descriptor name = None then err SC_NotFound ''no such well-known aspect''
      else aspect_parse name)"

lemma split_first_Some: "split_first c cs = Some (a, b) \<Longrightarrow> cs = a @ c # b"
  by (auto simp: split_first_def dropWhile_eq_Cons_conv split: list.splits)

lemma aspect_parse_text: "aspect_parse cs = Inr a \<Longrightarrow> aspect_value a = cs"
  by (auto simp: aspect_parse_def split: if_splits option.splits)

text \<open>What \<^verbatim>\<open>AspectId::parse\<close> returns is exactly what it accepts again.\<close>

definition wf_aspect :: "aspect_id \<Rightarrow> bool" where
  "wf_aspect a \<longleftrightarrow> aspect_parse (aspect_value a) = Inr a"

lemma wf_aspect_parse: "aspect_parse cs = Inr a \<Longrightarrow> wf_aspect a"
  using aspect_parse_text[of cs a] by (simp add: wf_aspect_def)

lemma wf_aspect_facts:
  "wf_aspect a \<Longrightarrow> aspect_value a \<noteq> [] \<and> length (aspect_value a) \<le> 64 \<and>
     is_valid_identifier (aspect_value a) 64 \<and>
     (\<exists>p n. aspect_value a = p @ ''.'' @ n \<and> p = domain_text (aspect_domain a) \<and> n \<noteq> [])"
proof -
  assume wf: "wf_aspect a"
  obtain p n where split: "split_first (CHR ''.'') (aspect_value a) = Some (p, n)"
    and facts: "n \<noteq> []" "domain_from_string p = Some (aspect_domain a)"
      "is_valid_identifier (aspect_value a) 64" "aspect_value a \<noteq> []" "length (aspect_value a) \<le> 64"
    using wf by (cases a)
      (auto simp: wf_aspect_def aspect_parse_def aspect_max_length_def split: if_splits option.splits)
  have "aspect_value a = p @ ''.'' @ n"
    using split_first_Some[OF split] by simp
  moreover have "p = domain_text (aspect_domain a)"
    using facts(2) by (simp add: domain_from_string_def domain_text_def domain_enum.of_name_Some)
  ultimately show ?thesis using facts by auto
qed

lemma well_known_aspects_parse:
  "find_aspect_descriptor n = Some d \<Longrightarrow> well_known_aspect n = Inr (AspectId n (ad_domain d))"
proof -
  assume "find_aspect_descriptor n = Some d"
  moreover from this have "d \<in> set well_known_aspects" and n: "n = ad_name d"
    by (auto simp: find_aspect_descriptor_def dest!: find_in_set)
  then have "aspect_parse (ad_name d) = Inr (AspectId (ad_name d) (ad_domain d))"
    by (simp add: well_known_aspects_def)
       (elim disjE; simp add: aspect_parse_def split_first_def domain_from_string_def
         enum_of_name_def domain_names_def is_valid_identifier_def aspect_max_length_def
         less_eq_char_def)
  ultimately show ?thesis by (simp add: well_known_aspect_def n)
qed

section \<open>Limits and policy\<close>

text \<open>\<^verbatim>\<open>uint32_t\<close> and \<^verbatim>\<open>uint64_t\<close> fields are words, \<^verbatim>\<open>size_t\<close> fields natural numbers below \<open>2 ^ 64\<close>.\<close>

record limits =
  max_sources :: "32 word"
  max_subjects :: "32 word"
  max_aspects_per_subject :: "32 word"
  max_claims_per_subject_aspect :: "32 word"
  max_incarnations_per_source :: "32 word"
  max_evidence_records :: "32 word"
  max_claims_per_observation :: "32 word"
  max_causal_refs :: "32 word"
  max_metadata_entries :: nat
  max_metadata_key_bytes :: nat
  max_metadata_value_bytes :: nat
  max_observation_bytes :: nat
  max_history_snapshots :: "32 word"
  max_query_results :: "32 word"
  max_hierarchy_depth :: "32 word"
  max_diff_changes :: "32 word"
  max_explanation_lines :: "32 word"
  max_rejections_retained :: "32 word"
  max_ingest_queue :: "32 word"
  max_workers :: "32 word"
  max_batch_observations :: "32 word"
  max_journal_bytes :: "64 word"
  max_journal_files :: "32 word"
  max_journal_record_bytes :: "64 word"
  max_recovered_observations :: "32 word"
  value_bounds :: value_limits

definition default_limits :: limits where
  "default_limits = \<lparr>max_sources = 1024, max_subjects = 1048576, max_aspects_per_subject = 64,
     max_claims_per_subject_aspect = 32, max_incarnations_per_source = 8,
     max_evidence_records = 262144, max_claims_per_observation = 512, max_causal_refs = 64,
     max_metadata_entries = 32, max_metadata_key_bytes = 64, max_metadata_value_bytes = 256,
     max_observation_bytes = 1048576, max_history_snapshots = 256, max_query_results = 4096,
     max_hierarchy_depth = 16, max_diff_changes = 8192, max_explanation_lines = 128,
     max_rejections_retained = 256, max_ingest_queue = 4096, max_workers = 8,
     max_batch_observations = 4096, max_journal_bytes = 67108864, max_journal_files = 8,
     max_journal_record_bytes = 4194304, max_recovered_observations = 1048576,
     value_bounds = default_value_limits\<rparr>"

definition wf_limits :: "limits \<Rightarrow> bool" where
  "wf_limits l \<longleftrightarrow> max_metadata_entries l < 2 ^ 64 \<and> max_metadata_key_bytes l < 2 ^ 64 \<and>
     max_metadata_value_bytes l < 2 ^ 64 \<and> max_observation_bytes l < 2 ^ 64 \<and>
     wf_value_limits (value_bounds l)"

record freshness_policy =
  fresh_window :: duration
  aging_window :: duration
  max_clock_skew :: duration
  allow_recovered_as_fresh :: bool

record coverage_policy =
  min_distinct_fresh_sources :: "32 word"
  required_authority :: source_authority

record truth_policy =
  default_coverage :: coverage_policy
  overrides :: "(aspect_id \<times> coverage_policy) list"

record ingest_policy =
  strict_generation_fence :: bool
  max_generation_advance :: "64 word"
  auto_register_sources :: bool
  auto_register_authority :: source_authority
  reject_unknown_aspects :: bool
  retain_rejections :: bool

record policy =
  policy_name :: string
  policy_revision :: "32 word"
  p_freshness :: freshness_policy
  p_truth :: truth_policy
  p_ingest :: ingest_policy
  p_limits :: limits

definition default_policy :: policy where
  "default_policy = \<lparr>policy_name = ''default'', policy_revision = 1,
     p_freshness = \<lparr>fresh_window = Duration 30000000000, aging_window = Duration 120000000000,
       max_clock_skew = Duration 5000000000, allow_recovered_as_fresh = False\<rparr>,
     p_truth = \<lparr>default_coverage = \<lparr>min_distinct_fresh_sources = 1, required_authority = SA_None\<rparr>,
       overrides = []\<rparr>,
     p_ingest = \<lparr>strict_generation_fence = False, max_generation_advance = 1000000,
       auto_register_sources = True, auto_register_authority = SA_Reported,
       reject_unknown_aspects = False, retain_rejections = True\<rparr>,
     p_limits = default_limits\<rparr>"

definition coverage_for :: "truth_policy \<Rightarrow> string \<Rightarrow> coverage_policy" where
  "coverage_for p aspect =
     (case find (\<lambda>e. aspect_value (fst e) = aspect) (overrides p) of
        Some e \<Rightarrow> snd e
      | None \<Rightarrow> (case find_aspect_descriptor aspect of
          Some d \<Rightarrow> \<lparr>min_distinct_fresh_sources = ad_required_sources d,
                     required_authority = ad_required_authority d\<rparr>
        | None \<Rightarrow> default_coverage p))"

text \<open>The loop over the overrides: the entry before the current one is the first argument.\<close>

fun validate_overrides ::
  "aspect_id option \<Rightarrow> (aspect_id \<times> coverage_policy) list \<Rightarrow> unit result" where
  "validate_overrides previous [] = Inr ()"
| "validate_overrides previous ((a, c) # rest) =
     (if min_distinct_fresh_sources c = 0
      then err SC_InvalidArgument ''coverage policy requires at least one fresh source''
      else if (case previous of None \<Rightarrow> False | Some b \<Rightarrow> \<not> b < a)
      then err SC_InvalidArgument ''truth policy overrides must be sorted and unique by aspect''
      else validate_overrides (Some a) rest)"

definition truth_policy_validate :: "truth_policy \<Rightarrow> unit result" where
  "truth_policy_validate p = rbind (validate_overrides None (overrides p)) (\<lambda>_.
     if min_distinct_fresh_sources (default_coverage p) = 0
     then err SC_InvalidArgument ''default coverage policy requires at least one fresh source''
     else Inr ())"

definition policy_validate :: "policy \<Rightarrow> unit result" where
  "policy_validate p =
     (let f = p_freshness p; l = p_limits p in
      if policy_name p = [] \<or> length (policy_name p) > 64
      then err SC_InvalidArgument ''policy name must be 1 to 64 characters''
      else if \<not> is_valid_identifier (policy_name p) 64
      then err SC_InvalidArgument ''policy name is restricted to [a-z0-9._-]''
      else if duration_is_negative (fresh_window f) \<or> duration_is_negative (aging_window f)
      then err SC_InvalidArgument ''freshness windows must not be negative''
      else if aging_window f < fresh_window f
      then err SC_InvalidArgument
        ''freshness aging window must not be shorter than the fresh window''
      else if duration_is_negative (max_clock_skew f)
      then err SC_InvalidArgument ''clock skew tolerance must not be negative''
      else if max_workers l = 0 \<or> max_ingest_queue l = 0
      then err SC_InvalidArgument ''worker and queue bounds must be non-zero''
      else if max_history_snapshots l = 0
      then err SC_InvalidArgument ''history bound must be non-zero''
      else if max_journal_bytes l = 0 \<or> max_journal_files l = 0
      then err SC_InvalidArgument ''journal bounds must be non-zero''
      else if max_depth (value_bounds l) = 0 \<or> max_total_nodes (value_bounds l) = 0
      then err SC_InvalidArgument ''value bounds must be non-zero''
      else truth_policy_validate (p_truth p))"

subsection \<open>Canonical encoding\<close>

definition enc_authority :: "source_authority \<Rightarrow> byte list" where
  "enc_authority a = enc_u8 (of_nat (authority_number a))"

definition enc_size :: "nat \<Rightarrow> byte list" where
  "enc_size n = enc_u64 (of_nat n)"

definition encode_coverage :: "coverage_policy \<Rightarrow> byte list" where
  "encode_coverage c = enc_u32 (min_distinct_fresh_sources c) @ enc_authority (required_authority c)"

definition encode_limits :: "limits \<Rightarrow> byte list" where
  "encode_limits l =
     enc_u32 (max_sources l) @ enc_u32 (max_subjects l) @ enc_u32 (max_aspects_per_subject l) @
     enc_u32 (max_claims_per_subject_aspect l) @ enc_u32 (max_incarnations_per_source l) @
     enc_u32 (max_evidence_records l) @ enc_u32 (max_claims_per_observation l) @
     enc_u32 (max_causal_refs l) @
     enc_size (max_metadata_entries l) @ enc_size (max_metadata_key_bytes l) @
     enc_size (max_metadata_value_bytes l) @ enc_size (max_observation_bytes l) @
     enc_u32 (max_history_snapshots l) @ enc_u32 (max_query_results l) @
     enc_u32 (max_hierarchy_depth l) @ enc_u32 (max_diff_changes l) @
     enc_u32 (max_explanation_lines l) @ enc_u32 (max_rejections_retained l) @
     enc_u32 (max_ingest_queue l) @ enc_u32 (max_workers l) @ enc_u32 (max_batch_observations l) @
     enc_u64 (max_journal_bytes l) @ enc_u32 (max_journal_files l) @
     enc_u64 (max_journal_record_bytes l) @ enc_u32 (max_recovered_observations l) @
     (let v = value_bounds l in
      enc_size (max_depth v) @ enc_size (max_list_elements v) @ enc_size (max_map_entries v) @
      enc_size (max_text_bytes v) @ enc_size (max_blob_bytes v) @ enc_size (max_total_nodes v))"

definition encode_freshness :: "freshness_policy \<Rightarrow> byte list" where
  "encode_freshness f =
     enc_i64 (du_nanos (fresh_window f)) @ enc_i64 (du_nanos (aging_window f)) @
     enc_i64 (du_nanos (max_clock_skew f)) @ enc_bool (allow_recovered_as_fresh f)"

definition encode_overrides :: "(aspect_id \<times> coverage_policy) list \<Rightarrow> byte list" where
  "encode_overrides os = concat (map (\<lambda>e. enc_text (aspect_value (fst e)) @ encode_coverage (snd e)) os)"

definition encode_ingest :: "ingest_policy \<Rightarrow> byte list" where
  "encode_ingest i =
     enc_bool (strict_generation_fence i) @ enc_u64 (max_generation_advance i) @
     enc_bool (auto_register_sources i) @ enc_authority (auto_register_authority i) @
     enc_bool (reject_unknown_aspects i) @ enc_bool (retain_rejections i)"

definition policy_encode :: "policy \<Rightarrow> byte list" where
  "policy_encode p =
     enc_tag ''policy'' @ enc_u8 1 @ enc_text (policy_name p) @ enc_u32 (policy_revision p) @
     encode_freshness (p_freshness p) @
     encode_coverage (default_coverage (p_truth p)) @
     enc_u32 (of_nat (length (overrides (p_truth p)))) @
     encode_overrides (overrides (p_truth p)) @
     encode_ingest (p_ingest p) @
     encode_limits (p_limits p)"

definition policy_digest :: "policy \<Rightarrow> digest256" where
  "policy_digest p = sha256 (policy_encode p)"

definition policy_canonical_text :: "policy \<Rightarrow> string" where
  "policy_canonical_text p =
     ''policy '' @ policy_name p @ '' r'' @ nat_text (unat (policy_revision p)) @
     '' fresh='' @ int_text (sint (du_nanos (fresh_window (p_freshness p)))) @
     '' aging='' @ int_text (sint (du_nanos (aging_window (p_freshness p)))) @
     '' skew='' @ int_text (sint (du_nanos (max_clock_skew (p_freshness p)))) @
     '' recovered_as_fresh='' @
       (if allow_recovered_as_fresh (p_freshness p) then ''yes'' else ''no'') @
     '' digest='' @ digest_to_short_hex (policy_digest p)"

section \<open>What validation and coverage establish\<close>

lemma validate_overrides_sorted:
  "validate_overrides previous os = Inr () \<longleftrightarrow>
     (\<forall>e\<in>set os. min_distinct_fresh_sources (snd e) \<noteq> 0) \<and> om_sorted os \<and>
     (case previous of None \<Rightarrow> True | Some b \<Rightarrow> \<forall>e\<in>set os. b < fst e)"
proof (induction previous os rule: validate_overrides.induct)
  case (2 previous a c rest)
  then show ?case
    by (auto simp: om_sorted_def split: option.splits)
qed (simp split: option.split)

lemma policy_validate_ok:
  "policy_validate p = Inr () \<Longrightarrow>
     is_valid_identifier (policy_name p) 64 \<and>
     \<not> duration_is_negative (fresh_window (p_freshness p)) \<and>
     fresh_window (p_freshness p) \<le> aging_window (p_freshness p) \<and>
     \<not> duration_is_negative (max_clock_skew (p_freshness p)) \<and>
     max_workers (p_limits p) \<noteq> 0 \<and> max_ingest_queue (p_limits p) \<noteq> 0 \<and>
     max_history_snapshots (p_limits p) \<noteq> 0 \<and> max_journal_bytes (p_limits p) \<noteq> 0 \<and>
     max_journal_files (p_limits p) \<noteq> 0 \<and> 1 \<le> max_depth (value_bounds (p_limits p)) \<and>
     1 \<le> max_total_nodes (value_bounds (p_limits p)) \<and> om_sorted (overrides (p_truth p)) \<and>
     (\<forall>e\<in>set (overrides (p_truth p)). min_distinct_fresh_sources (snd e) \<noteq> 0) \<and>
     min_distinct_fresh_sources (default_coverage (p_truth p)) \<noteq> 0"
  by (auto simp: policy_validate_def Let_def truth_policy_validate_def rbind_Inr_iff not_less
      validate_overrides_sorted split: if_splits)

text \<open>A valid policy never lets an aspect be asserted on the word of no source at all.\<close>

lemma coverage_for_positive:
  assumes "truth_policy_validate p = Inr ()"
  shows "min_distinct_fresh_sources (coverage_for p a) \<noteq> 0"
proof -
  have "ad_required_sources d \<noteq> 0" if "find_aspect_descriptor a = Some d" for d
  proof -
    have "d \<in> set well_known_aspects"
      using that by (auto simp: find_aspect_descriptor_def dest!: find_in_set)
    then show ?thesis by (auto simp: well_known_aspects_def)
  qed
  moreover have "min_distinct_fresh_sources (snd e) \<noteq> 0"
    if "find (\<lambda>e. aspect_value (fst e) = a) (overrides p) = Some e" for e
    using that assms
    by (auto simp: truth_policy_validate_def rbind_Inr_iff validate_overrides_sorted
        dest!: find_in_set)
  ultimately show ?thesis
    using assms by (auto simp: coverage_for_def truth_policy_validate_def rbind_Inr_iff
        split: option.split if_splits)
qed

lemma coverage_for_override:
  assumes "om_sorted (overrides p)" "(a, c) \<in> set (overrides p)"
    and "\<forall>e\<in>set (overrides p). wf_aspect (fst e)"
  shows "coverage_for p (aspect_value a) = c"
proof -
  obtain e where e: "find (\<lambda>e. aspect_value (fst e) = aspect_value a) (overrides p) = Some e"
    using assms(2) by (metis (mono_tags, lifting) find_None_iff fst_conv not_None_eq)
  then have "e \<in> set (overrides p)" and same: "aspect_value (fst e) = aspect_value a"
    by (auto dest!: find_in_set)
  then have "fst e = a"
    using assms(2,3) by (metis fst_conv sum.inject(2) wf_aspect_def)
  then have "snd e = c"
    using \<open>e \<in> set (overrides p)\<close> assms(1,2) om_sorted_distinct[OF assms(1)]
    by (metis eq_key_imp_eq_value prod.collapse)
  then show ?thesis using e by (simp add: coverage_for_def)
qed

lemma default_policy_valid: "policy_validate default_policy = Inr ()"
  by (simp add: policy_validate_def default_policy_def Let_def is_valid_identifier_def
      less_eq_char_def duration_is_negative_def less_duration_def default_limits_def
      default_value_limits_def truth_policy_validate_def)

section \<open>The policy encoding is unambiguous\<close>

definition wf_policy :: "policy \<Rightarrow> bool" where
  "wf_policy p \<longleftrightarrow> length (policy_name p) \<le> 64 \<and> wf_limits (p_limits p) \<and>
     length (overrides (p_truth p)) < 2 ^ 32 \<and> (\<forall>e\<in>set (overrides (p_truth p)). wf_aspect (fst e))"

lemma enc_authority_append:
  "enc_authority a @ r = enc_authority b @ s \<longleftrightarrow> a = b \<and> r = s"
proof -
  have "(of_nat (authority_number a) :: byte) = of_nat (authority_number b) \<longleftrightarrow> a = b"
    using authority_number_less[of a] authority_number_less[of b]
    by (subst of_nat_word_inject) simp_all
  then show ?thesis by (simp add: enc_authority_def enc_append_iff)
qed

lemma enc_size_append:
  "m < 2 ^ 64 \<Longrightarrow> n < 2 ^ 64 \<Longrightarrow> enc_size m @ r = enc_size n @ s \<longleftrightarrow> m = n \<and> r = s"
  unfolding enc_size_def enc_append_iff by (subst of_nat_word_inject) simp_all

lemma enc_size_eq: "m < 2 ^ 64 \<Longrightarrow> n < 2 ^ 64 \<Longrightarrow> enc_size m = enc_size n \<longleftrightarrow> m = n"
  using enc_size_append[of m n "[]" "[]"] by simp

lemma encode_coverage_append:
  "encode_coverage c @ r = encode_coverage d @ s \<longleftrightarrow> c = (d :: coverage_policy) \<and> r = s"
  by (auto simp: encode_coverage_def enc_append_iff enc_authority_append
      intro: coverage_policy.equality)

lemma encode_limits_inject:
  assumes "wf_limits l" "wf_limits m" "encode_limits l = encode_limits m"
  shows "l = (m :: limits)"
proof -
  have sizes: "max_metadata_entries k < 2 ^ 64" "max_metadata_key_bytes k < 2 ^ 64"
    "max_metadata_value_bytes k < 2 ^ 64" "max_observation_bytes k < 2 ^ 64"
    "max_depth (value_bounds k) < 2 ^ 64" "max_list_elements (value_bounds k) < 2 ^ 64"
    "max_map_entries (value_bounds k) < 2 ^ 64" "max_text_bytes (value_bounds k) < 2 ^ 64"
    "max_blob_bytes (value_bounds k) < 2 ^ 64" "max_total_nodes (value_bounds k) < 2 ^ 64"
    if "wf_limits k" for k :: limits
    using that by (simp_all add: wf_limits_def wf_value_limits_def)
  show ?thesis
    using assms(3) sizes[OF assms(1)] sizes[OF assms(2)]
    by (simp add: encode_limits_def Let_def enc_append_iff enc_size_append enc_size_eq)
qed

lemma enc_aspect_append:
  assumes "wf_aspect a" "wf_aspect b"
  shows "enc_text (aspect_value a) @ r = enc_text (aspect_value b) @ s \<longleftrightarrow> a = b \<and> r = s"
proof -
  have "length (aspect_value c) < 2 ^ 64" if "wf_aspect c" for c
    using wf_aspect_facts[OF that] by simp
  then have "enc_text (aspect_value a) @ r = enc_text (aspect_value b) @ s \<longleftrightarrow>
      aspect_value a = aspect_value b \<and> r = s"
    using assms by (intro text_codec.append_eq_iff) simp_all
  moreover have "aspect_value a = aspect_value b \<longleftrightarrow> a = b"
    using assms by (metis sum.inject(2) wf_aspect_def)
  ultimately show ?thesis by simp
qed

lemma encode_overrides_append:
  assumes "length xs = length ys" "\<forall>e\<in>set xs. wf_aspect (fst e)" "\<forall>e\<in>set ys. wf_aspect (fst e)"
  shows "encode_overrides xs @ r = encode_overrides ys @ s \<longleftrightarrow> xs = ys \<and> r = s"
  using assms
proof (induction xs ys rule: list_induct2)
  case (Cons x xs y ys)
  then show ?case
    by (auto simp: encode_overrides_def enc_aspect_append encode_coverage_append prod_eq_iff)
qed (simp add: encode_overrides_def)

lemma encode_freshness_append:
  "encode_freshness f @ r = encode_freshness g @ s \<longleftrightarrow> f = (g :: freshness_policy) \<and> r = s"
  by (auto simp: encode_freshness_def enc_append_iff intro!: freshness_policy.equality duration.expand)

lemma encode_ingest_append:
  "encode_ingest i @ r = encode_ingest j @ s \<longleftrightarrow> i = (j :: ingest_policy) \<and> r = s"
  by (auto simp: encode_ingest_def enc_append_iff enc_authority_append intro: ingest_policy.equality)

lemma policy_encode_inject:
  assumes "wf_policy p" "wf_policy q" and eq: "policy_encode p = policy_encode q"
  shows "p = (q :: policy)"
proof -
  have names: "length (policy_name p) < 2 ^ 64" "length (policy_name q) < 2 ^ 64"
    and counts: "length (overrides (p_truth p)) < 2 ^ LENGTH(32)"
      "length (overrides (p_truth q)) < 2 ^ LENGTH(32)"
    using assms(1,2) by (simp_all add: wf_policy_def)
  have fields: "policy_name p = policy_name q" "policy_revision p = policy_revision q"
      "p_freshness p = p_freshness q" "default_coverage (p_truth p) = default_coverage (p_truth q)"
      "length (overrides (p_truth p)) = length (overrides (p_truth q))"
    and rest: "encode_overrides (overrides (p_truth p)) @ encode_ingest (p_ingest p) @
        encode_limits (p_limits p) = encode_overrides (overrides (p_truth q)) @
        encode_ingest (p_ingest q) @ encode_limits (p_limits q)"
    using eq unfolding policy_encode_def
    by (simp_all add: text_codec.append_eq_iff[OF names] enc_append_iff encode_freshness_append
        encode_coverage_append of_nat_word_inject[OF counts])
  then have "overrides (p_truth p) = overrides (p_truth q)" "p_ingest p = p_ingest q"
    and "encode_limits (p_limits p) = encode_limits (p_limits q)"
    using assms(1,2) by (simp_all add: encode_overrides_append encode_ingest_append wf_policy_def)
  moreover from this have "p_limits p = p_limits q"
    using assms(1,2) by (intro encode_limits_inject) (simp_all add: wf_policy_def)
  ultimately show ?thesis
    using fields by (intro policy.equality truth_policy.equality) simp_all
qed

end
