(* ===== verification/Fab_Observation.thy ===== *)
theory Fab_Observation
  imports Fab_Policy
begin

text \<open>
  \<^verbatim>\<open>observation.hpp\<close>, \<^verbatim>\<open>observation.cpp\<close> and \<^verbatim>\<open>provenance.hpp\<close>: the unit of input, its
  canonical form, its binary encoding and the validation applied before it may become
  evidence. Results: the canonical form and with it the content digest do not depend on the
  order in which a source lists its statements; decoding inverts encoding; whatever the
  decoder returns is canonical and valid under the limits in force.

  The JSON form (\<^verbatim>\<open>to_json\<close>, \<^verbatim>\<open>from_json\<close>) is not modelled here.
\<close>

section \<open>Sources\<close>

record source_descriptor =
  sd_id :: source_id
  sd_name :: string
  sd_authority_name :: string
  sd_aspects :: "aspect_id list"
  sd_max_authority :: source_authority
  sd_schema :: string

definition declares :: "source_descriptor \<Rightarrow> string \<Rightarrow> bool" where
  "declares d aspect \<longleftrightarrow> list_ex (\<lambda>a. aspect_value a = aspect) (sd_aspects d)"

record source_incarnation =
  si_id :: incarnation_id
  si_boot_time :: time_point
  si_boot_counter :: "64 word"

section \<open>Metadata\<close>

type_synonym metadata = "(string \<times> string) list"

fun check_metadata :: "limits \<Rightarrow> (string \<times> string) list \<Rightarrow> unit result" where
  "check_metadata l [] = Inr ()"
| "check_metadata l ((k, v) # entries) =
     (if k = [] then err SC_InvalidArgument ''metadata keys must not be empty''
      else if length k > max_metadata_key_bytes l
      then err SC_TooLarge ''metadata key exceeds the configured length''
      else if \<not> is_valid_identifier k (max_metadata_key_bytes l)
      then err SC_InvalidArgument ''metadata keys are restricted to [a-z0-9._-]''
      else if length v > max_metadata_value_bytes l
      then err SC_TooLarge ''metadata value exceeds the configured length''
      else check_metadata l entries)"

definition metadata_make :: "(string \<times> string) list \<Rightarrow> limits \<Rightarrow> metadata result" where
  "metadata_make entries l =
     (if length entries > max_metadata_entries l
      then err SC_TooLarge ''metadata exceeds the configured entry count''
      else rbind (check_metadata l entries) (\<lambda>_.
        let sorted_entries = sort_key fst entries in
        if has_adjacent_duplicate sorted_entries
        then err SC_InvalidArgument ''metadata contains a duplicate key''
        else Inr sorted_entries))"

definition metadata_find :: "metadata \<Rightarrow> string \<Rightarrow> string option" where
  "metadata_find m key = map_option snd (find (\<lambda>e. fst e = key) m)"

section \<open>Causal references\<close>

datatype causal_strength = CS_CorrelatesWith | CS_TemporallyPrecedes | CS_ContributoryEvidence

definition causal_names :: "(causal_strength \<times> string) list" where
  "causal_names =
    [(CS_CorrelatesWith, ''correlates-with''),
     (CS_TemporallyPrecedes, ''temporally-precedes''),
     (CS_ContributoryEvidence, ''contributory-evidence'')]"

definition causal_text :: "causal_strength \<Rightarrow> string" where
  "causal_text e = enum_name causal_names ''correlates-with'' e"

definition causal_from_string :: "string \<Rightarrow> causal_strength option" where
  "causal_from_string cs = enum_of_name causal_names cs"

definition causal_number :: "causal_strength \<Rightarrow> nat" where
  "causal_number e = index_of e (map fst causal_names)"

interpretation causal_enum: named_enum causal_names "''correlates-with''"
proof
  fix e :: causal_strength
  show "e \<in> fst ` set causal_names"
    by (cases e) (simp_all add: causal_names_def)
qed (simp_all add: causal_names_def)

lemma causal_number_inject [simp]: "causal_number a = causal_number b \<longleftrightarrow> a = b"
  by (cases a; cases b) (simp_all add: causal_number_def causal_names_def)

lemma causal_number_less: "causal_number e < 3"
  by (cases e) (simp_all add: causal_number_def causal_names_def)

definition causality_disclaimer :: "causal_strength \<Rightarrow> string" where
  "causality_disclaimer e =
     (case e of
        CS_CorrelatesWith \<Rightarrow> ''recorded correlation only; no causal relationship is asserted''
      | CS_TemporallyPrecedes \<Rightarrow>
          ''recorded temporal ordering only; no causal relationship is asserted''
      | CS_ContributoryEvidence \<Rightarrow>
          ''recorded contributing evidence only; no causal relationship is asserted'')"

section \<open>Observations\<close>

record claim =
  cl_subject :: subject_identity
  cl_aspect :: aspect_id
  cl_value :: fvalue
  cl_supported :: bool
  cl_revision :: claim_revision

record causal_ref =
  cr_antecedent :: digest256
  cr_strength :: causal_strength
  cr_basis :: string

record observation =
  ob_schema :: string
  ob_fabric :: fabric_id
  ob_source :: source_id
  ob_incarnation :: incarnation_id
  ob_sequence :: source_sequence
  ob_generation :: generation_id
  ob_epoch :: epoch_id
  ob_observed_at :: time_point
  ob_claims :: "claim list"
  ob_causal :: "causal_ref list"
  ob_metadata :: metadata

record observation_record =
  or_observation :: observation
  or_received_at :: time_point
  or_recovered :: bool
  or_recovery_epoch :: restart_epoch

subsection \<open>Canonical form\<close>

text \<open>The members the two comparators of \<^verbatim>\<open>canonicalize\<close> look at, in their order.\<close>

definition claim_key where
  "claim_key c = (subject_key (cl_subject c), cl_aspect c)"

definition causal_key :: "causal_ref \<Rightarrow> digest256 \<times> nat \<times> string" where
  "causal_key r = (cr_antecedent r, causal_number (cr_strength r), cr_basis r)"

definition canonicalize :: "observation \<Rightarrow> observation" where
  "canonicalize ob = ob\<lparr>ob_claims := sort_key claim_key (ob_claims ob),
     ob_causal := sort_key causal_key (ob_causal ob)\<rparr>"

subsection \<open>Encoding\<close>

definition enc_u128 :: "uint128 \<Rightarrow> byte list" where
  "enc_u128 v = enc_u64 (u_hi v) @ enc_u64 (u_lo v)"

definition encode_entity_ref :: "subject_identity \<Rightarrow> byte list" where
  "encode_entity_ref s = enc_u8 (of_nat (entity_kind_number (su_kind s))) @
     enc_u64 (u_hi (entity_value (su_id s))) @ enc_u64 (u_lo (entity_value (su_id s))) @
     enc_text (typed_text s)"

definition encode_claim :: "claim \<Rightarrow> byte list" where
  "encode_claim c = encode_entity_ref (cl_subject c) @ enc_text (aspect_value (cl_aspect c)) @
     value_encode (cl_value c) @ enc_bool (cl_supported c) @ enc_u64 (cl_revision c)"

definition encode_causal :: "causal_ref \<Rightarrow> byte list" where
  "encode_causal r = enc_bytes (cr_antecedent r) @
     enc_u8 (of_nat (causal_number (cr_strength r))) @ enc_text (cr_basis r)"

definition encode_metadata_entry :: "string \<times> string \<Rightarrow> byte list" where
  "encode_metadata_entry e = enc_text (fst e) @ enc_text (snd e)"

definition observation_encode :: "observation \<Rightarrow> byte list" where
  "observation_encode ob =
     enc_tag ''observation'' @ enc_u8 1 @ enc_text (ob_schema ob) @
     enc_u64 (u_hi (id_value (ob_fabric ob))) @ enc_u64 (u_lo (id_value (ob_fabric ob))) @
     enc_u64 (u_hi (id_value (ob_source ob))) @ enc_u64 (u_lo (id_value (ob_source ob))) @
     enc_u64 (u_hi (id_value (ob_incarnation ob))) @ enc_u64 (u_lo (id_value (ob_incarnation ob))) @
     enc_u64 (ob_sequence ob) @ enc_u64 (ob_generation ob) @ enc_u64 (ob_epoch ob) @
     enc_i64 (tp_nanos (ob_observed_at ob)) @
     enc_size (length (ob_claims ob)) @ concat (map encode_claim (ob_claims ob)) @
     enc_size (length (ob_causal ob)) @ concat (map encode_causal (ob_causal ob)) @
     enc_size (length (ob_metadata ob)) @ concat (map encode_metadata_entry (ob_metadata ob))"

definition content_digest :: "observation \<Rightarrow> digest256" where
  "content_digest ob = sha256 (observation_encode ob)"

subsection \<open>Validation\<close>

fun validate_metadata_sizes :: "limits \<Rightarrow> metadata \<Rightarrow> unit result" where
  "validate_metadata_sizes l [] = Inr ()"
| "validate_metadata_sizes l ((k, v) # entries) =
     (if length k > max_metadata_key_bytes l
      then err SC_TooLarge ''metadata key exceeds the configured length''
      else if length v > max_metadata_value_bytes l
      then err SC_TooLarge ''metadata value exceeds the configured length''
      else validate_metadata_sizes l entries)"

fun validate_claims :: "limits \<Rightarrow> claim list \<Rightarrow> unit result" where
  "validate_claims l [] = Inr ()"
| "validate_claims l (c # cs) =
     (if entity_is_nil (su_id (cl_subject c))
      then err SC_InvalidArgument ''claim subject identity must be set''
      else if aspect_value (cl_aspect c) = []
      then err SC_InvalidArgument ''claim aspect must be set''
      else rbind (value_validate (value_bounds l) (cl_value c)) (\<lambda>_. validate_claims l cs))"

fun asserts_twice :: "claim list \<Rightarrow> bool" where
  "asserts_twice (a # b # cs) \<longleftrightarrow>
     (cl_subject a = cl_subject b \<and> cl_aspect a = cl_aspect b) \<or> asserts_twice (b # cs)"
| "asserts_twice _ \<longleftrightarrow> False"

definition observation_validate :: "limits \<Rightarrow> observation \<Rightarrow> unit result" where
  "observation_validate l ob =
     (if id_is_nil (ob_fabric ob)
      then err SC_InvalidArgument ''observation fabric identity must be set''
      else if id_is_nil (ob_source ob)
      then err SC_InvalidArgument ''observation source identity must be set''
      else if id_is_nil (ob_incarnation ob)
      then err SC_InvalidArgument ''observation source incarnation must be set''
      else if ob_sequence ob = 0
      then err SC_InvalidArgument
        (''observation sequence must be non-zero; zero is reserved for '' @
         [CHR 0x27] @ ''unset'' @ [CHR 0x27])
      else if length (ob_claims ob) > unat (max_claims_per_observation l)
      then err SC_TooLarge ''observation carries more claims than the configured maximum''
      else if length (ob_causal ob) > unat (max_causal_refs l)
      then err SC_TooLarge ''observation carries more causal references than the configured maximum''
      else if ob_schema ob = []
      then err SC_InvalidArgument ''observation schema must be declared''
      else if length (ob_metadata ob) > max_metadata_entries l
      then err SC_TooLarge ''observation carries more metadata than the configured maximum''
      else rbind (validate_metadata_sizes l (ob_metadata ob)) (\<lambda>_.
        rbind (validate_claims l (ob_claims ob)) (\<lambda>_.
        if asserts_twice (ob_claims ob)
        then err SC_InvalidArgument ''observation asserts the same subject and aspect twice''
        else if list_ex (\<lambda>r. digest_is_zero (cr_antecedent r)) (ob_causal ob)
        then err SC_InvalidArgument ''causal reference antecedent must be set''
        else Inr ())))"

subsection \<open>Decoding\<close>

text \<open>A field whose failure is only looked at after later fields were read.\<close>

definition dec_try :: "'a dec \<Rightarrow> 'a result dec" where
  "dec_try f d = (case f d of (r, d') \<Rightarrow> (Inr r, d'))"

fun dec_group :: "'a dec list \<Rightarrow> 'a result list dec" where
  "dec_group [] = dec_return []"
| "dec_group (f # fs) =
     dec_bind (dec_try f) (\<lambda>r. dec_bind (dec_group fs) (\<lambda>rs. dec_return (r # rs)))"

definition dec_fields :: "'a dec list \<Rightarrow> string \<Rightarrow> 'a list dec" where
  "dec_fields fs message = dec_bind (dec_group fs) (\<lambda>rs.
     if list_ex isl rs then dec_fail SC_Corrupt message else dec_return (map projr rs))"

definition decode_entity_ref :: "subject_identity dec" where
  "decode_entity_ref = dec_bind dec_u8 (\<lambda>raw_kind.
     if raw_kind > 7 then dec_poison_fail SC_Corrupt ''unknown entity kind in canonical input''
     else dec_bind dec_u64 (\<lambda>hi. dec_bind dec_u64 (\<lambda>lo. dec_bind dec_text (\<lambda>typed.
       dec_bind (dec_lift (subject_from_text typed)) (\<lambda>s.
         if entity_kind_number (su_kind s) \<noteq> unat raw_kind \<or>
            u_hi (entity_value (su_id s)) \<noteq> hi \<or> u_lo (entity_value (su_id s)) \<noteq> lo
         then dec_poison_fail SC_Corrupt ''canonical subject identity disagrees with its typed text''
         else dec_return s)))))"

definition decode_claim :: "limits \<Rightarrow> claim dec" where
  "decode_claim l = dec_bind decode_entity_ref (\<lambda>subject. dec_bind dec_text (\<lambda>aspect_name.
     dec_bind (dec_lift (aspect_parse aspect_name)) (\<lambda>aspect.
     dec_bind (value_decode (value_bounds l)) (\<lambda>v. dec_bind dec_bool (\<lambda>supported.
     dec_bind dec_u64 (\<lambda>revision. dec_return \<lparr>cl_subject = subject, cl_aspect = aspect,
       cl_value = v, cl_supported = supported, cl_revision = revision\<rparr>))))))"

definition decode_causal :: "causal_ref dec" where
  "decode_causal = dec_bind dec_bytes (\<lambda>antecedent.
     if length antecedent \<noteq> 32
     then dec_poison_fail SC_Corrupt ''canonical causal antecedent is not 32 bytes''
     else dec_bind dec_u8 (\<lambda>strength.
       if unat strength \<ge> 3
       then dec_poison_fail SC_Corrupt ''canonical causal strength is out of range''
       else dec_bind dec_text (\<lambda>basis. dec_return \<lparr>cr_antecedent = antecedent,
         cr_strength = fst (causal_names ! unat strength), cr_basis = basis\<rparr>)))"

definition decode_metadata_entry :: "(string \<times> string) dec" where
  "decode_metadata_entry = dec_bind (dec_fields [dec_text, dec_text]
       ''canonical observation metadata is truncated'') (\<lambda>kv. dec_return (kv ! 0, kv ! 1))"

text \<open>A counted sequence whose count is checked against a bound before anything is read.\<close>

definition dec_counted :: "nat \<Rightarrow> string \<Rightarrow> 'a dec \<Rightarrow> 'a list dec" where
  "dec_counted bound message f = dec_bind dec_u64 (\<lambda>count.
     if unat count > bound then dec_poison_fail SC_TooLarge message
     else dec_repeat (unat count) f)"

definition observation_decode :: "limits \<Rightarrow> observation dec" where
  "observation_decode l =
     dec_bind (dec_tag ''observation'') (\<lambda>_.
     dec_bind (dec_expect_u8 1) (\<lambda>_.
     dec_bind dec_text (\<lambda>schema.
     dec_bind (dec_fields [dec_u64, dec_u64, dec_u64, dec_u64, dec_u64, dec_u64]
       ''canonical observation identity is truncated'') (\<lambda>ids.
     dec_bind (dec_fields [dec_u64, dec_u64, dec_u64, dec_i64]
       ''canonical observation header is truncated'') (\<lambda>header.
     dec_bind (dec_counted (unat (max_claims_per_observation l))
       ''canonical observation carries more claims than the maximum'' (decode_claim l)) (\<lambda>claims.
     dec_bind (dec_counted (unat (max_causal_refs l))
       ''canonical observation carries more causal references than the maximum'' decode_causal) (\<lambda>causal.
     dec_bind (dec_counted (max_metadata_entries l)
       ''canonical observation carries more metadata than the maximum'' decode_metadata_entry) (\<lambda>entries.
     dec_bind (dec_lift (metadata_make entries l)) (\<lambda>metadata.
     let ob = canonicalize \<lparr>ob_schema = schema,
          ob_fabric = BasicId (Uint128 (ids ! 0) (ids ! 1)),
          ob_source = BasicId (Uint128 (ids ! 2) (ids ! 3)),
          ob_incarnation = BasicId (Uint128 (ids ! 4) (ids ! 5)),
          ob_sequence = header ! 0, ob_generation = header ! 1, ob_epoch = header ! 2,
          ob_observed_at = TimePoint (header ! 3),
          ob_claims = claims, ob_causal = causal, ob_metadata = metadata\<rparr>
     in dec_bind (dec_lift (observation_validate l ob)) (\<lambda>_. dec_return ob))))))))))"

section \<open>Decoding inverts encoding\<close>

text \<open>
  What holds of every observation the runtime keeps: its parts come from their constructors,
  it is in canonical form, and it passed validation.
\<close>

definition wf_claim :: "claim \<Rightarrow> bool" where
  "wf_claim c \<longleftrightarrow> wf_subject (cl_subject c) \<and> wf_aspect (cl_aspect c) \<and> value_wf (cl_value c)"

definition wf_causal :: "causal_ref \<Rightarrow> bool" where
  "wf_causal r \<longleftrightarrow> length (cr_antecedent r) = 32 \<and> length (cr_basis r) < 2 ^ 64"

definition wf_observation :: "limits \<Rightarrow> observation \<Rightarrow> bool" where
  "wf_observation l ob \<longleftrightarrow> list_all wf_claim (ob_claims ob) \<and> list_all wf_causal (ob_causal ob) \<and>
     length (ob_schema ob) < 2 ^ 64 \<and> metadata_make (ob_metadata ob) l = Inr (ob_metadata ob) \<and>
     canonicalize ob = ob \<and> observation_validate l ob = Inr ()"

lemma record_collapse:
  "\<lparr>cl_subject = cl_subject c, cl_aspect = cl_aspect c, cl_value = cl_value c,
     cl_supported = cl_supported c, cl_revision = cl_revision c\<rparr> = c"
  "\<lparr>cr_antecedent = cr_antecedent r, cr_strength = cr_strength r, cr_basis = cr_basis r\<rparr> = r"
  "\<lparr>ob_schema = ob_schema ob, ob_fabric = ob_fabric ob, ob_source = ob_source ob,
     ob_incarnation = ob_incarnation ob, ob_sequence = ob_sequence ob,
     ob_generation = ob_generation ob, ob_epoch = ob_epoch ob, ob_observed_at = ob_observed_at ob,
     ob_claims = ob_claims ob, ob_causal = ob_causal ob, ob_metadata = ob_metadata ob\<rparr> = ob"
  by simp_all

lemma reads_try: "reads f bs v \<Longrightarrow> reads (dec_try f) bs (Inr v)"
  by (simp add: reads_def dec_try_def)

lemma reads_group:
  "list_all2 (\<lambda>f bv. reads f (fst bv) (snd bv)) fs bvs \<Longrightarrow>
   reads (dec_group fs) (concat (map fst bvs)) (map (\<lambda>bv. Inr (snd bv)) bvs)"
proof (induction fs bvs rule: list_all2_induct)
  case Nil
  then show ?case by (simp add: reads_return)
next
  case (Cons f fs bv bvs)
  then show ?case
    unfolding dec_group.simps
    by (simp add: reads_bind[OF reads_try] reads_bind_last reads_return)
qed

lemma reads_fields:
  assumes "list_all2 (\<lambda>f bv. reads f (fst bv) (snd bv)) fs bvs"
  shows "reads (dec_fields fs m) (concat (map fst bvs)) (map snd bvs)"
  unfolding dec_fields_def
  by (rule reads_bind_last[OF reads_group[OF assms]])
     (simp add: list_ex_iff comp_def reads_return)

lemma reads_counted:
  assumes "n = length vs" "length vs \<le> bound" "bound < 2 ^ 64"
    and "\<And>v. v \<in> set vs \<Longrightarrow> reads f (enc v) v"
  shows "reads (dec_counted bound m f) (enc_size n @ concat (map enc vs)) vs"
proof -
  have count: "unat (of_nat n :: 64 word) = length vs"
    using assms(1,2,3) by (simp add: unat_of_nat_small)
  show ?thesis
    unfolding dec_counted_def enc_size_def
    by (rule reads_bind[OF reads_u64])
       (use assms count in \<open>simp add: reads_values\<close>)
qed

lemma reads_entity_ref:
  assumes "wf_subject s"
  shows "reads decode_entity_ref (encode_entity_ref s) s"
proof -
  let ?k = "of_nat (entity_kind_number (su_kind s)) :: byte"
  have k: "unat ?k = entity_kind_number (su_kind s)" "\<not> ?k > 7"
    using entity_kind_number_less[of "su_kind s"]
    by (simp_all add: unat_of_nat_small word_less_nat_alt)
  have text_len: "length (typed_text s) < 2 ^ 64"
    using length_typed_text[of s] by simp
  show ?thesis
    unfolding decode_entity_ref_def encode_entity_ref_def
    using k
    by (intro reads_bind[OF reads_u8] reads_if reads_bind[OF reads_u64]
        reads_bind_last[OF reads_text[OF text_len]] 
        reads_bind_first[OF reads_lift[OF subject_from_typed_text[OF assms]]])
       (simp_all add: reads_return)
qed

lemma wf_aspect_length: "wf_aspect a \<Longrightarrow> length (aspect_value a) < 2 ^ 64"
  using wf_aspect_facts[of a] by simp

lemma reads_claim:
  assumes "wf_claim c" "value_validate (value_bounds l) (cl_value c) = Inr ()" "wf_limits l"
  shows "reads (decode_claim l) (encode_claim c) c"
proof -
  have subject: "wf_subject (cl_subject c)"
    and aspect: "aspect_parse (aspect_value (cl_aspect c)) = Inr (cl_aspect c)"
      "length (aspect_value (cl_aspect c)) < 2 ^ 64"
    and v: "value_fits (value_bounds l) (cl_value c)" "wf_value_limits (value_bounds l)"
    using assms wf_aspect_length[of "cl_aspect c"]
    by (auto simp: wf_claim_def wf_aspect_def value_fits_def wf_limits_def)
  show ?thesis
    unfolding decode_claim_def encode_claim_def
    by (intro reads_bind[OF reads_entity_ref[OF subject]] reads_bind[OF reads_text[OF aspect(2)]]
        reads_bind_first[OF reads_lift[OF aspect(1)]] reads_bind[OF reads_value[OF v]]
        reads_bind[OF reads_bool] reads_bind_last[OF reads_u64])
       (simp add: record_collapse reads_return)
qed

lemma causal_of_number: "fst (causal_names ! causal_number e) = e"
  by (cases e) (simp_all add: causal_names_def causal_number_def)

lemma reads_causal:
  assumes "wf_causal r"
  shows "reads decode_causal (encode_causal r) r"
proof -
  have number: "unat (of_nat (causal_number (cr_strength r)) :: byte) = causal_number (cr_strength r)"
    using causal_number_less[of "cr_strength r"] by (simp add: unat_of_nat_small)
  have lengths: "length (cr_antecedent r) < 2 ^ 64" "length (cr_basis r) < 2 ^ 64"
      "length (cr_antecedent r) = 32"
    using assms by (simp_all add: wf_causal_def)
  show ?thesis
    unfolding decode_causal_def encode_causal_def
    using causal_number_less[of "cr_strength r"] lengths(3)
    by (intro reads_bind[OF reads_bytes[OF lengths(1)]] reads_if reads_bind[OF reads_u8]
        reads_bind_last[OF reads_text[OF lengths(2)]])
       (simp_all add: number causal_of_number record_collapse reads_return)
qed

lemma reads_metadata_entry:
  assumes "length (fst e) < 2 ^ 64" "length (snd e) < 2 ^ 64"
  shows "reads decode_metadata_entry (encode_metadata_entry e) e"
proof -
  have "reads (dec_fields [dec_text, dec_text] ''canonical observation metadata is truncated'')
      (encode_metadata_entry e) [fst e, snd e]"
    using reads_fields[of "[dec_text, dec_text]" "[(enc_text (fst e), fst e), (enc_text (snd e), snd e)]"]
      assms by (simp add: reads_text encode_metadata_entry_def)
  then show ?thesis
    unfolding decode_metadata_entry_def
    by (rule reads_bind_last) (simp add: reads_return[of "(fst e, snd e)", unfolded prod.collapse])
qed

lemma validate_claims_ok:
  "validate_claims l cs = Inr () \<longleftrightarrow>
     list_all (\<lambda>c. \<not> entity_is_nil (su_id (cl_subject c)) \<and> aspect_value (cl_aspect c) \<noteq> [] \<and>
       value_validate (value_bounds l) (cl_value c) = Inr ()) cs"
  by (induction cs) (auto simp: rbind_Inr_iff)

lemma validate_metadata_sizes_ok:
  "validate_metadata_sizes l es = Inr () \<longleftrightarrow>
     list_all (\<lambda>e. length (fst e) \<le> max_metadata_key_bytes l \<and>
       length (snd e) \<le> max_metadata_value_bytes l) es"
  by (induction l es rule: validate_metadata_sizes.induct) auto

lemma observation_validate_ok:
  "observation_validate l ob = Inr () \<longleftrightarrow>
     \<not> id_is_nil (ob_fabric ob) \<and> \<not> id_is_nil (ob_source ob) \<and> \<not> id_is_nil (ob_incarnation ob) \<and>
     ob_sequence ob \<noteq> 0 \<and> length (ob_claims ob) \<le> unat (max_claims_per_observation l) \<and>
     length (ob_causal ob) \<le> unat (max_causal_refs l) \<and> ob_schema ob \<noteq> [] \<and>
     length (ob_metadata ob) \<le> max_metadata_entries l \<and>
     list_all (\<lambda>e. length (fst e) \<le> max_metadata_key_bytes l \<and>
       length (snd e) \<le> max_metadata_value_bytes l) (ob_metadata ob) \<and>
     list_all (\<lambda>c. \<not> entity_is_nil (su_id (cl_subject c)) \<and> aspect_value (cl_aspect c) \<noteq> [] \<and>
       value_validate (value_bounds l) (cl_value c) = Inr ()) (ob_claims ob) \<and>
     \<not> asserts_twice (ob_claims ob) \<and>
     list_all (\<lambda>r. \<not> digest_is_zero (cr_antecedent r)) (ob_causal ob)"
  by (auto simp: observation_validate_def rbind_Inr_iff validate_claims_ok
      validate_metadata_sizes_ok list_ex_iff list_all_iff not_less)

lemma unat32_less: "unat (w :: 32 word) < 2 ^ 64"
  using unat_lt2p[of w] by simp

lemma reads_observation:
  assumes wf: "wf_observation l ob" and lim: "wf_limits l"
  shows "reads (observation_decode l) (observation_encode ob) ob"
proof -
  have valid: "observation_validate l ob = Inr ()" and canon: "canonicalize ob = ob"
    and meta: "metadata_make (ob_metadata ob) l = Inr (ob_metadata ob)"
    and schema: "length (ob_schema ob) < 2 ^ 64"
    using wf by (simp_all add: wf_observation_def)
  note ok = valid[unfolded observation_validate_ok]
  let ?ids = "[u_hi (id_value (ob_fabric ob)), u_lo (id_value (ob_fabric ob)),
    u_hi (id_value (ob_source ob)), u_lo (id_value (ob_source ob)),
    u_hi (id_value (ob_incarnation ob)), u_lo (id_value (ob_incarnation ob))]"
  let ?header = "[ob_sequence ob, ob_generation ob, ob_epoch ob, tp_nanos (ob_observed_at ob)]"
  have ids: "reads (dec_fields [dec_u64, dec_u64, dec_u64, dec_u64, dec_u64, dec_u64] m)
      (concat (map enc_u64 ?ids)) ?ids" for m
    using reads_fields[of "[dec_u64, dec_u64, dec_u64, dec_u64, dec_u64, dec_u64]"
        "map (\<lambda>w. (enc_u64 w, w)) ?ids" m] by (simp add: reads_u64)
  have header: "reads (dec_fields [dec_u64, dec_u64, dec_u64, dec_i64] m)
      (enc_u64 (ob_sequence ob) @ enc_u64 (ob_generation ob) @ enc_u64 (ob_epoch ob) @
       enc_i64 (tp_nanos (ob_observed_at ob))) ?header" for m
    using reads_fields[of "[dec_u64, dec_u64, dec_u64, dec_i64]"
        "[(enc_u64 (ob_sequence ob), ob_sequence ob), (enc_u64 (ob_generation ob), ob_generation ob),
          (enc_u64 (ob_epoch ob), ob_epoch ob),
          (enc_i64 (tp_nanos (ob_observed_at ob)), tp_nanos (ob_observed_at ob))]" m]
    by (simp add: reads_u64 reads_i64)
  have claims: "reads (dec_counted (unat (max_claims_per_observation l)) m (decode_claim l))
      (enc_size (length (ob_claims ob)) @ concat (map encode_claim (ob_claims ob))) (ob_claims ob)" for m
    using wf ok lim by (intro reads_counted reads_claim unat32_less)
      (auto simp: wf_observation_def list_all_iff)
  have causal: "reads (dec_counted (unat (max_causal_refs l)) m decode_causal)
      (enc_size (length (ob_causal ob)) @ concat (map encode_causal (ob_causal ob))) (ob_causal ob)" for m
    using wf ok by (intro reads_counted reads_causal unat32_less)
      (auto simp: wf_observation_def list_all_iff)
  have metadata: "reads (dec_counted (max_metadata_entries l) m decode_metadata_entry)
      (enc_size (length (ob_metadata ob)) @ concat (map encode_metadata_entry (ob_metadata ob)))
      (ob_metadata ob)" for m
    using ok lim by (intro reads_counted reads_metadata_entry)
      (fastforce simp: wf_limits_def list_all_iff)+
  have rebuilt: "canonicalize \<lparr>ob_schema = ob_schema ob,
      ob_fabric = BasicId (Uint128 (?ids ! 0) (?ids ! 1)),
      ob_source = BasicId (Uint128 (?ids ! 2) (?ids ! 3)),
      ob_incarnation = BasicId (Uint128 (?ids ! 4) (?ids ! 5)),
      ob_sequence = ?header ! 0, ob_generation = ?header ! 1, ob_epoch = ?header ! 2,
      ob_observed_at = TimePoint (?header ! 3),
      ob_claims = ob_claims ob, ob_causal = ob_causal ob, ob_metadata = ob_metadata ob\<rparr> = ob"
    using canon by (simp add: record_collapse)
  have "reads (observation_decode l)
     (enc_tag ''observation'' @ enc_u8 1 @ enc_text (ob_schema ob) @ concat (map enc_u64 ?ids) @
      (enc_u64 (ob_sequence ob) @ enc_u64 (ob_generation ob) @ enc_u64 (ob_epoch ob) @
       enc_i64 (tp_nanos (ob_observed_at ob))) @
      (enc_size (length (ob_claims ob)) @ concat (map encode_claim (ob_claims ob))) @
      (enc_size (length (ob_causal ob)) @ concat (map encode_causal (ob_causal ob))) @
      (enc_size (length (ob_metadata ob)) @ concat (map encode_metadata_entry (ob_metadata ob)))) ob"
    unfolding observation_decode_def Let_def
    by (intro reads_bind[OF reads_tag] reads_bind[OF reads_expect_u8] reads_bind[OF reads_text[OF schema]]
        reads_bind[OF ids] reads_bind[OF header] reads_bind[OF claims] reads_bind[OF causal]
        reads_bind_last[OF metadata] reads_bind_first[OF reads_lift[OF meta]],
        simp, unfold rebuilt, rule reads_bind_first[OF reads_lift[OF valid]], rule reads_return)
  then show ?thesis by (simp add: observation_encode_def)
qed

text \<open>So the encoding of kept observations determines them.\<close>

lemma observation_codec: "wf_limits l \<Longrightarrow> codec observation_encode (observation_decode l) (wf_observation l)"
  by unfold_locales (rule reads_observation)

lemma observation_encode_inject:
  "wf_limits l \<Longrightarrow> wf_observation l a \<Longrightarrow> wf_observation l b \<Longrightarrow>
     observation_encode a = observation_encode b \<Longrightarrow> a = b"
  by (rule codec.enc_inject[OF observation_codec])

lemma default_limits_wf: "wf_limits default_limits"
  by (simp add: wf_limits_def default_limits_def wf_value_limits_def default_value_limits_def)

interpretation observation_codec: codec observation_encode "observation_decode default_limits"
  "wf_observation default_limits"
  by (rule observation_codec[OF default_limits_wf])

section \<open>The canonical form\<close>

lemma claim_key_eq:
  "claim_key a = claim_key b \<longleftrightarrow> cl_subject a = cl_subject b \<and> cl_aspect a = cl_aspect b"
  by (auto simp: claim_key_def dest: subject_key_inject)

lemma causal_key_inject: "causal_key a = causal_key b \<Longrightarrow> a = (b :: causal_ref)"
  by (auto simp: causal_key_def intro: causal_ref.equality)

lemma canonicalize_fields [simp]:
  "ob_claims (canonicalize ob) = sort_key claim_key (ob_claims ob)"
  "ob_causal (canonicalize ob) = sort_key causal_key (ob_causal ob)"
  "ob_schema (canonicalize ob) = ob_schema ob" "ob_fabric (canonicalize ob) = ob_fabric ob"
  "ob_source (canonicalize ob) = ob_source ob" "ob_incarnation (canonicalize ob) = ob_incarnation ob"
  "ob_sequence (canonicalize ob) = ob_sequence ob" "ob_generation (canonicalize ob) = ob_generation ob"
  "ob_epoch (canonicalize ob) = ob_epoch ob" "ob_observed_at (canonicalize ob) = ob_observed_at ob"
  "ob_metadata (canonicalize ob) = ob_metadata ob"
  by (simp_all add: canonicalize_def)

lemma sort_key_idem: "sort_key f (sort_key f xs) = sort_key f xs"
  by (rule sort_key_id_if_sorted) simp

lemma canonicalize_idem: "canonicalize (canonicalize ob) = canonicalize ob"
  by (simp add: canonicalize_def sort_key_idem)

lemma asserts_twice_adjacent:
  "asserts_twice cs = has_adjacent_duplicate (map (\<lambda>c. (claim_key c, ())) cs)"
  by (induction cs rule: asserts_twice.induct) (auto simp: claim_key_eq)

lemma asserts_twice_sorted:
  "asserts_twice (sort_key claim_key cs) \<longleftrightarrow> \<not> distinct (map claim_key cs)"
proof -
  have "asserts_twice (sort_key claim_key cs) \<longleftrightarrow> \<not> distinct (map claim_key (sort_key claim_key cs))"
    unfolding asserts_twice_adjacent by (subst has_adjacent_duplicate_sorted) (simp_all add: comp_def)
  moreover have "distinct (map claim_key (sort_key claim_key cs)) \<longleftrightarrow> distinct (map claim_key cs)"
    by (rule mset_eq_imp_distinct_iff) simp
  ultimately show ?thesis by simp
qed

lemma canonicalize_reordered:
  assumes "mset cs = mset (ob_claims ob)" "mset rs = mset (ob_causal ob)"
    and "observation_validate l (canonicalize ob) = Inr ()"
  shows "canonicalize (ob\<lparr>ob_claims := cs, ob_causal := rs\<rparr>) = canonicalize ob"
proof -
  have "distinct (map claim_key (ob_claims ob))"
    using assms(3) by (simp add: observation_validate_ok asserts_twice_sorted)
  then have "inj_on claim_key (set cs)"
    using assms(1) by (metis distinct_map mset_eq_setD)
  then have "sort_key claim_key cs = sort_key claim_key (ob_claims ob)"
    by (rule sort_key_perm_eq[OF assms(1)])
  moreover have "sort_key causal_key rs = sort_key causal_key (ob_causal ob)"
    using causal_key_inject by (intro sort_key_perm_eq_inj[OF assms(2)]) (rule injI)
  ultimately show ?thesis by (simp add: canonicalize_def)
qed

section \<open>What the decoder returns\<close>

lemma check_metadata_ok:
  "check_metadata l es = Inr () \<longleftrightarrow> list_all (\<lambda>e. fst e \<noteq> [] \<and>
     length (fst e) \<le> max_metadata_key_bytes l \<and> is_valid_identifier (fst e) (max_metadata_key_bytes l) \<and>
     length (snd e) \<le> max_metadata_value_bytes l) es"
  by (induction l es rule: check_metadata.induct) auto

lemma metadata_make_ok:
  "metadata_make es l = Inr m \<longleftrightarrow> m = sort_key fst es \<and> length es \<le> max_metadata_entries l \<and>
     check_metadata l es = Inr () \<and> distinct (map fst es)"
proof -
  have "distinct (map fst (sort_key fst es)) \<longleftrightarrow> distinct (map fst es)"
    by (rule mset_eq_imp_distinct_iff) simp
  then show ?thesis
    by (auto simp: metadata_make_def rbind_Inr_iff Let_def has_adjacent_duplicate_sorted)
qed

lemma metadata_make_idem: "metadata_make es l = Inr m \<Longrightarrow> metadata_make m l = Inr m"
proof -
  assume "metadata_make es l = Inr m"
  moreover have "distinct (map fst (sort_key fst es)) \<longleftrightarrow> distinct (map fst es)"
    by (rule mset_eq_imp_distinct_iff) simp
  ultimately show ?thesis
    by (auto simp: metadata_make_ok sort_key_idem check_metadata_ok list_all_iff)
qed

lemma yields_text: "yields dec_text (\<lambda>s. length s < 2 ^ 64)"
proof -
  have "yields (dec_take (unat (n :: 64 word))) (\<lambda>bs. length bs < 2 ^ 64)" for n
    using unat_lt2p[of n] by (auto simp: yields_def dec_take_def)
  then have "yields dec_bytes (\<lambda>bs. length bs < 2 ^ 64)"
    unfolding dec_bytes_def by (intro yields_bind[OF yields_any])
  then show ?thesis
    unfolding dec_text_def by (rule yields_bind) (simp add: yields_return)
qed

lemma yields_counted: "yields f P \<Longrightarrow> yields (dec_counted b m f) (list_all P)"
  unfolding dec_counted_def
  by (intro yields_bind[OF yields_any] yields_if yields_fail yields_repeat)

lemma yields_entity_ref: "yields decode_entity_ref wf_subject"
  unfolding decode_entity_ref_def
  by (intro yields_bind[OF yields_any] yields_if yields_fail
      yields_bind[OF yields_lift[where P = wf_subject]] yields_return)
     (simp_all add: subject_from_text_wf)

lemma yields_claim:
  assumes "1 \<le> max_depth (value_bounds l)" "1 \<le> max_total_nodes (value_bounds l)"
  shows "yields (decode_claim l) wf_claim"
  unfolding decode_claim_def
  by (intro yields_bind[OF yields_entity_ref] yields_bind[OF yields_text]
      yields_bind[OF yields_lift[where P = wf_aspect]] yields_bind[OF value_decode_yields[OF assms]]
      yields_bind[OF yields_any] yields_return)
     (simp_all add: wf_aspect_parse wf_claim_def value_fits_def)

lemma yields_causal: "yields decode_causal wf_causal"
  unfolding decode_causal_def
  by (intro yields_bind[OF yields_any] yields_if yields_fail yields_bind[OF yields_text] yields_return)
     (simp add: wf_causal_def)

lemma list_all_sort_key [simp]: "list_all P (sort_key f xs) \<longleftrightarrow> list_all P xs"
  by (simp add: list_all_iff)

lemma observation_decode_yields:
  assumes "1 \<le> max_depth (value_bounds l)" "1 \<le> max_total_nodes (value_bounds l)"
  shows "yields (observation_decode l) (wf_observation l)"
  unfolding observation_decode_def Let_def
  by (intro yields_bind[OF yields_any, where f = "dec_tag s" for s]
      yields_bind[OF yields_any, where f = "dec_expect_u8 b" for b]
      yields_bind[OF yields_text] yields_bind[OF yields_any, where f = "dec_fields fs m" for fs m]
      yields_bind[OF yields_counted[OF yields_claim[OF assms]]]
      yields_bind[OF yields_counted[OF yields_causal]]
      yields_bind[OF yields_any, where f = "dec_counted b m decode_metadata_entry" for b m]
      yields_bind[OF yields_lift[where P = "\<lambda>m. metadata_make m l = Inr m"]]
      yields_bind[OF yields_lift] yields_return)
     (auto simp: wf_observation_def canonicalize_idem metadata_make_idem)

end
