(* ===== verification/Fab_Snapshot.thy ===== *)
theory Fab_Snapshot
  imports Fab_Observation
begin

text \<open>
  \<^verbatim>\<open>snapshot.hpp\<close> and \<^verbatim>\<open>snapshot.cpp\<close>: how retained evidence becomes a snapshot. Freshness of
  one piece of evidence, the truth of one aspect from its claims, and the composition of
  records into subjects, aspects and claims with the supersession rules and bounds.

  \<^verbatim>\<open>std::lower_bound\<close> on a vector partitioned by the comparator returns the first element that
  is not less; it is \<open>find\<close> with the negated comparator. Counters of \<^verbatim>\<open>SnapshotStats\<close> are
  natural numbers (each counts elements of a vector in memory). \<^verbatim>\<open>canonical_summary\<close> prints
  values with \<^verbatim>\<open>display_text\<close> and is not modelled.
\<close>

section \<open>The data of a snapshot\<close>

record claim_record =
  rc_source :: source_id
  rc_incarnation :: incarnation_id
  rc_authority :: source_authority
  rc_sequence :: source_sequence
  rc_revision :: claim_revision
  rc_value :: fvalue
  rc_supported :: bool
  rc_freshness :: freshness_verdict
  rc_observed_at :: time_point
  rc_received_at :: time_point
  rc_recovered :: bool
  rc_recovery_epoch :: restart_epoch
  superseded_generation :: bool
  superseded_epoch :: bool
  superseded_incarnation :: bool
  superseded_by_later_sequence :: bool
  rc_fenced :: bool
  rc_fence :: status_code
  rc_observation_id :: digest256

definition is_current :: "claim_record \<Rightarrow> bool" where
  "is_current c \<longleftrightarrow> \<not> superseded_generation c \<and> \<not> superseded_epoch c \<and>
     \<not> superseded_incarnation c \<and> \<not> superseded_by_later_sequence c \<and> \<not> rc_fenced c"

definition is_assertive :: "claim_record \<Rightarrow> bool" where
  "is_assertive c \<longleftrightarrow> rc_supported c \<and> is_current c \<and> rc_freshness c = FV_Fresh"

definition status_number :: "status_code \<Rightarrow> nat" where
  "status_number c = index_of c (map fst status_names)"

text \<open>The defaulted \<^verbatim>\<open>operator<=>\<close>: member by member.\<close>

definition claim_record_key where
  "claim_record_key c = (rc_source c, rc_incarnation c, rc_authority c, rc_sequence c,
     rc_revision c, rc_value c, rc_supported c, rc_freshness c, rc_observed_at c, rc_received_at c,
     rc_recovered c, rc_recovery_epoch c, superseded_generation c, superseded_epoch c,
     superseded_incarnation c, superseded_by_later_sequence c, rc_fenced c,
     status_number (rc_fence c), rc_observation_id c)"

record conflict_group =
  cg_value :: fvalue
  cg_sources :: "source_id list"
  cg_fresh_sources :: "32 word"

record coverage_report =
  distinct_fresh_sources :: "32 word"
  required_distinct_fresh_sources :: "32 word"
  best_fresh_authority :: source_authority
  cv_required_authority :: source_authority
  cv_satisfied :: bool

record truth_evaluation =
  te_truth :: truth_state
  te_agreed_value :: "fvalue option"
  te_conflicts :: "conflict_group list"
  te_coverage :: coverage_report

record aspect_state =
  as_aspect :: aspect_id
  as_domain :: fabric_domain
  as_truth :: truth_state
  as_agreed_value :: "fvalue option"
  as_claims :: "claim_record list"
  as_conflicts :: "conflict_group list"
  as_coverage :: coverage_report
  as_claims_truncated :: bool

record subject_state =
  sb_identity :: subject_identity
  sb_parent :: "entity_id option"
  sb_topology_truth :: truth_state
  sb_worst_truth :: truth_state
  sb_aspects :: "aspect_state list"

record source_summary =
  ss_id :: source_id
  ss_name :: string
  ss_authority_name :: string
  ss_max_authority :: source_authority
  ss_incarnation :: source_incarnation
  ss_last_sequence :: source_sequence
  ss_first_receive :: time_point
  ss_last_receive :: time_point
  ss_last_observation :: time_point
  ss_last_generation :: generation_id
  ss_last_epoch :: epoch_id
  ss_accepted :: "64 word"
  ss_retained_records :: "64 word"
  ss_freshness :: freshness_verdict
  ss_recovered :: bool

record rejected_observation =
  rj_observation_id :: digest256
  rj_source :: source_id
  rj_incarnation :: incarnation_id
  rj_sequence :: source_sequence
  rj_generation :: generation_id
  rj_epoch :: epoch_id
  rj_received_at :: time_point
  rj_fence :: status_code
  rj_explanation :: string

definition rejection_key where
  "rejection_key r = (rj_observation_id r, rj_source r, rj_incarnation r, rj_sequence r,
     rj_generation r, rj_epoch r, rj_received_at r, status_number (rj_fence r), rj_explanation r)"

record fenced_claim =
  fc_observation_id :: digest256
  fc_subject :: subject_identity
  fc_aspect :: aspect_id
  fc_source :: source_id
  fc_incarnation :: incarnation_id
  fc_sequence :: source_sequence
  fc_received_at :: time_point
  fc_fence :: status_code
  fc_explanation :: string

definition fenced_claim_key where
  "fenced_claim_key f = (fc_observation_id f, subject_key (fc_subject f), fc_aspect f, fc_source f,
     fc_incarnation f, fc_sequence f, fc_received_at f, status_number (fc_fence f), fc_explanation f)"

record snapshot_stats =
  n_subjects :: nat
  n_aspects :: nat
  n_claims :: nat
  n_conflicts :: nat
  n_sources :: nat
  n_rejected_observations :: nat
  n_fenced_claims :: nat
  n_superseded_claims :: nat
  n_recovered_claims :: nat
  n_unsupported_claims :: nat
  subjects_by_kind :: "nat list"
  aspects_by_truth :: "nat list"

record build_request =
  rq_fabric :: fabric_id
  rq_policy :: policy
  rq_evaluation_time :: time_point
  rq_restart_epoch :: restart_epoch
  rq_restart_count :: "32 word"
  rq_records :: "observation_record list"
  rq_rejected :: "rejected_observation list"
  rq_fenced_claims :: "fenced_claim list"
  rq_sources :: "source_summary list"
  rq_evidence_truncated :: bool

record snapshot =
  sn_id :: digest256
  sn_fabric :: fabric_id
  sn_generation :: generation_id
  sn_epoch :: epoch_id
  sn_evaluation_time :: time_point
  sn_observed_high_water :: time_point
  sn_received_high_water :: time_point
  sn_received_low_water :: time_point
  sn_policy_digest :: digest256
  sn_policy_name :: string
  sn_restart_epoch :: restart_epoch
  sn_restart_count :: "32 word"
  sn_subjects :: "subject_state list"
  sn_sources :: "source_summary list"
  sn_rejected :: "rejected_observation list"
  sn_fenced_claims :: "fenced_claim list"
  sn_stats :: snapshot_stats
  sn_evidence_records :: nat
  sn_evidence_truncated :: bool
  sn_rejected_truncated :: bool
  sn_history_index :: history_index
  sn_published_at :: time_point

definition snapshot_id_to_text :: "digest256 \<Rightarrow> string" where
  "snapshot_id_to_text d = ''snap:'' @ digest_to_hex d"

definition snapshot_id_from_text :: "string \<Rightarrow> digest256 result" where
  "snapshot_id_from_text cs = digest_from_hex (remove_prefix ''snap:'' cs)"

section \<open>Freshness\<close>

definition evidence_reference_time :: "time_point \<Rightarrow> time_point \<Rightarrow> time_point" where
  "evidence_reference_time observed_at received_at =
     (if observed_at < received_at then observed_at else received_at)"

definition evaluate_freshness ::
  "time_point \<Rightarrow> time_point \<Rightarrow> freshness_policy \<Rightarrow> bool \<Rightarrow> freshness_verdict" where
  "evaluate_freshness evidence_time evaluation_time p recovered =
     (let age = saturating_difference evaluation_time evidence_time;
          verdict = (if age \<le> fresh_window p then FV_Fresh
                     else if age \<le> aging_window p then FV_Aging else FV_Stale)
      in if recovered \<and> \<not> allow_recovered_as_fresh p \<and> verdict = FV_Fresh then FV_Aging
         else verdict)"

section \<open>Truth of an aspect\<close>

text \<open>The elements of a \<^verbatim>\<open>std::set<SourceId>\<close> in iteration order.\<close>

definition source_set :: "claim_record list \<Rightarrow> source_id list" where
  "source_set cs = sort (remdups (map rc_source cs))"

text \<open>\<^verbatim>\<open>groups[claim->value].push_back(claim)\<close> over the assertive claims.\<close>

definition add_to_group ::
  "claim_record \<Rightarrow> (fvalue \<times> claim_record list) list \<Rightarrow> (fvalue \<times> claim_record list) list" where
  "add_to_group c groups = om_put (rc_value c)
     ((case map_of groups (rc_value c) of None \<Rightarrow> [] | Some cs \<Rightarrow> cs) @ [c]) groups"

definition value_groups :: "claim_record list \<Rightarrow> (fvalue \<times> claim_record list) list" where
  "value_groups cs = fold add_to_group cs []"

definition best_authority :: "claim_record list \<Rightarrow> source_authority" where
  "best_authority cs =
     foldl (\<lambda>best c. if rc_authority c > best then rc_authority c else best) SA_None cs"

definition conflict_of :: "fvalue \<times> claim_record list \<Rightarrow> conflict_group" where
  "conflict_of g = \<lparr>cg_value = fst g, cg_sources = source_set (snd g),
     cg_fresh_sources = of_nat (length (source_set (snd g)))\<rparr>"

definition evaluate_truth ::
  "aspect_id \<Rightarrow> claim_record list \<Rightarrow> truth_policy \<Rightarrow> truth_evaluation" where
  "evaluate_truth aspect claims p =
     (let coverage = coverage_for p (aspect_value aspect);
          report = \<lparr>distinct_fresh_sources = 0,
            required_distinct_fresh_sources = min_distinct_fresh_sources coverage,
            best_fresh_authority = SA_None, cv_required_authority = required_authority coverage,
            cv_satisfied = False\<rparr>;
          evaluation = \<lparr>te_truth = TS_Unknown, te_agreed_value = None, te_conflicts = [],
            te_coverage = report\<rparr>
      in if claims = [] then evaluation
      else if \<not> list_ex rc_supported claims then evaluation\<lparr>te_truth := TS_Unsupported\<rparr>
      else let assertive = filter is_assertive claims
      in if assertive = [] then evaluation\<lparr>te_truth := TS_Stale\<rparr>
      else let distinct_sources = source_set assertive;
          best = best_authority assertive;
          groups = value_groups assertive;
          satisfied = (length distinct_sources \<ge> unat (min_distinct_fresh_sources coverage) \<and>
            best \<ge> required_authority coverage);
          evaluation = evaluation\<lparr>te_coverage := report\<lparr>
            distinct_fresh_sources := of_nat (length distinct_sources),
            best_fresh_authority := best, cv_satisfied := satisfied\<rparr>\<rparr>
      in if length groups > 1
         then evaluation\<lparr>te_truth := TS_Conflicting, te_conflicts := map conflict_of groups\<rparr>
         else if \<not> satisfied then evaluation\<lparr>te_truth := TS_Incomplete\<rparr>
         else evaluation\<lparr>te_truth := TS_Known, te_agreed_value := Some (fst (hd groups))\<rparr>)"

section \<open>Composing records\<close>

definition record_key ::
  "observation_record \<Rightarrow> source_id \<times> incarnation_id \<times> source_sequence \<times> digest256" where
  "record_key r = (ob_source (or_observation r), ob_incarnation (or_observation r),
     ob_sequence (or_observation r), content_digest (or_observation r))"

definition canonical_order :: "observation_record list \<Rightarrow> observation_record list" where
  "canonical_order records = sort_key record_key records"

definition high_generation :: "observation_record list \<Rightarrow> generation_id" where
  "high_generation rs = foldl (\<lambda>g r. max g (ob_generation (or_observation r))) 0 rs"

definition current_epoch :: "observation_record list \<Rightarrow> epoch_id" where
  "current_epoch rs = foldl (\<lambda>e r. if ob_generation (or_observation r) = high_generation rs
     then max e (ob_epoch (or_observation r)) else e) 0 rs"

record incarnation_cursor =
  cu_received :: time_point
  cu_id :: incarnation_id

text \<open>An unset slot is \<open>None\<close>.\<close>

definition cursor_newer :: "incarnation_cursor \<Rightarrow> incarnation_cursor option \<Rightarrow> bool" where
  "cursor_newer candidate current =
     (case current of None \<Rightarrow> True
      | Some c \<Rightarrow> if cu_received candidate \<noteq> cu_received c then cu_received c < cu_received candidate
                  else cu_id c < cu_id candidate)"

definition record_cursor :: "observation_record \<Rightarrow> incarnation_cursor" where
  "record_cursor r = \<lparr>cu_received = or_received_at r, cu_id = ob_incarnation (or_observation r)\<rparr>"

definition update_cursor ::
  "observation_record \<Rightarrow> (source_id \<rightharpoonup> incarnation_cursor) \<Rightarrow> (source_id \<rightharpoonup> incarnation_cursor)" where
  "update_cursor r m =
     (let s = ob_source (or_observation r)
      in if cursor_newer (record_cursor r) (m s) then m(s \<mapsto> record_cursor r) else m)"

definition current_incarnations ::
  "observation_record list \<Rightarrow> (source_id \<rightharpoonup> incarnation_cursor)" where
  "current_incarnations rs = fold update_cursor rs Map.empty"

definition observed_high_water :: "observation_record list \<Rightarrow> time_point" where
  "observed_high_water rs = foldl (\<lambda>t r. max t (ob_observed_at (or_observation r))) time_zero rs"

definition received_high_water :: "observation_record list \<Rightarrow> time_point" where
  "received_high_water rs = foldl (\<lambda>t r. max t (or_received_at r)) time_zero rs"

text \<open>\<open>None\<close> until a record has been seen; the field itself starts at zero.\<close>

definition received_low_water :: "observation_record list \<Rightarrow> time_point" where
  "received_low_water rs =
     (case foldl (\<lambda>low r. case low of None \<Rightarrow> Some (or_received_at r)
          | Some t \<Rightarrow> if or_received_at r < t then Some (or_received_at r) else Some t) None rs
      of None \<Rightarrow> time_zero | Some t \<Rightarrow> t)"

definition declared_authority :: "source_summary list \<Rightarrow> (source_id \<times> source_authority) list" where
  "declared_authority ss = fold (\<lambda>s. om_emplace (ss_id s) (ss_max_authority s)) ss []"

definition fence_key :: "fenced_claim \<Rightarrow> digest256 \<times> entity_id \<times> string" where
  "fence_key f = (fc_observation_id f, su_id (fc_subject f), aspect_value (fc_aspect f))"

definition fence_table ::
  "fenced_claim list \<Rightarrow> ((digest256 \<times> entity_id \<times> string) \<times> status_code) list" where
  "fence_table fs = fold (\<lambda>f. om_emplace (fence_key f) (fc_fence f)) fs []"

record subject_bucket =
  bk_identity :: subject_identity
  bk_aspects :: "(aspect_id \<times> claim_record list) list"

type_synonym bucket_map = "(entity_id \<times> subject_bucket) list"

definition working_set_cap :: "limits \<Rightarrow> nat" where
  "working_set_cap l = unat (max_sources l) * unat (max_claims_per_subject_aspect l) +
     unat (max_claims_per_subject_aspect l)"

text \<open>The claim record of one claim of one retained observation.\<close>

definition make_claim_record ::
  "build_request \<Rightarrow> observation_record \<Rightarrow> claim \<Rightarrow> claim_record" where
  "make_claim_record rq r c =
     (let ob = or_observation r; records = canonical_order (rq_records rq);
          oid = content_digest ob;
          fence = map_of (fence_table (rq_fenced_claims rq))
            (oid, su_id (cl_subject c), aspect_value (cl_aspect c))
      in \<lparr>rc_source = ob_source ob, rc_incarnation = ob_incarnation ob,
          rc_authority = (case map_of (declared_authority (rq_sources rq)) (ob_source ob) of
              Some a \<Rightarrow> a | None \<Rightarrow> auto_register_authority (p_ingest (rq_policy rq))),
          rc_sequence = ob_sequence ob, rc_revision = cl_revision c, rc_value = cl_value c,
          rc_supported = cl_supported c,
          rc_freshness = evaluate_freshness
            (evidence_reference_time (ob_observed_at ob) (or_received_at r))
            (rq_evaluation_time rq) (p_freshness (rq_policy rq)) (or_recovered r),
          rc_observed_at = ob_observed_at ob, rc_received_at = or_received_at r,
          rc_recovered = or_recovered r, rc_recovery_epoch = or_recovery_epoch r,
          superseded_generation = (ob_generation ob < high_generation records),
          superseded_epoch = (ob_generation ob = high_generation records \<and>
            ob_epoch ob < current_epoch records),
          superseded_incarnation =
            (case current_incarnations records (ob_source ob) of
               None \<Rightarrow> False | Some cursor \<Rightarrow> cu_id cursor \<noteq> ob_incarnation ob),
          superseded_by_later_sequence = False,
          rc_fenced = (fence \<noteq> None),
          rc_fence = (case fence of None \<Rightarrow> SC_Ok | Some code \<Rightarrow> code),
          rc_observation_id = oid\<rparr>)"

text \<open>
  \<^verbatim>\<open>bucket->second.aspects[claim.aspect]\<close>: the subscript creates the entry even when the
  working set is full and nothing is appended.
\<close>

definition store_claim ::
  "build_request \<Rightarrow> observation_record \<Rightarrow> claim \<Rightarrow> subject_bucket \<Rightarrow> subject_bucket" where
  "store_claim rq r c b =
     (let cs = (case map_of (bk_aspects b) (cl_aspect c) of None \<Rightarrow> [] | Some cs \<Rightarrow> cs);
          cs' = (if length cs \<ge> working_set_cap (p_limits (rq_policy rq)) then cs
                 else cs @ [make_claim_record rq r c])
      in b\<lparr>bk_aspects := om_put (cl_aspect c) cs' (bk_aspects b)\<rparr>)"

definition add_claim ::
  "build_request \<Rightarrow> observation_record \<Rightarrow> claim \<Rightarrow> bucket_map \<times> bool \<Rightarrow> bucket_map \<times> bool" where
  "add_claim rq r c st =
     (let (buckets, truncated) = st; sid = su_id (cl_subject c);
          bucket = (case map_of buckets sid of
              Some b \<Rightarrow> Some b
            | None \<Rightarrow> if length buckets \<ge> unat (max_subjects (p_limits (rq_policy rq))) then None
                      else Some \<lparr>bk_identity = cl_subject c, bk_aspects = []\<rparr>)
      in case bucket of None \<Rightarrow> (buckets, True)
      | Some b \<Rightarrow> (om_put sid (store_claim rq r c b) buckets, truncated))"

definition add_record ::
  "build_request \<Rightarrow> observation_record \<Rightarrow> bucket_map \<times> bool \<Rightarrow> bucket_map \<times> bool" where
  "add_record rq r st = fold (add_claim rq r) (ob_claims (or_observation r)) st"

definition collect_buckets :: "build_request \<Rightarrow> bucket_map \<times> bool" where
  "collect_buckets rq = fold (add_record rq) (canonical_order (rq_records rq)) ([], False)"

section \<open>One aspect of one subject\<close>

type_synonym lineage = "source_id \<times> incarnation_id"

definition claim_lineage :: "claim_record \<Rightarrow> lineage" where
  "claim_lineage c = (rc_source c, rc_incarnation c)"

definition replaces :: "claim_record \<Rightarrow> claim_record \<Rightarrow> bool" where
  "replaces candidate incumbent \<longleftrightarrow> rc_sequence candidate > rc_sequence incumbent \<or>
     (rc_sequence candidate = rc_sequence incumbent \<and>
      rc_observation_id incumbent < rc_observation_id candidate)"

text \<open>The loop that fills \<^verbatim>\<open>latest\<close>, over the indices of the claims.\<close>

definition note_latest :: "claim_record list \<Rightarrow> nat \<Rightarrow> (lineage \<rightharpoonup> nat) \<Rightarrow> (lineage \<rightharpoonup> nat)" where
  "note_latest claims i latest =
     (let key = claim_lineage (claims ! i)
      in case latest key of
           None \<Rightarrow> latest(key \<mapsto> i)
         | Some j \<Rightarrow> if replaces (claims ! i) (claims ! j) then latest(key \<mapsto> i) else latest)"

definition latest_claims :: "claim_record list \<Rightarrow> (lineage \<rightharpoonup> nat)" where
  "latest_claims claims = fold (note_latest claims) [0..<length claims] Map.empty"

definition mark_superseded :: "claim_record list \<Rightarrow> claim_record list" where
  "mark_superseded claims = map (\<lambda>i.
     if latest_claims claims (claim_lineage (claims ! i)) \<noteq> Some i
     then (claims ! i)\<lparr>superseded_by_later_sequence := True\<rparr> else claims ! i) [0..<length claims]"

definition claim_rank :: "claim_record list \<Rightarrow> nat \<Rightarrow> bool \<times> freshness_verdict \<times> int \<times> nat" where
  "claim_rank claims i =
     (\<not> is_current (claims ! i), rc_freshness (claims ! i), - uint (rc_sequence (claims ! i)), i)"

definition bound_claims :: "nat \<Rightarrow> claim_record list \<Rightarrow> claim_record list \<times> bool" where
  "bound_claims bound claims =
     (if length claims > bound
      then (sort_key claim_record_key (map (\<lambda>i. claims ! i)
              (take bound (sort_key (claim_rank claims) [0..<length claims]))), True)
      else (claims, False))"

definition build_aspect :: "policy \<Rightarrow> aspect_id \<times> claim_record list \<Rightarrow> aspect_state" where
  "build_aspect p entry =
     (let (aspect, gathered) = entry;
          (claims, truncated) = bound_claims (unat (max_claims_per_subject_aspect (p_limits p)))
            (sort_key claim_record_key (mark_superseded gathered));
          evaluation = evaluate_truth aspect claims (p_truth p)
      in \<lparr>as_aspect = aspect, as_domain = aspect_domain aspect, as_truth = te_truth evaluation,
          as_agreed_value = te_agreed_value evaluation, as_claims = claims,
          as_conflicts = te_conflicts evaluation, as_coverage = te_coverage evaluation,
          as_claims_truncated = truncated\<rparr>)"

section \<open>Subjects and the whole snapshot\<close>

definition parent_of :: "aspect_state \<Rightarrow> entity_id option" where
  "parent_of a =
     (if aspect_value (as_aspect a) = ''topology.parent'' \<and> as_truth a = TS_Known
      then case as_agreed_value a of
             Some (VText cs) \<Rightarrow> (case subject_from_text cs of Inr s \<Rightarrow> Some (su_id s) | Inl _ \<Rightarrow> None)
           | _ \<Rightarrow> None
      else None)"

text \<open>The loop body over the aspects of a subject, after the aspect has been built.\<close>

definition note_aspect :: "subject_state \<Rightarrow> aspect_state \<Rightarrow> subject_state" where
  "note_aspect s a = s\<lparr>
     sb_parent := (case parent_of a of Some i \<Rightarrow> Some i | None \<Rightarrow> sb_parent s),
     sb_topology_truth := (if aspect_value (as_aspect a) = ''topology.parent'' then as_truth a
       else sb_topology_truth s),
     sb_worst_truth := (if truth_number (as_truth a) < truth_number (sb_worst_truth s) then as_truth a
       else sb_worst_truth s),
     sb_aspects := sb_aspects s @ [a]\<rparr>"

definition build_subject :: "policy \<Rightarrow> subject_bucket \<Rightarrow> subject_state" where
  "build_subject p b =
     (let s = foldl note_aspect
          \<lparr>sb_identity = bk_identity b, sb_parent = None, sb_topology_truth = TS_Unknown,
            sb_worst_truth = TS_Known, sb_aspects = []\<rparr>
          (map (build_aspect p) (bk_aspects b))
      in s\<lparr>sb_worst_truth := (if sb_aspects s = [] then TS_Unknown else sb_worst_truth s)\<rparr>)"

definition subject_order :: "subject_state \<Rightarrow> entity_kind \<times> entity_id" where
  "subject_order s = (su_kind (sb_identity s), su_id (sb_identity s))"

definition count_stats ::
  "subject_state list \<Rightarrow> nat \<Rightarrow> nat \<Rightarrow> nat \<Rightarrow> snapshot_stats" where
  "count_stats subjects sources rejected fenced =
     (let aspects = concat (map sb_aspects subjects); claims = concat (map as_claims aspects)
      in \<lparr>n_subjects = length subjects, n_aspects = length aspects, n_claims = length claims,
          n_conflicts = sum_list (map (length \<circ> as_conflicts) aspects), n_sources = sources,
          n_rejected_observations = rejected, n_fenced_claims = fenced,
          n_superseded_claims = length (filter (\<lambda>c. \<not> is_current c) claims),
          n_recovered_claims = length (filter rc_recovered claims),
          n_unsupported_claims = length (filter (\<lambda>c. \<not> rc_supported c) claims),
          subjects_by_kind = map (\<lambda>k. length (filter (\<lambda>s.
            entity_kind_number (su_kind (sb_identity s)) = k) subjects)) [0..<8],
          aspects_by_truth = map (\<lambda>k. length (filter (\<lambda>a. truth_number (as_truth a) = k) aspects))
            [0..<6]\<rparr>)"

subsection \<open>Content encoding\<close>

definition enc_time :: "time_point \<Rightarrow> byte list" where
  "enc_time t = enc_i64 (tp_nanos t)"

definition encode_identity :: "subject_identity \<Rightarrow> byte list" where
  "encode_identity s = enc_u8 (of_nat (entity_kind_number (su_kind s))) @
     enc_u128 (entity_value (su_id s)) @ enc_text (typed_text s)"

definition encode_claim_record :: "claim_record \<Rightarrow> byte list" where
  "encode_claim_record c =
     enc_u128 (id_value (rc_source c)) @ enc_u128 (id_value (rc_incarnation c)) @
     enc_authority (rc_authority c) @ enc_u64 (rc_sequence c) @ enc_u64 (rc_revision c) @
     value_encode (rc_value c) @ enc_bool (rc_supported c) @
     enc_u8 (of_nat (verdict_number (rc_freshness c))) @
     enc_time (rc_observed_at c) @ enc_time (rc_received_at c) @
     enc_bool (rc_recovered c) @ enc_u64 (rc_recovery_epoch c) @
     enc_bool (superseded_generation c) @ enc_bool (superseded_epoch c) @
     enc_bool (superseded_incarnation c) @ enc_bool (superseded_by_later_sequence c) @
     enc_bytes (rc_observation_id c)"

definition encode_conflict :: "conflict_group \<Rightarrow> byte list" where
  "encode_conflict g = value_encode (cg_value g) @ enc_size (length (cg_sources g)) @
     concat (map (\<lambda>s. enc_u128 (id_value s)) (cg_sources g)) @ enc_u32 (cg_fresh_sources g)"

definition encode_aspect_state :: "aspect_state \<Rightarrow> byte list" where
  "encode_aspect_state a =
     enc_text (aspect_value (as_aspect a)) @ enc_u8 (of_nat (truth_number (as_truth a))) @
     enc_bool (as_agreed_value a \<noteq> None) @
     (case as_agreed_value a of None \<Rightarrow> [] | Some v \<Rightarrow> value_encode v) @
     (let c = as_coverage a in
      enc_u32 (distinct_fresh_sources c) @ enc_u32 (required_distinct_fresh_sources c) @
      enc_authority (best_fresh_authority c) @ enc_authority (cv_required_authority c) @
      enc_bool (cv_satisfied c)) @
     enc_bool (as_claims_truncated a) @
     enc_size (length (as_claims a)) @ concat (map encode_claim_record (as_claims a)) @
     enc_size (length (as_conflicts a)) @ concat (map encode_conflict (as_conflicts a))"

definition encode_subject_state :: "subject_state \<Rightarrow> byte list" where
  "encode_subject_state s =
     encode_identity (sb_identity s) @ enc_bool (sb_parent s \<noteq> None) @
     (case sb_parent s of None \<Rightarrow> [] | Some i \<Rightarrow> enc_u128 (entity_value i)) @
     enc_u8 (of_nat (truth_number (sb_topology_truth s))) @
     enc_u8 (of_nat (truth_number (sb_worst_truth s))) @
     enc_size (length (sb_aspects s)) @ concat (map encode_aspect_state (sb_aspects s))"

definition encode_source_summary :: "source_summary \<Rightarrow> byte list" where
  "encode_source_summary s =
     enc_u128 (id_value (ss_id s)) @ enc_text (ss_name s) @ enc_text (ss_authority_name s) @
     enc_authority (ss_max_authority s) @ enc_u128 (id_value (si_id (ss_incarnation s))) @
     enc_time (si_boot_time (ss_incarnation s)) @ enc_u64 (si_boot_counter (ss_incarnation s)) @
     enc_u64 (ss_last_sequence s) @ enc_time (ss_first_receive s) @ enc_time (ss_last_receive s) @
     enc_time (ss_last_observation s) @ enc_u64 (ss_last_generation s) @ enc_u64 (ss_last_epoch s) @
     enc_u64 (ss_accepted s) @ enc_u64 (ss_retained_records s) @
     enc_u8 (of_nat (verdict_number (ss_freshness s))) @ enc_bool (ss_recovered s)"

definition encode_rejection :: "rejected_observation \<Rightarrow> byte list" where
  "encode_rejection r =
     enc_bytes (rj_observation_id r) @ enc_u128 (id_value (rj_source r)) @
     enc_u128 (id_value (rj_incarnation r)) @ enc_u64 (rj_sequence r) @ enc_u64 (rj_generation r) @
     enc_u64 (rj_epoch r) @ enc_time (rj_received_at r) @ enc_u16 (status_code_u16 (rj_fence r)) @
     enc_text (rj_explanation r)"

definition encode_fenced_claim :: "fenced_claim \<Rightarrow> byte list" where
  "encode_fenced_claim f =
     encode_identity (fc_subject f) @ enc_text (aspect_value (fc_aspect f)) @
     enc_u128 (id_value (fc_source f)) @ enc_u128 (id_value (fc_incarnation f)) @
     enc_u64 (fc_sequence f) @ enc_time (fc_received_at f) @ enc_u16 (status_code_u16 (fc_fence f)) @
     enc_text (fc_explanation f)"

definition encode_content :: "snapshot \<Rightarrow> byte list" where
  "encode_content s =
     enc_tag ''snapshot'' @ enc_u8 1 @ enc_u128 (id_value (sn_fabric s)) @
     enc_u64 (sn_generation s) @ enc_u64 (sn_epoch s) @ enc_time (sn_evaluation_time s) @
     enc_time (sn_observed_high_water s) @ enc_time (sn_received_high_water s) @
     enc_time (sn_received_low_water s) @ enc_bytes (sn_policy_digest s) @
     enc_text (sn_policy_name s) @ enc_u64 (sn_restart_epoch s) @ enc_u32 (sn_restart_count s) @
     enc_bool (sn_evidence_truncated s) @
     enc_size (length (sn_sources s)) @ concat (map encode_source_summary (sn_sources s)) @
     enc_size (length (sn_subjects s)) @ concat (map encode_subject_state (sn_subjects s)) @
     enc_size (length (sn_rejected s)) @ concat (map encode_rejection (sn_rejected s)) @
     enc_size (length (sn_fenced_claims s)) @ concat (map encode_fenced_claim (sn_fenced_claims s))"

definition recompute_digest :: "snapshot \<Rightarrow> digest256" where
  "recompute_digest s = sha256 (encode_content s)"

subsection \<open>Building\<close>

text \<open>Everything but the identifier; \<open>None\<close> when the contract on the fabric identity fails.\<close>

definition build_body :: "build_request \<Rightarrow> snapshot" where
  "build_body rq =
     (let p = rq_policy rq; order = canonical_order (rq_records rq);
          bound = unat (max_rejections_retained (p_limits p));
          (buckets, subjects_truncated) = collect_buckets rq;
          subjects = sort_key subject_order (map (\<lambda>e. build_subject p (snd e)) buckets);
          sources = sort_key ss_id (rq_sources rq);
          rejected = sort_key rejection_key (rq_rejected rq);
          fenced = sort_key fenced_claim_key (rq_fenced_claims rq)
      in \<lparr>sn_id = [], sn_fabric = rq_fabric rq, sn_generation = high_generation order,
          sn_epoch = current_epoch order, sn_evaluation_time = rq_evaluation_time rq,
          sn_observed_high_water = observed_high_water order,
          sn_received_high_water = received_high_water order,
          sn_received_low_water = received_low_water order,
          sn_policy_digest = policy_digest p, sn_policy_name = policy_name p,
          sn_restart_epoch = rq_restart_epoch rq, sn_restart_count = rq_restart_count rq,
          sn_subjects = subjects, sn_sources = sources,
          sn_rejected = take bound rejected, sn_fenced_claims = take bound fenced,
          sn_stats = count_stats subjects (length sources) (length (take bound rejected))
            (length (take bound fenced)),
          sn_evidence_records = length (rq_records rq),
          sn_evidence_truncated = (rq_evidence_truncated rq \<or> subjects_truncated),
          sn_rejected_truncated = (length rejected > bound),
          sn_history_index = 0, sn_published_at = time_zero\<rparr>)"

definition snapshot_build :: "build_request \<Rightarrow> snapshot option" where
  "snapshot_build rq =
     (if id_is_nil (rq_fabric rq) then None
      else let s = build_body rq in Some (s\<lparr>sn_id := recompute_digest s\<rparr>))"

definition set_publication :: "history_index \<Rightarrow> time_point \<Rightarrow> snapshot \<Rightarrow> snapshot" where
  "set_publication i t s = s\<lparr>sn_history_index := i, sn_published_at := t\<rparr>"

section \<open>Lookup\<close>

definition find_subject :: "snapshot \<Rightarrow> entity_ref \<Rightarrow> subject_state option" where
  "find_subject s ref =
     (case find (\<lambda>t. \<not> subject_order t < ref) (sn_subjects s) of
        None \<Rightarrow> None
      | Some t \<Rightarrow> if su_kind (sb_identity t) \<noteq> fst ref \<or> su_id (sb_identity t) \<noteq> snd ref then None
                  else Some t)"

definition find_aspect :: "snapshot \<Rightarrow> entity_ref \<Rightarrow> string \<Rightarrow> aspect_state option" where
  "find_aspect s ref aspect =
     (case find_subject s ref of None \<Rightarrow> None
      | Some t \<Rightarrow>
          (case find (\<lambda>a. \<not> aspect_value (as_aspect a) < aspect) (sb_aspects t) of
             None \<Rightarrow> None
           | Some a \<Rightarrow> if aspect_value (as_aspect a) \<noteq> aspect then None else Some a))"

definition find_source :: "snapshot \<Rightarrow> source_id \<Rightarrow> source_summary option" where
  "find_source s i =
     (case find (\<lambda>t. \<not> ss_id t < i) (sn_sources s) of
        None \<Rightarrow> None
      | Some t \<Rightarrow> if ss_id t \<noteq> i then None else Some t)"

section \<open>Freshness: results\<close>

text \<open>The age of evidence as an exact integer, clamped to the representable durations.\<close>

definition evidence_age :: "time_point \<Rightarrow> time_point \<Rightarrow> int" where
  "evidence_age evaluation_time evidence_time =
     min (2 ^ 63 - 1) (max 0 (sint (tp_nanos evaluation_time) - sint (tp_nanos evidence_time)))"

lemma evaluate_freshness_spec:
  "evaluate_freshness t now p recovered =
     (if evidence_age now t \<le> sint (du_nanos (fresh_window p))
      then (if recovered \<and> \<not> allow_recovered_as_fresh p then FV_Aging else FV_Fresh)
      else if evidence_age now t \<le> sint (du_nanos (aging_window p)) then FV_Aging else FV_Stale)"
  by (simp add: evaluate_freshness_def Let_def less_eq_duration_def saturating_difference_value
      evidence_age_def)

lemma recovered_never_fresh:
  "\<not> allow_recovered_as_fresh p \<Longrightarrow> evaluate_freshness t now p True \<noteq> FV_Fresh"
  by (simp add: evaluate_freshness_def Let_def)

lemma verdict_order [simp]: "FV_Fresh \<le> v" "v \<le> FV_Stale"
  by (cases v; simp add: less_eq_freshness_verdict_def verdict_number_def verdict_names_def)+

lemma verdict_number_simps [simp]:
  "verdict_number FV_Fresh = 0" "verdict_number FV_Aging = 1" "verdict_number FV_Stale = 2"
  by (simp_all add: verdict_number_def verdict_names_def)

lemma freshness_decays:
  assumes "fresh_window p \<le> aging_window p" "now \<le> now'"
  shows "evaluate_freshness t now p r \<le> evaluate_freshness t now' p r"
proof -
  have "evidence_age now t \<le> evidence_age now' t"
    using assms(2) by (simp add: evidence_age_def less_eq_time_point_def)
  then show ?thesis
    using assms(1)
    by (auto simp: evaluate_freshness_spec less_eq_freshness_verdict_def less_eq_duration_def)
qed

lemma reference_time_le:
  "evidence_reference_time a b \<le> a" "evidence_reference_time a b \<le> b"
  by (auto simp: evidence_reference_time_def)

section \<open>Truth of an aspect: results\<close>

subsection \<open>Groups\<close>

lemma om_sorted_add_to_group: "om_sorted g \<Longrightarrow> om_sorted (add_to_group c g)"
  by (simp add: add_to_group_def om.invar_put)

lemma find_add_to_group:
  "om_sorted g \<Longrightarrow> map_of (add_to_group c g) = (map_of g)(rc_value c \<mapsto>
     (case map_of g (rc_value c) of None \<Rightarrow> [] | Some cs \<Rightarrow> cs) @ [c])"
  by (simp add: add_to_group_def om.find_put)

lemma om_sorted_groups: "om_sorted (value_groups cs)"
proof -
  have "om_sorted (fold add_to_group cs g)" if "om_sorted g" for g
    using that by (induction cs arbitrary: g) (simp_all add: om_sorted_add_to_group)
  then show ?thesis by (simp add: value_groups_def)
qed

lemma map_of_value_groups:
  "map_of (value_groups cs) v =
     (if v \<in> rc_value ` set cs then Some (filter (\<lambda>c. rc_value c = v) cs) else None)"
proof -
  have "map_of (fold add_to_group cs g) v =
      (case map_of g v of
         None \<Rightarrow> if v \<in> rc_value ` set cs then Some (filter (\<lambda>c. rc_value c = v) cs) else None
       | Some ds \<Rightarrow> Some (ds @ filter (\<lambda>c. rc_value c = v) cs))" if "om_sorted g" for g
    using that
  proof (induction cs arbitrary: g)
    case Nil
    then show ?case by (simp split: option.split)
  next
    case (Cons c cs)
    then show ?case
      by (auto simp: om_sorted_add_to_group find_add_to_group split: option.splits)
  qed
  from this[of "[]"] show ?thesis by (simp add: value_groups_def)
qed

lemma keys_value_groups: "fst ` set (value_groups cs) = rc_value ` set cs"
proof -
  have "dom (map_of (value_groups cs)) = rc_value ` set cs"
    by (auto simp: dom_def map_of_value_groups split: if_splits)
  then show ?thesis by (simp add: dom_map_of_conv_image_fst)
qed

lemma length_value_groups: "length (value_groups cs) = card (rc_value ` set cs)"
  using distinct_card[OF om_sorted_distinct[OF om_sorted_groups[of cs]]]
  by (simp add: keys_value_groups)

lemma value_groups_perm:
  assumes "mset cs = mset ds"
  shows "map fst (value_groups cs) = map fst (value_groups ds)"
proof -
  have "set cs = set ds" using assms by (rule mset_eq_setD)
  then have "set (map fst (value_groups cs)) = set (map fst (value_groups ds))"
    by (simp add: keys_value_groups)
  then show ?thesis
    using om_sorted_groups[of cs] om_sorted_groups[of ds]
    by (intro strict_sorted_equal) (simp_all add: om_sorted_def)
qed

lemma in_value_groups:
  "(v, ds) \<in> set (value_groups cs) \<Longrightarrow>
     ds = filter (\<lambda>c. rc_value c = v) cs \<and> v \<in> rc_value ` set cs"
  using map_of_value_groups[of cs v] om_sorted_distinct[OF om_sorted_groups[of cs]]
  by (metis map_of_is_SomeI option.distinct(1) option.inject)

lemma source_set_cong: "set cs = set ds \<Longrightarrow> source_set cs = source_set ds"
  unfolding source_set_def
  by (rule sorted_distinct_set_unique) simp_all

lemma set_source_set [simp]: "set (source_set cs) = rc_source ` set cs"
  by (simp add: source_set_def)

lemma length_source_set: "length (source_set cs) = card (rc_source ` set cs)"
  using distinct_card[of "source_set cs"] by (simp add: source_set_def length_remdups_card_conv)

lemma best_authority_max:
  "best_authority cs = Max (insert SA_None (rc_authority ` set cs))"
proof -
  have fold: "foldl (\<lambda>best c. if rc_authority c > best then rc_authority c else best) a cs =
      Max (insert a (rc_authority ` set cs))" for a
  proof (induction cs arbitrary: a)
    case (Cons c cs)
    have "Max (insert a (insert (rc_authority c) (rc_authority ` set cs))) =
        Max (insert (max a (rc_authority c)) (rc_authority ` set cs))"
      by (cases "rc_authority ` set cs = {}") (simp_all add: max.assoc)
    with Cons show ?case by (auto simp: max_def not_less insert_commute)
  qed simp
  then show ?thesis by (simp add: best_authority_def)
qed

subsection \<open>The abstract specification\<close>

text \<open>
  What the truth of an aspect is, stated on the set of claims: no loop, no container, no
  order. \<open>evaluate_truth\<close> implements it.
\<close>

definition assertive_claims :: "claim_record set \<Rightarrow> claim_record set" where
  "assertive_claims C = {c \<in> C. is_assertive c}"

definition coverage_met :: "coverage_policy \<Rightarrow> claim_record set \<Rightarrow> bool" where
  "coverage_met p A \<longleftrightarrow> unat (min_distinct_fresh_sources p) \<le> card (rc_source ` A) \<and>
     (required_authority p = SA_None \<or> (\<exists>c\<in>A. required_authority p \<le> rc_authority c))"

definition truth_spec :: "coverage_policy \<Rightarrow> claim_record set \<Rightarrow> truth_state" where
  "truth_spec p C =
     (if C = {} then TS_Unknown
      else if \<forall>c\<in>C. \<not> rc_supported c then TS_Unsupported
      else if assertive_claims C = {} then TS_Stale
      else if \<exists>c\<in>assertive_claims C. \<exists>d\<in>assertive_claims C. rc_value c \<noteq> rc_value d
      then TS_Conflicting
      else if coverage_met p (assertive_claims C) then TS_Known else TS_Incomplete)"

lemma authority_none_least [simp]: "SA_None \<le> a"
  by (simp add: less_eq_source_authority_def authority_number_def authority_names_def)

lemma best_authority_ge:
  "r \<le> best_authority cs \<longleftrightarrow> r = SA_None \<or> (\<exists>c\<in>set cs. r \<le> rc_authority c)"
proof -
  have "r \<le> SA_None \<longleftrightarrow> r = SA_None"
    by (cases r) (simp_all add: less_eq_source_authority_def authority_number_def authority_names_def)
  then show ?thesis
    unfolding best_authority_max by (subst Max_ge_iff) auto
qed

lemma many_groups:
  "length (value_groups cs) > 1 \<longleftrightarrow> (\<exists>c\<in>set cs. \<exists>d\<in>set cs. rc_value c \<noteq> rc_value d)"
proof -
  have "Suc 0 < card (rc_value ` set cs) \<longleftrightarrow> \<not> (\<forall>v\<in>rc_value ` set cs. \<forall>w\<in>rc_value ` set cs. v = w)"
    by (metis card_le_Suc0_iff_eq finite_imageI finite_set not_le)
  then show ?thesis by (auto simp: length_value_groups)
qed

lemma set_filter_assertive: "set (filter is_assertive cs) = assertive_claims (set cs)"
  by (auto simp: assertive_claims_def)

text \<open>The fields of the evaluation, branch by branch.\<close>

definition coverage_satisfied :: "coverage_policy \<Rightarrow> claim_record list \<Rightarrow> bool" where
  "coverage_satisfied q A \<longleftrightarrow> length (source_set A) \<ge> unat (min_distinct_fresh_sources q) \<and>
     best_authority A \<ge> required_authority q"

lemma te_truth_eq:
  "te_truth (evaluate_truth aspect claims p) =
     (let A = filter is_assertive claims in
      if claims = [] then TS_Unknown
      else if \<not> list_ex rc_supported claims then TS_Unsupported
      else if A = [] then TS_Stale
      else if length (value_groups A) > 1 then TS_Conflicting
      else if \<not> coverage_satisfied (coverage_for p (aspect_value aspect)) A then TS_Incomplete
      else TS_Known)"
  by (simp add: evaluate_truth_def Let_def coverage_satisfied_def)

lemma te_agreed_eq:
  "te_agreed_value (evaluate_truth aspect claims p) =
     (if te_truth (evaluate_truth aspect claims p) = TS_Known
      then Some (fst (hd (value_groups (filter is_assertive claims)))) else None)"
  by (simp add: evaluate_truth_def Let_def)

lemma te_conflicts_eq:
  "te_conflicts (evaluate_truth aspect claims p) =
     (if te_truth (evaluate_truth aspect claims p) = TS_Conflicting
      then map conflict_of (value_groups (filter is_assertive claims)) else [])"
  by (simp add: evaluate_truth_def Let_def)

lemma evaluate_truth_refines:
  "te_truth (evaluate_truth aspect claims p) =
     truth_spec (coverage_for p (aspect_value aspect)) (set claims)"
proof -
  let ?q = "coverage_for p (aspect_value aspect)"
  let ?A = "filter is_assertive claims"
  have none: "?A = [] \<longleftrightarrow> assertive_claims (set claims) = {}"
    by (metis set_empty set_filter_assertive)
  have met: "coverage_satisfied ?q ?A \<longleftrightarrow> coverage_met ?q (assertive_claims (set claims))"
    unfolding coverage_satisfied_def coverage_met_def length_source_set best_authority_ge
      set_filter_assertive ..
  have many: "length (value_groups ?A) > 1 \<longleftrightarrow>
      (\<exists>c\<in>assertive_claims (set claims). \<exists>d\<in>assertive_claims (set claims). rc_value c \<noteq> rc_value d)"
    unfolding many_groups set_filter_assertive ..
  have supported: "list_ex rc_supported claims \<longleftrightarrow> \<not> (\<forall>c\<in>set claims. \<not> rc_supported c)"
    by (simp add: list_ex_iff)
  have empty: "claims = [] \<longleftrightarrow> set claims = {}" by simp
  have swap: "(if \<not> b then x else y) = (if b then y else x)" for b and x y :: truth_state
    by simp
  show ?thesis
    unfolding te_truth_eq Let_def truth_spec_def none met many supported empty
    by (simp only: not_not swap)
qed

text \<open>The whole evaluation depends on the claims only as a set.\<close>

lemma conflict_groups_cong:
  assumes "set cs = set ds"
  shows "map conflict_of (value_groups cs) = map conflict_of (value_groups ds)"
proof -
  have keys: "map fst (value_groups cs) = map fst (value_groups ds)"
    using om_sorted_groups[of cs] om_sorted_groups[of ds] assms
    by (intro strict_sorted_equal) (simp_all add: om_sorted_def keys_value_groups)
  have form: "map conflict_of (value_groups es) =
      map (\<lambda>v. conflict_of (v, filter (\<lambda>c. rc_value c = v) es)) (map fst (value_groups es))" for es
    using in_value_groups by (fastforce intro!: map_cong)
  have "conflict_of (v, filter (\<lambda>c. rc_value c = v) cs) = conflict_of (v, filter (\<lambda>c. rc_value c = v) ds)" for v
    using source_set_cong[of "filter (\<lambda>c. rc_value c = v) cs" "filter (\<lambda>c. rc_value c = v) ds"] assms
    by (simp add: conflict_of_def)
  then show ?thesis unfolding form[of cs] form[of ds] keys by simp
qed

lemma hd_groups_cong:
  "set cs = set ds \<Longrightarrow> cs \<noteq> [] \<Longrightarrow> fst (hd (value_groups cs)) = fst (hd (value_groups ds))"
proof -
  assume eq: "set cs = set ds" and "cs \<noteq> []"
  have "map fst (value_groups cs) = map fst (value_groups ds)"
    using om_sorted_groups[of cs] om_sorted_groups[of ds] eq
    by (intro strict_sorted_equal) (simp_all add: om_sorted_def keys_value_groups)
  moreover have "value_groups cs \<noteq> []" "value_groups ds \<noteq> []"
    using \<open>cs \<noteq> []\<close> eq keys_value_groups[of cs] keys_value_groups[of ds] by fastforce+
  ultimately show ?thesis by (metis hd_map)
qed

lemma length_groups_cong: "set cs = set ds \<Longrightarrow> length (value_groups cs) = length (value_groups ds)"
  by (simp add: length_value_groups)

lemma best_authority_cong: "set cs = set ds \<Longrightarrow> best_authority cs = best_authority ds"
  by (simp add: best_authority_max)

lemma evaluate_truth_cong:
  assumes "set cs = set ds"
  shows "evaluate_truth aspect cs p = evaluate_truth aspect ds p"
proof -
  let ?A = "filter is_assertive"
  have sets: "set (?A cs) = set (?A ds)" using assms by auto
  have "cs = [] \<longleftrightarrow> ds = []" "list_ex rc_supported cs = list_ex rc_supported ds"
      "?A cs = [] \<longleftrightarrow> ?A ds = []"
    using assms sets by (auto simp: list_ex_iff filter_empty_conv)
  then show ?thesis
    using source_set_cong[OF sets] best_authority_cong[OF sets] length_groups_cong[OF sets]
      conflict_groups_cong[OF sets] hd_groups_cong[OF sets]
    by (cases "?A ds = []") (simp_all only: evaluate_truth_def Let_def if_True simp_thms)
qed

text \<open>Evidence that is stale, superseded, fenced or unsupported cannot change a live verdict.\<close>

lemma evaluate_truth_only_assertive:
  assumes "filter is_assertive claims \<noteq> []"
  shows "evaluate_truth aspect claims p = evaluate_truth aspect (filter is_assertive claims) p"
proof -
  have "list_ex rc_supported (filter is_assertive claims)" "list_ex rc_supported claims"
    using assms by (auto simp: list_ex_iff is_assertive_def filter_empty_conv)
  moreover have "claims \<noteq> []" using assms by auto
  ultimately show ?thesis
    using assms by (simp add: evaluate_truth_def Let_def)
qed

lemma truth_spec_known:
  "truth_spec q C = TS_Known \<longleftrightarrow> assertive_claims C \<noteq> {} \<and> coverage_met q (assertive_claims C) \<and>
     (\<forall>c\<in>assertive_claims C. \<forall>d\<in>assertive_claims C. rc_value c = rc_value d)"
  by (auto simp: truth_spec_def assertive_claims_def is_assertive_def)

lemma known_agreed:
  assumes "te_truth (evaluate_truth aspect claims p) = TS_Known"
  shows "\<exists>v. te_agreed_value (evaluate_truth aspect claims p) = Some v \<and>
     (\<exists>c\<in>set claims. is_assertive c) \<and> (\<forall>c\<in>set claims. is_assertive c \<longrightarrow> rc_value c = v)"
proof -
  let ?A = "filter is_assertive claims"
  note spec = assms[unfolded evaluate_truth_refines truth_spec_known]
  note known = conjunct1[OF spec] conjunct2[OF conjunct2[OF spec]]
  have "?A \<noteq> []"
    using known(1) by (metis set_empty set_filter_assertive)
  have agreed: "te_agreed_value (evaluate_truth aspect claims p) = Some (fst (hd (value_groups ?A)))"
    using assms by (simp add: te_agreed_eq)
  have "value_groups ?A \<noteq> []"
    using \<open>?A \<noteq> []\<close> keys_value_groups[of ?A] by fastforce
  then have "fst (hd (value_groups ?A)) \<in> rc_value ` assertive_claims (set claims)"
    unfolding set_filter_assertive[symmetric] keys_value_groups[of ?A, symmetric] by (rule imageI[OF hd_in_set])
  then obtain c where c: "c \<in> assertive_claims (set claims)" "fst (hd (value_groups ?A)) = rc_value c"
    by blast
  have "rc_value d = rc_value c" if "d \<in> set claims" "is_assertive d" for d
    using known(2) c(1) that unfolding assertive_claims_def by blast
  moreover have "c \<in> set claims" "is_assertive c"
    using c(1) by (simp_all add: assertive_claims_def)
  ultimately show ?thesis
    unfolding agreed c(2) by blast
qed

lemma agreed_only_known:
  "te_agreed_value (evaluate_truth aspect claims p) \<noteq> None \<Longrightarrow>
     te_truth (evaluate_truth aspect claims p) = TS_Known"
  by (simp add: te_agreed_eq split: if_splits)

lemma conflicts_listed:
  assumes "te_truth (evaluate_truth aspect claims p) = TS_Conflicting"
  shows "map cg_value (te_conflicts (evaluate_truth aspect claims p)) =
       sorted_list_of_set (rc_value ` assertive_claims (set claims))"
    and "g \<in> set (te_conflicts (evaluate_truth aspect claims p)) \<Longrightarrow>
       cg_sources g = sorted_list_of_set
         (rc_source ` {c \<in> assertive_claims (set claims). rc_value c = cg_value g})"
proof -
  let ?A = "filter is_assertive claims"
  have eq: "te_conflicts (evaluate_truth aspect claims p) = map conflict_of (value_groups ?A)"
    using assms by (simp add: te_conflicts_eq)
  have "map cg_value (map conflict_of (value_groups ?A)) = map fst (value_groups ?A)"
    by (simp add: conflict_of_def)
  also have "\<dots> = sorted_list_of_set (rc_value ` assertive_claims (set claims))"
    using om_sorted_groups[of ?A] keys_value_groups[of ?A] finite_imageI[OF finite_set[of ?A], of rc_value]
    by (intro strict_sorted_equal) (simp_all add: om_sorted_def set_filter_assertive del: set_filter)
  finally show "map cg_value (te_conflicts (evaluate_truth aspect claims p)) =
       sorted_list_of_set (rc_value ` assertive_claims (set claims))"
    by (simp add: eq)
  assume "g \<in> set (te_conflicts (evaluate_truth aspect claims p))"
  then obtain v ds where g: "g = conflict_of (v, ds)" "(v, ds) \<in> set (value_groups ?A)"
    unfolding eq by auto
  have "set ds = {c \<in> assertive_claims (set claims). rc_value c = v}"
    using in_value_groups[OF g(2)] set_filter_assertive[of claims] by auto
  moreover have "source_set ds = sorted_list_of_set (rc_source ` set ds)"
    unfolding source_set_def by (simp add: sorted_list_of_set_sort_remdups[symmetric])
  ultimately show "cg_sources g = sorted_list_of_set
      (rc_source ` {c \<in> assertive_claims (set claims). rc_value c = cg_value g})"
    by (simp add: g(1) conflict_of_def)
qed

section \<open>Composition: results\<close>

subsection \<open>The order of arrival does not matter\<close>

lemma map_of_image_perm:
  assumes "mset xs = mset ys" "inj_on k (set xs)"
  shows "map_of (map (\<lambda>x. (k x, v x)) xs) = map_of (map (\<lambda>x. (k x, v x)) ys)"
proof -
  have char: "map_of (map (\<lambda>x. (k x, v x)) zs) a = Some b \<longleftrightarrow> (\<exists>x\<in>set zs. k x = a \<and> v x = b)"
    if "inj_on k (set zs)" for zs a b
    using that
  proof (induction zs)
    case (Cons z zs)
    then show ?case by (auto simp: inj_on_def)
  qed simp
  have set: "set xs = set ys" using assms(1) by (rule mset_eq_setD)
  show ?thesis
  proof (rule ext)
    fix a
    have "map_of (map (\<lambda>x. (k x, v x)) xs) a = Some b \<longleftrightarrow> map_of (map (\<lambda>x. (k x, v x)) ys) a = Some b" for b
      using char[of xs] char[of ys] assms(2) set by simp
    then show "map_of (map (\<lambda>x. (k x, v x)) xs) a = map_of (map (\<lambda>x. (k x, v x)) ys) a"
      by (metis not_None_eq)
  qed
qed

lemma fence_table_lookup:
  "map_of (fence_table fs) = map_of (map (\<lambda>f. (fence_key f, fc_fence f)) fs)"
  by (rule ext) (simp add: fence_table_def om.find_fold_emplace)

lemma declared_authority_lookup:
  "map_of (declared_authority ss) = map_of (map (\<lambda>s. (ss_id s, ss_max_authority s)) ss)"
  by (rule ext) (simp add: declared_authority_def om.find_fold_emplace)

lemma status_number_inject: "status_number x = status_number y \<Longrightarrow> x = y"
  by (cases x; simp add: status_number_def status_names_def split: if_splits)

lemma rejection_key_inject: "rejection_key a = rejection_key b \<Longrightarrow> a = (b :: rejected_observation)"
  by (auto simp: rejection_key_def dest: status_number_inject intro: rejected_observation.equality)

lemma fenced_claim_key_inject: "fenced_claim_key a = fenced_claim_key b \<Longrightarrow> a = (b :: fenced_claim)"
  by (auto simp: fenced_claim_key_def dest: status_number_inject subject_key_inject
      intro: fenced_claim.equality)

lemma claim_record_key_inject: "claim_record_key a = claim_record_key b \<Longrightarrow> a = (b :: claim_record)"
  by (auto simp: claim_record_key_def dest: status_number_inject intro: claim_record.equality)

definition same_evidence :: "build_request \<Rightarrow> build_request \<Rightarrow> bool" where
  "same_evidence a b \<longleftrightarrow>
     rq_fabric a = rq_fabric b \<and> rq_policy a = rq_policy b \<and>
     rq_evaluation_time a = rq_evaluation_time b \<and> rq_restart_epoch a = rq_restart_epoch b \<and>
     rq_restart_count a = rq_restart_count b \<and> rq_evidence_truncated a = rq_evidence_truncated b \<and>
     mset (rq_records a) = mset (rq_records b) \<and> mset (rq_rejected a) = mset (rq_rejected b) \<and>
     mset (rq_fenced_claims a) = mset (rq_fenced_claims b) \<and> mset (rq_sources a) = mset (rq_sources b)"

text \<open>
  The retained evidence is free of ties: no two records share source, incarnation, sequence
  and content, no claim is fenced twice, no source is summarised twice.
\<close>

definition tie_free :: "build_request \<Rightarrow> bool" where
  "tie_free rq \<longleftrightarrow> inj_on record_key (set (rq_records rq)) \<and>
     inj_on fence_key (set (rq_fenced_claims rq)) \<and> inj_on ss_id (set (rq_sources rq))"

lemma collect_buckets_cong:
  assumes "canonical_order (rq_records a) = canonical_order (rq_records b)"
    and "map_of (fence_table (rq_fenced_claims a)) = map_of (fence_table (rq_fenced_claims b))"
    and "map_of (declared_authority (rq_sources a)) = map_of (declared_authority (rq_sources b))"
    and "rq_policy a = rq_policy b" "rq_evaluation_time a = rq_evaluation_time b"
  shows "collect_buckets a = collect_buckets (b :: build_request)"
proof -
  have claims: "make_claim_record a = make_claim_record b"
    by (intro ext) (simp add: make_claim_record_def Let_def assms cong: option.case_cong)
  have "store_claim a = store_claim b"
    by (intro ext) (simp add: store_claim_def Let_def claims assms(4))
  then have "add_claim a = add_claim b"
    by (intro ext) (simp add: add_claim_def Let_def assms(4) cong: option.case_cong prod.case_cong)
  then have "add_record a = add_record b"
    by (intro ext) (simp add: add_record_def)
  then show ?thesis
    by (simp add: collect_buckets_def assms(1))
qed

lemma snapshot_build_order:
  assumes "same_evidence a b" "tie_free a"
  shows "snapshot_build a = snapshot_build b"
proof -
  note same = assms(1)[unfolded same_evidence_def] and ties = assms(2)[unfolded tie_free_def]
  have order: "canonical_order (rq_records a) = canonical_order (rq_records b)"
    unfolding canonical_order_def using same ties by (intro sort_key_perm_eq) simp_all
  have buckets: "collect_buckets a = collect_buckets b"
    using same ties
    by (intro collect_buckets_cong[OF order])
       (auto simp: fence_table_lookup declared_authority_lookup intro!: map_of_image_perm)
  have sources: "sort_key ss_id (rq_sources a) = sort_key ss_id (rq_sources b)"
    using same ties by (intro sort_key_perm_eq) simp_all
  have rejected: "sort_key rejection_key (rq_rejected a) = sort_key rejection_key (rq_rejected b)"
    using same by (intro sort_key_perm_eq_inj) (auto intro: injI rejection_key_inject)
  have fenced: "sort_key fenced_claim_key (rq_fenced_claims a) =
      sort_key fenced_claim_key (rq_fenced_claims b)"
    using same by (intro sort_key_perm_eq_inj) (auto intro: injI fenced_claim_key_inject)
  have "length (rq_records a) = length (rq_records b)"
    using same by (metis size_mset)
  then have "build_body a = build_body b"
    using same by (simp add: build_body_def Let_def order buckets sources rejected fenced)
  then show ?thesis
    using same by (simp add: snapshot_build_def)
qed

subsection \<open>Where claims come from, and how many there are\<close>

definition claim_from :: "build_request \<Rightarrow> entity_id \<Rightarrow> aspect_id \<Rightarrow> claim_record \<Rightarrow> bool" where
  "claim_from rq i a c \<longleftrightarrow> (\<exists>r\<in>set (rq_records rq). \<exists>cl\<in>set (ob_claims (or_observation r)).
     su_id (cl_subject cl) = i \<and> cl_aspect cl = a \<and> c = make_claim_record rq r cl)"

definition bucket_ok :: "build_request \<Rightarrow> entity_id \<times> subject_bucket \<Rightarrow> bool" where
  "bucket_ok rq e \<longleftrightarrow> su_id (bk_identity (snd e)) = fst e \<and> om_sorted (bk_aspects (snd e)) \<and>
     bk_aspects (snd e) \<noteq> [] \<and>
     (\<forall>(a, cs)\<in>set (bk_aspects (snd e)). length cs \<le> working_set_cap (p_limits (rq_policy rq)) \<and>
       (\<forall>c\<in>set cs. claim_from rq (fst e) a c))"

definition buckets_ok :: "build_request \<Rightarrow> bucket_map \<Rightarrow> bool" where
  "buckets_ok rq bs \<longleftrightarrow> om_sorted bs \<and>
     length bs \<le> unat (max_subjects (p_limits (rq_policy rq))) \<and> (\<forall>e\<in>set bs. bucket_ok rq e)"

lemma om_put_not_Nil [simp]: "om_put k v m \<noteq> []"
  by (cases m) (auto split: if_splits)

lemma bucket_ok_store:
  assumes b: "su_id (bk_identity b) = i" "om_sorted (bk_aspects b)"
      "\<forall>(a, cs)\<in>set (bk_aspects b). length cs \<le> working_set_cap (p_limits (rq_policy rq)) \<and>
        (\<forall>c\<in>set cs. claim_from rq i a c)"
    and new: "r \<in> set (rq_records rq)" "c \<in> set (ob_claims (or_observation r))"
      "su_id (cl_subject c) = i"
  shows "bucket_ok rq (i, store_claim rq r c b)"
proof -
  let ?cap = "working_set_cap (p_limits (rq_policy rq))"
  define cs where "cs = (case map_of (bk_aspects b) (cl_aspect c) of None \<Rightarrow> [] | Some cs \<Rightarrow> cs)"
  define new_claims where
    "new_claims = (if length cs \<ge> ?cap then cs else cs @ [make_claim_record rq r c])"
  have old: "length cs \<le> ?cap \<and> (\<forall>d\<in>set cs. claim_from rq i (cl_aspect c) d)"
    using b(3) by (auto simp: cs_def split: option.split dest!: map_of_SomeD)
  have "claim_from rq i (cl_aspect c) (make_claim_record rq r c)"
    using new by (auto simp: claim_from_def)
  with old have "length new_claims \<le> ?cap" "\<forall>d\<in>set new_claims. claim_from rq i (cl_aspect c) d"
    by (auto simp: new_claims_def)
  moreover have "store_claim rq r c b =
      b\<lparr>bk_aspects := om_put (cl_aspect c) new_claims (bk_aspects b)\<rparr>"
    by (simp add: store_claim_def Let_def cs_def new_claims_def)
  ultimately show ?thesis
    using b om_put_set[of "cl_aspect c" new_claims "bk_aspects b"]
    by (fastforce simp: bucket_ok_def om.invar_put)
qed

lemma buckets_ok_put:
  assumes "buckets_ok rq bs" "bucket_ok rq (i, b)"
    and "i \<in> fst ` set bs \<or> length bs < unat (max_subjects (p_limits (rq_policy rq)))"
  shows "buckets_ok rq (om_put i b bs)"
  using assms
  by (auto simp: buckets_ok_def om.invar_put length_om_put dest!: subsetD[OF om_put_set])

lemma buckets_ok_add_claim:
  assumes ok: "buckets_ok rq (fst st)"
    and new: "r \<in> set (rq_records rq)" "c \<in> set (ob_claims (or_observation r))"
  shows "buckets_ok rq (fst (add_claim rq r c st))"
proof -
  let ?i = "su_id (cl_subject c)"
  obtain bs t where st: "st = (bs, t)" by fastforce
  show ?thesis
  proof (cases "map_of bs ?i")
    case None
    have "buckets_ok rq (om_put ?i (store_claim rq r c \<lparr>bk_identity = cl_subject c, bk_aspects = []\<rparr>) bs)"
      if "length bs < unat (max_subjects (p_limits (rq_policy rq)))"
      using that ok new by (intro buckets_ok_put bucket_ok_store) (simp_all add: st)
    with None ok show ?thesis
      by (simp add: add_claim_def Let_def not_le st)
  next
    case (Some b)
    then have mem: "(?i, b) \<in> set bs" by (rule map_of_SomeD)
    then have "bucket_ok rq (?i, b)" using ok by (auto simp: buckets_ok_def st)
    then have "buckets_ok rq (om_put ?i (store_claim rq r c b) bs)"
      using mem ok new
      by (intro buckets_ok_put bucket_ok_store) (auto simp: bucket_ok_def st intro: rev_image_eqI)
    with Some show ?thesis by (simp add: add_claim_def Let_def st)
  qed
qed

lemma buckets_ok_add_record:
  assumes "buckets_ok rq (fst st)" "r \<in> set (rq_records rq)"
  shows "buckets_ok rq (fst (add_record rq r st))"
proof -
  have "buckets_ok rq (fst (fold (add_claim rq r) cs st))"
    if "set cs \<subseteq> set (ob_claims (or_observation r))" "buckets_ok rq (fst st)" for cs st
    using that assms(2)
    by (induction cs arbitrary: st) (simp_all add: buckets_ok_add_claim)
  then show ?thesis using assms by (simp add: add_record_def)
qed

lemma buckets_ok_collect: "buckets_ok rq (fst (collect_buckets rq))"
proof -
  have "buckets_ok rq (fst (fold (add_record rq) rs st))"
    if "set rs \<subseteq> set (rq_records rq)" "buckets_ok rq (fst st)" for rs st
    using that by (induction rs arbitrary: st) (simp_all add: buckets_ok_add_record)
  moreover have "buckets_ok rq (fst ([], False))"
    by (simp add: buckets_ok_def)
  ultimately show ?thesis
    by (simp add: collect_buckets_def canonical_order_def)
qed

subsection \<open>One current statement per source incarnation\<close>

definition statement_rank :: "claim_record \<Rightarrow> source_sequence \<times> digest256" where
  "statement_rank c = (rc_sequence c, rc_observation_id c)"

lemma replaces_rank: "replaces a b \<longleftrightarrow> statement_rank b < statement_rank a"
  by (auto simp: replaces_def statement_rank_def less_prod_def)

definition latest_upto :: "claim_record list \<Rightarrow> nat \<Rightarrow> (lineage \<rightharpoonup> nat) \<Rightarrow> bool" where
  "latest_upto claims n m \<longleftrightarrow> (\<forall>k.
     (m k = None \<longrightarrow> (\<forall>j<n. claim_lineage (claims ! j) \<noteq> k)) \<and>
     (\<forall>i. m k = Some i \<longrightarrow> i < n \<and> claim_lineage (claims ! i) = k \<and>
       (\<forall>j<n. claim_lineage (claims ! j) = k \<longrightarrow>
         statement_rank (claims ! j) \<le> statement_rank (claims ! i))))"

lemma latest_uptoI:
  assumes "\<And>k j. m k = None \<Longrightarrow> j < n \<Longrightarrow> claim_lineage (claims ! j) \<noteq> k"
    and "\<And>k i. m k = Some i \<Longrightarrow> i < n \<and> claim_lineage (claims ! i) = k"
    and "\<And>k i j. m k = Some i \<Longrightarrow> j < n \<Longrightarrow> claim_lineage (claims ! j) = k \<Longrightarrow>
      statement_rank (claims ! j) \<le> statement_rank (claims ! i)"
  shows "latest_upto claims n m"
  unfolding latest_upto_def using assms by blast

lemma latest_uptoD:
  assumes "latest_upto claims n m"
  shows "m k = None \<Longrightarrow> j < n \<Longrightarrow> claim_lineage (claims ! j) \<noteq> k"
    and "m k = Some i \<Longrightarrow> i < n" and "m k = Some i \<Longrightarrow> claim_lineage (claims ! i) = k"
    and "m k = Some i \<Longrightarrow> j < n \<Longrightarrow> claim_lineage (claims ! j) = k \<Longrightarrow>
      statement_rank (claims ! j) \<le> statement_rank (claims ! i)"
  using assms unfolding latest_upto_def by blast+

lemma latest_upto_put:
  assumes m: "latest_upto claims n m"
    and top: "\<And>j. j < n \<Longrightarrow> claim_lineage (claims ! j) = claim_lineage (claims ! n) \<Longrightarrow>
      statement_rank (claims ! j) \<le> statement_rank (claims ! n)"
  shows "latest_upto claims (Suc n) (m(claim_lineage (claims ! n) \<mapsto> n))"
  using latest_uptoD[OF m] top
  by (intro latest_uptoI) (fastforce simp: less_Suc_eq split: if_splits)+

lemma latest_upto_keep:
  assumes m: "latest_upto claims n m" and i: "m (claim_lineage (claims ! n)) = Some i"
    and top: "statement_rank (claims ! n) \<le> statement_rank (claims ! i)"
  shows "latest_upto claims (Suc n) m"
  using latest_uptoD[OF m] i top
  by (intro latest_uptoI) (auto simp: less_Suc_eq)

lemma latest_upto_step:
  assumes m: "latest_upto claims n m"
  shows "latest_upto claims (Suc n) (note_latest claims n m)"
proof (cases "m (claim_lineage (claims ! n))")
  case None
  then show ?thesis
    using latest_uptoD(1)[OF m None] latest_upto_put[OF m] by (simp add: note_latest_def Let_def)
next
  case (Some i)
  show ?thesis
  proof (cases "replaces (claims ! n) (claims ! i)")
    case True
    then have "statement_rank (claims ! j) \<le> statement_rank (claims ! n)"
      if "j < n" "claim_lineage (claims ! j) = claim_lineage (claims ! n)" for j
      using latest_uptoD(4)[OF m Some that] unfolding replaces_rank by simp
    with True Some show ?thesis
      using latest_upto_put[OF m] by (simp add: note_latest_def Let_def)
  next
    case False
    then have "note_latest claims n m = m"
      using Some by (simp add: note_latest_def Let_def)
    with False show ?thesis
      using latest_upto_keep[OF m Some] by (simp add: replaces_rank not_less)
  qed
qed

lemma latest_claims_upto: "latest_upto claims (length claims) (latest_claims claims)"
proof -
  have "latest_upto claims n (fold (note_latest claims) [0..<n] Map.empty)" for n
    by (induction n) (simp_all add: latest_upto_step, simp add: latest_upto_def)
  then show ?thesis by (simp add: latest_claims_def)
qed

lemma length_mark_superseded [simp]: "length (mark_superseded claims) = length claims"
  by (simp add: mark_superseded_def)

lemma nth_mark_superseded:
  "i < length claims \<Longrightarrow> mark_superseded claims ! i =
     (if latest_claims claims (claim_lineage (claims ! i)) = Some i then claims ! i
      else (claims ! i)\<lparr>superseded_by_later_sequence := True\<rparr>)"
  by (simp add: mark_superseded_def)

text \<open>Two unmarked statements of one source incarnation are the same statement.\<close>

lemma mark_superseded_unique:
  assumes "i < length claims" "j < length claims"
    and "\<not> superseded_by_later_sequence (mark_superseded claims ! i)"
    and "\<not> superseded_by_later_sequence (mark_superseded claims ! j)"
    and "claim_lineage (claims ! i) = claim_lineage (claims ! j)"
  shows "i = j"
  using assms by (auto simp: nth_mark_superseded split: if_splits)

text \<open>The unmarked one has the highest sequence of its lineage.\<close>

lemma mark_superseded_latest:
  assumes "i < length claims" "j < length claims"
    and "\<not> superseded_by_later_sequence (mark_superseded claims ! i)"
    and "claim_lineage (claims ! j) = claim_lineage (claims ! i)"
  shows "rc_sequence (claims ! j) \<le> rc_sequence (claims ! i)"
proof -
  have "latest_claims claims (claim_lineage (claims ! i)) = Some i"
    using assms(1,3) by (simp add: nth_mark_superseded split: if_splits)
  then have "statement_rank (claims ! j) \<le> statement_rank (claims ! i)"
    using latest_uptoD(4)[OF latest_claims_upto] assms(2,4) by simp
  then show ?thesis by (auto simp: statement_rank_def less_eq_prod_def)
qed

lemma set_mark_superseded:
  "c \<in> set (mark_superseded claims) \<Longrightarrow>
     \<exists>d\<in>set claims. c = d \<or> c = d\<lparr>superseded_by_later_sequence := True\<rparr>"
  by (auto simp: mark_superseded_def split: if_splits)

subsection \<open>Bounds and structure\<close>

lemma bound_claims_facts:
  "length (fst (bound_claims n claims)) \<le> n \<or> fst (bound_claims n claims) = claims"
  "length (fst (bound_claims n claims)) \<le> n"
  "set (fst (bound_claims n claims)) \<subseteq> set claims"
  "snd (bound_claims n claims) \<longleftrightarrow> length claims > n"
  by (auto simp: bound_claims_def dest!: in_set_takeD)

lemma build_aspect_simps [simp]:
  "as_aspect (build_aspect p e) = fst e"
  "as_domain (build_aspect p e) = aspect_domain (fst e)"
  by (simp_all add: build_aspect_def Let_def split_beta)

lemma build_aspect_truth:
  "as_truth (build_aspect p e) =
     te_truth (evaluate_truth (fst e) (as_claims (build_aspect p e)) (p_truth p))"
  "as_agreed_value (build_aspect p e) =
     te_agreed_value (evaluate_truth (fst e) (as_claims (build_aspect p e)) (p_truth p))"
  "as_conflicts (build_aspect p e) =
     te_conflicts (evaluate_truth (fst e) (as_claims (build_aspect p e)) (p_truth p))"
  by (simp_all add: build_aspect_def Let_def split_beta)

lemma build_aspect_claims:
  "length (as_claims (build_aspect p e)) \<le> unat (max_claims_per_subject_aspect (p_limits p))"
  "c \<in> set (as_claims (build_aspect p e)) \<Longrightarrow>
     \<exists>d\<in>set (snd e). c = d \<or> c = d\<lparr>superseded_by_later_sequence := True\<rparr>"
proof -
  obtain a g where e: "e = (a, g)" by fastforce
  let ?b = "bound_claims (unat (max_claims_per_subject_aspect (p_limits p)))
      (sort_key claim_record_key (mark_superseded g))"
  have claims: "as_claims (build_aspect p e) = fst ?b"
    by (simp add: build_aspect_def e Let_def split_beta)
  show "length (as_claims (build_aspect p e)) \<le> unat (max_claims_per_subject_aspect (p_limits p))"
    unfolding claims by (rule bound_claims_facts(2))
  show "\<exists>d\<in>set (snd e). c = d \<or> c = d\<lparr>superseded_by_later_sequence := True\<rparr>"
    if "c \<in> set (as_claims (build_aspect p e))"
    using that bound_claims_facts(3)[of "unat (max_claims_per_subject_aspect (p_limits p))"
        "sort_key claim_record_key (mark_superseded g)"] set_mark_superseded[of c g]
    unfolding claims by (auto simp: e)
qed

lemma foldl_note_aspect:
  "sb_identity (foldl note_aspect s as) = sb_identity s"
  "sb_aspects (foldl note_aspect s as) = sb_aspects s @ as"
  by (induction as arbitrary: s) (simp_all add: note_aspect_def)

lemma foldl_note_worst:
  "truth_number (sb_worst_truth (foldl note_aspect s as)) =
     Min (insert (truth_number (sb_worst_truth s)) ((truth_number \<circ> as_truth) ` set as))"
proof (induction as arbitrary: s)
  case (Cons a as)
  have shift: "Min (insert (min w x) X) = Min (insert w (insert x X))" if "finite X" for w x and X :: "nat set"
    by (cases "X = {}") (simp_all add: that min.assoc)
  have "truth_number (sb_worst_truth (note_aspect s a)) =
      min (truth_number (sb_worst_truth s)) (truth_number (as_truth a))"
    by (simp add: note_aspect_def)
  then show ?case
    using Cons[of "note_aspect s a"] shift[of "(truth_number \<circ> as_truth) ` set as"] by simp
qed simp

lemma build_subject_facts:
  "sb_identity (build_subject p b) = bk_identity b"
  "sb_aspects (build_subject p b) = map (build_aspect p) (bk_aspects b)"
  by (simp_all add: build_subject_def Let_def foldl_note_aspect)

text \<open>The one word for a subject is the most pessimistic of its aspects.\<close>

lemma truth_number_known: "truth_number t \<le> truth_number TS_Known"
  by (cases t) (simp_all add: truth_number_def truth_names_def)

lemma build_subject_worst:
  assumes "bk_aspects b \<noteq> []"
  shows "truth_number (sb_worst_truth (build_subject p b)) =
     Min ((truth_number \<circ> as_truth) ` set (sb_aspects (build_subject p b)))"
proof -
  let ?as = "map (build_aspect p) (bk_aspects b)"
  let ?N = "(truth_number \<circ> as_truth) ` set ?as"
  have nonempty: "?N \<noteq> {}" using assms by simp
  have "Min ?N \<le> truth_number TS_Known"
    using Min_in[of ?N] nonempty truth_number_known by (metis finite_imageI finite_set imageE comp_apply)
  then have "Min (insert (truth_number TS_Known) ?N) = Min ?N"
    using nonempty by (subst Min_insert) simp_all
  then show ?thesis
    using assms by (simp add: build_subject_def Let_def foldl_note_aspect foldl_note_worst del: Min_insert)
qed

subsection \<open>The subjects of a snapshot\<close>

lemma build_body_fields:
  "sn_subjects (build_body rq) = sort_key subject_order
     (map (\<lambda>e. build_subject (rq_policy rq) (snd e)) (fst (collect_buckets rq)))"
  "sn_sources (build_body rq) = sort_key ss_id (rq_sources rq)"
  "sn_rejected (build_body rq) = take (unat (max_rejections_retained (p_limits (rq_policy rq))))
     (sort_key rejection_key (rq_rejected rq))"
  "sn_fenced_claims (build_body rq) = take (unat (max_rejections_retained (p_limits (rq_policy rq))))
     (sort_key fenced_claim_key (rq_fenced_claims rq))"
  by (simp_all add: build_body_def Let_def split_beta)

lemma snapshot_build_fields:
  assumes "snapshot_build rq = Some s"
  shows "sn_subjects s = sn_subjects (build_body rq)" "sn_sources s = sn_sources (build_body rq)"
    "sn_rejected s = sn_rejected (build_body rq)"
    "sn_fenced_claims s = sn_fenced_claims (build_body rq)"
    "sn_evidence_truncated s = sn_evidence_truncated (build_body rq)"
    "sn_id s = recompute_digest s"
proof -
  have s: "s = (build_body rq)\<lparr>sn_id := recompute_digest (build_body rq)\<rparr>"
    using assms by (simp add: snapshot_build_def Let_def split: if_splits)
  have "recompute_digest (t\<lparr>sn_id := d\<rparr>) = recompute_digest t" for t :: snapshot and d
    by (simp add: recompute_digest_def encode_content_def)
  then show "sn_id s = recompute_digest s" by (simp add: s)
qed (use assms in \<open>auto simp: snapshot_build_def Let_def split: if_splits\<close>)

lemma snapshot_subject:
  assumes "snapshot_build rq = Some s" "t \<in> set (sn_subjects s)"
  obtains i b where "(i, b) \<in> set (fst (collect_buckets rq))" "t = build_subject (rq_policy rq) b"
    "bucket_ok rq (i, b)"
proof -
  obtain e where e: "e \<in> set (fst (collect_buckets rq))" "t = build_subject (rq_policy rq) (snd e)"
    using assms by (auto simp: snapshot_build_fields(1) build_body_fields)
  moreover have "bucket_ok rq e"
    using e(1) buckets_ok_collect[of rq] by (simp add: buckets_ok_def)
  ultimately show ?thesis using that[of "fst e" "snd e"] by simp
qed

text \<open>Every claim of a snapshot is one claim of one retained record, on that subject and aspect.\<close>

lemma snapshot_claim_origin:
  assumes "snapshot_build rq = Some s" "t \<in> set (sn_subjects s)" "a \<in> set (sb_aspects t)"
    and "c \<in> set (as_claims a)"
  shows "\<exists>r\<in>set (rq_records rq). \<exists>cl\<in>set (ob_claims (or_observation r)).
     su_id (cl_subject cl) = su_id (sb_identity t) \<and> cl_aspect cl = as_aspect a \<and>
     (c = make_claim_record rq r cl \<or>
      c = (make_claim_record rq r cl)\<lparr>superseded_by_later_sequence := True\<rparr>)"
proof -
  obtain i b where b: "t = build_subject (rq_policy rq) b" "bucket_ok rq (i, b)"
    using snapshot_subject[OF assms(1,2)] .
  obtain e where e: "e \<in> set (bk_aspects b)" "a = build_aspect (rq_policy rq) e"
    using assms(3) by (auto simp: b(1) build_subject_facts)
  obtain d where d: "d \<in> set (snd e)" "c = d \<or> c = d\<lparr>superseded_by_later_sequence := True\<rparr>"
    using build_aspect_claims(2) assms(4) e(2) by blast
  have "claim_from rq i (fst e) d" "su_id (bk_identity b) = i"
    using b(2) e(1) d(1) by (fastforce simp: bucket_ok_def)+
  then show ?thesis
    using d(2) by (auto simp: claim_from_def b(1) e(2) build_subject_facts)
qed

lemma snapshot_aspect_truth:
  assumes "snapshot_build rq = Some s" "t \<in> set (sn_subjects s)" "a \<in> set (sb_aspects t)"
  shows "as_truth a = te_truth (evaluate_truth (as_aspect a) (as_claims a) (p_truth (rq_policy rq)))"
    "as_agreed_value a =
       te_agreed_value (evaluate_truth (as_aspect a) (as_claims a) (p_truth (rq_policy rq)))"
    "length (as_claims a) \<le> unat (max_claims_per_subject_aspect (p_limits (rq_policy rq)))"
proof -
  obtain i b where b: "t = build_subject (rq_policy rq) b"
    using snapshot_subject[OF assms(1,2)] .
  obtain e where e: "a = build_aspect (rq_policy rq) e"
    using assms(3) by (auto simp: b build_subject_facts)
  show "as_truth a = te_truth (evaluate_truth (as_aspect a) (as_claims a) (p_truth (rq_policy rq)))"
    "as_agreed_value a =
       te_agreed_value (evaluate_truth (as_aspect a) (as_claims a) (p_truth (rq_policy rq)))"
    "length (as_claims a) \<le> unat (max_claims_per_subject_aspect (p_limits (rq_policy rq)))"
    unfolding e by (simp_all add: build_aspect_truth build_aspect_claims(1))
qed

text \<open>The guards of an assertive claim, read off the record it was made from.\<close>

lemma assertive_made:
  assumes "is_assertive c" "c = make_claim_record rq r cl \<or>
      c = (make_claim_record rq r cl)\<lparr>superseded_by_later_sequence := True\<rparr>"
  shows "rc_value c = cl_value cl" "cl_supported cl" "rc_source c = ob_source (or_observation r)"
    "\<not> ob_generation (or_observation r) < high_generation (canonical_order (rq_records rq))"
    "map_of (fence_table (rq_fenced_claims rq)) (content_digest (or_observation r),
       su_id (cl_subject cl), aspect_value (cl_aspect cl)) = None"
    "evaluate_freshness (evidence_reference_time (ob_observed_at (or_observation r)) (or_received_at r))
       (rq_evaluation_time rq) (p_freshness (rq_policy rq)) (or_recovered r) = FV_Fresh"
  using assms by (auto simp: is_assertive_def is_current_def make_claim_record_def Let_def)

lemma high_generation_max:
  "high_generation rs = Max (insert 0 ((\<lambda>r. ob_generation (or_observation r)) ` set rs))"
proof -
  have "foldl (\<lambda>g r. max g (ob_generation (or_observation r))) g rs =
      Max (insert g ((\<lambda>r. ob_generation (or_observation r)) ` set rs))" for g
  proof (induction rs arbitrary: g)
    case (Cons r rs)
    have "Max (insert (max g x) X) = Max (insert g (insert x X))" if "finite X" for x and X :: "64 word set"
      by (cases "X = {}") (simp_all add: that max.assoc)
    with Cons show ?case by simp
  qed simp
  then show ?thesis by (simp add: high_generation_def)
qed

subsection \<open>Binary search finds what is there\<close>

text \<open>Lower bound and comparison, on a vector in strictly increasing key order.\<close>

lemma lower_bound_lookup:
  assumes "sorted_wrt (<) (map f xs)"
  shows "(case find (\<lambda>x. \<not> f x < k) xs of None \<Rightarrow> None
      | Some x \<Rightarrow> if f x \<noteq> (k :: 'k::linorder) then None else Some x) = Some y \<longleftrightarrow>
     y \<in> set xs \<and> f y = k"
  using assms
proof (induction xs)
  case (Cons x xs)
  then show ?case by (cases "f x < k") auto
qed simp

lemma strictly_sorted_sort_key:
  "distinct (map f xs) \<Longrightarrow> sorted_wrt (<) (map f (sort_key f xs))"
proof -
  assume "distinct (map f xs)"
  moreover have "distinct (map f (sort_key f xs)) \<longleftrightarrow> distinct (map f xs)"
    by (rule mset_eq_imp_distinct_iff) simp
  ultimately show ?thesis by (simp add: strict_sorted_iff)
qed

lemma snapshot_subjects_sorted:
  assumes "snapshot_build rq = Some s"
  shows "sorted_wrt (<) (map subject_order (sn_subjects s))"
proof -
  let ?bs = "fst (collect_buckets rq)"
  have ok: "om_sorted ?bs" "\<forall>e\<in>set ?bs. bucket_ok rq e"
    using buckets_ok_collect[of rq] by (simp_all add: buckets_ok_def)
  have "map snd (map subject_order (map (\<lambda>e. build_subject (rq_policy rq) (snd e)) ?bs)) = map fst ?bs"
    using ok(2) by (auto simp: subject_order_def build_subject_facts bucket_ok_def)
  then have "distinct (map snd (map subject_order (map (\<lambda>e. build_subject (rq_policy rq) (snd e)) ?bs)))"
    using om_sorted_distinct[OF ok(1)] by (simp only:)
  then have "distinct (map subject_order (map (\<lambda>e. build_subject (rq_policy rq) (snd e)) ?bs))"
    by (rule distinct_map[THEN iffD1, THEN conjunct1])
  then show ?thesis
    by (simp add: snapshot_build_fields(1)[OF assms] build_body_fields strictly_sorted_sort_key)
qed

lemma find_subject_iff:
  assumes "snapshot_build rq = Some s"
  shows "find_subject s ref = Some t \<longleftrightarrow> t \<in> set (sn_subjects s) \<and> subject_ref (sb_identity t) = ref"
proof -
  have order: "subject_order u \<noteq> ref \<longleftrightarrow> su_kind (sb_identity u) \<noteq> fst ref \<or> su_id (sb_identity u) \<noteq> snd ref"
    for u by (cases ref) (simp add: subject_order_def)
  have same: "subject_order u = subject_ref (sb_identity u)" for u
    by (simp add: subject_order_def subject_ref_def)
  show ?thesis
    using lower_bound_lookup[OF snapshot_subjects_sorted[OF assms], of ref t]
    unfolding find_subject_def order[symmetric] by (simp add: same)
qed

lemma snapshot_sources_sorted:
  assumes "snapshot_build rq = Some s" "distinct (map ss_id (rq_sources rq))"
  shows "sorted_wrt (<) (map ss_id (sn_sources s))" "set (sn_sources s) = set (rq_sources rq)"
  by (simp_all add: snapshot_build_fields(2)[OF assms(1)] build_body_fields strictly_sorted_sort_key assms(2))

lemma find_source_iff:
  assumes "snapshot_build rq = Some s" "distinct (map ss_id (rq_sources rq))"
  shows "find_source s i = Some t \<longleftrightarrow> t \<in> set (rq_sources rq) \<and> ss_id t = i"
  using lower_bound_lookup[OF snapshot_sources_sorted(1)[OF assms], of i t]
    snapshot_sources_sorted(2)[OF assms]
  by (simp add: find_source_def)

subsection \<open>An assertion is backed by evidence\<close>

text \<open>
  The record and the claim that stand behind an assertion: supported, of the latest fabric
  generation, not fenced, and fresh at the evaluation time.
\<close>

definition backs ::
  "build_request \<Rightarrow> entity_id \<Rightarrow> aspect_id \<Rightarrow> fvalue \<Rightarrow> observation_record \<Rightarrow> claim \<Rightarrow> bool" where
  "backs rq i a v r cl \<longleftrightarrow> r \<in> set (rq_records rq) \<and> cl \<in> set (ob_claims (or_observation r)) \<and>
     su_id (cl_subject cl) = i \<and> cl_aspect cl = a \<and> cl_value cl = v \<and> cl_supported cl \<and>
     (\<forall>r'\<in>set (rq_records rq).
        ob_generation (or_observation r') \<le> ob_generation (or_observation r)) \<and>
     (\<forall>f\<in>set (rq_fenced_claims rq).
        fence_key f \<noteq> (content_digest (or_observation r), i, aspect_value a)) \<and>
     (or_recovered r \<longrightarrow> allow_recovered_as_fresh (p_freshness (rq_policy rq))) \<and>
     evidence_age (rq_evaluation_time rq)
       (evidence_reference_time (ob_observed_at (or_observation r)) (or_received_at r))
       \<le> sint (du_nanos (fresh_window (p_freshness (rq_policy rq))))"

lemma assertive_backs:
  assumes "snapshot_build rq = Some s" "t \<in> set (sn_subjects s)" "a \<in> set (sb_aspects t)"
    and "c \<in> set (as_claims a)" "is_assertive c"
  shows "\<exists>r cl. backs rq (su_id (sb_identity t)) (as_aspect a) (rc_value c) r cl \<and>
     rc_source c = ob_source (or_observation r)"
proof -
  obtain r cl where r: "r \<in> set (rq_records rq)" "cl \<in> set (ob_claims (or_observation r))"
      "su_id (cl_subject cl) = su_id (sb_identity t)" "cl_aspect cl = as_aspect a"
    and c: "c = make_claim_record rq r cl \<or>
      c = (make_claim_record rq r cl)\<lparr>superseded_by_later_sequence := True\<rparr>"
    using snapshot_claim_origin[OF assms(1-4)] by blast
  note made = assertive_made[OF assms(5) c]
  have "ob_generation (or_observation r') \<le> ob_generation (or_observation r)"
    if "r' \<in> set (rq_records rq)" for r'
  proof -
    have "ob_generation (or_observation r') \<le> high_generation (canonical_order (rq_records rq))"
      using that by (auto simp: high_generation_max canonical_order_def intro!: Max_ge)
    then show ?thesis using made(4) by simp
  qed
  moreover have "fence_key f \<noteq> (content_digest (or_observation r), su_id (sb_identity t),
      aspect_value (as_aspect a))" if "f \<in> set (rq_fenced_claims rq)" for f
    using made(5) that r(3,4) by (force simp: fence_table_lookup map_of_eq_None_iff)
  moreover have "or_recovered r \<longrightarrow> allow_recovered_as_fresh (p_freshness (rq_policy rq))"
    using made(6) recovered_never_fresh by metis
  moreover have "evidence_age (rq_evaluation_time rq)
       (evidence_reference_time (ob_observed_at (or_observation r)) (or_received_at r))
       \<le> sint (du_nanos (fresh_window (p_freshness (rq_policy rq))))"
    using made(6) by (simp add: evaluate_freshness_spec split: if_splits)
  ultimately have "backs rq (su_id (sb_identity t)) (as_aspect a) (rc_value c) r cl"
    using r made(1,2) by (simp add: backs_def)
  then show ?thesis using made(3) by blast
qed

lemma known_backed:
  assumes "snapshot_build rq = Some s" "t \<in> set (sn_subjects s)" "a \<in> set (sb_aspects t)"
    and "as_truth a = TS_Known"
  obtains v where "as_agreed_value a = Some v"
    and "unat (min_distinct_fresh_sources (coverage_for (p_truth (rq_policy rq)) (aspect_value (as_aspect a))))
      \<le> card {ob_source (or_observation r) | r. \<exists>cl. backs rq (su_id (sb_identity t)) (as_aspect a) v r cl}"
proof -
  let ?q = "coverage_for (p_truth (rq_policy rq)) (aspect_value (as_aspect a))"
  let ?A = "assertive_claims (set (as_claims a))"
  note truth = snapshot_aspect_truth[OF assms(1-3)]
  have known: "te_truth (evaluate_truth (as_aspect a) (as_claims a) (p_truth (rq_policy rq))) = TS_Known"
    using assms(4) truth(1) by simp
  from known_agreed[OF this] obtain v where
    v: "te_agreed_value (evaluate_truth (as_aspect a) (as_claims a) (p_truth (rq_policy rq))) = Some v"
    and all: "\<And>c. c \<in> set (as_claims a) \<Longrightarrow> is_assertive c \<Longrightarrow> rc_value c = v" by blast
  let ?S = "{ob_source (or_observation r) | r. \<exists>cl. backs rq (su_id (sb_identity t)) (as_aspect a) v r cl}"
  have "unat (min_distinct_fresh_sources ?q) \<le> card (rc_source ` ?A)"
    using known unfolding evaluate_truth_refines truth_spec_known coverage_met_def by simp
  also have "\<dots> \<le> card ?S"
  proof (rule card_mono)
    have "?S \<subseteq> (\<lambda>r. ob_source (or_observation r)) ` set (rq_records rq)"
      by (auto simp: backs_def)
    then show "finite ?S" by (rule finite_subset) simp
    show "rc_source ` ?A \<subseteq> ?S"
    proof
      fix x assume "x \<in> rc_source ` ?A"
      then obtain c where c: "c \<in> set (as_claims a)" "is_assertive c" "x = rc_source c"
        by (auto simp: assertive_claims_def)
      from assertive_backs[OF assms(1-3) c(1,2)] all[OF c(1,2)] c(3) show "x \<in> ?S" by blast
    qed
  qed
  finally show ?thesis using that v truth(2) by simp
qed

end
