(* ===== verification/Fab_History.thy ===== *)
theory Fab_History
  imports Fab_Snapshot
begin

text \<open>
  \<^verbatim>\<open>history.hpp\<close> and \<^verbatim>\<open>history.cpp\<close>: the bounded ring of published snapshots. The abstract
  view is the log of everything ever published; the ring holds its newest entries and the
  index arithmetic on 64-bit words finds exactly those.
\<close>

section \<open>The ring\<close>

record history =
  hy_capacity :: "32 word"
  hy_ring :: "snapshot list"
  hy_first :: history_index
  hy_last :: history_index
  hy_total :: "64 word"
  hy_evicted :: "64 word"

definition history_reset :: "32 word \<Rightarrow> history" where
  "history_reset capacity = \<lparr>hy_capacity = (if capacity = 0 then 1 else capacity), hy_ring = [],
     hy_first = 0, hy_last = 0, hy_total = 0, hy_evicted = 0\<rparr>"

fun evict_oldest :: "nat \<Rightarrow> snapshot list \<Rightarrow> 64 word \<Rightarrow> snapshot list \<times> 64 word" where
  "evict_oldest capacity [] evicted = ([], evicted)"
| "evict_oldest capacity (s # ring) evicted =
     (if length (s # ring) > capacity then evict_oldest capacity ring (evicted + 1)
      else (s # ring, evicted))"

definition history_next :: "history \<Rightarrow> history_index" where
  "history_next h = (if hy_last h = 0 then 1 else hy_last h + 1)"

definition history_append :: "snapshot \<Rightarrow> time_point \<Rightarrow> history \<Rightarrow> history" where
  "history_append s published_at h =
     (let index = history_next h;
          (ring, evicted) = evict_oldest (unat (hy_capacity h))
            (hy_ring h @ [set_publication index published_at s]) (hy_evicted h)
      in h\<lparr>hy_ring := ring, hy_last := index, hy_total := hy_total h + 1, hy_evicted := evicted,
           hy_first := index - of_nat (length ring) + 1\<rparr>)"

definition history_latest :: "history \<Rightarrow> snapshot option" where
  "history_latest h = (if hy_ring h = [] then None else Some (last (hy_ring h)))"

definition history_at :: "history \<Rightarrow> history_index \<Rightarrow> snapshot option" where
  "history_at h index =
     (if hy_ring h = [] \<or> index < hy_first h \<or> index > hy_last h then None
      else let offset = index - hy_first h
      in if unat offset \<ge> length (hy_ring h) then None else Some (hy_ring h ! unat offset))"

definition history_find :: "history \<Rightarrow> digest256 \<Rightarrow> snapshot option" where
  "history_find h i = find (\<lambda>s. sn_id s = i) (hy_ring h)"

record history_entry =
  he_index :: history_index
  he_id :: digest256
  he_published_at :: time_point
  he_generation :: generation_id
  he_epoch :: epoch_id
  he_evaluation_time :: time_point
  he_stats :: snapshot_stats

definition describe :: "snapshot \<Rightarrow> history_entry" where
  "describe s = \<lparr>he_index = sn_history_index s, he_id = sn_id s, he_published_at = sn_published_at s,
     he_generation = sn_generation s, he_epoch = sn_epoch s,
     he_evaluation_time = sn_evaluation_time s, he_stats = sn_stats s\<rparr>"

definition history_entries :: "32 word \<Rightarrow> history \<Rightarrow> history_entry list" where
  "history_entries max_entries h = map describe (take (unat max_entries) (rev (hy_ring h)))"

definition history_entries_chronological :: "32 word \<Rightarrow> history \<Rightarrow> history_entry list" where
  "history_entries_chronological max_entries h =
     map describe (drop (length (hy_ring h) - unat max_entries) (hy_ring h))"

section \<open>The log behind the ring\<close>

text \<open>
  \<open>history_shows h log\<close>: the ring holds the newest \<open>capacity\<close> entries of \<open>log\<close>, whose n-th
  entry (from 1) carries index n.
\<close>

definition history_shows :: "history \<Rightarrow> snapshot list \<Rightarrow> bool" where
  "history_shows h log \<longleftrightarrow> hy_capacity h \<noteq> 0 \<and> length log < 2 ^ 64 \<and>
     hy_ring h = drop (length log - unat (hy_capacity h)) log \<and>
     hy_last h = of_nat (length log) \<and> hy_total h = of_nat (length log) \<and>
     hy_evicted h = of_nat (length log - unat (hy_capacity h)) \<and>
     (log \<noteq> [] \<longrightarrow> hy_first h = of_nat (length log - length (hy_ring h) + 1)) \<and>
     (\<forall>i<length log. sn_history_index (log ! i) = of_nat (i + 1))"

lemma evict_oldest_drop:
  "evict_oldest c ring evicted = (drop (length ring - c) ring, evicted + of_nat (length ring - c))"
  by (induction c ring evicted rule: evict_oldest.induct) (auto simp: Suc_diff_le)

lemma history_reset_shows: "history_shows (history_reset c) []"
  by (simp add: history_shows_def history_reset_def)

lemma history_append_shows:
  assumes "history_shows h log" "length log + 1 < 2 ^ 64"
  shows "history_shows (history_append s t h) (log @ [set_publication (history_next h) t s])"
    and "history_next h = of_nat (length log + 1)"
proof -
  let ?c = "unat (hy_capacity h)" and ?s = "set_publication (history_next h) t s"
  have c: "0 < ?c" using assms(1) by (simp add: history_shows_def unat_gt_0)
  have last: "hy_last h = of_nat (length log)" "hy_ring h = drop (length log - ?c) log"
    "hy_evicted h = of_nat (length log - ?c)" "hy_total h = of_nat (length log)"
    using assms(1) by (simp_all add: history_shows_def)
  have zero: "(of_nat (length log) :: 64 word) = 0 \<longleftrightarrow> log = []"
    using of_nat_word_inject[of "length log" 0, where 'a = 64] assms(2) by simp
  show next_index: "history_next h = of_nat (length log + 1)"
    by (simp add: history_next_def last zero)
  have ring: "hy_ring (history_append s t h) = drop (length log + 1 - ?c) (log @ [?s])"
    using c by (cases "?c \<le> length log") (simp_all add: history_append_def evict_oldest_drop last Let_def Suc_diff_le)
  have "length log + 1 - ?c = (length log - ?c) + (length (hy_ring h) + 1 - ?c)"
    using c by (simp add: last)
  then have evicted: "hy_evicted (history_append s t h) = of_nat (length log + 1 - ?c)"
    by (simp add: history_append_def evict_oldest_drop Let_def last(3))
  have "(of_nat (length log + 1 - length (hy_ring (history_append s t h))) :: 64 word) =
      of_nat (length log + 1) - of_nat (length (hy_ring (history_append s t h)))"
    using ring by (intro of_nat_diff) simp
  moreover have "hy_first (history_append s t h) =
      history_next h - of_nat (length (hy_ring (history_append s t h))) + 1"
    by (simp add: history_append_def Let_def split: prod.split)
  ultimately have first: "hy_first (history_append s t h) =
      of_nat (length log + 1 - length (hy_ring (history_append s t h)) + 1)"
    by (simp add: next_index)
  have "sn_history_index ((log @ [?s]) ! i) = of_nat (i + 1)" if "i < length (log @ [?s])" for i
    using that assms(1) next_index
    by (cases "i = length log") (auto simp: nth_append history_shows_def set_publication_def)
  then show "history_shows (history_append s t h) (log @ [?s])"
    unfolding history_shows_def using ring evicted first next_index assms
    by (auto simp: history_append_def history_shows_def Let_def split: prod.split)
qed

lemma history_at_shows:
  assumes "history_shows h log" "n < 2 ^ 64"
  shows "history_at h (of_nat n) =
    (if length log - unat (hy_capacity h) < n \<and> n \<le> length log then Some (log ! (n - 1)) else None)"
proof (cases "log = []")
  case True
  then show ?thesis using assms by (auto simp: history_at_def history_shows_def)
next
  case False
  let ?k = "length log - unat (hy_capacity h)"
  have facts: "hy_ring h = drop ?k log" "hy_last h = of_nat (length log)" "length log < 2 ^ 64"
    "0 < unat (hy_capacity h)" "hy_first h = of_nat (length log - length (hy_ring h) + 1)"
    using assms False by (simp_all add: history_shows_def unat_gt_0)
  have k: "length log - length (hy_ring h) = ?k" "?k < length log"
    using facts(1,4) False by auto
  have first: "hy_first h = of_nat (?k + 1)" using facts(5) by (simp only: k(1))
  have ring: "hy_ring h \<noteq> []" using facts(1) k(2) by simp
  have less: "of_nat n < hy_first h \<longleftrightarrow> n < ?k + 1" "of_nat n > hy_last h \<longleftrightarrow> n > length log"
    using assms(2) facts(3) k(2) by (simp_all only: first facts(2) word_less_nat_alt)
       (subst (1 2) unat_of_nat_small; simp)+
  show ?thesis
  proof (cases "?k < n \<and> n \<le> length log")
    case True
    have "of_nat n - hy_first h = of_nat (n - (?k + 1))"
      using True by (simp only: first) (rule of_nat_diff[symmetric], simp)
    then have offset: "unat (of_nat n - hy_first h) = n - (?k + 1)"
      using assms(2) unat_of_nat_small[of "n - (?k + 1)", where 'a = 64] by simp
    have "drop ?k log ! (n - (?k + 1)) = log ! (n - 1)"
      using True by (subst nth_drop) auto
    moreover have "\<not> unat (of_nat n - hy_first h) \<ge> length (hy_ring h)"
      using True k(2) by (simp only: offset facts(1) length_drop) linarith
    moreover have "\<not> of_nat n < hy_first h" "\<not> of_nat n > hy_last h"
      using True less by simp_all
    ultimately show ?thesis
      using True ring by (simp only: history_at_def Let_def offset facts(1)) simp
  next
    case False
    then show ?thesis using less by (auto simp: history_at_def)
  qed
qed

lemma history_latest_shows:
  assumes "history_shows h log"
  shows "history_latest h = (if log = [] then None else Some (last log))"
proof -
  have "0 < unat (hy_capacity h)" using assms by (simp add: history_shows_def unat_gt_0)
  then have "length log - unat (hy_capacity h) < length log" if "log \<noteq> []" using that by simp
  then show ?thesis
    using assms by (cases "log = []") (auto simp: history_latest_def history_shows_def)
qed

lemma history_bounded: "history_shows h log \<Longrightarrow> length (hy_ring h) \<le> unat (hy_capacity h)"
  by (auto simp: history_shows_def)

text \<open>A whole run: the snapshots published since the ring was reset, with their times.\<close>

definition history_run :: "32 word \<Rightarrow> (snapshot \<times> time_point) list \<Rightarrow> history" where
  "history_run capacity published =
     fold (\<lambda>(s, t). history_append s t) published (history_reset capacity)"

definition history_log :: "(snapshot \<times> time_point) list \<Rightarrow> snapshot list" where
  "history_log published = map (\<lambda>(i, s, t). set_publication (of_nat i) t s) (enumerate 1 published)"

lemma history_log_snoc:
  "history_log (ps @ [(s, t)]) = history_log ps @ [set_publication (of_nat (length ps + 1)) t s]"
  by (simp add: history_log_def enumerate_append_eq add.commute)

lemma history_log_nth: "0 < n \<Longrightarrow> n \<le> length ps \<Longrightarrow>
    history_log ps ! (n - 1) = set_publication (of_nat n) (snd (ps ! (n - 1))) (fst (ps ! (n - 1)))"
  by (simp add: history_log_def nth_enumerate_eq case_prod_beta)

lemma history_log_last:
  assumes "ps \<noteq> []"
  shows "last (history_log ps) = set_publication (of_nat (length ps)) (snd (last ps)) (fst (last ps))"
proof -
  obtain qs s t where "ps = qs @ [(s, t)]" using assms by (metis rev_exhaust surj_pair)
  then show ?thesis by (simp add: history_log_snoc)
qed

lemma history_log_Nil [simp]: "history_log ps = [] \<longleftrightarrow> ps = []" "length (history_log ps) = length ps"
  by (simp_all add: history_log_def) (metis length_0_conv length_enumerate)

lemma history_run_shows:
  "length ps < 2 ^ 64 \<Longrightarrow> history_shows (history_run c ps) (history_log ps)"
proof (induction ps rule: rev_induct)
  case Nil
  then show ?case using history_reset_shows by (simp add: history_run_def history_log_def)
next
  case (snoc p ps)
  obtain s t where p: "p = (s, t)" by fastforce
  have len: "length (history_log ps) = length ps" for ps by (simp add: history_log_def)
  have IH: "history_shows (history_run c ps) (history_log ps)" using snoc by simp
  note step = history_append_shows(1)[OF IH, of s t] history_append_shows(2)[OF IH]
  have "history_run c (ps @ [p]) = history_append s t (history_run c ps)"
    by (simp add: history_run_def p)
  then show ?case using step snoc.prems by (simp add: p history_log_snoc len)
qed

lemma history_run_capacity:
  "hy_capacity (history_run c ps) = (if c = 0 then 1 else c)"
  by (induction ps rule: rev_induct)
     (auto simp: history_run_def history_append_def history_reset_def Let_def split: prod.split)

lemma history_run_at:
  assumes "length ps < 2 ^ 64" "n < 2 ^ 64" "c \<noteq> 0"
  shows "history_at (history_run c ps) (of_nat n) =
      (if length ps - unat c < n \<and> n \<le> length ps
       then Some (set_publication (of_nat n) (snd (ps ! (n - 1))) (fst (ps ! (n - 1)))) else None)"
proof (cases "length ps - unat c < n \<and> n \<le> length ps")
  case True
  then have "0 < n" by simp
  then show ?thesis
    using True history_log_nth[of n ps] history_at_shows[OF history_run_shows[OF assms(1)] assms(2), of c] assms(3)
    by (simp only: history_run_capacity history_log_Nil if_True if_False)
next
  case False
  then show ?thesis
    using history_at_shows[OF history_run_shows[OF assms(1)] assms(2), of c] assms(3)
    by (simp only: history_run_capacity history_log_Nil if_False)
qed

lemma history_run_latest:
  assumes "length ps < 2 ^ 64"
  shows "history_latest (history_run c ps) = (if ps = [] then None
      else Some (set_publication (of_nat (length ps)) (snd (last ps)) (fst (last ps))))"
  using history_latest_shows[OF history_run_shows[OF assms]] history_log_last by simp

end
