(* ===== verification/Fab_Journal.thy ===== *)
theory Fab_Journal
  imports Fab_Snapshot
begin

text \<open>
  \<^verbatim>\<open>persistence.hpp\<close> and \<^verbatim>\<open>persistence.cpp\<close>: the append-only, hash-chained journal. The disk
  is a map from part numbers (0 is the active file, \<open>k\<close> the file with suffix \<open>.k\<close>) to bytes.
  Opening for writing and \<^verbatim>\<open>fwrite\<close> may fail as an explicit schedule of faults says; a failed
  write leaves a prefix of its bytes in the file. \<^verbatim>\<open>std::remove\<close> and \<^verbatim>\<open>std::rename\<close>, whose
  results the source ignores, succeed; reads return what is on the disk.
\<close>

section \<open>Format\<close>

definition journal_header_bytes :: nat where
  "journal_header_bytes = 128"

definition journal_record_header_bytes :: nat where
  "journal_record_header_bytes = 116"

definition journal_magic :: "byte list" where
  "journal_magic = bytes_of_string ''FABOBSJ1''"

definition journal_format_version :: "32 word" where
  "journal_format_version = 1"

definition put_u32 :: "32 word \<Rightarrow> byte list" where
  "put_u32 v = [ucast (drop_bit 24 v AND 0xFF), ucast (drop_bit 16 v AND 0xFF),
     ucast (drop_bit 8 v AND 0xFF), ucast (v AND 0xFF)]"

definition put_u64 :: "64 word \<Rightarrow> byte list" where
  "put_u64 v = put_u32 (ucast (drop_bit 32 v AND 0xFFFFFFFF)) @ put_u32 (ucast (v AND 0xFFFFFFFF))"

definition get_u32 :: "byte list \<Rightarrow> nat \<Rightarrow> 32 word" where
  "get_u32 bs i = push_bit 24 (ucast (bs ! i)) OR push_bit 16 (ucast (bs ! (i + 1))) OR
     push_bit 8 (ucast (bs ! (i + 2))) OR ucast (bs ! (i + 3))"

definition get_u64 :: "byte list \<Rightarrow> nat \<Rightarrow> 64 word" where
  "get_u64 bs i = push_bit 32 (ucast (get_u32 bs i)) OR ucast (get_u32 bs (i + 4))"

type_synonym record_kind = byte

abbreviation kind_observation :: record_kind where "kind_observation \<equiv> 1"
abbreviation kind_restart_marker :: record_kind where "kind_restart_marker \<equiv> 2"
abbreviation kind_snapshot_marker :: record_kind where "kind_snapshot_marker \<equiv> 3"

definition compute_chain :: "digest256 \<Rightarrow> digest256 \<Rightarrow> record_kind \<Rightarrow> 64 word \<Rightarrow> digest256" where
  "compute_chain previous content kind sequence =
     sha256_chunks [previous, content, [kind], put_u64 sequence]"

definition chain_seed :: "fabric_id \<Rightarrow> digest256" where
  "chain_seed fabric = sha256_chunks [bytes_of_string ''fabric-observatory/journal/1'',
     put_u64 (u_hi (id_value fabric)) @ put_u64 (u_lo (id_value fabric))]"

definition encode_observation_record :: "observation_record \<Rightarrow> byte list" where
  "encode_observation_record r =
     enc_tag ''observation-record'' @ enc_u8 1 @ observation_encode (or_observation r) @
     enc_i64 (tp_nanos (or_received_at r)) @ enc_bool (or_recovered r) @
     enc_u64 (or_recovery_epoch r)"

definition decode_observation_record_dec :: "limits \<Rightarrow> observation_record dec" where
  "decode_observation_record_dec l =
     dec_bind (dec_tag ''observation-record'') (\<lambda>_. dec_bind (dec_expect_u8 1) (\<lambda>_.
     dec_bind (observation_decode l) (\<lambda>ob. dec_bind dec_i64 (\<lambda>received_at.
     dec_bind dec_bool (\<lambda>recovered. dec_bind dec_u64 (\<lambda>epoch. dec_bind dec_expect_end (\<lambda>_.
     dec_return \<lparr>or_observation = ob, or_received_at = TimePoint received_at,
       or_recovered = recovered, or_recovery_epoch = epoch\<rparr>)))))))"

definition decode_observation_record :: "byte list \<Rightarrow> limits \<Rightarrow> observation_record result" where
  "decode_observation_record payload l = fst (decode_observation_record_dec l (decoder_of payload))"

record snapshot_marker =
  sm_id :: digest256
  sm_generation :: generation_id
  sm_epoch :: epoch_id
  sm_published_at :: time_point

definition encode_restart_marker :: "restart_epoch \<Rightarrow> 32 word \<Rightarrow> time_point \<Rightarrow> byte list" where
  "encode_restart_marker epoch restart_count wall_clock =
     enc_tag ''restart-marker'' @ enc_u8 1 @ enc_u64 epoch @ enc_u32 restart_count @
     enc_i64 (tp_nanos wall_clock)"

definition encode_snapshot_marker :: "snapshot_marker \<Rightarrow> byte list" where
  "encode_snapshot_marker m =
     enc_tag ''snapshot-marker'' @ enc_u8 1 @ enc_bytes (sm_id m) @ enc_u64 (sm_generation m) @
     enc_u64 (sm_epoch m) @ enc_i64 (tp_nanos (sm_published_at m))"

text \<open>The fields after the tag are all read before any of them is looked at.\<close>

definition decode_restart_marker :: "byte list \<Rightarrow> (restart_epoch \<times> 32 word) result" where
  "decode_restart_marker payload = fst (dec_bind (dec_tag ''restart-marker'') (\<lambda>_.
     dec_bind (dec_try (dec_expect_u8 1)) (\<lambda>revision. dec_bind (dec_try dec_u64) (\<lambda>epoch.
     dec_bind (dec_try dec_u32) (\<lambda>count.
       if isl revision \<or> isl epoch \<or> isl count
       then dec_fail SC_Corrupt ''restart marker payload is malformed''
       else dec_return (projr epoch, projr count))))) (decoder_of payload))"

definition decode_snapshot_marker :: "byte list \<Rightarrow> snapshot_marker result" where
  "decode_snapshot_marker payload = fst (dec_bind (dec_tag ''snapshot-marker'') (\<lambda>_.
     dec_bind (dec_try (dec_expect_u8 1)) (\<lambda>revision. dec_bind (dec_try dec_bytes) (\<lambda>digest.
     dec_bind (dec_try dec_u64) (\<lambda>generation. dec_bind (dec_try dec_u64) (\<lambda>epoch.
     dec_bind (dec_try dec_i64) (\<lambda>published_at.
       if isl revision \<or> isl digest \<or> isl generation \<or> isl epoch \<or> isl published_at
       then dec_fail SC_Corrupt ''snapshot marker payload is malformed''
       else if length (projr digest) \<noteq> 32
       then dec_fail SC_Corrupt ''snapshot marker digest is not 32 bytes''
       else dec_return \<lparr>sm_id = projr digest, sm_generation = projr generation,
         sm_epoch = projr epoch, sm_published_at = TimePoint (projr published_at)\<rparr>))))))
     (decoder_of payload))"

section \<open>The journal object and the disk\<close>

record journal_options =
  jo_fabric :: fabric_id
  jo_max_bytes :: "64 word"
  jo_max_files :: "32 word"
  jo_max_record_bytes :: "64 word"
  jo_max_recovered_observations :: "32 word"
  jo_limits :: limits

record recovery_diagnostic =
  rd_offset :: nat
  rd_code :: string
  rd_detail :: string

record recovery_report =
  rr_opened :: bool
  rr_created :: bool
  rr_format_supported :: bool
  rr_format_version :: "32 word"
  rr_file_bytes :: nat
  rr_records_read :: nat
  rr_records_accepted :: nat
  rr_records_rejected :: nat
  rr_truncated_tail_bytes :: nat
  rr_snapshot_markers :: nat
  rr_parts_recovered :: nat
  rr_restart_markers :: nat
  rr_chain_verified :: bool
  rr_corrupt :: bool
  rr_truncated :: bool
  rr_diagnostics :: "recovery_diagnostic list"

definition empty_report :: recovery_report where
  "empty_report = \<lparr>rr_opened = False, rr_created = False, rr_format_supported = False,
     rr_format_version = 0, rr_file_bytes = 0, rr_records_read = 0, rr_records_accepted = 0,
     rr_records_rejected = 0, rr_truncated_tail_bytes = 0, rr_snapshot_markers = 0,
     rr_parts_recovered = 0, rr_restart_markers = 0, rr_chain_verified = False, rr_corrupt = False,
     rr_truncated = False, rr_diagnostics = []\<rparr>"

type_synonym disk = "nat \<Rightarrow> byte list option"

text \<open>The outcome of an I/O call: success, or failure after so many bytes reached the file.\<close>

datatype io_outcome = IoOk | IoFail nat

record journal =
  jn_options :: journal_options
  jn_disk :: disk
  jn_faults :: "io_outcome list"
  jn_open :: bool
  jn_current_bytes :: "64 word"
  jn_records_written :: "64 word"
  jn_file_sequence :: "64 word"
  jn_rotations :: "32 word"
  jn_chain :: digest256
  jn_chain_initialised :: bool
  jn_last_fabric :: fabric_id
  jn_restart_epoch :: restart_epoch
  jn_restart_count :: "32 word"
  jn_recovery :: recovery_report
  jn_recovered_records :: "observation_record list"
  jn_recovered_snapshots :: "snapshot_marker list"

definition zero_chain :: digest256 where
  "zero_chain = replicate 32 0"

definition new_journal :: "journal_options \<Rightarrow> disk \<Rightarrow> io_outcome list \<Rightarrow> journal" where
  "new_journal opts d faults = \<lparr>jn_options = opts, jn_disk = d, jn_faults = faults, jn_open = False,
     jn_current_bytes = 0, jn_records_written = 0, jn_file_sequence = 0, jn_rotations = 0,
     jn_chain = zero_chain, jn_chain_initialised = False, jn_last_fabric = BasicId nil_u128,
     jn_restart_epoch = 0, jn_restart_count = 0, jn_recovery = empty_report,
     jn_recovered_records = [], jn_recovered_snapshots = []\<rparr>"

definition next_outcome :: "journal \<Rightarrow> io_outcome \<times> journal" where
  "next_outcome j = (case jn_faults j of
     [] \<Rightarrow> (IoOk, j) | oc # rest \<Rightarrow> (oc, j\<lparr>jn_faults := rest\<rparr>))"

definition active_bytes :: "journal \<Rightarrow> byte list" where
  "active_bytes j = (case jn_disk j 0 of None \<Rightarrow> [] | Some bs \<Rightarrow> bs)"

definition append_active :: "byte list \<Rightarrow> journal \<Rightarrow> journal" where
  "append_active bs j = j\<lparr>jn_disk := (jn_disk j)(0 \<mapsto> active_bytes j @ bs)\<rparr>"

definition write_all :: "byte list \<Rightarrow> journal \<Rightarrow> bool \<times> journal" where
  "write_all bs j =
     (if bs = [] then (True, j)
      else case next_outcome j of
        (IoOk, j') \<Rightarrow> (True, append_active bs j')
      | (IoFail n, j') \<Rightarrow> (False, append_active (take n bs) j'))"

text \<open>\<^verbatim>\<open>fopen(path, "wb+")\<close>: creates or truncates the active file.\<close>

definition open_truncate :: "journal \<Rightarrow> bool \<times> journal" where
  "open_truncate j =
     (case next_outcome j of
        (IoOk, j') \<Rightarrow> (True, j'\<lparr>jn_disk := (jn_disk j')(0 \<mapsto> []), jn_open := True\<rparr>)
      | (IoFail n, j') \<Rightarrow> (False, j'\<lparr>jn_open := False\<rparr>))"

section \<open>Writing\<close>

definition header_prefix :: "fabric_id \<Rightarrow> digest256 \<Rightarrow> byte list" where
  "header_prefix fabric chain =
     journal_magic @ put_u32 journal_format_version @ put_u32 (of_nat journal_header_bytes) @
     put_u64 (u_hi (id_value fabric)) @ put_u64 (u_lo (id_value fabric)) @ put_u64 0 @
     chain @ replicate 52 0"

definition header_bytes :: "fabric_id \<Rightarrow> digest256 \<Rightarrow> byte list" where
  "header_bytes fabric chain = header_prefix fabric chain @ put_u32 (crc32c (header_prefix fabric chain))"

definition write_header :: "journal \<Rightarrow> unit result \<times> journal" where
  "write_header j =
     (case write_all (header_bytes (jo_fabric (jn_options j)) (jn_chain j)) j of
        (True, j') \<Rightarrow> (Inr (), j')
      | (False, j') \<Rightarrow> (err SC_IoError ''cannot write the journal header'', j'))"

definition rename_part :: "nat \<Rightarrow> nat \<Rightarrow> disk \<Rightarrow> disk" where
  "rename_part a b d = (case d a of None \<Rightarrow> d | Some bs \<Rightarrow> d(b \<mapsto> bs, a := None))"

text \<open>One pass of the shift: the target is removed, then the part is moved onto it.\<close>

definition shift_part :: "nat \<Rightarrow> disk \<Rightarrow> disk" where
  "shift_part i d = rename_part i (i + 1) (d(i + 1 := None))"

definition shift_parts :: "nat \<Rightarrow> disk \<Rightarrow> disk" where
  "shift_parts max_files d =
     (if max_files > 1
      then rename_part 0 1 ((fold shift_part (rev [1..<max_files - 1]) (d(max_files - 1 := None)))(1 := None))
      else d)"

definition rotate :: "journal \<Rightarrow> unit result \<times> journal" where
  "rotate j =
     (let j = j\<lparr>jn_open := False, jn_rotations := jn_rotations j + 1,
          jn_disk := shift_parts (unat (jo_max_files (jn_options j))) (jn_disk j)\<rparr>
      in case open_truncate j of
           (False, j) \<Rightarrow> (err SC_IoError ''cannot create the rotated journal part'', j)
         | (True, j) \<Rightarrow>
             (case write_header j of
                (Inl e, j) \<Rightarrow> (Inl e, j)
              | (Inr _, j) \<Rightarrow> (Inr (), j\<lparr>jn_current_bytes := of_nat journal_header_bytes,
                  jn_file_sequence := 0\<rparr>)))"

definition record_header ::
  "record_kind \<Rightarrow> byte list \<Rightarrow> digest256 \<Rightarrow> 64 word \<Rightarrow> byte list" where
  "record_header kind payload previous sequence =
     put_u32 (of_nat (length payload)) @ put_u32 (crc32c payload) @ [kind] @ replicate 3 0 @
     put_u64 sequence @ previous @ sha256 payload @
     compute_chain previous (sha256 payload) kind sequence"

text \<open>The part of \<^verbatim>\<open>write_record\<close> after a rotation, if one was due.\<close>

definition append_record :: "record_kind \<Rightarrow> byte list \<Rightarrow> journal \<Rightarrow> unit result \<times> journal" where
  "append_record kind payload j =
     (let previous = jn_chain j; sequence = jn_file_sequence j + 1;
          total_bytes = of_nat (journal_record_header_bytes + length payload) :: 64 word;
          failed = err SC_IoError ''cannot write the journal record''
      in case write_all (record_header kind payload previous sequence) j of
           (False, j) \<Rightarrow> (failed, j)
         | (True, j) \<Rightarrow>
             (case write_all payload j of
                (False, j) \<Rightarrow> (failed, j)
              | (True, j) \<Rightarrow> (Inr (), j\<lparr>
                  jn_chain := compute_chain previous (sha256 payload) kind sequence,
                  jn_chain_initialised := True, jn_file_sequence := sequence,
                  jn_records_written := jn_records_written j + 1,
                  jn_current_bytes := jn_current_bytes j + total_bytes\<rparr>)))"

definition write_record :: "record_kind \<Rightarrow> byte list \<Rightarrow> journal \<Rightarrow> unit result \<times> journal" where
  "write_record kind payload j =
     (if \<not> jn_open j then (err SC_NotOpen ''journal is not open'', j)
      else if length payload > unat (jo_max_record_bytes (jn_options j))
      then (err SC_TooLarge ''record exceeds the configured maximum record size'', j)
      else case checked_add (of_nat journal_record_header_bytes) (of_nat (length payload) :: 64 word) of
        None \<Rightarrow> (err SC_TooLarge ''record size overflows'', j)
      | Some total_bytes \<Rightarrow>
          if jn_current_bytes j > of_nat journal_header_bytes \<and>
             total_bytes > jo_max_bytes (jn_options j) - jn_current_bytes j
          then (case rotate j of
                  (Inl e, j) \<Rightarrow> (Inl e, j)
                | (Inr _, j) \<Rightarrow> append_record kind payload j)
          else append_record kind payload j)"

definition journal_append :: "observation_record \<Rightarrow> journal \<Rightarrow> unit result \<times> journal" where
  "journal_append r j = write_record kind_observation (encode_observation_record r) j"

definition append_restart_marker ::
  "restart_epoch \<Rightarrow> 32 word \<Rightarrow> time_point \<Rightarrow> journal \<Rightarrow> unit result \<times> journal" where
  "append_restart_marker epoch restart_count wall_clock j =
     write_record kind_restart_marker (encode_restart_marker epoch restart_count wall_clock) j"

definition append_snapshot_marker :: "snapshot_marker \<Rightarrow> journal \<Rightarrow> unit result \<times> journal" where
  "append_snapshot_marker m j = write_record kind_snapshot_marker (encode_snapshot_marker m) j"

definition journal_flush :: "journal \<Rightarrow> unit result" where
  "journal_flush j = (if \<not> jn_open j then err SC_NotOpen ''journal is not open'' else Inr ())"

definition journal_close :: "journal \<Rightarrow> journal" where
  "journal_close j = j\<lparr>jn_open := False\<rparr>"

end
