(* ===== verification/Fab_Recovery.thy ===== *)
theory Fab_Recovery
  imports Fab_Journal
begin

text \<open>
  The reading side of \<^verbatim>\<open>persistence.cpp\<close>: recovery of all parts, opening and compaction.
  The position in the file and the reported offset are kept apart, because the source adds
  the record size to the offset in 32-bit arithmetic. Byte counts in the report are natural
  numbers. The source reads each part through a fresh stream; \<open>bs\<close> is the content of a part.
\<close>

section \<open>Recovery\<close>

definition diagnose :: "nat \<Rightarrow> string \<Rightarrow> string \<Rightarrow> recovery_report \<Rightarrow> recovery_report" where
  "diagnose offset code detail r = r\<lparr>rr_diagnostics := rr_diagnostics r @
     [\<lparr>rd_offset = offset, rd_code = code, rd_detail = detail\<rparr>]\<rparr>"

definition corrupted :: "nat \<Rightarrow> string \<Rightarrow> string \<Rightarrow> recovery_report \<Rightarrow> recovery_report" where
  "corrupted offset code detail r = (diagnose offset code detail r)\<lparr>rr_corrupt := True\<rparr>"

definition rejected_record :: "nat \<Rightarrow> string \<Rightarrow> string \<Rightarrow> recovery_report \<Rightarrow> recovery_report" where
  "rejected_record offset code detail r =
     diagnose offset code detail (r\<lparr>rr_records_rejected := rr_records_rejected r + 1\<rparr>)"

text \<open>\<open>len\<close> is what was left of the part when the incomplete record was read.\<close>

definition truncated_tail ::
  "bool \<Rightarrow> byte list \<Rightarrow> nat \<Rightarrow> nat \<Rightarrow> string \<Rightarrow> string \<Rightarrow> recovery_report \<Rightarrow> recovery_report" where
  "truncated_tail newest bs offset len code detail r =
     (let r = diagnose offset code detail (r\<lparr>rr_truncated_tail_bytes := rr_truncated_tail_bytes r +
          (if length bs > offset then length bs - offset else len)\<rparr>)
      in r\<lparr>rr_truncated := True, rr_corrupt := (rr_corrupt r \<or> \<not> newest)\<rparr>)"

abbreviation on_report :: "(recovery_report \<Rightarrow> recovery_report) \<Rightarrow> journal \<Rightarrow> journal" where
  "on_report f j \<equiv> j\<lparr>jn_recovery := f (jn_recovery j)\<rparr>"

text \<open>The switch over the record kind; \<open>True\<close> when recovery has to stop.\<close>

definition recover_record :: "nat \<Rightarrow> record_kind \<Rightarrow> byte list \<Rightarrow> journal \<Rightarrow> bool \<times> journal" where
  "recover_record offset kind payload j =
     (if kind = kind_observation then
        (case decode_observation_record payload (jo_limits (jn_options j)) of
           Inl e \<Rightarrow> (False, on_report (rejected_record offset ''record-invalid'' (st_message e)) j)
         | Inr r \<Rightarrow>
             if length (jn_recovered_records j) \<ge> unat (jo_max_recovered_observations (jn_options j))
             then (True, on_report (\<lambda>p. (diagnose offset ''recovery-bound''
               ''recovered observation bound reached'' p)\<lparr>rr_truncated := True\<rparr>) j)
             else (False, on_report (\<lambda>p. p\<lparr>rr_records_accepted := rr_records_accepted p + 1\<rparr>)
               (j\<lparr>jn_recovered_records := jn_recovered_records j @ [r]\<rparr>)))
      else if kind = kind_restart_marker then
        (case decode_restart_marker payload of
           Inl e \<Rightarrow> (False, on_report (rejected_record offset ''restart-marker-invalid'' (st_message e)) j)
         | Inr (epoch, restarts) \<Rightarrow> (False,
             on_report (\<lambda>p. p\<lparr>rr_restart_markers := rr_restart_markers p + 1\<rparr>)
               (j\<lparr>jn_restart_count := restarts, jn_restart_epoch := epoch\<rparr>)))
      else if kind = kind_snapshot_marker then
        (case decode_snapshot_marker payload of
           Inl e \<Rightarrow> (False, on_report (rejected_record offset ''snapshot-marker-invalid'' (st_message e)) j)
         | Inr m \<Rightarrow> (False,
             on_report (\<lambda>p. p\<lparr>rr_snapshot_markers := rr_snapshot_markers p + 1\<rparr>)
               (j\<lparr>jn_recovered_snapshots := jn_recovered_snapshots j @ [m]\<rparr>)))
      else (False, on_report (rejected_record offset ''unknown-record-kind''
        ''record kind is not known to this build'') j))"

definition slice :: "nat \<Rightarrow> nat \<Rightarrow> byte list \<Rightarrow> byte list" where
  "slice a n bs = take n (drop a bs)"

text \<open>
  One pass of the record loop: \<open>None\<close> at the clean end of the part, otherwise whether to stop,
  the running chain, the bytes consumed, the offset step and the journal.
\<close>

record scan_step =
  st_stop :: bool
  st_chain :: digest256
  st_consumed :: nat
  st_advance :: nat
  st_journal :: journal

definition halt :: "digest256 \<Rightarrow> (recovery_report \<Rightarrow> recovery_report) \<Rightarrow> journal \<Rightarrow> scan_step" where
  "halt running f j = \<lparr>st_stop = True, st_chain = running, st_consumed = 0, st_advance = 0,
     st_journal = on_report f j\<rparr>"

definition scan_record ::
  "bool \<Rightarrow> byte list \<Rightarrow> nat \<Rightarrow> nat \<Rightarrow> digest256 \<Rightarrow> journal \<Rightarrow> scan_step option" where
  "scan_record newest bs pos offset running j =
     (let header = slice pos journal_record_header_bytes bs;
          payload_len = get_u32 header 0; payload_crc = get_u32 header 4; kind = header ! 8;
          sequence = get_u64 header 12; previous = slice 20 32 header;
          content = slice 52 32 header; stored_chain = slice 84 32 header;
          payload = slice (pos + journal_record_header_bytes) (unat payload_len) bs
      in if header = [] then None
      else if length header \<noteq> journal_record_header_bytes
      then Some (halt running (truncated_tail newest bs offset (length header)
        ''record-header-truncated'' ''journal ends inside a record header'') j)
      else if payload_len = 0 \<or> ucast payload_len > jo_max_record_bytes (jn_options j)
      then Some (halt running (corrupted offset ''record-length''
        ''record payload length is outside the configured bounds'') j)
      else if previous \<noteq> running
      then Some (halt running (corrupted offset ''chain-link''
        ''record does not continue the journal hash chain'') j)
      else if length payload \<noteq> unat payload_len
      then Some (halt running (truncated_tail newest bs offset (length payload)
        ''record-payload-truncated'' ''journal ends inside a record payload'') j)
      else let j = on_report (\<lambda>p. p\<lparr>rr_records_read := rr_records_read p + 1\<rparr>) j
      in if crc32c payload \<noteq> payload_crc
      then Some (halt running (corrupted offset ''record-crc''
        ''record payload checksum does not match'') j)
      else if sha256 payload \<noteq> content
      then Some (halt running (corrupted offset ''record-content-digest''
        ''record payload digest does not match'') j)
      else if compute_chain previous content kind sequence \<noteq> stored_chain
      then Some (halt running (corrupted offset ''record-chain''
        ''record chain value is not self consistent'') j)
      else let j = j\<lparr>jn_chain := stored_chain, jn_chain_initialised := True\<rparr>;
               (stop, j) = recover_record offset kind payload j
      in Some \<lparr>st_stop = stop, st_chain = stored_chain,
           st_consumed = journal_record_header_bytes + unat payload_len,
           st_advance = unat (of_nat journal_record_header_bytes + payload_len),
           st_journal = on_report (\<lambda>p. p\<lparr>rr_records_accepted := length (jn_recovered_records j)\<rparr>) j\<rparr>)"

lemma scan_record_consumes:
  "scan_record newest bs pos offset running j = Some s \<Longrightarrow>
     pos < length bs \<and> (\<not> st_stop s \<longrightarrow> journal_record_header_bytes \<le> st_consumed s)"
  by (auto simp: scan_record_def Let_def slice_def halt_def split: if_splits prod.splits)

function scan_records ::
  "bool \<Rightarrow> byte list \<Rightarrow> nat \<Rightarrow> nat \<Rightarrow> digest256 \<Rightarrow> journal \<Rightarrow> bool \<times> digest256 \<times> journal" where
  "scan_records newest bs pos offset running j =
     (case scan_record newest bs pos offset running j of
        None \<Rightarrow> (False, running, j)
      | Some s \<Rightarrow>
          if st_stop s then (True, st_chain s, st_journal s)
          else scan_records newest bs (pos + st_consumed s) (offset + st_advance s) (st_chain s)
                 (st_journal s))"
  by pat_completeness auto
termination
proof (relation "measure (\<lambda>(newest, bs, pos, offset, running, j). length bs - pos)", goal_cases)
  case (2 newest bs pos offset running j s)
  then show ?case
    by (auto dest!: scan_record_consumes simp: journal_record_header_bytes_def)
qed simp

declare scan_records.simps [simp del]

text \<open>The loop over the parts, oldest first; \<open>chain\<close> is the running chain once a part was opened.\<close>

fun recover_parts ::
  "nat list \<Rightarrow> digest256 option \<Rightarrow> journal \<Rightarrow> unit result \<times> journal" where
  "recover_parts [] chain j = (Inr (), j)"
| "recover_parts (p # ps) chain j =
     (case jn_disk j p of
        None \<Rightarrow> (Inr (), on_report (corrupted 0 ''part-unreadable''
          ''journal part could not be opened for reading'') j)
      | Some bs \<Rightarrow>
     let j = on_report (\<lambda>r. r\<lparr>rr_parts_recovered := rr_parts_recovered r + 1\<rparr>) j;
         version = get_u32 bs 8; declared_header = get_u32 bs 12; stored_crc = get_u32 bs 124;
         fabric = BasicId (Uint128 (get_u64 bs 16) (get_u64 bs 24)); seed = slice 40 32 bs
     in if length bs < journal_header_bytes
     then (Inr (), on_report (corrupted 0 ''header-truncated''
       ''journal part is shorter than its header'') j)
     else if slice 0 8 bs \<noteq> journal_magic
     then (Inr (), on_report (corrupted 0 ''bad-magic'' ''journal header magic does not match'') j)
     else let j = on_report (\<lambda>r. r\<lparr>rr_format_version := version\<rparr>) j
     in if version \<noteq> journal_format_version
     then (err SC_VersionMismatch ''journal format version is not supported by this build'',
       on_report (\<lambda>r. diagnose 0 ''unsupported-format-version''
         ''journal format version is not supported by this build''
         (r\<lparr>rr_format_supported := False\<rparr>)) j)
     else let j = on_report (\<lambda>r. r\<lparr>rr_format_supported := True\<rparr>) j
     in if declared_header \<noteq> of_nat journal_header_bytes
     then (Inr (), on_report (corrupted 0 ''bad-header-size''
       ''journal header size is not the expected size'') j)
     else if stored_crc \<noteq> crc32c (slice 0 (journal_header_bytes - 4) bs)
     then (Inr (), on_report (corrupted 0 ''header-crc'' ''journal header checksum does not match'') j)
     else let j = j\<lparr>jn_last_fabric := fabric\<rparr>
     in if \<not> id_is_nil (jo_fabric (jn_options j)) \<and> fabric \<noteq> jo_fabric (jn_options j)
     then (err SC_FabricMismatch ''journal was written for a different fabric identity'',
       on_report (diagnose 0 ''fabric-mismatch''
         ''journal was written for a different fabric identity'') j)
     else if chain \<noteq> None \<and> chain \<noteq> Some seed
     then (Inr (), on_report (corrupted 0 ''part-chain-mismatch''
       ''journal part chain seed does not continue the previous part'') j)
     else let (stop, running, j) =
                scan_records (ps = []) bs journal_header_bytes journal_header_bytes seed j;
              j = on_report (\<lambda>r. r\<lparr>rr_file_bytes := rr_file_bytes r + length bs\<rparr>) j
     in if stop then (Inr (), j) else recover_parts ps (Some running) j)"

definition part_list :: "journal \<Rightarrow> nat list" where
  "part_list j = filter (\<lambda>p. jn_disk j p \<noteq> None)
     (rev [1..<unat (jo_max_files (jn_options j)) + 1] @ [0])"

definition recover :: "journal \<Rightarrow> unit result \<times> journal" where
  "recover j =
     (let j = j\<lparr>jn_recovery := empty_report\<rparr>
      in if part_list j = [] then (Inr (), j\<lparr>jn_chain_initialised := False\<rparr>)
      else case recover_parts (part_list j) None j of
        (Inl e, j) \<Rightarrow> (Inl e, j)
      | (Inr _, j) \<Rightarrow> (Inr (), on_report (\<lambda>r. r\<lparr>rr_chain_verified := (\<not> rr_corrupt r)\<rparr>) j))"

section \<open>Opening and compaction\<close>

text \<open>\<^verbatim>\<open>fopen(path, "ab+")\<close>: the file exists; only the open itself may fail.\<close>

definition open_append :: "journal \<Rightarrow> bool \<times> journal" where
  "open_append j =
     (case next_outcome j of
        (IoOk, j') \<Rightarrow> (True, j'\<lparr>jn_open := True\<rparr>)
      | (IoFail n, j') \<Rightarrow> (False, j'\<lparr>jn_open := False\<rparr>))"

definition open_file :: "bool \<Rightarrow> journal \<Rightarrow> unit result \<times> journal" where
  "open_file create j =
     (if create
      then let j = j\<lparr>jn_open := False, jn_chain := chain_seed (jo_fabric (jn_options j)),
                 jn_chain_initialised := True\<rparr>
           in (case open_truncate j of
                 (False, j) \<Rightarrow> (err SC_IoError ''cannot create the journal file'', j)
               | (True, j) \<Rightarrow> (case write_header j of
                   (Inl e, j) \<Rightarrow> (Inl e, j)
                 | (Inr _, j) \<Rightarrow> (Inr (), j\<lparr>jn_current_bytes := of_nat journal_header_bytes,
                     jn_file_sequence := 0\<rparr>)))
      else (case open_append (j\<lparr>jn_open := False\<rparr>) of
              (False, j) \<Rightarrow> (err SC_IoError ''cannot open the journal file for append'', j)
            | (True, j) \<Rightarrow>
                let j = j\<lparr>jn_current_bytes := of_nat (length (active_bytes j))\<rparr>
                in if jn_current_bytes j < of_nat journal_header_bytes
                   then (err SC_Corrupt ''journal file is shorter than its header'', j)
                   else (Inr (), j)))"

text \<open>\<open>d\<close> is the disk found at \<open>path\<close>; the returned journal carries the disk left behind.\<close>

definition journal_open ::
  "string \<Rightarrow> journal_options \<Rightarrow> disk \<Rightarrow> io_outcome list \<Rightarrow> unit result \<times> journal" where
  "journal_open path opts d faults =
     (let j = new_journal opts d faults
      in if path = [] then (err SC_InvalidArgument ''journal path must not be empty'', j)
      else if jo_max_bytes opts < of_nat (journal_header_bytes + journal_record_header_bytes)
      then (err SC_InvalidArgument ''journal max_bytes is too small for a single record'', j)
      else if jo_max_files opts = 0
      then (err SC_InvalidArgument ''journal must retain at least one part'', j)
      else if jo_max_record_bytes opts > jo_max_bytes opts
      then (err SC_InvalidArgument ''max_record_bytes must not exceed max_bytes'', j)
      else case recover j of
        (Inl e, j) \<Rightarrow> (Inl e, j)
      | (Inr _, j) \<Rightarrow>
          let exists = (jn_disk j 0 \<noteq> None)
          in (case open_file (\<not> exists) j of
                (Inl e, j) \<Rightarrow> (Inl e, j)
              | (Inr _, j) \<Rightarrow> (Inr (),
                  on_report (\<lambda>r. r\<lparr>rr_opened := True, rr_created := (\<not> exists)\<rparr>) j)))"

text \<open>
  Compaction writes a fresh file at another path: its bytes and the remaining fault schedule
  are the state of the loop.
\<close>

type_synonym target = "byte list \<times> io_outcome list"

definition write_target :: "byte list \<Rightarrow> target \<Rightarrow> bool \<times> target" where
  "write_target bs t =
     (if bs = [] then (True, t)
      else case snd t of
        [] \<Rightarrow> (True, (fst t @ bs, []))
      | IoOk # rest \<Rightarrow> (True, (fst t @ bs, rest))
      | IoFail n # rest \<Rightarrow> (False, (fst t @ take n bs, rest)))"

fun compact_records ::
  "64 word \<Rightarrow> digest256 \<Rightarrow> 64 word \<Rightarrow> nat \<Rightarrow> observation_record list \<Rightarrow> target \<Rightarrow> nat result \<times> target" where
  "compact_records max_record_bytes chain sequence written [] t = (Inr written, t)"
| "compact_records max_record_bytes chain sequence written (r # rs) t =
     (let payload = encode_observation_record r;
          failed = err SC_IoError ''cannot write the compaction target''
      in if length payload > unat max_record_bytes
      then (err SC_TooLarge ''a recovered record exceeds the configured maximum record size'', t)
      else case write_target (record_header kind_observation payload chain (sequence + 1)) t of
        (False, t) \<Rightarrow> (failed, t)
      | (True, t) \<Rightarrow> (case write_target payload t of
          (False, t) \<Rightarrow> (failed, t)
        | (True, t) \<Rightarrow> compact_records max_record_bytes
            (compute_chain chain (sha256 payload) kind_observation (sequence + 1)) (sequence + 1)
            (written + journal_record_header_bytes + length payload) rs t))"

definition compact :: "journal \<Rightarrow> string \<Rightarrow> io_outcome list \<Rightarrow> nat result \<times> target" where
  "compact j target_path faults =
     (let seed = chain_seed (jo_fabric (jn_options j))
      in if target_path = []
      then (err SC_InvalidArgument ''compaction target must not be empty'', ([], faults))
      else case faults of
        IoFail n # rest \<Rightarrow> (err SC_IoError ''cannot create the compaction target'', ([], rest))
      | _ \<Rightarrow> (case write_target (header_bytes (jo_fabric (jn_options j)) seed) ([], tl faults) of
          (False, t) \<Rightarrow> (err SC_IoError ''cannot write the compaction target header'', t)
        | (True, t) \<Rightarrow> compact_records (jo_max_record_bytes (jn_options j)) seed 0
            journal_header_bytes (jn_recovered_records j) t))"

end
