(* ===== verification/Fab_Observatory.thy ===== *)
theory Fab_Observatory
  imports Fab_History Fab_Recovery
begin

text \<open>
  \<^verbatim>\<open>observatory.hpp\<close> and \<^verbatim>\<open>observatory.cpp\<close>: the runtime that owns the evidence, the
  source bookkeeping, the refusals, the journal, the history and the published snapshot. Every
  operation is a function from the state to its result and the next state. The injected clock is
  a function from the number of the reading to the time, so any clock is covered, and the number
  of readings is part of the state. Locks are not part of this state: each operation runs under
  the exclusive state lock from its first access to its last. The journal object is the one of
  \<^verbatim>\<open>Fab_Journal\<close>, including the disk it writes.
\<close>

section \<open>State\<close>

record source_state =
  so_descriptor :: source_descriptor
  so_incarnation :: source_incarnation
  so_last_sequence :: source_sequence
  so_last_revision :: claim_revision
  so_first_receive :: time_point
  so_last_receive :: time_point
  so_last_observation :: time_point
  so_last_generation :: generation_id
  so_last_epoch :: epoch_id
  so_accepted :: "64 word"
  so_fenced :: "64 word"
  so_duplicates :: "64 word"
  so_recovery_epoch :: restart_epoch
  so_recovered :: bool

definition fresh_source :: "source_descriptor \<Rightarrow> source_state" where
  "fresh_source d = \<lparr>so_descriptor = d,
     so_incarnation = \<lparr>si_id = BasicId nil_u128, si_boot_time = time_zero, si_boot_counter = 0\<rparr>,
     so_last_sequence = 0, so_last_revision = 0, so_first_receive = time_zero,
     so_last_receive = time_zero, so_last_observation = time_zero, so_last_generation = 0,
     so_last_epoch = 0, so_accepted = 0, so_fenced = 0, so_duplicates = 0, so_recovery_epoch = 0,
     so_recovered = False\<rparr>"

datatype ingest_disposition = ID_Accepted | ID_Duplicate | ID_Fenced | ID_Rejected

fun disposition_text :: "ingest_disposition \<Rightarrow> string" where
  "disposition_text ID_Accepted = ''accepted''"
| "disposition_text ID_Duplicate = ''duplicate''"
| "disposition_text ID_Fenced = ''fenced''"
| "disposition_text ID_Rejected = ''rejected''"

datatype ingest_options = PublishSnapshot | DeferSnapshot

record ingest_outcome =
  ig_disposition :: ingest_disposition
  ig_code :: status_code
  ig_explanation :: string
  ig_observation_id :: digest256
  ig_snapshot :: digest256
  ig_claims_accepted :: "32 word"
  ig_claims_fenced :: "32 word"

definition zero_digest :: digest256 where
  "zero_digest = replicate 32 0"

definition new_outcome :: "digest256 \<Rightarrow> ingest_outcome" where
  "new_outcome i = \<lparr>ig_disposition = ID_Rejected, ig_code = SC_Ok, ig_explanation = [],
     ig_observation_id = i, ig_snapshot = zero_digest, ig_claims_accepted = 0, ig_claims_fenced = 0\<rparr>"

record observatory_config =
  oc_fabric :: fabric_id
  oc_policy :: policy
  oc_journal_path :: string
  oc_journal :: journal_options
  oc_recover_on_open :: bool

record observatory =
  ov_config :: observatory_config
  ov_clock :: "nat \<Rightarrow> time_point"
  ov_reads :: nat
  ov_sources :: "(source_id \<times> source_state) list"
  ov_incarnations :: "(source_id \<times> incarnation_id list) list"
  ov_revisions :: "((source_id \<times> entity_id \<times> string) \<times> claim_revision) list"
  ov_records :: "observation_record list"
  ov_index :: "(digest256 \<times> nat) list"
  ov_rejected :: "rejected_observation list"
  ov_fenced_claims :: "fenced_claim list"
  ov_history :: history
  ov_published :: "snapshot option"
  ov_dirty :: bool
  ov_truncated :: bool
  ov_journal_failed :: bool
  ov_journal_failure :: string
  ov_journal :: "journal option"
  ov_restart_epoch :: restart_epoch
  ov_restart_count :: "32 word"
  ov_evicted :: "64 word"
  ov_snapshots_published :: "64 word"
  ov_publications_skipped :: "64 word"
  ov_accepted :: "64 word"
  ov_duplicate :: "64 word"
  ov_fenced :: "64 word"
  ov_rejected_count :: "64 word"
  ov_claims_fenced :: "64 word"
  ov_recovery :: recovery_report
  ov_shutdown :: bool

definition new_observatory :: "observatory_config \<Rightarrow> (nat \<Rightarrow> time_point) \<Rightarrow> observatory" where
  "new_observatory cfg clock = \<lparr>ov_config = cfg, ov_clock = clock, ov_reads = 0, ov_sources = [],
     ov_incarnations = [], ov_revisions = [], ov_records = [], ov_index = [], ov_rejected = [],
     ov_fenced_claims = [],
     ov_history = history_reset (max_history_snapshots (p_limits (oc_policy cfg))),
     ov_published = None, ov_dirty = False, ov_truncated = False, ov_journal_failed = False,
     ov_journal_failure = [], ov_journal = None, ov_restart_epoch = 1, ov_restart_count = 0,
     ov_evicted = 0, ov_snapshots_published = 0, ov_publications_skipped = 0, ov_accepted = 0,
     ov_duplicate = 0, ov_fenced = 0, ov_rejected_count = 0, ov_claims_fenced = 0,
     ov_recovery = empty_report, ov_shutdown = False\<rparr>"

abbreviation ov_policy :: "observatory \<Rightarrow> policy" where
  "ov_policy ov \<equiv> oc_policy (ov_config ov)"

abbreviation ov_limits :: "observatory \<Rightarrow> limits" where
  "ov_limits ov \<equiv> p_limits (ov_policy ov)"

definition clock_now :: "observatory \<Rightarrow> time_point \<times> observatory" where
  "clock_now ov = (ov_clock ov (ov_reads ov), ov\<lparr>ov_reads := ov_reads ov + 1\<rparr>)"

definition bounded_text :: "string \<Rightarrow> string" where
  "bounded_text t = take 512 t"

definition push_bounded :: "'a list \<Rightarrow> 'a \<Rightarrow> nat \<Rightarrow> 'a list" where
  "push_bounded target v bound = drop_excess bound (target @ [v])"

text \<open>A write to the journal: a failure turns journalling off and is remembered.\<close>

definition journal_write ::
  "(journal \<Rightarrow> unit result \<times> journal) \<Rightarrow> observatory \<Rightarrow> observatory" where
  "journal_write write ov =
     (case ov_journal ov of
        None \<Rightarrow> ov
      | Some j \<Rightarrow>
          (case write j of
             (Inl e, j) \<Rightarrow> ov\<lparr>ov_journal := Some j, ov_journal_failed := True,
                 ov_journal_failure := st_message e\<rparr>
           | (Inr _, j) \<Rightarrow> ov\<lparr>ov_journal := Some j\<rparr>))"

definition journal_write_unless_failed ::
  "(journal \<Rightarrow> unit result \<times> journal) \<Rightarrow> observatory \<Rightarrow> observatory" where
  "journal_write_unless_failed write ov = (if ov_journal_failed ov then ov else journal_write write ov)"

section \<open>Refusals\<close>

definition record_rejection ::
  "observation \<Rightarrow> time_point \<Rightarrow> status_code \<Rightarrow> string \<Rightarrow> observatory \<Rightarrow> observatory" where
  "record_rejection ob received_at code explanation ov =
     (let rejection = \<lparr>rj_observation_id = content_digest ob, rj_source = ob_source ob,
            rj_incarnation = ob_incarnation ob, rj_sequence = ob_sequence ob,
            rj_generation = ob_generation ob, rj_epoch = ob_epoch ob, rj_received_at = received_at,
            rj_fence = code, rj_explanation = bounded_text explanation\<rparr>
      in if \<not> retain_rejections (p_ingest (ov_policy ov)) then ov
      else if map_of (ov_index ov) (rj_observation_id rejection) \<noteq> None then ov
      else if list_ex (\<lambda>e. rj_observation_id e = rj_observation_id rejection) (ov_rejected ov) then ov
      else ov\<lparr>ov_rejected := push_bounded (ov_rejected ov) rejection
        (unat (max_rejections_retained (ov_limits ov)))\<rparr>)"

definition record_fenced_claim ::
  "observation \<Rightarrow> time_point \<Rightarrow> claim \<Rightarrow> status_code \<Rightarrow> string \<Rightarrow> observatory \<Rightarrow> observatory" where
  "record_fenced_claim ob received_at c code explanation ov =
     (let fenced = \<lparr>fc_observation_id = content_digest ob, fc_subject = cl_subject c,
            fc_aspect = cl_aspect c, fc_source = ob_source ob, fc_incarnation = ob_incarnation ob,
            fc_sequence = ob_sequence ob, fc_received_at = received_at, fc_fence = code,
            fc_explanation = bounded_text explanation\<rparr>;
          ov = ov\<lparr>ov_claims_fenced := ov_claims_fenced ov + 1\<rparr>
      in if list_ex (\<lambda>e. fc_observation_id e = fc_observation_id fenced \<and>
             su_id (fc_subject e) = su_id (fc_subject fenced) \<and> fc_aspect e = fc_aspect fenced)
           (ov_fenced_claims ov)
      then ov
      else ov\<lparr>ov_fenced_claims := push_bounded (ov_fenced_claims ov) fenced
        (unat (max_rejections_retained (ov_limits ov)))\<rparr>)"

section \<open>The evidence store\<close>

definition build_index :: "observation_record list \<Rightarrow> (digest256 \<times> nat) list" where
  "build_index rs = fold (\<lambda>(i, r). om_emplace (content_digest (or_observation r)) i)
     (enumerate 0 rs) []"

definition eviction_key :: "observation_record \<Rightarrow> time_point \<times> source_id \<times> source_sequence \<times> digest256" where
  "eviction_key r = (or_received_at r, ob_source (or_observation r), ob_sequence (or_observation r),
     content_digest (or_observation r))"

definition eviction_count :: "nat \<Rightarrow> nat \<Rightarrow> nat" where
  "eviction_count stored bound =
     (let dropped = stored - bound; batch = bound div 16
      in if dropped < batch \<and> stored > dropped then min stored batch else dropped)"

definition evict_evidence :: "observatory \<Rightarrow> observatory" where
  "evict_evidence ov =
     (let rs = ov_records ov; bound = unat (max_evidence_records (ov_limits ov))
      in if length rs \<le> bound then ov
      else let order = sort_key (\<lambda>i. eviction_key (rs ! i)) [0..<length rs];
               dropped = eviction_count (length rs) bound;
               kept = map snd (filter (\<lambda>(i, r). i \<notin> set (take dropped order)) (enumerate 0 rs))
      in ov\<lparr>ov_records := kept, ov_index := build_index kept,
            ov_evicted := ov_evicted ov + of_nat dropped, ov_truncated := True\<rparr>)"

definition high_water_generation :: "observatory \<Rightarrow> 64 word" where
  "high_water_generation ov = foldl (\<lambda>g r. max g (ob_generation (or_observation r))) 0 (ov_records ov)"

section \<open>Publishing\<close>

definition source_summary_of :: "observatory \<Rightarrow> time_point \<Rightarrow> source_state \<Rightarrow> source_summary" where
  "source_summary_of ov evaluation_time st = \<lparr>ss_id = sd_id (so_descriptor st),
     ss_name = sd_name (so_descriptor st), ss_authority_name = sd_authority_name (so_descriptor st),
     ss_max_authority = sd_max_authority (so_descriptor st), ss_incarnation = so_incarnation st,
     ss_last_sequence = so_last_sequence st, ss_first_receive = so_first_receive st,
     ss_last_receive = so_last_receive st, ss_last_observation = so_last_observation st,
     ss_last_generation = so_last_generation st, ss_last_epoch = so_last_epoch st,
     ss_accepted = so_accepted st,
     ss_retained_records = of_nat (length (filter (\<lambda>r. ob_source (or_observation r) =
       sd_id (so_descriptor st)) (ov_records ov))),
     ss_freshness = evaluate_freshness
       (evidence_reference_time (so_last_observation st) (so_last_receive st)) evaluation_time
       (p_freshness (ov_policy ov)) (so_recovered st),
     ss_recovered = so_recovered st\<rparr>"

definition source_summaries :: "observatory \<Rightarrow> time_point \<Rightarrow> source_summary list" where
  "source_summaries ov evaluation_time = map (source_summary_of ov evaluation_time \<circ> snd) (ov_sources ov)"

definition build_request_of :: "observatory \<Rightarrow> time_point \<Rightarrow> build_request" where
  "build_request_of ov evaluation_time = \<lparr>rq_fabric = oc_fabric (ov_config ov),
     rq_policy = ov_policy ov, rq_evaluation_time = evaluation_time,
     rq_restart_epoch = ov_restart_epoch ov, rq_restart_count = ov_restart_count ov,
     rq_records = ov_records ov, rq_rejected = ov_rejected ov,
     rq_fenced_claims = ov_fenced_claims ov, rq_sources = source_summaries ov evaluation_time,
     rq_evidence_truncated = ov_truncated ov\<rparr>"

text \<open>
  What \<^verbatim>\<open>Snapshot::build\<close> returns past its contract on the fabric identity, which
  \<^verbatim>\<open>Observatory::open\<close> has established.
\<close>

definition built_snapshot :: "build_request \<Rightarrow> snapshot" where
  "built_snapshot rq = (let s = build_body rq in s\<lparr>sn_id := recompute_digest s\<rparr>)"

definition publish :: "time_point \<Rightarrow> observatory \<Rightarrow> snapshot \<times> observatory" where
  "publish evaluation_time ov =
     (let built = built_snapshot (build_request_of ov evaluation_time);
          appended = (let (now, ov) = clock_now ov;
              published = set_publication (history_next (ov_history ov)) now built;
              ov = ov\<lparr>ov_history := history_append built now (ov_history ov)\<rparr>;
              ov = journal_write_unless_failed (append_snapshot_marker
                \<lparr>sm_id = sn_id built, sm_generation = sn_generation built, sm_epoch = sn_epoch built,
                  sm_published_at = now\<rparr>) ov
            in (published, ov\<lparr>ov_published := Some published, ov_dirty := False,
                 ov_snapshots_published := ov_snapshots_published ov + 1\<rparr>))
      in (case ov_published ov of
            None \<Rightarrow> appended
          | Some p \<Rightarrow>
              if sn_id p = sn_id built
              then (p, ov\<lparr>ov_publications_skipped := ov_publications_skipped ov + 1, ov_dirty := False\<rparr>)
              else appended))"

section \<open>Sources\<close>

definition is_authority_char :: "char \<Rightarrow> bool" where
  "is_authority_char ch \<longleftrightarrow> CHR ''a'' \<le> ch \<and> ch \<le> CHR ''z'' \<or> CHR ''A'' \<le> ch \<and> ch \<le> CHR ''Z'' \<or>
     CHR ''0'' \<le> ch \<and> ch \<le> CHR ''9'' \<or> ch \<in> {CHR ''.'', CHR ''_'', CHR ''-'', CHR ''@'', CHR '':''}"

definition is_valid_authority_name :: "string \<Rightarrow> bool" where
  "is_valid_authority_name t \<longleftrightarrow> t \<noteq> [] \<and> length t \<le> 64 \<and> list_all is_authority_char t"

definition register_source :: "source_descriptor \<Rightarrow> observatory \<Rightarrow> unit result \<times> observatory" where
  "register_source d ov =
     (let aspects = sort (sd_aspects d); declared = d\<lparr>sd_aspects := aspects\<rparr>
      in if id_is_nil (sd_id d)
      then (err SC_InvalidArgument ''a source declaration requires an identity'', ov)
      else if length (sd_name d) > 128
      then (err SC_TooLarge ''source name exceeds the configured length'', ov)
      else if sd_authority_name d \<noteq> [] \<and> \<not> is_valid_authority_name (sd_authority_name d)
      then (err SC_InvalidArgument ''source authority name contains unsupported characters'', ov)
      else if length (sd_aspects d) > unat (max_aspects_per_subject (ov_limits ov))
      then (err SC_TooLarge ''source declares more aspects than the configured maximum'', ov)
      else if \<not> distinct_adj aspects
      then (err SC_InvalidArgument ''source declares the same aspect more than once'', ov)
      else case map_of (ov_sources ov) (sd_id d) of
        None \<Rightarrow>
          if length (ov_sources ov) \<ge> unat (max_sources (ov_limits ov))
          then (err SC_ResourceExhausted
            ''the configured source bound has been reached; no new sources are accepted'', ov)
          else (Inr (), ov\<lparr>ov_sources := om_emplace (sd_id d) (fresh_source declared) (ov_sources ov)\<rparr>)
      | Some st \<Rightarrow>
          (Inr (), ov\<lparr>ov_sources := om_put (sd_id d) (st\<lparr>so_descriptor := declared\<rparr>) (ov_sources ov)\<rparr>))"

definition adjust_source ::
  "source_id \<Rightarrow> (source_state \<Rightarrow> source_state) \<Rightarrow> observatory \<Rightarrow> observatory" where
  "adjust_source i f ov =
     (case map_of (ov_sources ov) i of
        None \<Rightarrow> ov
      | Some st \<Rightarrow> ov\<lparr>ov_sources := om_put i (f st) (ov_sources ov)\<rparr>)"

section \<open>Ingest\<close>

definition settle ::
  "ingest_options \<Rightarrow> time_point \<Rightarrow> ingest_outcome \<Rightarrow> observatory \<Rightarrow> ingest_outcome \<times> observatory" where
  "settle options received_at outcome ov =
     (case options of
        PublishSnapshot \<Rightarrow>
          (let (s, ov) = publish received_at ov in (outcome\<lparr>ig_snapshot := sn_id s\<rparr>, ov))
      | DeferSnapshot \<Rightarrow> (outcome, ov\<lparr>ov_dirty := True\<rparr>))"

text \<open>The closure \<^verbatim>\<open>finish\<close>.\<close>

definition refuse ::
  "observation \<Rightarrow> time_point \<Rightarrow> ingest_options \<Rightarrow> status_code \<Rightarrow> string \<Rightarrow> observatory \<Rightarrow>
     unit result \<times> ingest_outcome \<times> observatory" where
  "refuse ob received_at options code message ov =
     (let outcome = (new_outcome (content_digest ob))\<lparr>ig_code := code,
            ig_explanation := bounded_text message\<rparr>;
          ov = ov\<lparr>ov_rejected_count := ov_rejected_count ov + 1\<rparr>;
          ov = record_rejection ob received_at code (ig_explanation outcome) ov
      in (err code (ig_explanation outcome), settle options received_at outcome ov))"

definition observation_schema :: string where
  "observation_schema = ''fabric-observatory/observation/1''"

text \<open>What is checked before the source is looked at.\<close>

definition precheck :: "observatory \<Rightarrow> time_point \<Rightarrow> observation \<Rightarrow> (status_code \<times> string) option" where
  "precheck ov received_at ob =
     (case observation_validate (ov_limits ov) ob of
        Inl e \<Rightarrow> Some (st_code e, st_message e)
      | Inr _ \<Rightarrow>
          if ob_schema ob \<noteq> observation_schema
          then Some (SC_Unsupported, ''observation schema '' @ [CHR 0x27] @ ob_schema ob @ [CHR 0x27] @
            '' is not supported by this build (expected '' @ [CHR 0x27] @ observation_schema @ [CHR 0x27] @ '')'')
          else if ob_fabric ob \<noteq> oc_fabric (ov_config ov)
          then Some (SC_FabricMismatch, ''observation is for fabric '' @ id_to_text ''fab'' (ob_fabric ob) @
            '', this runtime observes '' @ id_to_text ''fab'' (oc_fabric (ov_config ov)))
          else if time_after (ob_observed_at ob) received_at \<and>
            saturating_difference (ob_observed_at ob) received_at > max_clock_skew (p_freshness (ov_policy ov))
          then Some (SC_ClockInconsistent, ''observation claims to have been observed '' @
            int_text (sint (du_nanos (saturating_difference (ob_observed_at ob) received_at))) @
            '' ns in the future, beyond the configured clock skew tolerance'')
          else None)"

definition auto_descriptor :: "observatory \<Rightarrow> observation \<Rightarrow> source_descriptor" where
  "auto_descriptor ov ob = \<lparr>sd_id = ob_source ob, sd_name = id_to_text ''src'' (ob_source ob),
     sd_authority_name = [], sd_aspects = [],
     sd_max_authority = auto_register_authority (p_ingest (ov_policy ov)), sd_schema = ob_schema ob\<rparr>"

text \<open>The source of an observation, registered on the way when it is new.\<close>

definition ensure_source :: "observation \<Rightarrow> observatory \<Rightarrow> source_state result \<times> observatory" where
  "ensure_source ob ov =
     (case map_of (ov_sources ov) (ob_source ob) of
        Some st \<Rightarrow> (Inr st, ov)
      | None \<Rightarrow>
          if \<not> auto_register_sources (p_ingest (ov_policy ov))
          then (err SC_SourceUnknown (''source '' @ id_to_text ''src'' (ob_source ob) @
            '' is not registered and automatic registration is disabled''), ov)
          else (case register_source (auto_descriptor ov ob) ov of
            (Inl e, ov) \<Rightarrow> (Inl e, ov)
          | (Inr _, ov) \<Rightarrow> (Inr (the (map_of (ov_sources ov) (ob_source ob))), ov)))"

datatype admission = Admit | Replay | Fence status_code string

definition seen_incarnations :: "observatory \<Rightarrow> source_id \<Rightarrow> incarnation_id list" where
  "seen_incarnations ov i = (case map_of (ov_incarnations ov) i of None \<Rightarrow> [] | Some seen \<Rightarrow> seen)"

text \<open>The fences on the observation as a whole, in the order of the source.\<close>

definition admission_of :: "observatory \<Rightarrow> source_state \<Rightarrow> observation \<Rightarrow> admission" where
  "admission_of ov st ob =
     (let new_incarnation = (si_id (so_incarnation st) \<noteq> ob_incarnation ob);
          high_water = high_water_generation ov
      in if new_incarnation \<and> ob_incarnation ob \<in> set (seen_incarnations ov (ob_source ob))
      then Fence SC_FencedIncarnation (''incarnation '' @ id_to_text ''inc'' (ob_incarnation ob) @
        '' was already superseded for source '' @ id_to_text ''src'' (ob_source ob) @
        ''; a replayed boot is refused'')
      else if \<not> new_incarnation \<and> ob_sequence ob \<le> so_last_sequence st
      then (if ob_sequence ob = so_last_sequence st \<and> map_of (ov_index ov) (content_digest ob) \<noteq> None
            then Replay
            else Fence SC_FencedSequence (''sequence '' @ u64_text (ob_sequence ob) @
              '' does not advance the source sequence '' @ u64_text (so_last_sequence st) @
              '' for source '' @ id_to_text ''src'' (ob_source ob)))
      else if ob_generation ob < so_last_generation st
      then Fence SC_FencedStaleGeneration (''generation '' @ u64_text (ob_generation ob) @
        '' is older than the last generation reported by this source ('' @
        u64_text (so_last_generation st) @ '')'')
      else if ob_generation ob > so_last_generation st + max_generation_advance (p_ingest (ov_policy ov))
      then Fence SC_OutOfRange ''generation advance exceeds the configured maximum in one step''
      else if strict_generation_fence (p_ingest (ov_policy ov)) \<and> ob_generation ob < high_water
      then Fence SC_FencedStaleGeneration (''strict generation fencing is enabled and generation '' @
        u64_text (ob_generation ob) @ '' is below the observed high water generation '' @
        u64_text high_water)
      else if ob_generation ob = so_last_generation st \<and> ob_epoch ob < so_last_epoch st
      then Fence SC_FencedStaleEpoch (''epoch '' @ u64_text (ob_epoch ob) @
        '' is older than the last epoch of the same generation reported by this source ('' @
        u64_text (so_last_epoch st) @ '')'')
      else Admit)"

subsection \<open>Claim fences\<close>

record claim_tally =
  ct_accepted :: "32 word"
  ct_fenced :: "32 word"
  ct_first_fence :: status_code
  ct_reason :: string

definition revision_key :: "observation \<Rightarrow> claim \<Rightarrow> source_id \<times> entity_id \<times> string" where
  "revision_key ob c = (ob_source ob, su_id (cl_subject c), aspect_value (cl_aspect c))"

definition claim_fence ::
  "source_descriptor \<Rightarrow> observation \<Rightarrow> claim \<Rightarrow> observatory \<Rightarrow>
     (status_code \<times> string) option \<times> observatory" where
  "claim_fence d ob c ov =
     (let aspect_name = aspect_value (cl_aspect c)
      in if reject_unknown_aspects (p_ingest (ov_policy ov)) \<and> find_aspect_descriptor aspect_name = None
      then (Some (SC_Unsupported, ''aspect '' @ [CHR 0x27] @ aspect_name @ [CHR 0x27] @
        '' is not a well-known aspect of this build''), ov)
      else if sd_aspects d \<noteq> [] \<and> \<not> declares d aspect_name
      then (Some (SC_FencedAuthority, ''source did not declare aspect '' @ [CHR 0x27] @ aspect_name @
        [CHR 0x27] @ '' in its observation scope''), ov)
      else let key = revision_key ob c;
               ov = (if map_of (ov_revisions ov) key = None \<and>
                        length (ov_revisions ov) < unat (max_subjects (ov_limits ov))
                     then ov\<lparr>ov_revisions := om_emplace key 0 (ov_revisions ov)\<rparr> else ov)
      in (case map_of (ov_revisions ov) key of
            None \<Rightarrow> (None, ov)
          | Some last_revision \<Rightarrow>
              if cl_revision c \<noteq> 0 \<and> last_revision \<noteq> 0 \<and> cl_revision c < last_revision
              then (Some (SC_FencedRevision, ''revision '' @ u64_text (cl_revision c) @
                '' is older than the last revision reported for this subject and aspect ('' @
                u64_text last_revision @ '')''), ov)
              else (None, if cl_revision c > last_revision
                then ov\<lparr>ov_revisions := om_put key (cl_revision c) (ov_revisions ov)\<rparr> else ov)))"

fun judge_claims ::
  "source_descriptor \<Rightarrow> observation \<Rightarrow> time_point \<Rightarrow> claim list \<Rightarrow> claim_tally \<Rightarrow> observatory \<Rightarrow>
     claim_tally \<times> observatory" where
  "judge_claims d ob received_at [] tally ov = (tally, ov)"
| "judge_claims d ob received_at (c # cs) tally ov =
     (case claim_fence d ob c ov of
        (None, ov) \<Rightarrow>
          judge_claims d ob received_at cs (tally\<lparr>ct_accepted := ct_accepted tally + 1\<rparr>) ov
      | (Some (code, reason), ov) \<Rightarrow>
          let tally = (if ct_fenced tally = 0
                then tally\<lparr>ct_first_fence := code, ct_reason := reason\<rparr> else tally);
              ov = record_fenced_claim ob received_at c code reason ov
          in judge_claims d ob received_at cs (tally\<lparr>ct_fenced := ct_fenced tally + 1\<rparr>) ov)"

definition empty_tally :: claim_tally where
  "empty_tally = \<lparr>ct_accepted = 0, ct_fenced = 0, ct_first_fence = SC_FencedAuthority, ct_reason = []\<rparr>"

subsection \<open>Acceptance\<close>

definition store_record :: "observation_record \<Rightarrow> observatory \<Rightarrow> observatory" where
  "store_record r ov =
     evict_evidence (ov\<lparr>
       ov_index := om_emplace (content_digest (or_observation r)) (length (ov_records ov)) (ov_index ov),
       ov_records := ov_records ov @ [r]\<rparr>)"

definition bounded_ring :: "nat \<Rightarrow> 'a list \<Rightarrow> 'a list" where
  "bounded_ring bound xs = drop (length xs - bound) xs"

definition note_incarnation :: "observation \<Rightarrow> observatory \<Rightarrow> observatory" where
  "note_incarnation ob ov = ov\<lparr>ov_incarnations := om_put (ob_source ob)
     (bounded_ring (unat (max_incarnations_per_source (ov_limits ov)))
       (seen_incarnations ov (ob_source ob) @ [ob_incarnation ob])) (ov_incarnations ov)\<rparr>"

definition advance_source :: "observation \<Rightarrow> time_point \<Rightarrow> source_state \<Rightarrow> source_state" where
  "advance_source ob received_at st =
     (let st = (if si_id (so_incarnation st) \<noteq> ob_incarnation ob
                then st\<lparr>so_incarnation := \<lparr>si_id = ob_incarnation ob, si_boot_time = received_at,
                  si_boot_counter = si_boot_counter (so_incarnation st) + 1\<rparr>\<rparr> else st)
      in st\<lparr>so_last_sequence := ob_sequence ob, so_last_generation := ob_generation ob,
           so_last_epoch := ob_epoch ob, so_last_receive := received_at,
           so_last_observation := ob_observed_at ob,
           so_first_receive := (if tp_nanos (so_first_receive st) = 0 then received_at
             else so_first_receive st),
           so_accepted := so_accepted st + 1\<rparr>)"

definition accept_observation ::
  "observation \<Rightarrow> time_point \<Rightarrow> source_state \<Rightarrow> observatory \<Rightarrow> observatory" where
  "accept_observation ob received_at st ov =
     (let r = \<lparr>or_observation = ob, or_received_at = received_at, or_recovered = False,
            or_recovery_epoch = ov_restart_epoch ov\<rparr>;
          ov = journal_write_unless_failed (journal_append r) ov;
          ov = store_record r ov;
          ov = (if si_id (so_incarnation st) \<noteq> ob_incarnation ob then note_incarnation ob ov else ov);
          ov = adjust_source (ob_source ob) (advance_source ob received_at) ov
      in ov\<lparr>ov_accepted := ov_accepted ov + 1\<rparr>)"

definition ingest_known ::
  "observation \<Rightarrow> time_point \<Rightarrow> ingest_options \<Rightarrow> source_state \<Rightarrow> observatory \<Rightarrow>
     unit result \<times> ingest_outcome \<times> observatory" where
  "ingest_known ob received_at options st ov =
     (let outcome = new_outcome (content_digest ob); source = ob_source ob;
          ov = (if si_id (so_incarnation st) \<noteq> ob_incarnation ob
                then ov\<lparr>ov_incarnations := om_emplace source [] (ov_incarnations ov)\<rparr> else ov)
      in case admission_of ov st ob of
        Fence code message \<Rightarrow> refuse ob received_at options code message
          (adjust_source source (\<lambda>st. st\<lparr>so_fenced := so_fenced st + 1\<rparr>) ov)
      | Replay \<Rightarrow> (Inr (), outcome\<lparr>ig_disposition := ID_Duplicate, ig_code := SC_FencedDuplicateContent,
            ig_explanation := ''observation is byte identical to an already accepted observation'',
            ig_snapshot := (case ov_published ov of None \<Rightarrow> zero_digest | Some s \<Rightarrow> sn_id s)\<rparr>,
          (adjust_source source (\<lambda>st. st\<lparr>so_duplicates := so_duplicates st + 1\<rparr>) ov)
            \<lparr>ov_duplicate := ov_duplicate ov + 1\<rparr>)
      | Admit \<Rightarrow>
          let (tally, ov) = judge_claims (so_descriptor st) ob received_at (ob_claims ob) empty_tally ov
          in if ob_claims ob \<noteq> [] \<and> ct_accepted tally = 0
          then let outcome = outcome\<lparr>ig_disposition := ID_Fenced, ig_code := ct_first_fence tally,
                     ig_explanation := (if ct_reason tally = []
                       then ''every claim in the observation was fenced'' else ct_reason tally),
                     ig_claims_fenced := ct_fenced tally\<rparr>;
                   ov = adjust_source source (\<lambda>st. st\<lparr>so_fenced := so_fenced st + 1\<rparr>) ov;
                   ov = ov\<lparr>ov_fenced := ov_fenced ov + 1\<rparr>;
                   ov = record_rejection ob received_at (ct_first_fence tally) (ig_explanation outcome) ov
               in (Inr (), settle options received_at outcome ov)
          else (Inr (), settle options received_at
            (outcome\<lparr>ig_disposition := ID_Accepted, ig_code := SC_Ok,
              ig_claims_accepted := ct_accepted tally, ig_claims_fenced := ct_fenced tally\<rparr>)
            (accept_observation ob received_at st ov)))"

definition ingest ::
  "observation \<Rightarrow> ingest_options \<Rightarrow> observatory \<Rightarrow> unit result \<times> ingest_outcome \<times> observatory" where
  "ingest ob options ov =
     (let (received_at, ov) = clock_now ov
      in case precheck ov received_at ob of
        Some (code, message) \<Rightarrow> refuse ob received_at options code message ov
      | None \<Rightarrow>
          (case ensure_source ob ov of
             (Inl e, ov) \<Rightarrow> refuse ob received_at options (st_code e) (st_message e) ov
           | (Inr st, ov) \<Rightarrow> ingest_known ob received_at options st ov))"

record batch_report =
  br_accepted :: "64 word"
  br_duplicates :: "64 word"
  br_fenced :: "64 word"
  br_rejected :: "64 word"
  br_outcomes :: "ingest_outcome list"
  br_snapshot :: digest256

definition empty_batch_report :: batch_report where
  "empty_batch_report = \<lparr>br_accepted = 0, br_duplicates = 0, br_fenced = 0, br_rejected = 0,
     br_outcomes = [], br_snapshot = zero_digest\<rparr>"

definition report_outcome :: "ingest_outcome \<Rightarrow> batch_report \<Rightarrow> batch_report" where
  "report_outcome outcome b =
     (let b = b\<lparr>br_outcomes := br_outcomes b @ [outcome]\<rparr>
      in case ig_disposition outcome of
           ID_Accepted \<Rightarrow> b\<lparr>br_accepted := br_accepted b + 1\<rparr>
         | ID_Duplicate \<Rightarrow> b\<lparr>br_duplicates := br_duplicates b + 1\<rparr>
         | ID_Fenced \<Rightarrow> b\<lparr>br_fenced := br_fenced b + 1\<rparr>
         | ID_Rejected \<Rightarrow> b\<lparr>br_rejected := br_rejected b + 1\<rparr>)"

fun ingest_each :: "observation list \<Rightarrow> batch_report \<Rightarrow> observatory \<Rightarrow> batch_report \<times> observatory" where
  "ingest_each [] b ov = (b, ov)"
| "ingest_each (ob # obs) b ov =
     (let (status, outcome, ov) = ingest ob DeferSnapshot ov
      in ingest_each obs (report_outcome outcome b) ov)"

text \<open>\<open>None\<close> for the report of a refused batch, which is left as it was.\<close>

definition ingest_batch ::
  "observation list \<Rightarrow> ingest_options \<Rightarrow> observatory \<Rightarrow> batch_report result \<times> observatory" where
  "ingest_batch obs options ov =
     (if length obs > unat (max_batch_observations (ov_limits ov))
      then (err SC_TooLarge ''batch exceeds the configured maximum number of observations'', ov)
      else let (b, ov) = ingest_each obs empty_batch_report ov
      in case options of
           DeferSnapshot \<Rightarrow> (Inr b, ov)
         | PublishSnapshot \<Rightarrow>
             (let (now, ov) = clock_now ov; (s, ov) = publish now ov
              in (Inr (b\<lparr>br_snapshot := sn_id s\<rparr>), ov)))"

section \<open>Reading\<close>

definition current :: "observatory \<Rightarrow> snapshot \<times> observatory" where
  "current ov =
     (case ov_published ov of
        Some s \<Rightarrow> if \<not> ov_dirty ov then (s, ov) else (let (now, ov) = clock_now ov in publish now ov)
      | None \<Rightarrow> (let (now, ov) = clock_now ov in publish now ov))"

definition refresh :: "time_point \<Rightarrow> observatory \<Rightarrow> snapshot \<times> observatory" where
  "refresh evaluation_time ov = publish evaluation_time ov"

definition publish_now :: "observatory \<Rightarrow> snapshot \<times> observatory" where
  "publish_now ov = (let (now, ov) = clock_now ov in refresh now ov)"

definition snapshot_at :: "history_index \<Rightarrow> observatory \<Rightarrow> snapshot result" where
  "snapshot_at i ov = (case history_at (ov_history ov) i of
     None \<Rightarrow> err SC_NotFound ''no snapshot at that history index'' | Some s \<Rightarrow> Inr s)"

definition snapshot_by_id :: "digest256 \<Rightarrow> observatory \<Rightarrow> snapshot result" where
  "snapshot_by_id i ov = (case history_find (ov_history ov) i of
     None \<Rightarrow> err SC_NotFound ''that snapshot is not retained in history'' | Some s \<Rightarrow> Inr s)"

definition retained_records :: "32 word \<Rightarrow> observatory \<Rightarrow> observation_record list" where
  "retained_records lim ov = drop (length (ov_records ov) - min (unat lim) (length (ov_records ov)))
     (ov_records ov)"

definition sources_now :: "observatory \<Rightarrow> source_summary list \<times> observatory" where
  "sources_now ov = (let (now, ov) = clock_now ov in (source_summaries ov now, ov))"

definition shutdown :: "observatory \<Rightarrow> observatory" where
  "shutdown ov = (if ov_shutdown ov then ov
     else ov\<lparr>ov_shutdown := True, ov_journal := map_option journal_close (ov_journal ov)\<rparr>)"

section \<open>Opening and recovery\<close>

definition default_descriptor :: source_descriptor where
  "default_descriptor = \<lparr>sd_id = BasicId nil_u128, sd_name = [], sd_authority_name = [],
     sd_aspects = [], sd_max_authority = SA_None, sd_schema = []\<rparr>"

definition mark_recovered :: "restart_epoch \<Rightarrow> observation_record \<Rightarrow> observation_record" where
  "mark_recovered epoch r = r\<lparr>or_recovered := True, or_recovery_epoch := epoch\<rparr>"

definition restore_record :: "observation_record \<Rightarrow> observatory \<Rightarrow> observatory" where
  "restore_record r ov =
     (let r = mark_recovered (ov_restart_epoch ov) r
      in ov\<lparr>ov_index := om_emplace (content_digest (or_observation r)) (length (ov_records ov)) (ov_index ov),
           ov_records := ov_records ov @ [r]\<rparr>)"

definition recovery_key :: "observation_record \<Rightarrow> source_id \<times> incarnation_id \<times> source_sequence" where
  "recovery_key r = (ob_source (or_observation r), ob_incarnation (or_observation r),
     ob_sequence (or_observation r))"

definition rebuild_state :: "restart_epoch \<Rightarrow> observation_record \<Rightarrow> source_state \<Rightarrow> source_state" where
  "rebuild_state epoch r st =
     (let ob = or_observation r; received_at = or_received_at r;
          st = (if si_id (so_incarnation st) \<noteq> ob_incarnation ob
                then st\<lparr>so_incarnation := \<lparr>si_id = ob_incarnation ob, si_boot_time = received_at,
                  si_boot_counter = 0\<rparr>\<rparr> else st);
          st = (if ob_sequence ob > so_last_sequence st
                then st\<lparr>so_last_sequence := ob_sequence ob\<rparr> else st);
          st = (if ob_generation ob > so_last_generation st
                then st\<lparr>so_last_generation := ob_generation ob\<rparr> else st);
          st = (if ob_generation ob = so_last_generation st \<and> ob_epoch ob > so_last_epoch st
                then st\<lparr>so_last_epoch := ob_epoch ob\<rparr> else st);
          st = (if tp_nanos (so_first_receive st) = 0 \<or> received_at < so_first_receive st
                then st\<lparr>so_first_receive := received_at\<rparr> else st);
          st = (if received_at > so_last_receive st then st\<lparr>so_last_receive := received_at\<rparr> else st);
          st = (if ob_observed_at ob > so_last_observation st
                then st\<lparr>so_last_observation := ob_observed_at ob\<rparr> else st)
      in st\<lparr>so_accepted := so_accepted st + 1, so_recovered := True, so_recovery_epoch := epoch\<rparr>)"

definition rebuild_source :: "observation_record \<Rightarrow> observatory \<Rightarrow> observatory" where
  "rebuild_source r ov =
     (let ob = or_observation r; i = ob_source ob;
          st = (case map_of (ov_sources ov) i of Some st \<Rightarrow> st
                | None \<Rightarrow> fresh_source default_descriptor);
          st = (if id_is_nil (sd_id (so_descriptor st))
                then st\<lparr>so_descriptor := (so_descriptor st)\<lparr>sd_id := i, sd_name := id_to_text ''src'' i,
                  sd_schema := ob_schema ob,
                  sd_max_authority := auto_register_authority (p_ingest (ov_policy ov))\<rparr>\<rparr>
                else st);
          seen = seen_incarnations ov i;
          ov = (if si_id (so_incarnation st) \<noteq> ob_incarnation ob
                then ov\<lparr>ov_incarnations := om_put i
                  (if ob_incarnation ob \<in> set seen then seen
                   else bounded_ring (unat (max_incarnations_per_source (ov_limits ov)))
                     (seen @ [ob_incarnation ob])) (ov_incarnations ov)\<rparr>
                else ov)
      in ov\<lparr>ov_sources := om_put i (rebuild_state (ov_restart_epoch ov) r st) (ov_sources ov)\<rparr>)"

definition recover_evidence :: "journal \<Rightarrow> observatory \<Rightarrow> observatory" where
  "recover_evidence j ov =
     (let ov = ov\<lparr>ov_restart_count := jn_restart_count j + 1,
            ov_restart_epoch := jn_restart_epoch j + 1\<rparr>;
          ov = fold restore_record (jn_recovered_records j) ov
      in fold rebuild_source (sort_key recovery_key (ov_records ov)) ov)"

text \<open>The part of \<^verbatim>\<open>open\<close> that depends on a journal path.\<close>

definition attach_journal :: "disk \<Rightarrow> io_outcome list \<Rightarrow> observatory \<Rightarrow> observatory result" where
  "attach_journal d faults ov =
     (let cfg = ov_config ov;
          opts = (oc_journal cfg)\<lparr>jo_fabric := oc_fabric cfg, jo_limits := p_limits (oc_policy cfg)\<rparr>
      in case journal_open (oc_journal_path cfg) opts d faults of
        (Inl e, j) \<Rightarrow> Inl e
      | (Inr _, j) \<Rightarrow>
          (let ov = ov\<lparr>ov_journal := Some j, ov_recovery := jn_recovery j\<rparr>;
               ov = (if oc_recover_on_open cfg \<and> jn_recovered_records j \<noteq> []
                     then recover_evidence j ov
                     else if oc_recover_on_open cfg
                     then ov\<lparr>ov_restart_count := jn_restart_count j,
                       ov_restart_epoch := jn_restart_epoch j + 1\<rparr>
                     else ov);
               (now, ov) = clock_now ov
           in Inr (journal_write
             (append_restart_marker (ov_restart_epoch ov) (ov_restart_count ov) now) ov)))"

definition observatory_open ::
  "observatory_config \<Rightarrow> (nat \<Rightarrow> time_point) \<Rightarrow> disk \<Rightarrow> io_outcome list \<Rightarrow> observatory result" where
  "observatory_open cfg clock d faults =
     (if id_is_nil (oc_fabric cfg)
      then err SC_InvalidArgument ''an observatory requires a fabric identity''
      else rbind (policy_validate (oc_policy cfg)) (\<lambda>_.
        rbind (if oc_journal_path cfg = [] then Inr (new_observatory cfg clock)
               else attach_journal d faults (new_observatory cfg clock)) (\<lambda>ov.
        let (now, ov) = clock_now ov in Inr (snd (publish now ov)))))"

end
