(* ===== verification/Fab_Query.thy ===== *)
theory Fab_Query
  imports Fab_Snapshot
begin

text \<open>
  \<^verbatim>\<open>query.hpp\<close> and \<^verbatim>\<open>query.cpp\<close>: filtered queries and hierarchy queries over one immutable
  snapshot. The subtree test is shown to compute the distance in the parent relation, a
  filtered query to return the first rows that match, and the iterative depth first traversal
  to list the observed forest in preorder.
\<close>

section \<open>Filtered queries\<close>

record query_filter =
  qf_kind :: "entity_kind option"
  qf_domains :: "fabric_domain list"
  qf_truths :: "truth_state list"
  qf_aspect :: "aspect_id option"
  qf_subtree_root :: "entity_id option"
  qf_max_depth :: "32 word"
  qf_limit :: "32 word"
  qf_include_claims :: bool
  qf_include_conflicts :: bool

record query_result =
  qr_snapshot :: digest256
  qr_generation :: generation_id
  qr_epoch :: epoch_id
  qr_subjects :: "subject_state list"
  qr_scanned :: "64 word"
  qr_matched_subjects :: "64 word"
  qr_matched_aspects :: "64 word"
  qr_truncated :: bool
  qr_digest :: digest256

definition domain_selected :: "fabric_domain list \<Rightarrow> fabric_domain \<Rightarrow> bool" where
  "domain_selected domains d \<longleftrightarrow> domains = [] \<or> d \<in> set domains"

definition truth_selected :: "truth_state list \<Rightarrow> truth_state \<Rightarrow> bool" where
  "truth_selected truths t \<longleftrightarrow> truths = [] \<or> t \<in> set truths"

subsection \<open>The encoding of a row\<close>

definition encode_query_claim :: "claim_record \<Rightarrow> byte list" where
  "encode_query_claim c =
     enc_u128 (id_value (rc_source c)) @ enc_u64 (rc_sequence c) @
     enc_u8 (of_nat (verdict_number (rc_freshness c))) @ enc_bool (rc_supported c) @
     enc_bool (superseded_generation c) @ enc_bool (superseded_epoch c) @
     enc_bool (superseded_incarnation c) @ enc_bool (superseded_by_later_sequence c) @
     value_encode (rc_value c)"

definition encode_query_aspect :: "bool \<Rightarrow> aspect_state \<Rightarrow> byte list" where
  "encode_query_aspect include_claims a =
     enc_text (aspect_value (as_aspect a)) @ enc_u8 (of_nat (truth_number (as_truth a))) @
     enc_bool (as_agreed_value a \<noteq> None) @
     (case as_agreed_value a of None \<Rightarrow> [] | Some v \<Rightarrow> value_encode v) @
     (let c = as_coverage a in
      enc_u32 (distinct_fresh_sources c) @ enc_u32 (required_distinct_fresh_sources c) @
      enc_authority (best_fresh_authority c) @ enc_authority (cv_required_authority c) @
      enc_bool (cv_satisfied c)) @
     (if include_claims
      then enc_size (length (as_claims a)) @ concat (map encode_query_claim (as_claims a))
      else enc_u64 0) @
     enc_size (length (as_conflicts a)) @
     concat (map (\<lambda>g. value_encode (cg_value g) @ enc_size (length (cg_sources g)) @
       concat (map (\<lambda>s. enc_u128 (id_value s)) (cg_sources g))) (as_conflicts a))"

definition encode_query_subject :: "bool \<Rightarrow> subject_state \<Rightarrow> byte list" where
  "encode_query_subject include_claims s =
     encode_identity (sb_identity s) @ enc_bool (sb_parent s \<noteq> None) @
     (case sb_parent s of None \<Rightarrow> [] | Some i \<Rightarrow> enc_u128 (entity_value i)) @
     enc_u8 (of_nat (truth_number (sb_worst_truth s))) @
     enc_size (length (sb_aspects s)) @ concat (map (encode_query_aspect include_claims) (sb_aspects s))"

subsection \<open>The ancestor walk\<close>

text \<open>\<open>steps\<close> is what is left of the depth bound, \<open>depth\<close> the edges already walked.\<close>

fun ancestor_walk ::
  "(entity_id \<times> entity_id) list \<Rightarrow> entity_id \<Rightarrow> nat \<Rightarrow> entity_id \<Rightarrow> nat \<Rightarrow> entity_id list \<Rightarrow> nat option" where
  "ancestor_walk parents root 0 cursor depth visited = None"
| "ancestor_walk parents root (Suc steps) cursor depth visited =
     (case map_of parents cursor of
        None \<Rightarrow> None
      | Some p \<Rightarrow>
          if p \<in> set visited then None
          else if p = root then Some (depth + 1)
          else ancestor_walk parents root steps p (depth + 1) (p # visited))"

definition depth_from_root ::
  "(entity_id \<times> entity_id) list \<Rightarrow> entity_id \<Rightarrow> entity_id \<Rightarrow> 32 word \<Rightarrow> nat option" where
  "depth_from_root parents start root depth_bound =
     (if start = root then Some 0 else ancestor_walk parents root (unat depth_bound) start 0 [])"

definition parent_map :: "subject_state list \<Rightarrow> (entity_id \<times> entity_id) list" where
  "parent_map subjects = fold (\<lambda>s m. case sb_parent s of
     None \<Rightarrow> m | Some p \<Rightarrow> om_emplace (su_id (sb_identity s)) p m) subjects []"

definition effective :: "32 word \<Rightarrow> 32 word \<Rightarrow> 32 word" where
  "effective requested bound = (if requested \<noteq> 0 \<and> requested < bound then requested else bound)"

subsection \<open>Rows\<close>

definition aspect_selected :: "query_filter \<Rightarrow> aspect_state \<Rightarrow> bool" where
  "aspect_selected f a \<longleftrightarrow> domain_selected (qf_domains f) (as_domain a) \<and>
     truth_selected (qf_truths f) (as_truth a) \<and>
     (case qf_aspect f of None \<Rightarrow> True | Some x \<Rightarrow> as_aspect a = x)"

definition strip_aspect :: "query_filter \<Rightarrow> aspect_state \<Rightarrow> aspect_state" where
  "strip_aspect f a =
     (let a = (if qf_include_claims f then a else a\<lparr>as_claims := []\<rparr>)
      in if qf_include_conflicts f then a else a\<lparr>as_conflicts := []\<rparr>)"

definition query_row :: "query_filter \<Rightarrow> subject_state \<Rightarrow> subject_state" where
  "query_row f s = s\<lparr>sb_aspects := map (strip_aspect f) (filter (aspect_selected f) (sb_aspects s))\<rparr>"

definition subject_selected ::
  "query_filter \<Rightarrow> limits \<Rightarrow> (entity_id \<times> entity_id) list \<Rightarrow> subject_state \<Rightarrow> bool" where
  "subject_selected f l parents s \<longleftrightarrow>
     (case qf_kind f of None \<Rightarrow> True | Some k \<Rightarrow> su_kind (sb_identity s) = k) \<and>
     (case qf_subtree_root f of None \<Rightarrow> True
      | Some root \<Rightarrow> depth_from_root parents (su_id (sb_identity s)) root
          (effective (qf_max_depth f) (max_hierarchy_depth l) + 1) \<noteq> None)"

fun scan_subjects ::
  "query_filter \<Rightarrow> limits \<Rightarrow> (entity_id \<times> entity_id) list \<Rightarrow> subject_state list \<Rightarrow> query_result \<Rightarrow> query_result" where
  "scan_subjects f l parents [] r = r"
| "scan_subjects f l parents (s # rest) r =
     (let r = r\<lparr>qr_scanned := qr_scanned r + 1\<rparr>
      in if \<not> subject_selected f l parents s then scan_subjects f l parents rest r
      else if length (qr_subjects r) \<ge> unat (effective (qf_limit f) (max_query_results l))
      then r\<lparr>qr_truncated := True\<rparr>
      else let row = query_row f s;
               r = r\<lparr>qr_matched_aspects := qr_matched_aspects r + of_nat (length (sb_aspects row))\<rparr>
           in if sb_aspects row = [] then scan_subjects f l parents rest r
              else scan_subjects f l parents rest
                (r\<lparr>qr_matched_subjects := qr_matched_subjects r + 1, qr_subjects := qr_subjects r @ [row]\<rparr>))"

definition execute_query :: "snapshot \<Rightarrow> query_filter \<Rightarrow> limits \<Rightarrow> query_result" where
  "execute_query s f l =
     (let r = scan_subjects f l (parent_map (sn_subjects s)) (sn_subjects s)
            \<lparr>qr_snapshot = sn_id s, qr_generation = sn_generation s, qr_epoch = sn_epoch s,
             qr_subjects = [], qr_scanned = 0, qr_matched_subjects = 0, qr_matched_aspects = 0,
             qr_truncated = False, qr_digest = []\<rparr>
      in r\<lparr>qr_digest := sha256 (enc_tag ''query-result'' @ enc_u64 (sn_generation s) @
           enc_u64 (sn_epoch s) @
           concat (map (encode_query_subject (qf_include_claims f)) (qr_subjects r)))\<rparr>)"

section \<open>Hierarchy queries\<close>

record hierarchy_query =
  hq_root_kind :: "entity_kind option"
  hq_root :: "entity_id option"
  hq_max_depth :: "32 word"
  hq_limit :: "32 word"
  hq_include_unattached :: bool

record hierarchy_node =
  hn_identity :: subject_identity
  hn_parent :: "entity_id option"
  hn_depth :: "32 word"
  hn_topology_truth :: truth_state
  hn_parent_absent :: bool

record hierarchy_result =
  hr_snapshot :: digest256
  hr_nodes :: "hierarchy_node list"
  hr_unattached :: "entity_id list"
  hr_max_depth_reached :: "32 word"
  hr_cycles_detected :: "32 word"
  hr_depth_limited :: "64 word"
  hr_children_of_absent_parents :: "64 word"
  hr_truncated :: bool
  hr_digest :: digest256

definition subject_by_id :: "subject_state list \<Rightarrow> entity_id \<Rightarrow> subject_state option" where
  "subject_by_id subjects i = find (\<lambda>s. su_id (sb_identity s) = i) subjects"

definition attached :: "subject_state list \<Rightarrow> subject_state \<Rightarrow> bool" where
  "attached subjects s \<longleftrightarrow>
     (case sb_parent s of None \<Rightarrow> False | Some p \<Rightarrow> subject_by_id subjects p \<noteq> None)"

definition parent_missing :: "subject_state list \<Rightarrow> subject_state \<Rightarrow> bool" where
  "parent_missing subjects s \<longleftrightarrow>
     (case sb_parent s of None \<Rightarrow> False | Some p \<Rightarrow> subject_by_id subjects p = None)"

definition children_of :: "subject_state list \<Rightarrow> entity_id \<Rightarrow> entity_id list" where
  "children_of subjects p = sort (map (\<lambda>s. su_id (sb_identity s))
     (filter (\<lambda>s. attached subjects s \<and> sb_parent s = Some p) subjects))"

definition eligible_root :: "hierarchy_query \<Rightarrow> subject_state \<Rightarrow> bool" where
  "eligible_root q s =
     (case hq_root q of
        Some i \<Rightarrow> su_id (sb_identity s) = i
      | None \<Rightarrow> (case hq_root_kind q of Some k \<Rightarrow> su_kind (sb_identity s) = k | None \<Rightarrow> True))"

definition selected_roots :: "hierarchy_query \<Rightarrow> subject_state list \<Rightarrow> entity_id list" where
  "selected_roots q subjects =
     sort (filter (\<lambda>i. case subject_by_id subjects i of None \<Rightarrow> False | Some s \<Rightarrow> eligible_root q s)
       (map (\<lambda>s. su_id (sb_identity s)) (filter (\<lambda>s. \<not> attached subjects s) subjects)))"

definition unattached_entities :: "hierarchy_query \<Rightarrow> subject_state list \<Rightarrow> entity_id list" where
  "unattached_entities q subjects =
     sort (map (\<lambda>s. su_id (sb_identity s)) (filter (\<lambda>s. \<not> attached subjects s \<and>
       hq_include_unattached q \<and> su_kind (sb_identity s) \<noteq> EK_Fabric) subjects))"

definition node_of :: "subject_state list \<Rightarrow> subject_state \<Rightarrow> 32 word \<Rightarrow> hierarchy_node" where
  "node_of subjects s depth = \<lparr>hn_identity = sb_identity s, hn_parent = sb_parent s, hn_depth = depth,
     hn_topology_truth = sb_topology_truth s, hn_parent_absent = parent_missing subjects s\<rparr>"

text \<open>
  The loop over the explicit stack, whose top is the head of the list. It ends because every
  frame it pops either belongs to an entity not visited before or shortens the stack.
\<close>

function traverse ::
  "subject_state list \<Rightarrow> 32 word \<Rightarrow> 32 word \<Rightarrow> (entity_id \<times> 32 word) list \<Rightarrow> entity_id list \<Rightarrow>
     hierarchy_result \<Rightarrow> hierarchy_result" where
  "traverse subjects bound limit [] visited r = r"
| "traverse subjects bound limit ((i, depth) # stack) visited r =
     (case subject_by_id subjects i of
        None \<Rightarrow> traverse subjects bound limit stack visited r
      | Some s \<Rightarrow>
          if i \<in> set visited
          then traverse subjects bound limit stack visited
            (r\<lparr>hr_cycles_detected := hr_cycles_detected r + 1\<rparr>)
          else if depth > bound
          then traverse subjects bound limit stack (i # visited)
            (r\<lparr>hr_truncated := True, hr_depth_limited := hr_depth_limited r + 1\<rparr>)
          else if length (hr_nodes r) \<ge> unat limit
          then r\<lparr>hr_truncated := True\<rparr>
          else traverse subjects bound limit
            (map (\<lambda>c. (c, depth + 1)) (children_of subjects i) @ stack) (i # visited)
            (r\<lparr>hr_max_depth_reached := max (hr_max_depth_reached r) depth,
               hr_nodes := hr_nodes r @ [node_of subjects s depth]\<rparr>))"
  by pat_completeness auto

lemma subject_by_id_member: "subject_by_id subjects i = Some s \<Longrightarrow> s \<in> set subjects \<and> su_id (sb_identity s) = i"
  by (auto simp: subject_by_id_def find_Some_iff)

text \<open>The entities of the snapshot that were not visited yet.\<close>

definition unvisited :: "subject_state list \<Rightarrow> entity_id list \<Rightarrow> entity_id set" where
  "unvisited subjects visited = (\<lambda>s. su_id (sb_identity s)) ` set subjects - set visited"

lemma unvisited_shrinks:
  "subject_by_id subjects i = Some s \<Longrightarrow> i \<notin> set visited \<Longrightarrow>
     card (unvisited subjects (i # visited)) < card (unvisited subjects visited)"
  using subject_by_id_member[of subjects i s] unfolding unvisited_def by (intro psubset_card_mono) auto

termination traverse
  by (relation "measures [\<lambda>(subjects, b, l, stack, visited, r). card (unvisited subjects visited),
      \<lambda>(subjects, b, l, stack, visited, r). length stack]")
     (auto dest: unvisited_shrinks)

definition execute_hierarchy :: "snapshot \<Rightarrow> hierarchy_query \<Rightarrow> limits \<Rightarrow> hierarchy_result" where
  "execute_hierarchy s q l =
     (let subjects = sn_subjects s;
          r = traverse subjects (effective (hq_max_depth q) (max_hierarchy_depth l))
            (effective (hq_limit q) (max_query_results l))
            (map (\<lambda>i. (i, 0)) (selected_roots q subjects)) []
            \<lparr>hr_snapshot = sn_id s, hr_nodes = [], hr_unattached = unattached_entities q subjects,
             hr_max_depth_reached = 0, hr_cycles_detected = 0, hr_depth_limited = 0,
             hr_children_of_absent_parents = of_nat (length (filter (parent_missing subjects) subjects)),
             hr_truncated = False, hr_digest = []\<rparr>
      in r\<lparr>hr_digest := sha256 (enc_tag ''hierarchy-result'' @ enc_size (length (hr_nodes r)) @
           concat (map (\<lambda>n. enc_u128 (entity_value (su_id (hn_identity n))) @ enc_u32 (hn_depth n) @
             enc_u8 (of_nat (truth_number (hn_topology_truth n))) @ enc_bool (hn_parent_absent n))
             (hr_nodes r)) @
           enc_size (length (hr_unattached r)) @
           concat (map (\<lambda>i. enc_u128 (entity_value i)) (hr_unattached r)))\<rparr>)"

section \<open>Climbing a parent relation\<close>

primrec climb :: "('a \<rightharpoonup> 'a) \<Rightarrow> nat \<Rightarrow> 'a \<Rightarrow> 'a option" where
  "climb up 0 x = Some x"
| "climb up (Suc n) x = (case up x of None \<Rightarrow> None | Some p \<Rightarrow> climb up n p)"

lemma climb_add: "climb up (m + n) x = (case climb up m x of None \<Rightarrow> None | Some y \<Rightarrow> climb up n y)"
  by (induction m arbitrary: x) (auto split: option.split)

lemma climb_split: "climb up (m + n) x = Some z \<Longrightarrow> \<exists>y. climb up m x = Some y \<and> climb up n y = Some z"
  by (auto simp: climb_add split: option.splits)

lemma climb_snoc: "climb up n x = Some y \<Longrightarrow> up y = Some z \<Longrightarrow> climb up (n + 1) x = Some z"
  using climb_add[of up n 1 x] by simp

lemma climb_stuck: "climb up n x = Some y \<Longrightarrow> up y = None \<Longrightarrow> climb up (n + Suc k) x = None"
  using climb_add[of up n "Suc k" x] by simp

text \<open>Two ways up from one place meet the nearer goal on the way to the farther one.\<close>

lemma climb_between:
  "climb up m x = Some y \<Longrightarrow> climb up n x = Some z \<Longrightarrow> m \<le> n \<Longrightarrow> climb up (n - m) y = Some z"
  using climb_split[of up m "n - m" x z] by auto

text \<open>A climb that meets a place twice can be cut short.\<close>

lemma climb_shortcut:
  assumes "climb up i x = Some y" "climb up j x = Some y" "i < j" "j \<le> n" "climb up n x = Some z"
  shows "climb up (n - (j - i)) x = Some z"
proof -
  have "climb up (n - j) y = Some z" using climb_between[OF assms(2,5,4)] .
  then have "climb up (i + (n - j)) x = Some z" using assms(1) by (simp add: climb_add)
  then show ?thesis using assms(3,4) by (simp add: algebra_simps)
qed

section \<open>The subtree test\<close>

text \<open>The first step at which the walk stands on the root, with no place met twice before.\<close>

definition first_meeting :: "('a \<rightharpoonup> 'a) \<Rightarrow> 'a \<Rightarrow> 'a \<Rightarrow> nat \<Rightarrow> bool" where
  "first_meeting up start goal n \<longleftrightarrow> climb up n start = Some goal \<and> (\<forall>i<n. climb up i start \<noteq> Some goal)"

text \<open>The places passed on the way up, as a list.\<close>

fun chain :: "('a \<rightharpoonup> 'a) \<Rightarrow> 'a \<Rightarrow> 'a list \<Rightarrow> bool" where
  "chain up x [] \<longleftrightarrow> True"
| "chain up x (p # ps) \<longleftrightarrow> up x = Some p \<and> chain up p ps"

lemma chain_climb: "chain up x ps \<Longrightarrow> i < length ps \<Longrightarrow> climb up (i + 1) x = Some (ps ! i)"
proof (induction up x ps arbitrary: i rule: chain.induct)
  case (2 up x p ps)
  then show ?case by (cases i) simp_all
qed simp

lemma climb_chain: "climb up n x = Some z \<Longrightarrow> \<exists>ps. chain up x ps \<and> length ps = n \<and> last (x # ps) = z"
proof (induction n arbitrary: x)
  case (Suc n)
  then obtain p where p: "up x = Some p" "climb up n p = Some z" by (auto split: option.splits)
  then obtain ps where "chain up p ps \<and> length ps = n \<and> last (p # ps) = z" using Suc.IH by blast
  then show ?case using p(1) by (intro exI[of _ "p # ps"]) simp
qed simp

lemma ancestor_walk_Some:
  "ancestor_walk parents root steps cursor depth visited = Some d \<longleftrightarrow>
     (\<exists>ps. ps \<noteq> [] \<and> chain (map_of parents) cursor ps \<and> last ps = root \<and> root \<notin> set (butlast ps) \<and>
        distinct ps \<and> set ps \<inter> set visited = {} \<and> length ps \<le> steps \<and> d = depth + length ps)"
proof (induction steps arbitrary: cursor depth visited)
  case 0
  then show ?case by simp
next
  case (Suc steps)
  show ?case (is "?l = (\<exists>ps. ?P ps)")
  proof
    assume ?l
    then obtain p where p: "map_of parents cursor = Some p" "p \<notin> set visited"
      by (auto split: option.splits if_splits)
    show "\<exists>ps. ?P ps"
    proof (cases "p = root")
      case True
      then show ?thesis using \<open>?l\<close> p by (intro exI[of _ "[root]"]) simp
    next
      case False
      then have "ancestor_walk parents root steps p (depth + 1) (p # visited) = Some d" using \<open>?l\<close> p by simp
      then obtain ps where "ps \<noteq> []" "chain (map_of parents) p ps" "last ps = root" "root \<notin> set (butlast ps)"
          "distinct ps" "set ps \<inter> set (p # visited) = {}" "length ps \<le> steps" "d = depth + 1 + length ps"
        unfolding Suc.IH by blast
      then have "?P (p # ps)" using p False by auto
      then show ?thesis by blast
    qed
  next
    assume "\<exists>ps. ?P ps"
    then obtain p ps where P: "?P (p # ps)" by (metis neq_Nil_conv)
    show ?l
    proof (cases "ps = []")
      case True
      then show ?thesis using P by auto
    next
      case False
      then have "p \<noteq> root" using P by auto
      have "ancestor_walk parents root steps p (depth + 1) (p # visited) = Some d"
        unfolding Suc.IH by (rule exI[of _ ps]) (use P False in auto)
      then show ?thesis using P \<open>p \<noteq> root\<close> by simp
    qed
  qed
qed

lemma chain_distinct:
  assumes "chain up x ps" "ps \<noteq> []" "last ps \<notin> set (butlast ps)"
  shows "distinct ps"
proof (rule ccontr)
  assume "\<not> distinct ps"
  then obtain i j where ij: "i < j" "j < length ps" "ps ! i = ps ! j"
    by (metis distinct_conv_nth linorder_neqE_nat)
  let ?n = "length ps" and ?m = "length ps - (j - i) - 1"
  have top: "climb up ?n x = Some (last ps)"
    using chain_climb[OF assms(1), of "?n - 1"] assms(2) by (simp add: last_conv_nth)
  have "climb up (?n - (j + 1 - (i + 1))) x = Some (last ps)"
    using chain_climb[OF assms(1)] ij top by (intro climb_shortcut[of up "i + 1" x "ps ! i" "j + 1"]) simp_all
  moreover have "climb up (?m + 1) x = Some (ps ! ?m)" using chain_climb[OF assms(1), of ?m] ij by simp
  moreover have "?n - (j + 1 - (i + 1)) = ?m + 1" using ij by simp
  ultimately have "ps ! ?m = last ps" by (simp only: option.inject)
  moreover have "?m < length (butlast ps)" using ij by simp
  ultimately have "last ps \<in> set (butlast ps)" by (metis nth_butlast nth_mem)
  then show False using assms(3) by contradiction
qed

lemma depth_from_root_exact:
  "depth_from_root parents start root bound = Some d \<longleftrightarrow>
     d \<le> unat bound \<and> first_meeting (map_of parents) start root d"
proof (cases "start = root")
  case True
  then show ?thesis by (auto simp: depth_from_root_def first_meeting_def)
next
  case False
  let ?up = "map_of parents"
  have "(\<exists>ps. ps \<noteq> [] \<and> chain ?up start ps \<and> last ps = root \<and> root \<notin> set (butlast ps) \<and>
      distinct ps \<and> length ps \<le> unat bound \<and> d = length ps) \<longleftrightarrow>
    d \<le> unat bound \<and> first_meeting ?up start root d" (is "(\<exists>ps. ?P ps) \<longleftrightarrow> ?Q")
  proof
    assume "\<exists>ps. ?P ps"
    then obtain ps where P: "?P ps" by blast
    have "climb ?up i start \<noteq> Some root" if "i < d" for i
    proof (cases i)
      case 0
      then show ?thesis using False by simp
    next
      case (Suc k)
      then have "climb ?up i start = Some (ps ! k)" "ps ! k \<in> set (butlast ps)"
        using chain_climb[of ?up start ps k] P that nth_mem[of k "butlast ps"] by (auto simp: nth_butlast)
      then show ?thesis using P by auto
    qed
    moreover have "climb ?up d start = Some root"
      using chain_climb[of ?up start ps "length ps - 1"] P last_conv_nth[of ps] by simp
    ultimately show ?Q using P by (simp add: first_meeting_def)
  next
    assume Q: ?Q
    then obtain ps where ps: "chain ?up start ps" "length ps = d" "last (start # ps) = root"
      using climb_chain[of ?up d start root] by (auto simp: first_meeting_def)
    have ne: "ps \<noteq> []" using ps False by auto
    have out: "root \<notin> set (butlast ps)"
    proof
      assume "root \<in> set (butlast ps)"
      then obtain k where "k < d - 1" "ps ! k = root"
        using ps(2) by (auto simp: in_set_conv_nth nth_butlast)
      moreover from this have "climb ?up (k + 1) start = Some root" "k + 1 < d"
        using chain_climb[OF ps(1), of k] ps(2) by simp_all
      ultimately show False using Q unfolding first_meeting_def by blast
    qed
    then have "distinct ps" using chain_distinct[OF ps(1) ne] ps(3) ne by simp
    then have "?P ps" using ps ne out Q by simp
    then show "\<exists>ps. ?P ps" by blast
  qed
  then show ?thesis using False by (simp add: depth_from_root_def ancestor_walk_Some)
qed

section \<open>What a query returns\<close>

definition matching_rows :: "query_filter \<Rightarrow> limits \<Rightarrow> snapshot \<Rightarrow> subject_state list" where
  "matching_rows f l s = filter (\<lambda>row. sb_aspects row \<noteq> [])
     (map (query_row f) (filter (subject_selected f l (parent_map (sn_subjects s))) (sn_subjects s)))"

lemma scan_subjects_rows:
  "qr_subjects (scan_subjects f l parents subs r) = qr_subjects r @
     take (unat (effective (qf_limit f) (max_query_results l)) - length (qr_subjects r))
       (filter (\<lambda>row. sb_aspects row \<noteq> []) (map (query_row f) (filter (subject_selected f l parents) subs)))"
proof (induction f l parents subs r rule: scan_subjects.induct)
  case (2 f l parents s rest r)
  let ?L = "unat (effective (qf_limit f) (max_query_results l))"
  show ?case
  proof (cases "subject_selected f l parents s \<and> length (qr_subjects r) < ?L \<and> sb_aspects (query_row f s) \<noteq> []")
    case True
    then show ?thesis using 2 by (simp add: Let_def not_le take_Cons' )
  next
    case False
    then show ?thesis using 2 by (auto simp: Let_def not_le)
  qed
qed simp

lemma scan_subjects_complete:
  "qr_truncated (scan_subjects f l parents subs r) \<or>
     length (qr_subjects r) + length (filter (\<lambda>row. sb_aspects row \<noteq> [])
       (map (query_row f) (filter (subject_selected f l parents) subs)))
     \<le> max (length (qr_subjects r)) (unat (effective (qf_limit f) (max_query_results l)))"
proof (induction f l parents subs r rule: scan_subjects.induct)
  case (2 f l parents s rest r)
  then show ?case by (auto simp: Let_def not_le)
qed simp

lemma query_rows:
  "qr_subjects (execute_query s f l) =
     take (unat (effective (qf_limit f) (max_query_results l))) (matching_rows f l s)"
  by (simp add: execute_query_def Let_def scan_subjects_rows matching_rows_def)

lemma query_complete:
  "qr_truncated (execute_query s f l) \<or> qr_subjects (execute_query s f l) = matching_rows f l s"
  using scan_subjects_complete[of f l "parent_map (sn_subjects s)" "sn_subjects s"]
  by (simp add: execute_query_def Let_def scan_subjects_rows matching_rows_def) fastforce

section \<open>What a hierarchy query returns\<close>

text \<open>
  The reference: the observed forest in preorder. \<open>parent_in\<close> is the parent an entity has
  within the snapshot; \<open>levels\<close> is the number of levels still allowed.
\<close>

definition parent_in :: "subject_state list \<Rightarrow> entity_id \<Rightarrow> entity_id option" where
  "parent_in subjects i = (case subject_by_id subjects i of
     None \<Rightarrow> None | Some s \<Rightarrow> if attached subjects s then sb_parent s else None)"

primrec preorder :: "subject_state list \<Rightarrow> nat \<Rightarrow> entity_id \<Rightarrow> nat \<Rightarrow> (entity_id \<times> nat) list" where
  "preorder subjects 0 i depth = [(i, depth)]"
| "preorder subjects (Suc levels) i depth =
     (i, depth) # concat (map (\<lambda>c. preorder subjects levels c (depth + 1)) (children_of subjects i))"

definition frame_order :: "subject_state list \<Rightarrow> nat \<Rightarrow> entity_id \<times> 32 word \<Rightarrow> (entity_id \<times> nat) list" where
  "frame_order subjects bound fr =
     (if unat (snd fr) > bound then [] else preorder subjects (bound - unat (snd fr)) (fst fr) (unat (snd fr)))"

definition listed :: "hierarchy_result \<Rightarrow> (entity_id \<times> nat) list" where
  "listed r = map (\<lambda>n. (su_id (hn_identity n), unat (hn_depth n))) (hr_nodes r)"

abbreviation ids_of :: "subject_state list \<Rightarrow> entity_id list" where
  "ids_of subjects \<equiv> map (\<lambda>s. su_id (sb_identity s)) subjects"

lemma subject_by_id_None: "subject_by_id subjects i = None \<longleftrightarrow> i \<notin> set (ids_of subjects)"
  by (auto simp: subject_by_id_def find_None_iff)

lemma subject_by_id_unique:
  "distinct (ids_of subjects) \<Longrightarrow> s \<in> set subjects \<Longrightarrow> subject_by_id subjects (su_id (sb_identity s)) = Some s"
proof (induction subjects)
  case (Cons x xs)
  then show ?case by (auto simp: subject_by_id_def)
qed simp

lemma children_are:
  assumes "distinct (ids_of subjects)"
  shows "c \<in> set (children_of subjects p) \<longleftrightarrow> parent_in subjects c = Some p"
proof
  assume "c \<in> set (children_of subjects p)"
  then obtain s where "s \<in> set subjects" "attached subjects s" "sb_parent s = Some p" "c = su_id (sb_identity s)"
    by (auto simp: children_of_def)
  then show "parent_in subjects c = Some p"
    using subject_by_id_unique[OF assms] by (simp add: parent_in_def)
next
  assume "parent_in subjects c = Some p"
  then obtain s where "subject_by_id subjects c = Some s" "attached subjects s" "sb_parent s = Some p"
    by (auto simp: parent_in_def split: option.splits if_splits)
  then show "c \<in> set (children_of subjects p)"
    using subject_by_id_member by (fastforce simp: children_of_def)
qed

lemma children_distinct: "distinct (ids_of subjects) \<Longrightarrow> distinct (children_of subjects p)"
  unfolding children_of_def by (simp add: distinct_map inj_on_def)

text \<open>The entities at or below one, and the entities whose way up ends.\<close>

definition below :: "subject_state list \<Rightarrow> entity_id \<Rightarrow> entity_id set" where
  "below subjects i = {y. \<exists>n. climb (parent_in subjects) n y = Some i}"

definition rooted :: "subject_state list \<Rightarrow> entity_id \<Rightarrow> bool" where
  "rooted subjects i \<longleftrightarrow> (\<exists>n r. climb (parent_in subjects) n i = Some r \<and> parent_in subjects r = None)"

lemma below_self: "i \<in> below subjects i"
  unfolding below_def by (auto intro!: exI[of _ 0])

lemma below_child:
  assumes "parent_in subjects c = Some i" "y \<in> below subjects c"
  shows "y \<in> below subjects i"
proof -
  obtain n where "climb (parent_in subjects) n y = Some c" using assms(2) by (auto simp: below_def)
  then have "climb (parent_in subjects) (n + 1) y = Some i" using assms(1) by (rule climb_snoc)
  then show ?thesis unfolding below_def by blast
qed

lemma rooted_acyclic:
  assumes "rooted subjects i" "0 < n"
  shows "climb (parent_in subjects) n i \<noteq> Some i"
proof
  assume cyc: "climb (parent_in subjects) n i = Some i"
  have loop: "climb (parent_in subjects) (k * n) i = Some i" for k
    by (induction k) (simp_all add: climb_add cyc)
  obtain m r where r: "climb (parent_in subjects) m i = Some r" "parent_in subjects r = None"
    using assms(1) by (auto simp: rooted_def)
  have "m < (m + 1) * n" using assms(2) by (cases n) simp_all
  then obtain k where k: "(m + 1) * n = m + (k + 1)" using less_imp_Suc_add by fastforce
  have "climb (parent_in subjects) (m + Suc k) i = None" using r by (rule climb_stuck)
  then show False using loop[of "m + 1"] k by simp
qed

lemma rooted_child: "parent_in subjects c = Some i \<Longrightarrow> rooted subjects i \<Longrightarrow> rooted subjects c"
  unfolding rooted_def by (metis climb.simps(2) option.simps(5))

lemma below_children_disjoint:
  assumes "rooted subjects i" "parent_in subjects c = Some i" "parent_in subjects c' = Some i" "c \<noteq> c'"
  shows "below subjects c \<inter> below subjects c' = {}"
proof -
  have False if "climb (parent_in subjects) m y = Some c" "climb (parent_in subjects) n y = Some c'" "m \<le> n"
    for m n y
  proof -
    have up: "climb (parent_in subjects) (n - m) c = Some c'" using climb_between[OF that] .
    then obtain k where k: "n - m = Suc k" using assms(4) by (cases "n - m") auto
    then have "climb (parent_in subjects) k i = Some c'" using up assms(2) by simp
    then have "climb (parent_in subjects) (k + 1) i = Some i" using assms(3) by (rule climb_snoc)
    then show False using rooted_acyclic[OF assms(1), of "k + 1"] by simp
  qed
  moreover have False if "climb (parent_in subjects) m y = Some c" "climb (parent_in subjects) n y = Some c'" "n \<le> m"
    for m n y
  proof -
    have up: "climb (parent_in subjects) (m - n) c' = Some c" using climb_between[OF that(2,1,3)] .
    then obtain k where k: "m - n = Suc k" using assms(4) by (cases "m - n") auto
    then have "climb (parent_in subjects) k i = Some c" using up assms(3) by simp
    then have "climb (parent_in subjects) (k + 1) i = Some i" using assms(2) by (rule climb_snoc)
    then show False using rooted_acyclic[OF assms(1), of "k + 1"] by simp
  qed
  ultimately show ?thesis unfolding below_def by (auto) (meson nle_le)
qed

lemma not_below_child:
  assumes "rooted subjects i" "parent_in subjects c = Some i"
  shows "i \<notin> below subjects c"
proof
  assume "i \<in> below subjects c"
  then obtain n where "climb (parent_in subjects) n i = Some c" by (auto simp: below_def)
  then have "climb (parent_in subjects) (n + 1) i = Some i" using assms(2) by (rule climb_snoc)
  then show False using rooted_acyclic[OF assms(1), of "n + 1"] by simp
qed

text \<open>
  The stack holds the tops of disjoint unvisited parts of the forest. \<open>stack_ok\<close> says so for the
  entities on it.
\<close>

fun stack_ok :: "subject_state list \<Rightarrow> entity_id list \<Rightarrow> entity_id list \<Rightarrow> bool" where
  "stack_ok subjects [] visited \<longleftrightarrow> True"
| "stack_ok subjects (i # stack) visited \<longleftrightarrow> i \<in> set (ids_of subjects) \<and> rooted subjects i \<and>
     below subjects i \<inter> set visited = {} \<and> (\<forall>j\<in>set stack. below subjects i \<inter> below subjects j = {}) \<and>
     stack_ok subjects stack visited"

lemma stack_ok_visit:
  "stack_ok subjects stack visited \<Longrightarrow> \<forall>j\<in>set stack. x \<notin> below subjects j \<Longrightarrow> stack_ok subjects stack (x # visited)"
  by (induction stack) auto

lemma stack_ok_append:
  "stack_ok subjects (xs @ ys) visited \<longleftrightarrow> stack_ok subjects xs visited \<and> stack_ok subjects ys visited \<and>
     (\<forall>x\<in>set xs. \<forall>y\<in>set ys. below subjects x \<inter> below subjects y = {})"
  by (induction xs) auto

lemma parent_in_known: "parent_in subjects c = Some i \<Longrightarrow> c \<in> set (ids_of subjects)"
  by (rule ccontr) (simp add: parent_in_def subject_by_id_None[THEN iffD2])

lemma children_stack_ok:
  assumes "distinct (ids_of subjects)" "rooted subjects i" "below subjects i \<inter> set visited = {}"
    and "set cs \<subseteq> set (children_of subjects i)" "distinct cs"
  shows "stack_ok subjects cs (i # visited)"
  using assms(4,5)
proof (induction cs)
  case (Cons c cs)
  then have c: "parent_in subjects c = Some i" using children_are[OF assms(1)] by auto
  then have "c \<in> set (ids_of subjects)" by (rule parent_in_known)
  moreover have "below subjects c \<inter> below subjects j = {}" if "j \<in> set cs" for j
    using below_children_disjoint[OF assms(2) c, of j] that Cons.prems children_are[OF assms(1)] by auto
  moreover have "below subjects c \<inter> set (i # visited) = {}"
    using below_child[OF c] not_below_child[OF assms(2) c] assms(3) by auto
  ultimately show ?case
    using Cons rooted_child[OF c assms(2)] by simp
qed simp

lemma frame_order_step:
  assumes "unat depth \<le> unat (bound :: 32 word)" "bound \<noteq> - 1"
  shows "frame_order subjects (unat bound) (i, depth) = (i, unat depth) #
    concat (map (\<lambda>c. frame_order subjects (unat bound) (c, depth + 1)) (children_of subjects i))"
proof -
  have "depth \<le> bound" using assms(1) by (simp add: word_le_nat_alt)
  moreover have "bound < - 1" using assms(2) word_order.not_eq_extremum by blast
  ultimately have "depth + 1 \<noteq> 0" by (metis eq_neg_iff_add_eq_0 leD)
  then have next_depth: "unat (depth + 1) = unat depth + 1" using unatSuc[of depth] by (simp add: add.commute)
  show ?thesis
  proof (cases "unat depth = unat bound")
    case True
    then have "frame_order subjects (unat bound) (c, depth + 1) = []" for c
      by (simp add: frame_order_def next_depth)
    then show ?thesis using True by (simp add: frame_order_def)
  next
    case False
    then obtain k where "unat bound - unat depth = Suc k" using assms(1) by (cases "unat bound - unat depth") auto
    moreover from this have "unat bound - (unat depth + 1) = k" by simp
    ultimately show ?thesis using False assms(1) by (simp add: frame_order_def next_depth)
  qed
qed

lemma traverse_preorder:
  "distinct (ids_of subjects) \<Longrightarrow> bound \<noteq> - 1 \<Longrightarrow> stack_ok subjects (map fst stack) visited \<Longrightarrow>
   listed (traverse subjects bound lim stack visited r) =
     listed r @ take (unat lim - length (hr_nodes r)) (concat (map (frame_order subjects (unat bound)) stack)) \<and>
   hr_cycles_detected (traverse subjects bound lim stack visited r) = hr_cycles_detected r"
proof (induction subjects bound lim stack visited r rule: traverse.induct)
  case (1 subjects bound lim visited r)
  then show ?case by simp
next
  case (2 subjects bound lim i depth stack visited r)
  note ok = 2(7)[simplified]
  obtain s where s: "subject_by_id subjects i = Some s"
    using ok subject_by_id_None[of subjects i] by (cases "subject_by_id subjects i") auto
  have si: "su_id (sb_identity s) = i" using subject_by_id_member[OF s] by simp
  have fresh: "i \<notin> set visited" using ok below_self[of i subjects] by auto
  have other: "\<forall>j\<in>set (map fst stack). i \<notin> below subjects j" using ok below_self[of i subjects] by auto
  have rest: "stack_ok subjects (map fst stack) (i # visited)"
    using stack_ok_visit[OF _ other] ok by simp
  show ?case
  proof (cases "depth > bound")
    case True
    then have "frame_order subjects (unat bound) (i, depth) = []"
      by (simp add: frame_order_def word_less_nat_alt)
    then show ?thesis
      using 2(3)[OF s fresh True 2(5,6) rest] s fresh True by (simp add: listed_def)
  next
    case False
    then have le: "unat depth \<le> unat bound" by (simp add: word_less_nat_alt not_less)
    note step = frame_order_step[OF le 2(6), of subjects i]
    show ?thesis
    proof (cases "length (hr_nodes r) \<ge> unat lim")
      case True
      then show ?thesis using s fresh False by (simp add: listed_def)
    next
      case room: False
      let ?r = "r\<lparr>hr_max_depth_reached := max (hr_max_depth_reached r) depth,
        hr_nodes := hr_nodes r @ [node_of subjects s depth]\<rparr>"
      let ?kids = "map (\<lambda>c. (c, depth + 1)) (children_of subjects i)"
      have "stack_ok subjects (map fst (?kids @ stack)) (i # visited)"
      proof -
        have kids: "map fst ?kids = children_of subjects i" by (simp add: comp_def)
        have "below subjects c \<inter> below subjects j = {}" if "c \<in> set (children_of subjects i)" "j \<in> set (map fst stack)" for c j
        proof -
          have "below subjects c \<subseteq> below subjects i"
            using below_child children_are[OF 2(5)] that(1) by blast
          then show ?thesis using ok that(2) by auto
        qed
        then show ?thesis
          using children_stack_ok[OF 2(5), of i visited "children_of subjects i"] ok rest children_distinct[OF 2(5)]
          by (simp only: map_append kids stack_ok_append) simp
      qed
      from 2(4)[OF s fresh False room 2(5,6) this]
      have "listed (traverse subjects bound lim (?kids @ stack) (i # visited) ?r) = listed ?r @
          take (unat lim - length (hr_nodes ?r)) (concat (map (frame_order subjects (unat bound)) (?kids @ stack))) \<and>
        hr_cycles_detected (traverse subjects bound lim (?kids @ stack) (i # visited) ?r) = hr_cycles_detected ?r" .
      moreover have "listed ?r = listed r @ [(i, unat depth)]" by (simp add: listed_def node_of_def si)
      moreover have "unat lim - length (hr_nodes r) = Suc (unat lim - length (hr_nodes ?r))" using room by simp
      ultimately show ?thesis
        using s fresh False room by (simp add: step comp_def)
    qed
  qed
qed

lemma roots_stack_ok:
  assumes "distinct (ids_of subjects)"
  shows "stack_ok subjects (selected_roots q subjects) []"
proof -
  have root: "parent_in subjects i = None \<and> i \<in> set (ids_of subjects)" if i: "i \<in> set (selected_roots q subjects)" for i
  proof -
    obtain s where "s \<in> set subjects" "\<not> attached subjects s" "i = su_id (sb_identity s)"
      using i by (auto simp: selected_roots_def)
    then show ?thesis using subject_by_id_unique[OF assms] by (simp add: parent_in_def)
  qed
  have "distinct (selected_roots q subjects)"
    using assms unfolding selected_roots_def by (simp add: distinct_map inj_on_def)
  moreover have "below subjects i \<inter> below subjects j = {}"
    if "parent_in subjects i = None" "parent_in subjects j = None" "i \<noteq> j" for i j
  proof -
    have False if "climb (parent_in subjects) m y = Some a" "climb (parent_in subjects) n y = Some b"
        "m \<le> n" "a \<noteq> b" "parent_in subjects a = None" for m n y a b
      using climb_between[OF that(1-3)] that(4,5) by (cases "n - m") auto
    then show ?thesis using that unfolding below_def by auto (metis nle_le)
  qed
  moreover have "stack_ok subjects xs []"
    if "distinct xs" "\<forall>i\<in>set xs. parent_in subjects i = None \<and> i \<in> set (ids_of subjects)"
      "\<And>i j. parent_in subjects i = None \<Longrightarrow> parent_in subjects j = None \<Longrightarrow> i \<noteq> j \<Longrightarrow>
         below subjects i \<inter> below subjects j = {}" for xs
  proof -
    note apart = that(3)
    show ?thesis
    using that(1,2)
  proof (induction xs)
    case (Cons x xs)
    have "rooted subjects x" using Cons.prems unfolding rooted_def by (auto intro!: exI[of _ 0])
    moreover have "below subjects x \<inter> below subjects j = {}" if "j \<in> set xs" for j
      using Cons.prems that by (intro apart) auto
    ultimately show ?case using Cons by simp
  qed simp
  qed
  ultimately show ?thesis using root by blast
qed

lemma hierarchy_preorder:
  assumes "distinct (ids_of (sn_subjects s))" "effective (hq_max_depth q) (max_hierarchy_depth l) \<noteq> - 1"
  shows "listed (execute_hierarchy s q l) = take (unat (effective (hq_limit q) (max_query_results l)))
      (concat (map (\<lambda>i. preorder (sn_subjects s) (unat (effective (hq_max_depth q) (max_hierarchy_depth l))) i 0)
        (selected_roots q (sn_subjects s)))) \<and>
    hr_cycles_detected (execute_hierarchy s q l) = 0"
proof -
  have stack: "stack_ok (sn_subjects s) (map fst (map (\<lambda>i. (i, 0 :: 32 word)) (selected_roots q (sn_subjects s)))) []"
    using roots_stack_ok[OF assms(1)] by (simp add: comp_def)
  show ?thesis
    using traverse_preorder[OF assms stack, of "effective (hq_limit q) (max_query_results l)"]
    by (simp add: execute_hierarchy_def Let_def listed_def frame_order_def comp_def)
qed

text \<open>Every entity of the reference order hangs below its root, so an entity on a cycle is in none.\<close>

lemma preorder_below:
  "distinct (ids_of subjects) \<Longrightarrow> (y, e) \<in> set (preorder subjects k i d) \<Longrightarrow>
     \<exists>n. climb (parent_in subjects) n y = Some i \<and> e = d + n"
proof (induction k arbitrary: i d)
  case 0
  then show ?case by (auto intro: exI[of _ 0])
next
  case (Suc k)
  show ?case
  proof (cases "y = i \<and> e = d")
    case True
    then show ?thesis by (auto intro: exI[of _ 0])
  next
    case False
    then obtain c where c: "c \<in> set (children_of subjects i)" "(y, e) \<in> set (preorder subjects k c (d + 1))"
      using Suc.prems(2) by auto
    then obtain n where n: "climb (parent_in subjects) n y = Some c" "e = d + 1 + n"
      using Suc.IH[OF Suc.prems(1)] by blast
    have "climb (parent_in subjects) (n + 1) y = Some i"
      using n(1) children_are[OF Suc.prems(1)] c(1) by (intro climb_snoc) simp_all
    then show ?thesis using n(2) by (intro exI[of _ "n + 1"]) simp
  qed
qed

lemma snapshot_ids_distinct:
  assumes "snapshot_build rq = Some s"
  shows "distinct (ids_of (sn_subjects s))"
proof -
  let ?bs = "fst (collect_buckets rq)"
  let ?us = "map (\<lambda>e. build_subject (rq_policy rq) (snd e)) ?bs"
  have ok: "om_sorted ?bs" "\<forall>e\<in>set ?bs. bucket_ok rq e"
    using buckets_ok_collect[of rq] by (simp_all add: buckets_ok_def)
  have "ids_of ?us = map fst ?bs"
    using ok(2) by (auto simp: build_subject_facts bucket_ok_def)
  then have "distinct (ids_of ?us)" using om_sorted_distinct[OF ok(1)] by (simp only:)
  moreover have "distinct (ids_of (sort_key subject_order ?us)) \<longleftrightarrow> distinct (ids_of ?us)"
    by (rule mset_eq_imp_distinct_iff) (simp add: multiset.map_comp comp_def)
  ultimately show ?thesis by (simp add: snapshot_build_fields(1)[OF assms] build_body_fields)
qed

text \<open>An entity on a cycle of the observed topology is listed under no root.\<close>

lemma cycle_not_listed:
  assumes "distinct (ids_of (sn_subjects s))" "effective (hq_max_depth q) (max_hierarchy_depth l) \<noteq> - 1"
    and "climb (parent_in (sn_subjects s)) (Suc n) i = Some i"
  shows "i \<notin> fst ` set (listed (execute_hierarchy s q l))"
proof
  let ?up = "parent_in (sn_subjects s)"
  assume "i \<in> fst ` set (listed (execute_hierarchy s q l))"
  then obtain e root k where e: "(i, e) \<in> set (preorder (sn_subjects s) k root 0)"
      and root: "root \<in> set (selected_roots q (sn_subjects s))"
    unfolding hierarchy_preorder[OF assms(1,2), THEN conjunct1] by (fastforce dest: in_set_takeD)
  obtain m where m: "climb ?up m i = Some root" using preorder_below[OF assms(1) e] by blast
  obtain t where "t \<in> set (sn_subjects s)" "\<not> attached (sn_subjects s) t" "root = su_id (sb_identity t)"
    using root by (auto simp: selected_roots_def)
  then have "?up root = None" using subject_by_id_unique[OF assms(1)] by (simp add: parent_in_def)
  then have "rooted (sn_subjects s) i" using m unfolding rooted_def by blast
  then show False using rooted_acyclic[of "sn_subjects s" i "Suc n"] assms(3) by simp
qed

end
