(* ===== verification/Fab_Diff.thy ===== *)
theory Fab_Diff
  imports Fab_Query
begin

text \<open>
  \<^verbatim>\<open>diff.hpp\<close> and \<^verbatim>\<open>diff.cpp\<close>: the difference of two snapshots. A snapshot differs from itself in
  nothing, additions and removals mirror each other, and without truncation the reported
  changes are exactly the aspects whose truth, value, freshness or sources differ.
\<close>

section \<open>Comparing aspects\<close>

text \<open>
  The defaulted equality of values: reals are compared as doubles, so the two zeroes are equal
  and a value that is not a number differs from itself.
\<close>

definition real_is_nan :: "64 word \<Rightarrow> bool" where
  "real_is_nan x \<longleftrightarrow> \<not> real_is_finite x \<and> take_bit 52 x \<noteq> 0"

definition real_same :: "64 word \<Rightarrow> 64 word \<Rightarrow> bool" where
  "real_same x y \<longleftrightarrow> \<not> real_is_nan x \<and> \<not> real_is_nan y \<and>
     (x = y \<or> take_bit 63 x = 0 \<and> take_bit 63 y = 0)"

fun same_value :: "fvalue \<Rightarrow> fvalue \<Rightarrow> bool"
and same_values :: "fvalue list \<Rightarrow> fvalue list \<Rightarrow> bool"
and same_entries :: "(string \<times> fvalue) list \<Rightarrow> (string \<times> fvalue) list \<Rightarrow> bool" where
  "same_value (VReal x) (VReal y) = real_same x y"
| "same_value (VList xs) (VList ys) = same_values xs ys"
| "same_value (VMap xs) (VMap ys) = same_entries xs ys"
| "same_value v w = (v = w)"
| "same_values [] [] = True"
| "same_values (v # vs) (w # ws) = (same_value v w \<and> same_values vs ws)"
| "same_values _ _ = False"
| "same_entries [] [] = True"
| "same_entries ((k, v) # vs) ((l, w) # ws) = (k = l \<and> same_value v w \<and> same_entries vs ws)"
| "same_entries _ _ = False"

definition same_optional :: "fvalue option \<Rightarrow> fvalue option \<Rightarrow> bool" where
  "same_optional x y = (case (x, y) of
     (None, None) \<Rightarrow> True | (Some v, Some w) \<Rightarrow> same_value v w | _ \<Rightarrow> False)"

type_synonym freshness_signature = "(source_id \<times> freshness_verdict) list"

definition freshness_signature :: "aspect_state \<Rightarrow> freshness_signature" where
  "freshness_signature a = remdups_adj (sort (map (\<lambda>c. (rc_source c, rc_freshness c)) (as_claims a)))"

section \<open>Changes\<close>

record aspect_change =
  ac_subject :: subject_identity
  ac_aspect :: aspect_id
  ac_domain :: fabric_domain
  ac_before :: truth_state
  ac_after :: truth_state
  ac_value_before :: "fvalue option"
  ac_value_after :: "fvalue option"
  ac_sources_added :: "source_id list"
  ac_sources_removed :: "source_id list"
  ac_freshness_changed :: bool

record source_delta =
  dl_id :: source_id
  dl_added :: bool
  dl_removed :: bool
  dl_incarnation_changed :: bool
  dl_before_incarnation :: incarnation_id
  dl_after_incarnation :: incarnation_id
  dl_before_freshness :: freshness_verdict
  dl_after_freshness :: freshness_verdict

record snapshot_diff =
  df_before_id :: digest256
  df_after_id :: digest256
  df_before_generation :: generation_id
  df_after_generation :: generation_id
  df_before_epoch :: epoch_id
  df_after_epoch :: epoch_id
  df_before_evaluation :: time_point
  df_after_evaluation :: time_point
  df_generation_changed :: bool
  df_epoch_changed :: bool
  df_restart_observed :: bool
  df_restarts_between :: "32 word"
  df_subjects_added :: "subject_identity list"
  df_subjects_removed :: "subject_identity list"
  df_changes :: "aspect_change list"
  df_source_changes :: "source_delta list"
  df_truncated :: bool
  df_digest :: digest256

definition encode_change :: "aspect_change \<Rightarrow> byte list" where
  "encode_change c =
     enc_u128 (entity_value (su_id (ac_subject c))) @ enc_text (typed_text (ac_subject c)) @
     enc_text (aspect_value (ac_aspect c)) @ enc_u8 (of_nat (truth_number (ac_before c))) @
     enc_u8 (of_nat (truth_number (ac_after c))) @
     enc_bool (ac_value_before c \<noteq> None) @
     (case ac_value_before c of None \<Rightarrow> [] | Some v \<Rightarrow> value_encode v) @
     enc_bool (ac_value_after c \<noteq> None) @
     (case ac_value_after c of None \<Rightarrow> [] | Some v \<Rightarrow> value_encode v) @
     enc_size (length (ac_sources_added c)) @ concat (map (\<lambda>s. enc_u128 (id_value s)) (ac_sources_added c)) @
     enc_size (length (ac_sources_removed c)) @ concat (map (\<lambda>s. enc_u128 (id_value s)) (ac_sources_removed c)) @
     enc_bool (ac_freshness_changed c)"

text \<open>
  The change of one aspect against the aspect it had before, if it had it; \<open>None\<close> when nothing
  that is compared changed. Both source lists are sorted, so the set difference is a filter.
\<close>

definition aspect_change_of ::
  "subject_identity \<Rightarrow> aspect_state option \<Rightarrow> aspect_state \<Rightarrow> aspect_change option" where
  "aspect_change_of subject old a =
     (let before_truth = (case old of Some x \<Rightarrow> as_truth x | None \<Rightarrow> TS_Unknown);
          before_value = (case old of Some x \<Rightarrow> as_agreed_value x | None \<Rightarrow> None);
          before_signature = (case old of Some x \<Rightarrow> freshness_signature x | None \<Rightarrow> []);
          before_sources = (case old of Some x \<Rightarrow> source_set (as_claims x) | None \<Rightarrow> []);
          after_sources = source_set (as_claims a);
          truth_changed = (before_truth \<noteq> as_truth a);
          value_changed = (\<not> same_optional before_value (as_agreed_value a));
          freshness_changed = (before_signature \<noteq> freshness_signature a)
      in if \<not> truth_changed \<and> \<not> value_changed \<and> \<not> freshness_changed \<and> before_sources = after_sources
      then None
      else Some \<lparr>ac_subject = subject, ac_aspect = as_aspect a, ac_domain = as_domain a,
        ac_before = before_truth, ac_after = as_truth a, ac_value_before = before_value,
        ac_value_after = as_agreed_value a,
        ac_sources_added = filter (\<lambda>s. s \<notin> set before_sources) after_sources,
        ac_sources_removed = filter (\<lambda>s. s \<notin> set after_sources) before_sources,
        ac_freshness_changed = freshness_changed\<rparr>)"

definition find_old_aspect :: "subject_state \<Rightarrow> aspect_id \<Rightarrow> aspect_state option" where
  "find_old_aspect previous i =
     find (\<lambda>a. aspect_value (as_aspect a) = aspect_value i) (sb_aspects previous)"

definition find_old_subject :: "subject_state list \<Rightarrow> entity_id \<Rightarrow> subject_state option" where
  "find_old_subject subjects i = find (\<lambda>s. su_id (sb_identity s) = i) subjects"

text \<open>The loop over the aspects of one subject; \<open>True\<close> when it stopped at the bound.\<close>

fun diff_aspects ::
  "nat \<Rightarrow> subject_identity \<Rightarrow> subject_state \<Rightarrow> aspect_state list \<Rightarrow> aspect_change list \<Rightarrow> aspect_change list \<times> bool" where
  "diff_aspects bound subject previous [] changes = (changes, False)"
| "diff_aspects bound subject previous (a # rest) changes =
     (case aspect_change_of subject (find_old_aspect previous (as_aspect a)) a of
        None \<Rightarrow> diff_aspects bound subject previous rest changes
      | Some c \<Rightarrow>
          if length changes \<ge> bound then (changes, True)
          else diff_aspects bound subject previous rest (changes @ [c]))"

text \<open>The loop over the subjects: subjects added, changes, and whether it was cut short.\<close>

fun diff_subjects ::
  "nat \<Rightarrow> subject_state list \<Rightarrow> subject_state list \<Rightarrow> subject_identity list \<Rightarrow> aspect_change list \<Rightarrow>
     subject_identity list \<times> aspect_change list \<times> bool" where
  "diff_subjects bound before [] added changes = (added, changes, False)"
| "diff_subjects bound before (s # rest) added changes =
     (case find_old_subject before (su_id (sb_identity s)) of
        None \<Rightarrow> diff_subjects bound before rest (added @ [sb_identity s]) changes
      | Some previous \<Rightarrow>
          (case diff_aspects bound (sb_identity s) previous (sb_aspects s) changes of
             (changes, True) \<Rightarrow> (added, changes, True)
           | (changes, False) \<Rightarrow> diff_subjects bound before rest added changes))"

definition removed_subjects :: "subject_state list \<Rightarrow> subject_state list \<Rightarrow> subject_identity list" where
  "removed_subjects before after = map sb_identity
     (filter (\<lambda>s. find_old_subject after (su_id (sb_identity s)) = None) before)"

section \<open>Sources\<close>

definition empty_delta :: "source_id \<Rightarrow> source_delta" where
  "empty_delta i = \<lparr>dl_id = i, dl_added = False, dl_removed = False, dl_incarnation_changed = False,
     dl_before_incarnation = BasicId nil_u128, dl_after_incarnation = BasicId nil_u128,
     dl_before_freshness = FV_Stale, dl_after_freshness = FV_Stale\<rparr>"

definition find_summary :: "source_summary list \<Rightarrow> source_id \<Rightarrow> source_summary option" where
  "find_summary sources i = find (\<lambda>s. ss_id s = i) sources"

definition source_delta_of :: "source_summary list \<Rightarrow> source_summary \<Rightarrow> source_delta option" where
  "source_delta_of before s =
     (case find_summary before (ss_id s) of
        None \<Rightarrow> Some ((empty_delta (ss_id s))\<lparr>dl_added := True,
          dl_after_incarnation := si_id (ss_incarnation s), dl_after_freshness := ss_freshness s\<rparr>)
      | Some old \<Rightarrow>
          (let changed = (si_id (ss_incarnation old) \<noteq> si_id (ss_incarnation s))
           in if \<not> changed \<and> ss_freshness old = ss_freshness s then None
           else Some ((empty_delta (ss_id s))\<lparr>dl_incarnation_changed := changed,
             dl_before_incarnation := si_id (ss_incarnation old),
             dl_after_incarnation := si_id (ss_incarnation s),
             dl_before_freshness := ss_freshness old, dl_after_freshness := ss_freshness s\<rparr>)))"

definition delta_key where
  "delta_key d = (dl_id d, dl_added d, dl_removed d, dl_incarnation_changed d, dl_before_incarnation d,
     dl_after_incarnation d, dl_before_freshness d, dl_after_freshness d)"

definition source_changes :: "source_summary list \<Rightarrow> source_summary list \<Rightarrow> source_delta list" where
  "source_changes before after =
     sort_key delta_key (List.map_filter (source_delta_of before) after @
       map (\<lambda>s. (empty_delta (ss_id s))\<lparr>dl_removed := True,
           dl_before_incarnation := si_id (ss_incarnation s), dl_before_freshness := ss_freshness s\<rparr>)
         (filter (\<lambda>s. find_summary after (ss_id s) = None) before))"

section \<open>The difference\<close>

definition diff_snapshots :: "snapshot \<Rightarrow> snapshot \<Rightarrow> limits \<Rightarrow> snapshot_diff" where
  "diff_snapshots before after l =
     (let (added, changes, truncated) =
            diff_subjects (unat (max_diff_changes l)) (sn_subjects before) (sn_subjects after) [] [];
          removed = removed_subjects (sn_subjects before) (sn_subjects after)
      in \<lparr>df_before_id = sn_id before, df_after_id = sn_id after,
          df_before_generation = sn_generation before, df_after_generation = sn_generation after,
          df_before_epoch = sn_epoch before, df_after_epoch = sn_epoch after,
          df_before_evaluation = sn_evaluation_time before, df_after_evaluation = sn_evaluation_time after,
          df_generation_changed = (sn_generation before \<noteq> sn_generation after),
          df_epoch_changed = (sn_epoch before \<noteq> sn_epoch after),
          df_restart_observed = (sn_restart_epoch before \<noteq> sn_restart_epoch after),
          df_restarts_between = (if sn_restart_count after \<ge> sn_restart_count before
            then sn_restart_count after - sn_restart_count before else 0),
          df_subjects_added = added, df_subjects_removed = removed, df_changes = changes,
          df_source_changes = source_changes (sn_sources before) (sn_sources after),
          df_truncated = truncated,
          df_digest = sha256 (enc_tag ''snapshot-diff'' @ enc_u64 (sn_generation before) @
            enc_u64 (sn_generation after) @ concat (map encode_change changes) @
            enc_size (length changes) @ enc_size (length added) @ enc_size (length removed))\<rparr>)"

section \<open>Which changes are reported\<close>

definition subject_changes :: "subject_state list \<Rightarrow> subject_state \<Rightarrow> aspect_change list" where
  "subject_changes before s =
     (case find_old_subject before (su_id (sb_identity s)) of
        None \<Rightarrow> []
      | Some previous \<Rightarrow> List.map_filter (\<lambda>a. aspect_change_of (sb_identity s)
          (find_old_aspect previous (as_aspect a)) a) (sb_aspects s))"

definition all_changes :: "subject_state list \<Rightarrow> subject_state list \<Rightarrow> aspect_change list" where
  "all_changes before after = concat (map (subject_changes before) after)"

definition added_subjects :: "subject_state list \<Rightarrow> subject_state list \<Rightarrow> subject_identity list" where
  "added_subjects before after = map sb_identity
     (filter (\<lambda>s. find_old_subject before (su_id (sb_identity s)) = None) after)"

lemma map_filter_Cons: "List.map_filter f (x # xs) = (case f x of None \<Rightarrow> [] | Some y \<Rightarrow> [y]) @ List.map_filter f xs"
  by (simp split: option.split)

lemma diff_aspects_take:
  "length changes \<le> bound \<Longrightarrow> diff_aspects bound subject previous as changes =
     (let found = List.map_filter (\<lambda>a. aspect_change_of subject (find_old_aspect previous (as_aspect a)) a) as
      in (take bound (changes @ found), bound < length changes + length found))"
proof (induction bound subject previous as changes rule: diff_aspects.induct)
  case (2 bound subject previous a rest changes)
  then show ?case by (auto simp: Let_def map_filter_Cons take_Cons' split: option.split)
qed (simp add: List.map_filter_simps)

lemma diff_subjects_take:
  "length changes \<le> bound \<Longrightarrow> diff_subjects bound before after added changes = (added', changes', truncated) \<Longrightarrow>
     changes' = take bound (changes @ all_changes before after) \<and>
     truncated = (bound < length changes + length (all_changes before after)) \<and>
     (truncated \<or> added' = added @ added_subjects before after)"
proof (induction bound before after added changes rule: diff_subjects.induct)
  case (1 bound before added changes)
  then show ?case by (auto simp: all_changes_def added_subjects_def)
next
  case (2 bound before s rest added changes)
  show ?case
  proof (cases "find_old_subject before (su_id (sb_identity s))")
    case None
    then show ?thesis
      using 2(1)[OF None 2(3)] 2(4) by (auto simp: all_changes_def subject_changes_def added_subjects_def)
  next
    case (Some previous)
    let ?found = "subject_changes before s"
    have found: "diff_aspects bound (sb_identity s) previous (sb_aspects s) changes =
        (take bound (changes @ ?found), bound < length changes + length ?found)"
      using diff_aspects_take[OF 2(3), of "sb_identity s" previous "sb_aspects s"] Some
      by (simp add: Let_def subject_changes_def)
    show ?thesis
    proof (cases "bound < length changes + length ?found")
      case True
      then show ?thesis using 2(4) Some found by (auto simp: all_changes_def)
    next
      case False
      then have short: "diff_aspects bound (sb_identity s) previous (sb_aspects s) changes = (changes @ ?found, False)"
        using found by simp
      show ?thesis
        using 2(2)[OF Some short[symmetric] refl] 2(4) Some short False
        by (auto simp: all_changes_def added_subjects_def add.assoc)
    qed
  qed
qed

lemma diff_snapshots_run:
  assumes "diff_subjects (unat (max_diff_changes l)) (sn_subjects b) (sn_subjects a) [] [] = (added, changes, truncated)"
  shows "df_changes (diff_snapshots b a l) = changes \<and> df_truncated (diff_snapshots b a l) = truncated \<and>
    df_subjects_added (diff_snapshots b a l) = added"
  using assms by (simp add: diff_snapshots_def Let_def)

lemma diff_changes_exact:
  "df_changes (diff_snapshots b a l) = take (unat (max_diff_changes l)) (all_changes (sn_subjects b) (sn_subjects a)) \<and>
   df_truncated (diff_snapshots b a l) =
     (unat (max_diff_changes l) < length (all_changes (sn_subjects b) (sn_subjects a))) \<and>
   (df_truncated (diff_snapshots b a l) \<or>
     df_subjects_added (diff_snapshots b a l) = added_subjects (sn_subjects b) (sn_subjects a))"
proof -
  obtain added changes truncated where
    d: "diff_subjects (unat (max_diff_changes l)) (sn_subjects b) (sn_subjects a) [] [] = (added, changes, truncated)"
    by (metis prod_cases3)
  show ?thesis using diff_subjects_take[OF _ d] diff_snapshots_run[OF d] by auto
qed

text \<open>Additions one way are removals the other way.\<close>

lemma diff_mirror:
  "df_truncated (diff_snapshots a b l) \<or>
   df_subjects_removed (diff_snapshots b a l) = df_subjects_added (diff_snapshots a b l)"
  using diff_changes_exact[of a b l]
  by (auto simp: diff_snapshots_def[of b a] Let_def removed_subjects_def added_subjects_def case_prod_beta)

subsection \<open>A snapshot against itself\<close>

lemma same_values_refl: "(\<And>v. v \<in> set vs \<Longrightarrow> same_value v v) \<Longrightarrow> same_values vs vs"
  by (induction vs) auto

lemma same_entries_refl: "\<forall>e\<in>set es. same_value (snd e) (snd e) \<Longrightarrow> same_entries es es"
  by (induction es) auto

lemma same_value_refl: "value_wf v \<Longrightarrow> same_value v v"
proof (induction v)
  case (VReal x)
  then show ?case by (simp add: real_same_def real_is_nan_def)
next
  case (VList vs)
  then show ?case by (auto simp: list_all_iff intro: same_values_refl)
next
  case (VMap es)
  have "same_value w w" if "(k, w) \<in> set es" for k w
    using VMap.IH[OF that] VMap.prems that by (auto simp: list_all_iff)
  then show ?case by (auto intro: same_entries_refl)
qed simp_all

lemma find_self:
  "distinct (map f xs) \<Longrightarrow> x \<in> set xs \<Longrightarrow> find (\<lambda>y. f y = f x) xs = Some x"
  by (induction xs) auto

lemma aspect_unchanged:
  assumes "\<And>v. as_agreed_value a = Some v \<Longrightarrow> value_wf v"
  shows "aspect_change_of subject (Some a) a = None"
  using assms same_value_refl
  by (cases "as_agreed_value a") (simp_all add: aspect_change_of_def same_optional_def Let_def)

text \<open>What the comparison relies on: every name occurs once and the values are well formed.\<close>

definition comparable :: "snapshot \<Rightarrow> bool" where
  "comparable s \<longleftrightarrow> distinct (map (\<lambda>t. su_id (sb_identity t)) (sn_subjects s)) \<and>
     distinct (map ss_id (sn_sources s)) \<and>
     (\<forall>t\<in>set (sn_subjects s). distinct (map (\<lambda>a. aspect_value (as_aspect a)) (sb_aspects t)) \<and>
        (\<forall>a\<in>set (sb_aspects t). \<forall>v. as_agreed_value a = Some v \<longrightarrow> value_wf v))"

lemma diff_self:
  assumes "comparable s"
  shows "df_changes (diff_snapshots s s l) = [] \<and> df_subjects_added (diff_snapshots s s l) = [] \<and>
    df_subjects_removed (diff_snapshots s s l) = [] \<and> df_source_changes (diff_snapshots s s l) = [] \<and>
    \<not> df_truncated (diff_snapshots s s l)"
proof -
  have ids: "find_old_subject (sn_subjects s) (su_id (sb_identity t)) = Some t" if "t \<in> set (sn_subjects s)" for t
    using assms that find_self[of "\<lambda>t. su_id (sb_identity t)" "sn_subjects s" t] by (simp add: comparable_def find_old_subject_def)
  have "subject_changes (sn_subjects s) t = []" if t: "t \<in> set (sn_subjects s)" for t
  proof -
    have "aspect_change_of (sb_identity t) (find_old_aspect t (as_aspect a)) a = None" if "a \<in> set (sb_aspects t)" for a
    proof -
      have "find_old_aspect t (as_aspect a) = Some a"
        using assms t that find_self[of "\<lambda>a. aspect_value (as_aspect a)" "sb_aspects t" a]
        by (simp add: comparable_def find_old_aspect_def)
      then show ?thesis using assms t that by (simp add: aspect_unchanged comparable_def)
    qed
    then show ?thesis
      using ids[OF t] by (auto simp: subject_changes_def List.map_filter_def filter_empty_conv)
  qed
  then have none: "all_changes (sn_subjects s) (sn_subjects s) = []" by (simp add: all_changes_def)
  have gone: "added_subjects (sn_subjects s) (sn_subjects s) = []" using ids
    by (simp add: added_subjects_def filter_empty_conv)
  have "find_summary (sn_sources s) (ss_id x) = Some x" if "x \<in> set (sn_sources s)" for x
    using assms that find_self[of ss_id "sn_sources s" x] by (simp add: comparable_def find_summary_def)
  then have "source_changes (sn_sources s) (sn_sources s) = []"
    by (simp add: source_changes_def source_delta_of_def List.map_filter_def filter_empty_conv Let_def)
  then show ?thesis
    using diff_changes_exact[of s s l] none gone
    by (auto simp: diff_snapshots_def removed_subjects_def added_subjects_def Let_def case_prod_beta)
qed

subsection \<open>Snapshots that were built\<close>

lemma agreed_is_known:
  "te_agreed_value (evaluate_truth aspect claims p) = Some v \<Longrightarrow> te_truth (evaluate_truth aspect claims p) = TS_Known"
  by (auto simp: evaluate_truth_def Let_def split: if_splits)

lemma snapshot_agreed_value:
  assumes "snapshot_build rq = Some s" "t \<in> set (sn_subjects s)" "a \<in> set (sb_aspects t)"
    and "as_agreed_value a = Some v"
  shows "\<exists>r\<in>set (rq_records rq). \<exists>cl\<in>set (ob_claims (or_observation r)). cl_aspect cl = as_aspect a \<and> cl_value cl = v"
proof -
  let ?e = "evaluate_truth (as_aspect a) (as_claims a) (p_truth (rq_policy rq))"
  have v: "te_agreed_value ?e = Some v" using snapshot_aspect_truth(2)[OF assms(1-3)] assms(4) by simp
  obtain c where c: "c \<in> set (as_claims a)" "rc_value c = v"
    using known_agreed[OF agreed_is_known[OF v]] v by auto
  then show ?thesis
    using snapshot_claim_origin[OF assms(1-3) c(1)] by (fastforce simp: make_claim_record_def Let_def)
qed

text \<open>Every aspect that occurs in a bucket is the aspect of a claim of some record.\<close>

definition claimed_aspects :: "observation_record list \<Rightarrow> aspect_id set" where
  "claimed_aspects rs = {cl_aspect c | r c. r \<in> set rs \<and> c \<in> set (ob_claims (or_observation r))}"

definition bucket_aspects :: "bucket_map \<Rightarrow> aspect_id set" where
  "bucket_aspects bs = {a. \<exists>e\<in>set bs. a \<in> fst ` set (bk_aspects (snd e))}"

lemma bucket_aspects_put:
  "bucket_aspects (om_put i b bs) \<subseteq> fst ` set (bk_aspects b) \<union> bucket_aspects bs"
  using om_put_set[of i b bs] unfolding bucket_aspects_def by fastforce

lemma add_claim_aspects:
  "bucket_aspects (fst (add_claim rq r c st)) \<subseteq> insert (cl_aspect c) (bucket_aspects (fst st))"
proof -
  obtain bs t where st: "st = (bs, t)" by fastforce
  let ?i = "su_id (cl_subject c)"
  have stored: "fst ` set (bk_aspects (store_claim rq r c b)) = insert (cl_aspect c) (fst ` set (bk_aspects b))" for b
    by (simp add: store_claim_def Let_def om_put_keys)
  show ?thesis
  proof (cases "map_of bs ?i")
    case None
    then show ?thesis
      using bucket_aspects_put[of ?i "store_claim rq r c \<lparr>bk_identity = cl_subject c, bk_aspects = []\<rparr>" bs]
      by (auto simp: add_claim_def st stored)
  next
    case (Some b)
    then have "(?i, b) \<in> set bs" by (rule map_of_SomeD)
    then have "fst ` set (bk_aspects b) \<subseteq> bucket_aspects bs" unfolding bucket_aspects_def by force
    then have "bucket_aspects (om_put ?i (store_claim rq r c b) bs) \<subseteq> insert (cl_aspect c) (bucket_aspects bs)"
      using bucket_aspects_put[of ?i "store_claim rq r c b" bs] unfolding stored by blast
    then show ?thesis using Some by (simp add: add_claim_def st)
  qed
qed

lemma collected_aspects: "bucket_aspects (fst (collect_buckets rq)) \<subseteq> claimed_aspects (rq_records rq)"
proof -
  have claims: "bucket_aspects (fst (fold (add_claim rq r) cs st)) \<subseteq> cl_aspect ` set cs \<union> bucket_aspects (fst st)"
    for r cs st
  proof (induction cs arbitrary: st)
    case (Cons c cs)
    then show ?case using add_claim_aspects[of rq r c st] by fastforce
  qed simp
  have "bucket_aspects (fst (fold (add_record rq) rs st)) \<subseteq> claimed_aspects rs \<union> bucket_aspects (fst st)" for rs st
  proof (induction rs arbitrary: st)
    case (Cons r rs)
    have "bucket_aspects (fst (add_record rq r st)) \<subseteq>
        cl_aspect ` set (ob_claims (or_observation r)) \<union> bucket_aspects (fst st)"
      using claims by (simp add: add_record_def)
    moreover have "claimed_aspects (r # rs) = cl_aspect ` set (ob_claims (or_observation r)) \<union> claimed_aspects rs"
      by (auto simp: claimed_aspects_def)
    ultimately show ?case using Cons[of "add_record rq r st"] by auto
  qed (simp add: bucket_aspects_def claimed_aspects_def)
  from this[of "canonical_order (rq_records rq)" "([], False)"] show ?thesis
    by (simp add: collect_buckets_def bucket_aspects_def claimed_aspects_def canonical_order_def)
qed

text \<open>
  A snapshot built from well formed evidence is comparable: the domain of an aspect is a
  function of its name, so no name occurs twice within a subject.
\<close>

lemma built_comparable:
  assumes "snapshot_build rq = Some s" "distinct (map ss_id (rq_sources rq))"
    and "\<forall>r\<in>set (rq_records rq). \<forall>c\<in>set (ob_claims (or_observation r)).
      wf_aspect (cl_aspect c) \<and> value_wf (cl_value c)"
  shows "comparable s"
proof -
  have "mset (map ss_id (sort_key ss_id (rq_sources rq))) = mset (map ss_id (rq_sources rq))" by simp
  then have sources: "distinct (map ss_id (sn_sources s))"
    using assms(2) mset_eq_imp_distinct_iff snapshot_build_fields(2)[OF assms(1)] build_body_fields(2) by metis
  have aspects: "distinct (map (\<lambda>a. aspect_value (as_aspect a)) (sb_aspects t))" if t: "t \<in> set (sn_subjects s)" for t
  proof -
    obtain i b where b: "(i, b) \<in> set (fst (collect_buckets rq))" "t = build_subject (rq_policy rq) b" "bucket_ok rq (i, b)"
      using snapshot_subject[OF assms(1) t] .
    have "fst ` set (bk_aspects b) \<subseteq> claimed_aspects (rq_records rq)"
      using collected_aspects[of rq] b(1) unfolding bucket_aspects_def by force
    then have "\<forall>x\<in>fst ` set (bk_aspects b). aspect_parse (aspect_value x) = Inr x"
      using assms(3) by (auto simp: claimed_aspects_def wf_aspect_def)
    then have "inj_on aspect_value (fst ` set (bk_aspects b))" unfolding inj_on_def by (metis sum.inject(2))
    moreover have "distinct (map fst (bk_aspects b))" using b(3) by (simp add: bucket_ok_def om_sorted_distinct)
    ultimately have "distinct (map aspect_value (map fst (bk_aspects b)))" by (simp only: distinct_map list.set_map)
    then show ?thesis by (simp add: b(2) build_subject_facts build_aspect_def Let_def split_beta comp_def)
  qed
  have "value_wf v" if "t \<in> set (sn_subjects s)" "a \<in> set (sb_aspects t)" "as_agreed_value a = Some v" for t a v
    using snapshot_agreed_value[OF assms(1) that] assms(3) by auto
  then show ?thesis
    using snapshot_ids_distinct[OF assms(1)] sources aspects unfolding comparable_def by blast
qed

end
