(* ===== verification/Fab_Number.thy ===== *)
theory Fab_Number
  imports Fab_Status
begin

text \<open>
  The conversions of doubles that \<^verbatim>\<open>json.cpp\<close> takes from the standard library, on the 64 bits of
  a double: \<^verbatim>\<open>std::from_chars\<close> rounds the decimal number to the nearest double, ties to even,
  and \<^verbatim>\<open>std::to_chars\<close> writes the shortest text that reads back. All arithmetic is exact, on
  natural numbers: a magnitude is a multiple of the least positive double. The result:
  reading what was written gives the double back.
\<close>

section \<open>Magnitudes\<close>

text \<open>
  The magnitude of a double whose bits without the sign are \<open>b\<close>, in units of 2 to the -1074. The
  formula also covers the bits of infinity, where it gives the next power of two.
\<close>

definition unit_exponent :: nat where
  "unit_exponent = 1074"

definition units :: "nat \<Rightarrow> nat" where
  "units b = (let e = b div 2 ^ 52; f = b mod 2 ^ 52 in if e = 0 then f else (f + 2 ^ 52) * 2 ^ (e - 1))"

fun bit_length :: "nat \<Rightarrow> nat" where
  "bit_length n = (if n = 0 then 0 else Suc (bit_length (n div 2)))"

declare bit_length.simps [simp del]

text \<open>The greatest double that is not above a number of units.\<close>

definition units_floor :: "nat \<Rightarrow> nat" where
  "units_floor q =
     (if q < 2 ^ 52 then q
      else let s = bit_length q - 53 in (s + 1) * 2 ^ 52 + (q div 2 ^ s - 2 ^ 52))"

text \<open>Rounding a fraction of units to the nearest double, ties to even.\<close>

definition nearest :: "nat \<Rightarrow> nat \<Rightarrow> nat" where
  "nearest num den =
     (let b = units_floor (num div den); middle = (units b + units (b + 1)) * den
      in if 2 * num < middle then b else if middle < 2 * num then b + 1
      else if even b then b else b + 1)"

definition nearest_decimal :: "nat \<Rightarrow> int \<Rightarrow> nat" where
  "nearest_decimal d t = nearest (d * 10 ^ nat t * 2 ^ unit_exponent) (10 ^ nat (- t))"

section \<open>Reading\<close>

datatype number_reading = Reading "64 word" | Out_of_range | No_number

definition decimal_reading :: "string \<Rightarrow> nat" where
  "decimal_reading ds = foldl (\<lambda>v ch. v * 10 + digit_value ch) 0 ds"

definition infinity_bits :: nat where
  "infinity_bits = 0x7FF0000000000000"

definition sign_bits :: "bool \<Rightarrow> 64 word" where
  "sign_bits neg = (if neg then push_bit 63 1 else 0)"

definition round_reading :: "bool \<Rightarrow> nat \<Rightarrow> int \<Rightarrow> number_reading" where
  "round_reading neg d t =
     (let b = nearest_decimal d t
      in if infinity_bits \<le> b \<or> b = 0 \<and> d \<noteq> 0 then Out_of_range else Reading (sign_bits neg OR of_nat b))"

definition split_sign :: "string \<Rightarrow> bool \<times> string" where
  "split_sign s = (case s of [] \<Rightarrow> (False, s) | ch # r \<Rightarrow> if ch = CHR ''-'' then (True, r) else (False, s))"

text \<open>The digits after a decimal point, and the exponent, each when it is there.\<close>

definition read_fraction :: "string \<Rightarrow> string \<times> string" where
  "read_fraction s = (case s of [] \<Rightarrow> ([], s) | ch # r \<Rightarrow>
     if ch = CHR ''.'' then (takeWhile is_digit_char r, dropWhile is_digit_char r) else ([], s))"

definition read_exponent :: "string \<Rightarrow> int \<times> string" where
  "read_exponent s = (case s of [] \<Rightarrow> (0, s) | ch # r \<Rightarrow>
     if ch = CHR ''e'' \<or> ch = CHR ''E''
     then let (neg, r) = (case r of CHR ''+'' # q \<Rightarrow> (False, q) | _ \<Rightarrow> split_sign r);
              ds = takeWhile is_digit_char r
          in if ds = [] then (0, s)
             else ((if neg then - int (decimal_reading ds) else int (decimal_reading ds)), dropWhile is_digit_char r)
     else (0, s))"

definition from_chars_double :: "string \<Rightarrow> number_reading \<times> string" where
  "from_chars_double s =
     (let (neg, s1) = split_sign s;
          whole = takeWhile is_digit_char s1;
          (fraction, s2) = read_fraction (dropWhile is_digit_char s1);
          (ex, s3) = read_exponent s2
      in if whole = [] \<and> fraction = [] then (No_number, s)
      else (round_reading neg (decimal_reading (whole @ fraction)) (ex - int (length fraction)), s3))"

section \<open>Writing\<close>

text \<open>The position of the decimal point: the magnitude is below 10 to it, and not below a tenth of that.\<close>

definition decimal_point :: "nat \<Rightarrow> int" where
  "decimal_point b = int (length (nat_text (units b * 10 ^ 400 div 2 ^ unit_exponent))) - 400"

text \<open>The two decimals of \<open>n\<close> digits around the magnitude, the nearer one first.\<close>

definition decimals :: "nat \<Rightarrow> nat \<Rightarrow> (nat \<times> int) list" where
  "decimals b n =
     (let t = decimal_point b - int n;
          num = units b * 10 ^ nat (- t); den = 2 ^ unit_exponent * 10 ^ nat t; d = num div den
      in if 2 * (num mod den) < den \<or> 2 * (num mod den) = den \<and> even d
         then [(d, t), (d + 1, t)] else [(d + 1, t), (d, t)])"

fun strip_zeros :: "nat \<Rightarrow> int \<Rightarrow> nat \<times> int" where
  "strip_zeros d t = (if 0 < d \<and> d mod 10 = 0 then strip_zeros (d div 10) (t + 1) else (d, t))"

declare strip_zeros.simps [simp del]

text \<open>
  The shortest decimal that reads back. Seventeen digits are enough for any double; the last
  case, all digits of the magnitude, is never needed.
\<close>

definition shortest :: "nat \<Rightarrow> nat \<times> int" where
  "shortest b =
     (case find (\<lambda>(d, t). 0 < d \<and> nearest_decimal d t = b) (concat (map (decimals b) [1..<18])) of
        Some (d, t) \<Rightarrow> strip_zeros d t
      | None \<Rightarrow> (units b * 5 ^ unit_exponent, - int unit_exponent))"

definition scientific_text :: "nat \<Rightarrow> int \<Rightarrow> string" where
  "scientific_text d t =
     (let ds = nat_text d; x = t + int (length ds) - 1; xs = nat_text (nat \<bar>x\<bar>)
      in hd ds # (if tl ds = [] then [] else CHR ''.'' # tl ds) @ CHR ''e'' #
         (if x < 0 then CHR ''-'' else CHR ''+'') # (if length xs < 2 then CHR ''0'' # xs else xs))"

definition fixed_text :: "nat \<Rightarrow> nat \<Rightarrow> int \<Rightarrow> string" where
  "fixed_text b d t =
     (let ds = nat_text d; places = nat (- t)
      in if 0 \<le> t
         then nat_text (if 2 ^ unit_exponent dvd units b then units b div 2 ^ unit_exponent else d * 10 ^ nat t)
         else if places < length ds
         then take (length ds - places) ds @ CHR ''.'' # drop (length ds - places) ds
         else ''0.'' @ replicate (places - length ds) CHR ''0'' @ ds)"

text \<open>Infinities and NaNs, which no document holds, are written by name.\<close>

definition magnitude_text :: "nat \<Rightarrow> string" where
  "magnitude_text b =
     (if b = infinity_bits then ''inf'' else if infinity_bits < b then ''nan''
      else if b = 0 then ''0''
      else let (d, t) = shortest b
        in if length (fixed_text b d t) \<le> length (scientific_text d t)
           then fixed_text b d t else scientific_text d t)"

definition to_chars_double :: "64 word \<Rightarrow> string" where
  "to_chars_double x = (if bit x 63 then ''-'' else []) @ magnitude_text (unat (take_bit 63 x))"

section \<open>Rounding a double gives the double\<close>

lemma bit_length_eq: "2 ^ k \<le> n \<Longrightarrow> n < 2 ^ Suc k \<Longrightarrow> bit_length n = Suc k"
proof (induction k arbitrary: n)
  case 0
  then have "n = 1" by simp
  then show ?case by (simp add: bit_length.simps)
next
  case (Suc k)
  have "2 ^ k \<le> n div 2" "n div 2 < 2 ^ Suc k" using Suc.prems by simp_all
  then have "bit_length (n div 2) = Suc k" by (rule Suc.IH)
  moreover have "n \<noteq> 0" using Suc.prems by (metis not_less zero_less_numeral zero_less_power)
  ultimately show ?case by (simp add: bit_length.simps[of n])
qed

lemma units_parts:
  assumes "f < 2 ^ 52"
  shows "units (e * 2 ^ 52 + f) = (if e = 0 then f else (f + 2 ^ 52) * 2 ^ (e - 1))"
proof -
  have "(e * 2 ^ 52 + f) div 2 ^ 52 = e" "(e * 2 ^ 52 + f) mod 2 ^ 52 = f" using assms by simp_all
  then show ?thesis by (simp only: units_def Let_def)
qed

lemma double_parts: obtains e f :: nat where "b = e * 2 ^ 52 + f" "f < 2 ^ 52"
  using that[of "b div 2 ^ 52" "b mod 2 ^ 52"] by simp

lemma units_floor_units: "units_floor (units b) = b"
proof -
  obtain e f where b: "b = e * 2 ^ 52 + f" and f: "f < 2 ^ 52" by (rule double_parts)
  show ?thesis
  proof (cases e)
    case 0
    then show ?thesis using f units_parts[OF f, of e] by (simp add: b units_floor_def)
  next
    case (Suc k)
    have u: "units b = (f + 2 ^ 52) * 2 ^ k" using units_parts[OF f, of e] by (simp add: b Suc)
    have low: "2 ^ (52 + k) \<le> units b" unfolding u power_add by simp
    have "(f + 2 ^ 52) * 2 ^ k < 2 ^ 53 * 2 ^ k" using f by (intro mult_strict_right_mono) simp_all
    then have "units b < 2 ^ Suc (52 + k)" by (simp add: u power_add)
    with low have len: "bit_length (units b) = Suc (52 + k)" by (rule bit_length_eq)
    have "(2 :: nat) ^ 52 \<le> 2 ^ (52 + k)" by (intro power_increasing) simp_all
    then have "\<not> units b < 2 ^ 52" using low by (meson le_trans not_le)
    moreover have "bit_length (units b) - 53 = k" by (simp add: len)
    ultimately have "units_floor (units b) = (k + 1) * 2 ^ 52 + (units b div 2 ^ k - 2 ^ 52)"
      by (simp only: units_floor_def Let_def if_False)
    moreover have "units b div 2 ^ k = f + 2 ^ 52" unfolding u by simp
    ultimately show ?thesis by (simp only: b Suc) simp
  qed
qed

lemma units_less: "units b < units (b + 1)"
proof -
  obtain e f where b: "b = e * 2 ^ 52 + f" and f: "f < 2 ^ 52" by (rule double_parts)
  note u = units_parts[OF f, of e]
  show ?thesis
  proof (cases "f + 1 = 2 ^ 52")
    case True
    have "(f + 2 ^ 52) * 2 ^ (e - 1) < 2 ^ 53 * 2 ^ (e - 1)" using f by (intro mult_strict_right_mono) simp_all
    then have "units b < 2 ^ 52 * 2 ^ e" using u f by (cases e) (simp_all add: b)
    moreover have "units (b + 1) = 2 ^ 52 * 2 ^ e"
      using units_parts[of 0 "Suc e"] True by (simp add: b)
    ultimately show ?thesis by simp
  next
    case False
    then have "f + 1 < 2 ^ 52" using f by simp
    from units_parts[OF this, of e] show ?thesis using u by (simp add: b add.assoc)
  qed
qed

lemma nearest_exact: "0 < den \<Longrightarrow> nearest (units b * den) den = b"
  using units_less[of b] by (simp add: nearest_def units_floor_units Let_def)

lemma nearest_scale: "0 < c \<Longrightarrow> nearest (num * c) (den * c) = nearest num den"
  by (simp add: nearest_def Let_def mult.assoc[symmetric])

lemma nearest_decimal_strip:
  assumes "d mod 10 = 0"
  shows "nearest_decimal (d div 10) (t + 1) = nearest_decimal d t"
proof -
  have d: "d div 10 * 10 = d" using assms by (simp add: mod_0_imp_dvd)
  show ?thesis
  proof (cases "0 \<le> t")
    case True
    then have "nat (t + 1) = Suc (nat t)" "nat (- (t + 1)) = 0" "nat (- t) = 0" by simp_all
    moreover have "d div 10 * 10 ^ Suc (nat t) * 2 ^ unit_exponent = d * 10 ^ nat t * 2 ^ unit_exponent"
      using d by (metis mult.assoc power_Suc)
    ultimately show ?thesis by (simp only: nearest_decimal_def power_0)
  next
    case False
    then have "nat (t + 1) = 0" "nat t = 0" "nat (- t) = Suc (nat (- (t + 1)))" by simp_all
    moreover have "nearest (d div 10 * 2 ^ unit_exponent * 10) (10 ^ nat (- (t + 1)) * 10) =
        nearest (d div 10 * 2 ^ unit_exponent) (10 ^ nat (- (t + 1)))" by (rule nearest_scale) simp
    moreover have "d div 10 * 2 ^ unit_exponent * 10 = d * 2 ^ unit_exponent" using d by (metis mult.assoc mult.commute)
    ultimately show ?thesis by (simp only: nearest_decimal_def power_0 mult_1_right power_Suc2)
  qed
qed

lemma strip_zeros_nearest:
  "strip_zeros d t = (d', t') \<Longrightarrow> 0 < d \<Longrightarrow> 0 < d' \<and> nearest_decimal d' t' = nearest_decimal d t"
proof (induction d t rule: strip_zeros.induct)
  case (1 d t)
  show ?case
  proof (cases "d mod 10 = 0")
    case True
    then have "0 < d div 10" using 1(3) by (metis div_greater_zero_iff dvd_imp_le mod_0_imp_dvd zero_less_numeral)
    then show ?thesis
      using 1 True nearest_decimal_strip[OF True, of t] by (simp add: strip_zeros.simps[of d t])
  next
    case False
    then show ?thesis using 1(2,3) by (simp add: strip_zeros.simps[of d t])
  qed
qed

lemma shortest_nearest:
  assumes "shortest b = (d, t)" "b \<noteq> 0"
  shows "0 < d \<and> nearest_decimal d t = b"
proof (cases "find (\<lambda>(d, t). 0 < d \<and> nearest_decimal d t = b) (concat (map (decimals b) [1..<18]))")
  case None
  then have dt: "d = units b * 5 ^ unit_exponent" "t = - int unit_exponent" using assms(1) by (simp_all add: shortest_def)
  have "units b * 5 ^ unit_exponent * 10 ^ nat t * 2 ^ unit_exponent = units b * (5 * 2) ^ unit_exponent"
    unfolding power_mult_distrib by (simp add: dt)
  then have "d * 10 ^ nat t * 2 ^ unit_exponent = units b * 10 ^ unit_exponent" by (simp add: dt)
  then have "nearest_decimal d t = nearest (units b * 10 ^ unit_exponent) (10 ^ unit_exponent)"
    by (simp only: nearest_decimal_def) (simp add: dt)
  also have "\<dots> = b" by (rule nearest_exact) simp
  finally have "nearest_decimal d t = b" .
  moreover have "0 < units b" using units_floor_units[of b] assms(2) by (cases "units b") (simp_all add: units_floor_def)
  ultimately show ?thesis by (simp add: dt)
next
  case (Some c)
  obtain e u where c: "c = (e, u)" by fastforce
  have "0 < e \<and> nearest_decimal e u = b" using Some by (auto simp: find_Some_iff c)
  moreover have "strip_zeros e u = (d, t)" using assms(1) Some by (simp add: shortest_def c)
  ultimately show ?thesis using strip_zeros_nearest by metis
qed

section \<open>Tokens\<close>

text \<open>
  The numbers of the JSON grammar: an integer part without superfluous zeros, a fraction and an
  exponent, which may be absent.
\<close>

definition plain_digits :: "string \<Rightarrow> bool" where
  "plain_digits ds \<longleftrightarrow> ds \<noteq> [] \<and> list_all is_digit_char ds"

definition whole_ok :: "string \<Rightarrow> bool" where
  "whole_ok ds \<longleftrightarrow> plain_digits ds \<and> (hd ds = CHR ''0'' \<longrightarrow> ds = ''0'')"

definition fraction_part :: "string \<Rightarrow> string" where
  "fraction_part ds = (if ds = [] then [] else CHR ''.'' # ds)"

fun exponent_part :: "(bool \<times> string) option \<Rightarrow> string" where
  "exponent_part None = []"
| "exponent_part (Some (neg, ds)) = CHR ''e'' # (if neg then CHR ''-'' else CHR ''+'') # ds"

fun exponent_value :: "(bool \<times> string) option \<Rightarrow> int" where
  "exponent_value None = 0"
| "exponent_value (Some (neg, ds)) = (if neg then - int (decimal_reading ds) else int (decimal_reading ds))"

text \<open>What follows a number cannot be read as part of it.\<close>

definition number_ends :: "string \<Rightarrow> bool" where
  "number_ends rest \<longleftrightarrow> (case rest of [] \<Rightarrow> True | ch # _ \<Rightarrow>
     \<not> is_digit_char ch \<and> ch \<noteq> CHR ''.'' \<and> ch \<noteq> CHR ''e'' \<and> ch \<noteq> CHR ''E'')"

lemma digits_then:
  assumes "list_all is_digit_char ds" "rest = [] \<or> \<not> is_digit_char (hd rest)"
  shows "takeWhile is_digit_char (ds @ rest) = ds" "dropWhile is_digit_char (ds @ rest) = rest"
  using assms by (induction ds) (cases rest; auto)+

lemma digit_not_mark:
  "is_digit_char ch \<Longrightarrow> ch \<noteq> CHR ''.'' \<and> ch \<noteq> CHR ''e'' \<and> ch \<noteq> CHR ''E'' \<and> ch \<noteq> CHR ''-'' \<and> ch \<noteq> CHR ''+''"
  by (auto simp: is_digit_char_def less_eq_char_def)

lemma mark_not_digit:
  "\<not> is_digit_char (CHR ''.'')" "\<not> is_digit_char (CHR ''e'')" "\<not> is_digit_char (CHR ''-'')"
  using digit_not_mark by blast+

lemma number_ends_hd: "number_ends rest \<Longrightarrow> rest = [] \<or> \<not> is_digit_char (hd rest) \<and> hd rest \<noteq> CHR ''.''"
  by (auto simp: number_ends_def split: list.splits)

lemma read_exponent_part:
  assumes "number_ends rest" "\<forall>neg ds. ex = Some (neg, ds) \<longrightarrow> plain_digits ds"
  shows "read_exponent (exponent_part ex @ rest) = (exponent_value ex, rest)"
proof (cases ex)
  case None
  then show ?thesis using assms(1) by (auto simp: read_exponent_def number_ends_def split: list.splits)
next
  case (Some e)
  obtain neg ds where e: "e = (neg, ds)" by fastforce
  have "ds \<noteq> []" "list_all is_digit_char ds" using assms(2) by (auto simp: Some e plain_digits_def)
  then have "ds \<noteq> []" "takeWhile is_digit_char (ds @ rest) = ds" "dropWhile is_digit_char (ds @ rest) = rest"
    using digits_then[of ds rest] number_ends_hd[OF assms(1)] by blast+
  then show ?thesis by (cases neg) (simp_all add: Some e read_exponent_def split_sign_def Let_def)
qed

lemma read_number:
  assumes "whole_ok whole" "list_all is_digit_char fraction" "\<forall>neg ds. ex = Some (neg, ds) \<longrightarrow> plain_digits ds"
    and "number_ends rest"
  shows "from_chars_double ((if neg then ''-'' else []) @ whole @ fraction_part fraction @ exponent_part ex @ rest) =
    (round_reading neg (decimal_reading (whole @ fraction)) (exponent_value ex - int (length fraction)), rest)"
proof -
  let ?tail = "exponent_part ex @ rest"
  have whole: "whole \<noteq> []" "list_all is_digit_char whole" using assms(1) by (simp_all add: whole_ok_def plain_digits_def)
  have tail: "?tail = [] \<or> \<not> is_digit_char (hd ?tail) \<and> hd ?tail \<noteq> CHR ''.''"
  proof (cases ex)
    case None
    then show ?thesis using number_ends_hd[OF assms(4)] by simp
  next
    case (Some e)
    then show ?thesis using mark_not_digit(2) by (cases e) auto
  qed
  have "fraction_part fraction @ ?tail = [] \<or> \<not> is_digit_char (hd (fraction_part fraction @ ?tail))"
    using tail mark_not_digit(1) by (auto simp: fraction_part_def)
  note cut = digits_then[OF whole(2) this]
  have "read_fraction (fraction_part fraction @ ?tail) = (fraction, ?tail)"
  proof (cases "fraction = []")
    case True
    then show ?thesis using tail by (auto simp: read_fraction_def fraction_part_def split: list.splits)
  next
    case False
    then show ?thesis
      using digits_then[OF assms(2), of ?tail] tail by (auto simp: read_fraction_def fraction_part_def)
  qed
  moreover have "split_sign ((if neg then ''-'' else []) @ whole @ s) = (neg, whole @ s)" for s
    using whole digit_not_mark by (cases whole) (auto simp: split_sign_def)
  ultimately show ?thesis
    using whole(1) by (simp add: from_chars_double_def cut read_exponent_part[OF assms(4,3)])
qed

section \<open>What is written\<close>

lemma decimal_reading_text [simp]: "decimal_reading (nat_text n) = n"
  by (simp add: decimal_reading_def nat_text_value)

lemma decimal_reading_zero [simp]: "decimal_reading (CHR ''0'' # ds) = decimal_reading ds"
  by (simp add: decimal_reading_def digit_value_def)

lemma decimal_reading_zeros [simp]: "decimal_reading (replicate n (CHR ''0'') @ ds) = decimal_reading ds"
  by (induction n) simp_all

lemma plain_text: "plain_digits (nat_text n)"
  by (simp add: plain_digits_def nat_text_digits nat_text_nonempty)

lemma zero_digit: "is_digit_char (CHR ''0'')"
  by (simp add: is_digit_char_def)

lemma nat_text_hd: "0 < n \<Longrightarrow> hd (nat_text n) \<noteq> CHR ''0''"
proof (induction n rule: nat_text.induct)
  case (1 n)
  show ?case
  proof (cases "n < 10")
    case True
    then have "digit_value (hd (nat_text n)) = n" by (subst nat_text.simps) (simp add: digit_char_facts)
    then show ?thesis using 1(2) by (auto simp: digit_value_def)
  next
    case False
    then have "hd (nat_text (n div 10)) \<noteq> CHR ''0''" using 1 by simp
    then show ?thesis using False by (subst nat_text.simps) (simp add: nat_text_nonempty)
  qed
qed

lemma whole_text: "0 < n \<Longrightarrow> whole_ok (nat_text n)"
  using nat_text_hd by (simp add: whole_ok_def plain_text)

text \<open>A number token whose value rounds to the double with bits \<open>b\<close>.\<close>

definition writes :: "nat \<Rightarrow> string \<Rightarrow> bool" where
  "writes b token \<longleftrightarrow> (\<exists>whole fraction ex. token = whole @ fraction_part fraction @ exponent_part ex \<and>
     whole_ok whole \<and> list_all is_digit_char fraction \<and> (\<forall>neg ds. ex = Some (neg, ds) \<longrightarrow> plain_digits ds) \<and>
     nearest_decimal (decimal_reading (whole @ fraction)) (exponent_value ex - int (length fraction)) = b \<and>
     (decimal_reading (whole @ fraction) = 0 \<longleftrightarrow> b = 0))"

lemma writesI:
  assumes "token = whole @ fraction_part fraction @ exponent_part ex" "whole_ok whole"
    "list_all is_digit_char fraction" "\<forall>neg ds. ex = Some (neg, ds) \<longrightarrow> plain_digits ds"
    "decimal_reading (whole @ fraction) = d" "exponent_value ex - int (length fraction) = t"
    "nearest_decimal d t = b" "d = 0 \<longleftrightarrow> b = 0"
  shows "writes b token"
  unfolding writes_def
  by (rule exI[of _ whole], rule exI[of _ fraction], rule exI[of _ ex])
     (use assms in \<open>simp only: assms simp_thms\<close>)

lemma units_zero [simp]: "units 0 = 0"
  by (simp add: units_def)

lemma nearest_whole: "n * 2 ^ unit_exponent = units b \<Longrightarrow> nearest_decimal n 0 = b"
  using nearest_exact[of 1 b] by (simp add: nearest_decimal_def)

lemma fixed_writes:
  assumes "0 < d" "nearest_decimal d t = b" "b \<noteq> 0"
  shows "writes b (fixed_text b d t)"
proof -
  let ?ds = "nat_text d" and ?places = "nat (- t)"
  have ds: "list_all is_digit_char ?ds" "?ds \<noteq> []" "hd ?ds \<noteq> CHR ''0''" "decimal_reading ?ds = d"
    using assms(1) by (simp_all add: nat_text_digits nat_text_nonempty nat_text_hd)
  consider "0 \<le> t" | "t < 0" "?places < length ?ds" | "t < 0" "\<not> ?places < length ?ds" by linarith
  then show ?thesis
  proof cases
    case 1
    define n where "n = (if 2 ^ unit_exponent dvd units b then units b div 2 ^ unit_exponent else d * 10 ^ nat t)"
    have "0 < units b" using assms(3) units_floor_units[of b] by (cases "units b") (simp_all add: units_floor_def)
    then have pos: "0 < n" using assms(1) unfolding n_def by (auto simp: dvd_div_eq_0_iff)
    have "nearest_decimal n 0 = b"
    proof (cases "2 ^ unit_exponent dvd units b")
      case True
      then show ?thesis unfolding n_def by (simp add: nearest_whole)
    next
      case False
      then show ?thesis using assms(2) 1 by (simp add: n_def nearest_decimal_def)
    qed
    moreover have "fixed_text b d t = nat_text n" using 1 by (simp add: fixed_text_def Let_def n_def)
    ultimately show ?thesis
      using whole_text[OF pos] assms(3) pos
      by (intro writesI[where whole = "nat_text n" and fraction = "[]" and ex = None and d = n and t = 0])
        (simp_all add: fraction_part_def)
  next
    case 2
    let ?k = "length ?ds - ?places"
    have whole: "take ?k ?ds \<noteq> []" "hd (take ?k ?ds) = hd ?ds" using 2 ds(2) by auto
    have "list_all is_digit_char (take ?k ?ds)" "list_all is_digit_char (drop ?k ?ds)"
      using ds(1) by (auto simp: list_all_iff dest: in_set_takeD in_set_dropD)
    moreover have "drop ?k ?ds \<noteq> []" using 2 by simp
    ultimately show ?thesis
      using 2 ds whole assms
      by (intro writesI[where whole = "take ?k ?ds" and fraction = "drop ?k ?ds" and ex = None and d = d and t = t])
        (simp_all add: fixed_text_def Let_def fraction_part_def whole_ok_def plain_digits_def)
  next
    case 3
    then show ?thesis
      using ds assms zero_digit
      by (intro writesI[where whole = "''0''" and fraction = "replicate (?places - length ?ds) (CHR ''0'') @ ?ds"
            and ex = None and d = d and t = t])
        (auto simp: fixed_text_def Let_def fraction_part_def whole_ok_def plain_digits_def list_all_iff)
  qed
qed

lemma scientific_writes:
  assumes "0 < d" "nearest_decimal d t = b" "b \<noteq> 0"
  shows "writes b (scientific_text d t)"
proof -
  define x where "x = t + int (length (nat_text d)) - 1"
  define xs where "xs = nat_text (nat \<bar>x\<bar>)"
  obtain h ds where h: "nat_text d = h # ds" using nat_text_nonempty by (cases "nat_text d") auto
  let ?xs = "if length xs < 2 then CHR ''0'' # xs else xs"
  have digits: "is_digit_char h" "list_all is_digit_char ds" "h \<noteq> CHR ''0''" "decimal_reading (h # ds) = d"
    using nat_text_digits[of d] nat_text_hd[OF assms(1)] decimal_reading_text[of d] unfolding h by simp_all
  have xs: "plain_digits ?xs" "decimal_reading ?xs = nat \<bar>x\<bar>"
    using plain_text[of "nat \<bar>x\<bar>"] zero_digit by (simp_all add: xs_def plain_digits_def)
  show ?thesis
  proof (rule writesI[where whole = "[h]" and fraction = ds and ex = "Some (x < 0, ?xs)" and d = d and t = t])
    show "scientific_text d t = [h] @ fraction_part ds @ exponent_part (Some (x < 0, ?xs))"
      by (simp add: scientific_text_def Let_def h fraction_part_def x_def[unfolded h, symmetric, simplified] xs_def)
    show "exponent_value (Some (x < 0, ?xs)) - int (length ds) = t"
      using xs(2) by (simp add: x_def h)
  qed (use digits xs assms in \<open>simp_all add: whole_ok_def plain_digits_def\<close>)
qed

lemma magnitude_writes:
  assumes "b < infinity_bits"
  shows "writes b (magnitude_text b)"
proof (cases "b = 0")
  case True
  have "nearest_decimal 0 0 = 0" using nearest_whole[of 0 0] by simp
  then show ?thesis
    using True zero_digit
    by (intro writesI[where whole = "''0''" and fraction = "[]" and ex = None and d = 0 and t = 0])
      (simp_all add: magnitude_text_def infinity_bits_def fraction_part_def whole_ok_def plain_digits_def decimal_reading_def digit_value_def)
next
  case False
  obtain d t where "shortest b = (d, t)" by fastforce
  then show ?thesis
    using shortest_nearest[of b d t] fixed_writes[of d t b] scientific_writes[of d t b] False assms
    by (simp add: magnitude_text_def)
qed

section \<open>Reading what was written\<close>

lemma double_bits: "sign_bits (bit x 63) OR of_nat (unat (take_bit 63 x)) = (x :: 64 word)"
proof (rule bit_word_eqI)
  fix n assume n: "n < LENGTH(64)"
  then have "bit (push_bit 63 (1 :: 64 word)) n \<longleftrightarrow> n = 63" by (simp only: bit_push_bit_iff bit_1_iff) auto
  moreover have "n = 63 \<or> n < 63" using n by auto
  ultimately show "bit (sign_bits (bit x 63) OR of_nat (unat (take_bit 63 x))) n = bit x n"
    unfolding sign_bits_def by (cases "bit x 63") (auto simp only: if_True if_False bit_or_iff bit_0_eq
        of_nat_unat ucast_id bit_take_bit_iff bot_apply bot_bool_def)
qed

text \<open>A finite double has bits below those of infinity.\<close>

definition finite_bits :: "64 word \<Rightarrow> bool" where
  "finite_bits x \<longleftrightarrow> unat (take_bit 63 x) < infinity_bits"

theorem from_chars_to_chars:
  assumes "finite_bits x" "number_ends rest"
  shows "from_chars_double (to_chars_double x @ rest) = (Reading x, rest)"
proof -
  let ?b = "unat (take_bit 63 x)"
  obtain whole fraction ex where w: "magnitude_text ?b = whole @ fraction_part fraction @ exponent_part ex"
    "whole_ok whole" "list_all is_digit_char fraction" "\<forall>neg ds. ex = Some (neg, ds) \<longrightarrow> plain_digits ds"
    "nearest_decimal (decimal_reading (whole @ fraction)) (exponent_value ex - int (length fraction)) = ?b"
    "decimal_reading (whole @ fraction) = 0 \<longleftrightarrow> ?b = 0"
    using magnitude_writes[OF assms(1)[unfolded finite_bits_def], unfolded writes_def] by (elim exE conjE) (rule that)
  have "round_reading (bit x 63) (decimal_reading (whole @ fraction)) (exponent_value ex - int (length fraction)) = Reading x"
    using assms(1) double_bits[of x] w(6) by (simp only: round_reading_def Let_def finite_bits_def w(5)) auto
  then show ?thesis
    using read_number[OF w(2-4) assms(2), of "bit x 63"] by (simp add: to_chars_double_def w(1))
qed

end
