(* ===== verification/Fab_Utc.thy ===== *)
theory Fab_Utc
  imports Fab_Time Fab_Ids
begin

text \<open>
  The rest of \<^verbatim>\<open>time.cpp\<close>: calendar dates and the UTC text form. All intermediate results of the
  calendar arithmetic are small, so it is carried out on integers; the one product and sum that
  can leave \<^verbatim>\<open>int64_t\<close>, which is undefined behaviour, give \<open>None\<close>. The text of every time point
  but those of the first second of the range is read back as the same time point.
\<close>

section \<open>Calendar\<close>

text \<open>\<^verbatim>\<open>floor_div\<close> and \<^verbatim>\<open>floor_mod\<close> round towards negative infinity, as \<open>div\<close> and \<open>mod\<close> do.\<close>

definition floor_div :: "int \<Rightarrow> int \<Rightarrow> int" where
  "floor_div numerator denominator =
     (let quotient = numerator sdiv denominator; remainder = numerator smod denominator
      in if remainder \<noteq> 0 \<and> (remainder < 0) \<noteq> (denominator < 0) then quotient - 1 else quotient)"

definition floor_mod :: "int \<Rightarrow> int \<Rightarrow> int" where
  "floor_mod numerator denominator =
     (let remainder = numerator smod denominator
      in if remainder \<noteq> 0 \<and> (remainder < 0) \<noteq> (denominator < 0) then remainder + denominator else remainder)"

record civil_date =
  cd_year :: int
  cd_month :: int
  cd_day :: int

definition year_of_era :: "int \<Rightarrow> int" where
  "year_of_era day_of_era =
     (day_of_era - day_of_era div 1460 + day_of_era div 36524 - day_of_era div 146096) div 365"

definition civil_from_days :: "int \<Rightarrow> civil_date" where
  "civil_from_days days0 =
     (let days = days0 + 719468; era = floor_div days 146097; day_of_era = days - era * 146097;
          yoe = year_of_era day_of_era; year = yoe + era * 400;
          day_of_year = day_of_era - (365 * yoe + yoe div 4 - yoe div 100);
          month_prime = (5 * day_of_year + 2) div 153;
          day = day_of_year - (153 * month_prime + 2) div 5 + 1;
          month = month_prime + (if month_prime < 10 then 3 else - 9)
      in \<lparr>cd_year = year + (if month \<le> 2 then 1 else 0), cd_month = month, cd_day = day\<rparr>)"

definition days_from_civil :: "int \<Rightarrow> int \<Rightarrow> int \<Rightarrow> int" where
  "days_from_civil year0 month day =
     (let year = year0 - (if month \<le> 2 then 1 else 0); era = floor_div year 400;
          yoe = year - era * 400; month_prime = month + (if month > 2 then - 3 else 9);
          day_of_year = (153 * month_prime + 2) div 5 + day - 1;
          day_of_era = yoe * 365 + yoe div 4 - yoe div 100 + day_of_year
      in era * 146097 + day_of_era - 719468)"

section \<open>Text\<close>

definition all_digits :: "string \<Rightarrow> bool" where
  "all_digits text \<longleftrightarrow> text \<noteq> [] \<and> list_all is_digit_char text"

definition digits_value :: "string \<Rightarrow> int" where
  "digits_value text = foldl (\<lambda>v ch. v * 10 + int (digit_value ch)) 0 text"

definition parse_unsigned :: "string \<Rightarrow> nat \<Rightarrow> int result" where
  "parse_unsigned text digits =
     (if length text \<noteq> digits \<or> \<not> all_digits text
      then err SC_MalformedInput ''expected a fixed-width decimal field'' else Inr (digits_value text))"

text \<open>\<^verbatim>\<open>snprintf\<close> with a width and leading zeros.\<close>

definition zero_padded :: "nat \<Rightarrow> int \<Rightarrow> string" where
  "zero_padded width i =
     (let t = nat_text (nat \<bar>i\<bar>); w = (if i < 0 then width - 1 else width)
      in (if i < 0 then ''-'' else []) @ replicate (w - length t) (CHR ''0'') @ t)"

definition ns_per_second :: int where
  "ns_per_second = 1000000000"

definition ns_per_day :: int where
  "ns_per_day = 86400 * ns_per_second"

definition format_utc :: "time_point \<Rightarrow> string" where
  "format_utc point =
     (let days = floor_div (sint (tp_nanos point)) ns_per_day;
          within_day = floor_mod (sint (tp_nanos point)) ns_per_day;
          seconds_of_day = within_day div ns_per_second; nanos_of_second = within_day mod ns_per_second;
          date = civil_from_days days
      in zero_padded 4 (cd_year date) @ ''-'' @ zero_padded 2 (cd_month date) @ ''-'' @
         zero_padded 2 (cd_day date) @ ''T'' @ zero_padded 2 (seconds_of_day div 3600) @ '':'' @
         zero_padded 2 ((seconds_of_day div 60) mod 60) @ '':'' @ zero_padded 2 (seconds_of_day mod 60) @
         ''.'' @ zero_padded 9 nanos_of_second @ ''Z'')"

text \<open>The accumulation of a bare number; \<open>None\<close> when it does not fit.\<close>

fun accumulate :: "int \<Rightarrow> string \<Rightarrow> int option" where
  "accumulate v [] = Some v"
| "accumulate v (ch # text) =
     (let digit = int (digit_value ch)
      in if v > (2 ^ 63 - 1 - digit) div 10 then None else accumulate (v * 10 + digit) text)"

definition substr :: "string \<Rightarrow> nat \<Rightarrow> nat \<Rightarrow> string" where
  "substr text start len = take len (drop start text)"

definition parse_fraction :: "string \<Rightarrow> int result" where
  "parse_fraction text =
     (if length text > 20
      then if text ! 19 \<noteq> CHR ''.'' then err SC_MalformedInput (''expected '' @ [CHR 0x27, CHR ''.'', CHR 0x27] @ '' before fractional seconds'')
        else let fraction = substr text 20 (length text - 21)
          in if fraction = [] \<or> length fraction > 9 \<or> \<not> all_digits fraction
             then err SC_MalformedInput ''fractional seconds must be 1 to 9 digits''
             else Inr (digits_value fraction * 10 ^ (9 - length fraction))
      else if length text \<noteq> 20 then err SC_MalformedInput ''UTC timestamp has an unexpected length''
      else Inr 0)"

definition in_i64 :: "int \<Rightarrow> bool" where
  "in_i64 i \<longleftrightarrow> - (2 ^ 63) \<le> i \<and> i < 2 ^ 63"

text \<open>\<open>None\<close>: the signed arithmetic of the last line overflows.\<close>

definition parse_utc :: "string \<Rightarrow> time_point result option" where
  "parse_utc text =
     (if text \<noteq> [] \<and> (all_digits text \<or> hd text = CHR ''-'' \<and> all_digits (tl text))
      then let negative = (hd text = CHR ''-'')
        in Some (case accumulate 0 (if negative then tl text else text) of
          None \<Rightarrow> err SC_OutOfRange ''nanosecond timestamp does not fit in int64''
        | Some v \<Rightarrow> Inr (TimePoint (word_of_int (if negative then - v else v))))
      else if length text < 20 \<or> last text \<noteq> CHR ''Z'' \<or> text ! 4 \<noteq> CHR ''-'' \<or> text ! 7 \<noteq> CHR ''-'' \<or>
         (text ! 10 \<noteq> CHR ''T'' \<and> text ! 10 \<noteq> CHR '' '')
      then Some (err SC_MalformedInput ''expected UTC form YYYY-MM-DDTHH:MM:SS[.fffffffff]Z'')
      else case (parse_unsigned (substr text 0 4) 4, parse_unsigned (substr text 5 2) 2,
          parse_unsigned (substr text 8 2) 2, parse_unsigned (substr text 11 2) 2,
          parse_unsigned (substr text 14 2) 2, parse_unsigned (substr text 17 2) 2) of
        (Inr year, Inr month, Inr day, Inr hour, Inr minute, Inr second) \<Rightarrow>
          if month < 1 \<or> month > 12 \<or> day < 1 \<or> day > 31 \<or> hour > 23 \<or> minute > 59 \<or> second > 60
          then Some (err SC_OutOfRange ''UTC timestamp field is out of range'')
          else (case parse_fraction text of
              Inl e \<Rightarrow> Some (Inl e)
            | Inr fraction \<Rightarrow>
                let seconds = days_from_civil year month day * 86400 + hour * 3600 + minute * 60 + second
                in if in_i64 (seconds * ns_per_second) \<and> in_i64 (seconds * ns_per_second + fraction)
                   then Some (Inr (TimePoint (word_of_int (seconds * ns_per_second + fraction)))) else None)
      | _ \<Rightarrow> Some (err SC_MalformedInput ''UTC timestamp contains a malformed field''))"

section \<open>The calendar is inverted\<close>

lemma floor_div_mod:
  assumes "0 < d"
  shows "floor_div n d = n div d" "floor_mod n d = n mod d"
proof -
  consider "0 \<le> n" | m where "0 < m" "n = - m" by (metis less_eq_int_code(1) linorder_not_le neg_0_less_iff_less minus_minus)
  then have "floor_div n d = n div d \<and> floor_mod n d = n mod d"
  proof cases
    case 1
    then have "n sdiv d = n div d" "n smod d = n mod d" using assms
      by (simp_all add: signed_divide_int_def signed_modulo_int_def sgn_if)
    moreover have "\<not> n mod d < 0" using assms by (simp add: not_less)
    ultimately show ?thesis using assms by (simp add: floor_div_def floor_mod_def Let_def)
  next
    case 2
    then have s: "(- m) sdiv d = - (m div d)" "(- m) smod d = - (m mod d)" using assms
      by (simp_all add: signed_divide_int_def signed_modulo_int_def sgn_if)
    have "0 < m mod d \<or> m mod d = 0" using pos_mod_bound[OF assms, of m] pos_mod_sign[OF assms, of m] by linarith
    then show ?thesis using assms unfolding floor_div_def floor_mod_def Let_def s 2(2)
      by (auto simp: zdiv_zminus1_eq_if zmod_zminus1_eq_if)
  qed
  then show "floor_div n d = n div d" "floor_mod n d = n mod d" by simp_all
qed

text \<open>The first day of a year of an era, and the day before the next one.\<close>

definition first_day :: "int \<Rightarrow> int" where
  "first_day y = 365 * y + y div 4 - y div 100"

definition last_day :: "int \<Rightarrow> int" where
  "last_day y = (if y = 399 then 146096 else first_day (y + 1) - 1)"

lemma days_cover:
  "(\<exists>y. 0 \<le> y \<and> y < int n \<and> first_day y \<le> d \<and> d \<le> first_day (y + 1) - 1) \<or> first_day (int n) \<le> d" if "0 \<le> d" for n
  proof (induction n)
    case 0
    then show ?case using that by (simp add: first_day_def)
  next
    case (Suc n)
    then consider y where "0 \<le> y \<and> y < int n \<and> first_day y \<le> d \<and> d \<le> first_day (y + 1) - 1" | "first_day (int n) \<le> d" by blast
    then show ?case 
    proof cases
      case 1
      then show ?thesis by (intro disjI1 exI[of _ y]) simp
    next
      case 2
      show ?thesis
      proof (cases "first_day (int (Suc n)) \<le> d")
        case False
        then show ?thesis using 2 by (intro disjI1 exI[of _ "int n"]) (simp add: add.commute)
      qed simp
    qed
  qed

lemma day_in_year:
  assumes "0 \<le> d" "d \<le> 146096"
  obtains y where "0 \<le> y" "y < 400" "first_day y \<le> d" "d \<le> last_day y"
proof -
  from days_cover[OF assms(1), of 399] show ?thesis
  proof
    assume "\<exists>y. 0 \<le> y \<and> y < int 399 \<and> first_day y \<le> d \<and> d \<le> first_day (y + 1) - 1"
    then show ?thesis using that by (auto simp: last_day_def)
  next
    assume "first_day (int 399) \<le> d"
    then show ?thesis using that[of 399] assms(2) by (simp add: last_day_def)
  qed
qed

text \<open>The year is split into its century, its four-year cycle and its place in the cycle.\<close>

lemma year_of_era_split:
  fixes c k j e :: int
  assumes "0 \<le> c" "c \<le> 3" "0 \<le> k" "k \<le> 24" "0 \<le> j" "j \<le> 3"
    and e: "1461 * k + 365 * j \<le> e" "e \<le> 1461 * k + 365 * j + 364 + (if j = 3 \<and> (k < 24 \<or> c = 3) then 1 else 0)"
  shows "year_of_era (36524 * c + e) = 100 * c + 4 * k + j"
proof -
  let ?d = "36524 * c + e"
  let ?Q = "(24 * c + e) div 1460"
  have "?d div 1460 = 25 * c + ?Q"
  proof -
    have "?d = 24 * c + e + 25 * c * 1460" by simp
    then show ?thesis by (metis add.commute div_mult_self1 zero_neq_numeral)
  qed
  moreover have "?d div 36524 - ?d div 146096 = c"
  proof (cases "e = 36524")
    case True
    have "c = 3"
    proof (rule ccontr)
      assume "c \<noteq> 3"
      then have "e \<le> 1461 * k + 365 * j + 364 + (if j = 3 \<and> k < 24 then 1 else 0)" using e(2) by simp
      then have "e \<le> 1461 * k + 365 * j + 364 \<or> (j = 3 \<and> k < 24 \<and> e \<le> 1461 * k + 365 * j + 365)"
        by (cases "j = 3 \<and> k < 24") simp_all
      then have "e \<le> 36523" using assms(4,6) by (elim disjE conjE) linarith+
      then show False using True by simp
    qed
    then show ?thesis using True by simp
  next
    case False
    then have "0 \<le> e" "e < 36524" using assms by (auto split: if_splits)
    have "?d div 36524 = c"
      using \<open>0 \<le> e\<close> \<open>e < 36524\<close> by (simp add: div_pos_pos_trivial)
    moreover have "?d < 146096" using \<open>e < 36524\<close> assms(2) by linarith
    then have "?d div 146096 = 0" using \<open>0 \<le> e\<close> assms(1) by (intro div_pos_pos_trivial) simp_all
    ultimately show ?thesis by simp
  qed
  ultimately have X: "?d - ?d div 1460 + ?d div 36524 - ?d div 146096 = 36500 * c + e - ?Q" by linarith
  have Q: "1460 * ?Q \<le> 24 * c + e" "24 * c + e < 1460 * ?Q + 1460" by simp_all
  have "j = 0 \<or> j = 1 \<or> j = 2 \<or> j = 3" using assms by linarith
  then have "?Q = k \<or> ?Q = k + 1"
    using Q e assms by (elim disjE) (auto split: if_splits)
  then have "365 * (4 * k + j) \<le> e - ?Q \<and> e - ?Q < 365 * (4 * k + j) + 365"
    using Q e assms by (elim disjE) (auto split: if_splits)
  then show ?thesis unfolding year_of_era_def X
    by (intro int_div_pos_eq[where r = "e - ?Q - 365 * (4 * k + j)"]) (simp_all add: algebra_simps)
qed

lemma century_and_cycle:
  fixes c k j :: int
  assumes "0 \<le> c" "0 \<le> k" "k \<le> 24" "0 \<le> j" "j \<le> 3"
  shows "first_day (100 * c + 4 * k + j) = 36524 * c + 1461 * k + 365 * j"
proof -
  have "(100 * c + 4 * k + j) div 4 = 25 * c + k" using assms by linarith
  moreover have "(100 * c + 4 * k + j) div 100 = c" using assms by linarith
  ultimately show ?thesis unfolding first_day_def by simp
qed

lemma end_of_year:
  fixes c k j :: int
  assumes "0 \<le> c" "c \<le> 3" "0 \<le> k" "k \<le> 24" "0 \<le> j" "j \<le> 3"
  shows "last_day (100 * c + 4 * k + j) =
    36524 * c + 1461 * k + 365 * j + 364 + (if j = 3 \<and> (k < 24 \<or> c = 3) then 1 else 0)"
proof -
  consider "j < 3" | "j = 3" "k < 24" | "j = 3" "k = 24" "c < 3" | "j = 3" "k = 24" "c = 3" using assms by linarith
  then show ?thesis
  proof cases
    case 1
    then show ?thesis using century_and_cycle[of c k "j + 1"] assms by (simp add: last_day_def add.assoc)
  next
    case 2
    then show ?thesis using century_and_cycle[of c "k + 1" 0] assms by (simp add: last_day_def algebra_simps)
  next
    case 3
    then show ?thesis using century_and_cycle[of "c + 1" 0 0] assms by (simp add: last_day_def algebra_simps)
  qed (simp add: last_day_def)
qed

lemma year_split:
  assumes "0 \<le> (y :: int)" "y < 400"
  obtains c k j where "y = 100 * c + 4 * k + j" "0 \<le> c" "c \<le> 3" "0 \<le> k" "k \<le> 24" "0 \<le> j" "j \<le> 3"
proof (rule that[of "y div 100" "(y mod 100) div 4" "(y mod 100) mod 4"])
  show "y = 100 * (y div 100) + 4 * (y mod 100 div 4) + y mod 100 mod 4" by simp
  have "y mod 100 < 100" by simp
  then show "y mod 100 div 4 \<le> 24" by linarith
  show "y div 100 \<le> 3" using assms by linarith
  have "y mod 100 mod 4 < 4" by simp
  then show "y mod 100 mod 4 \<le> 3" by linarith
qed (use assms in simp_all)

lemma year_of_era_exact:
  assumes "0 \<le> y" "y < 400" "first_day y \<le> d" "d \<le> last_day y"
  shows "year_of_era d = y"
proof -
  obtain c k j where y: "y = 100 * c + 4 * k + j"
    and b: "0 \<le> c" "c \<le> 3" "0 \<le> k" "k \<le> 24" "0 \<le> j" "j \<le> 3"
    using assms(1,2) by (rule year_split)
  show ?thesis
    using year_of_era_split[OF b, of "d - 36524 * c"] assms(3,4) b
    unfolding y century_and_cycle[OF b(1,3-6)] end_of_year[OF b] by simp
qed

lemma day_of_year_bounds: "0 \<le> y \<Longrightarrow> y < 400 \<Longrightarrow> last_day y - first_day y \<le> 365"
  unfolding last_day_def first_day_def by (simp split: if_split) linarith

text \<open>Months and days of a year that starts in March.\<close>

lemma month_days:
  assumes "0 \<le> doy" "doy \<le> (365 :: int)"
  shows "0 \<le> (5 * doy + 2) div 153 \<and> (5 * doy + 2) div 153 \<le> 11 \<and>
    1 \<le> doy - (153 * ((5 * doy + 2) div 153) + 2) div 5 + 1 \<and>
    doy - (153 * ((5 * doy + 2) div 153) + 2) div 5 + 1 \<le> 31"
proof -
  let ?q = "(5 * doy + 2) div 153" let ?r = "(5 * doy + 2) mod 153"
  have q: "153 * ?q + ?r = 5 * doy + 2" "0 \<le> ?r" "?r < 153" by simp_all
  have "0 \<le> ?q" using assms q by linarith
  moreover have "?q \<le> 11"  using assms q by linarith
  moreover have "(153 * ?q + 2) div 5 \<le> doy" using q by linarith
  moreover have "doy \<le> (153 * ?q + 2) div 5 + 30" using q by linarith
  ultimately show ?thesis by simp
qed

lemma civil_round_trip:
  "days_from_civil (cd_year (civil_from_days n)) (cd_month (civil_from_days n)) (cd_day (civil_from_days n)) = n \<and>
   1 \<le> cd_month (civil_from_days n) \<and> cd_month (civil_from_days n) \<le> 12 \<and>
   1 \<le> cd_day (civil_from_days n) \<and> cd_day (civil_from_days n) \<le> 31 \<and>
   (n + 719468) div 146097 * 400 \<le> cd_year (civil_from_days n) \<and>
   cd_year (civil_from_days n) \<le> (n + 719468) div 146097 * 400 + 400"
proof -
  define era d where "era = (n + 719468) div 146097" and "d = n + 719468 - era * 146097"
  have "d = (n + 719468) mod 146097" unfolding d_def era_def by (simp add: minus_div_mult_eq_mod)
  then have "0 \<le> d" "d < 146097" by simp_all
  then have "0 \<le> d" "d \<le> 146096" by simp_all
  then obtain y where y: "0 \<le> y" "y < 400" "first_day y \<le> d" "d \<le> last_day y" by (rule day_in_year)
  define doy mp where "doy = d - first_day y" and "mp = (5 * doy + 2) div 153"
  have "0 \<le> doy" "doy \<le> 365" using y(3,4) day_of_year_bounds[OF y(1,2)] unfolding doy_def by simp_all
  note months = month_days[OF this, folded mp_def]
  let ?m = "mp + (if mp < 10 then 3 else - 9)"
  have civil: "civil_from_days n = \<lparr>cd_year = y + era * 400 + (if ?m \<le> 2 then 1 else 0), cd_month = ?m,
      cd_day = doy - (153 * mp + 2) div 5 + 1\<rparr>"
    unfolding civil_from_days_def Let_def floor_div_mod(1)[of 146097, simplified] era_def[symmetric] d_def[symmetric]
      year_of_era_exact[OF y] first_day_def[symmetric] doy_def[symmetric] mp_def[symmetric] ..
  have "(y + era * 400) div 400 = era" using y(1,2) by simp
  moreover have "?m + (if ?m > 2 then - 3 else 9) = mp" "1 \<le> ?m" "?m \<le> 12" using months by auto
  moreover have "y * 365 + y div 4 - y div 100 + doy = d" unfolding doy_def first_day_def by simp
  ultimately show ?thesis
    using months y(1,2) unfolding civil days_from_civil_def Let_def floor_div_mod(1)[of 400, simplified]
    by (auto simp: d_def era_def[symmetric])
qed

section \<open>The text is read back\<close>

lemma zero_padded_width:
  assumes "0 \<le> i" "i < 10 ^ width" "0 < width"
  shows "length (zero_padded width i) = width" "list_all is_digit_char (zero_padded width i)"
    "digits_value (zero_padded width i) = i"
proof -
  obtain n where i: "i = int n" using assms(1) nonneg_int_cases by blast
  obtain k where k: "width = Suc k" using assms(3) gr0_implies_Suc by blast
  have "int n < int (10 ^ width)" using assms(2) i by simp
  then have "n < 10 ^ Suc k" unfolding k by (simp only: of_nat_less_iff)
  then have l: "length (nat_text n) \<le> width" using length_nat_text k by simp
  have z: "zero_padded width i = replicate (width - length (nat_text n)) (CHR ''0'') @ nat_text n"
    by (simp add: zero_padded_def Let_def i)
  show "length (zero_padded width i) = width" using l by (simp add: z)
  have zero: "is_digit_char (CHR ''0'')" "digit_value (CHR ''0'') = 0"
    by (simp_all add: is_digit_char_def digit_value_def less_eq_char_def)
  show "list_all is_digit_char (zero_padded width i)" 
    using nat_text_digits[of n] by (auto simp: z list_all_iff zero)
  have fold: "digits_value t = int (foldl (\<lambda>v ch. v * 10 + digit_value ch) 0 t)" for t
  proof -
    have "foldl (\<lambda>v ch. v * 10 + int (digit_value ch)) (int a) t = int (foldl (\<lambda>v ch. v * 10 + digit_value ch) a t)" for a
    proof (induction t arbitrary: a)
      case (Cons c t)
      then show ?case using Cons.IH[of "a * 10 + digit_value c"] by simp
    qed simp
    from this[of 0] show ?thesis by (simp add: digits_value_def)
  qed
  have "foldl (\<lambda>v ch. v * 10 + digit_value ch) 0 (replicate m (CHR ''0'')) = 0" for m
    by (induction m) (simp_all add: zero)
  then show "digits_value (zero_padded width i) = i" unfolding z fold by (simp add: nat_text_value i)
qed

lemma parse_unsigned_padded:
  "0 \<le> i \<Longrightarrow> i < 10 ^ width \<Longrightarrow> 0 < width \<Longrightarrow> parse_unsigned (zero_padded width i) width = Inr i"
  using zero_padded_width[of i width] by (auto simp: parse_unsigned_def all_digits_def)

lemma parse_utc_fields:
  assumes len: "length Y = 4" "length M = 2" "length D = 2" "length h = 2" "length m = 2" "length s = 2" "length f = 9"
    and dig: "list_all is_digit_char Y" "list_all is_digit_char f"
    and fields: "parse_unsigned Y 4 = Inr year" "parse_unsigned M 2 = Inr month" "parse_unsigned D 2 = Inr day"
      "parse_unsigned h 2 = Inr hour" "parse_unsigned m 2 = Inr minute" "parse_unsigned s 2 = Inr second"
    and ranges: "1 \<le> month" "month \<le> 12" "1 \<le> day" "day \<le> 31" "hour \<le> 23" "minute \<le> 59" "second \<le> 60"
    and total: "seconds = days_from_civil year month day * 86400 + hour * 3600 + minute * 60 + second"
      "in_i64 (seconds * ns_per_second)" "in_i64 (seconds * ns_per_second + digits_value f)"
  shows "parse_utc (Y @ ''-'' @ M @ ''-'' @ D @ ''T'' @ h @ '':'' @ m @ '':'' @ s @ ''.'' @ f @ ''Z'') =
    Some (Inr (TimePoint (word_of_int (seconds * ns_per_second + digits_value f))))"
proof -
  define t where t: "t = Y @ ''-'' @ M @ ''-'' @ D @ ''T'' @ h @ '':'' @ m @ '':'' @ s @ ''.'' @ f @ ''Z''"
  have nd: "\<not> is_digit_char (CHR ''-'')" by (simp add: is_digit_char_def less_eq_char_def)
  obtain c Y' where Y: "Y = c # Y'" using len(1) by (cases Y) simp_all
  then have "c \<noteq> CHR ''-''" using dig(1) nd by auto
  then have "\<not> all_digits t" "hd t \<noteq> CHR ''-''"
    using nd Y by (simp_all add: all_digits_def t)
  moreover have "length t = 30" "last t = CHR ''Z''" using len by (simp_all add: t)
  moreover have at: "t ! 4 = CHR ''-''" "t ! 7 = CHR ''-''" "t ! 10 = CHR ''T''" "t ! 19 = CHR ''.''"
    using len by (simp_all add: nth_append t)
  moreover have "substr t 0 4 = Y" "substr t 5 2 = M" "substr t 8 2 = D" "substr t 11 2 = h"
    "substr t 14 2 = m" "substr t 17 2 = s"
    using len by (simp_all add: substr_def t)
  moreover have "parse_fraction t = Inr (digits_value f)"
  proof -
    have "substr t 20 9 = f" using len by (simp add: substr_def t)
    moreover have "all_digits f" using dig(2) len(7) by (auto simp: all_digits_def)
    moreover have "f \<noteq> []" using len(7) by auto
    ultimately show ?thesis using \<open>length t = 30\<close> at(4) len(7)
      unfolding parse_fraction_def Let_def by simp
  qed
  moreover have "t \<noteq> []" using \<open>length t = 30\<close> by auto
  ultimately show ?thesis
    using fields ranges total(2,3)[unfolded total(1)] unfolding t[symmetric] parse_utc_def Let_def total(1)
    by (simp del: of_int_add of_int_mult)
qed

lemma parse_utc_padded:
  assumes range: "0 \<le> year" "year < 10 ^ 4" "1 \<le> month" "month \<le> 12" "1 \<le> day" "day \<le> 31"
      "0 \<le> hour" "hour \<le> 23" "0 \<le> minute" "minute \<le> 59" "0 \<le> second" "second \<le> 60" "0 \<le> nanos" "nanos < 10 ^ 9"
    and total: "seconds = days_from_civil year month day * 86400 + hour * 3600 + minute * 60 + second"
      "in_i64 (seconds * ns_per_second)" "in_i64 (seconds * ns_per_second + nanos)"
  shows "parse_utc (zero_padded 4 year @ ''-'' @ zero_padded 2 month @ ''-'' @ zero_padded 2 day @ ''T'' @
      zero_padded 2 hour @ '':'' @ zero_padded 2 minute @ '':'' @ zero_padded 2 second @ ''.'' @ zero_padded 9 nanos @ ''Z'') =
    Some (Inr (TimePoint (word_of_int (seconds * ns_per_second + nanos))))"
proof -
  have small: "month < 10 ^ 2" "day < 10 ^ 2" "hour < 10 ^ 2" "minute < 10 ^ 2" "second < 10 ^ 2"
    and least: "0 \<le> month" "0 \<le> day"
    using range by simp_all
  note fields = zero_padded_width[OF range(1,2) zero_less_numeral] zero_padded_width[OF least(1) small(1) zero_less_numeral]
    zero_padded_width[OF least(2) small(2) zero_less_numeral] zero_padded_width[OF range(7) small(3) zero_less_numeral]
    zero_padded_width[OF range(9) small(4) zero_less_numeral] zero_padded_width[OF range(11) small(5) zero_less_numeral]
    zero_padded_width[OF range(13,14) zero_less_numeral]
  note parsed = parse_unsigned_padded[OF range(1,2) zero_less_numeral] parse_unsigned_padded[OF least(1) small(1) zero_less_numeral]
    parse_unsigned_padded[OF least(2) small(2) zero_less_numeral] parse_unsigned_padded[OF range(7) small(3) zero_less_numeral]
    parse_unsigned_padded[OF range(9) small(4) zero_less_numeral] parse_unsigned_padded[OF range(11) small(5) zero_less_numeral]
  show ?thesis
    using parse_utc_fields[OF fields(1,4,7,10,13,16,19,2,20) parsed range(3-6,8,10,12) total(1,2)] total(3)
    unfolding fields(21) by simp
qed

theorem utc_round_trip:
  assumes "- 9223372036000000000 \<le> sint (tp_nanos p)"
  shows "parse_utc (format_utc p) = Some (Inr p)"
proof -
  define ns where "ns = sint (tp_nanos p)"
  define days within where "days = ns div ns_per_day" and "within = ns mod ns_per_day"
  define sod nos where "sod = within div ns_per_second" and "nos = within mod ns_per_second"
  define date where "date = civil_from_days days"
  note civil = civil_round_trip[of days, folded date_def]
  have month_day: "1 \<le> cd_month date" "cd_month date \<le> 12" "1 \<le> cd_day date" "cd_day date \<le> 31"
    using civil by blast+
  have range: "- 9223372036854775808 \<le> ns" "ns \<le> 9223372036854775807"
    using sint_greater_eq[of "tp_nanos p"] sint_lt[of "tp_nanos p"] unfolding ns_def by simp_all
  have within: "0 \<le> within" "within < 86400000000000" "ns = days * 86400000000000 + within"
    unfolding within_def days_def ns_per_day_def ns_per_second_def by simp_all
  have sod: "0 \<le> sod" "sod < 86400" "0 \<le> nos" "nos < 1000000000" "within = sod * 1000000000 + nos"
    using within unfolding sod_def nos_def ns_per_second_def by simp_all
  have "- 106752 \<le> days" "days \<le> 106752" using range within by linarith+
  then have "4 \<le> (days + 719468) div 146097" "(days + 719468) div 146097 \<le> 6" by linarith+
  then have "1600 \<le> cd_year date" "cd_year date < 10 ^ 4" using civil by simp_all
  note year = this
  have time: "0 \<le> sod div 3600" "sod div 3600 \<le> 23" "0 \<le> sod div 60 mod 60" "sod div 60 mod 60 \<le> 59"
    "0 \<le> sod mod 60" "sod mod 60 \<le> 59"
    using sod by simp_all
  define t where "t = days * 86400 + sod"
  have total: "t = days_from_civil (cd_year date) (cd_month date) (cd_day date) * 86400 +
      sod div 3600 * 3600 + sod div 60 mod 60 * 60 + sod mod 60"
  proof -
    have "sod div 60 div 60 = sod div 3600" by (simp add: zdiv_zmult2_eq[symmetric])
    then have "sod = sod div 3600 * 3600 + sod div 60 mod 60 * 60 + sod mod 60"
      using div_mult_mod_eq[of sod 60] div_mult_mod_eq[of "sod div 60" 60] by linarith
    then show ?thesis using civil unfolding t_def by linarith
  qed
  have ns: "t * ns_per_second + nos = ns" using within sod unfolding ns_per_second_def t_def by simp
  have no_overflow: "in_i64 (t * ns_per_second)" "in_i64 (t * ns_per_second + nos)"
  proof -
    have t: "t * 1000000000 + nos = ns" using ns unfolding ns_per_second_def .
    then have "- 9223372037 < t" using sod(3,4) assms unfolding ns_def[symmetric] by linarith
    then have "- 9223372036000000000 \<le> t * 1000000000" by simp
    then show "in_i64 (t * ns_per_second)" "in_i64 (t * ns_per_second + nos)"
      using t sod(3,4) range unfolding in_i64_def ns_per_second_def by simp_all
  qed
  have shape: "format_utc p = zero_padded 4 (cd_year date) @ ''-'' @ zero_padded 2 (cd_month date) @ ''-'' @
      zero_padded 2 (cd_day date) @ ''T'' @ zero_padded 2 (sod div 3600) @ '':'' @ zero_padded 2 (sod div 60 mod 60) @
      '':'' @ zero_padded 2 (sod mod 60) @ ''.'' @ zero_padded 9 nos @ ''Z''"
    unfolding format_utc_def Let_def date_def days_def within_def sod_def nos_def ns_def
    by (simp add: floor_div_mod ns_per_day_def ns_per_second_def)
  have "parse_utc (format_utc p) = Some (Inr (TimePoint (word_of_int (t * ns_per_second + nos))))"
    unfolding shape
    by (rule parse_utc_padded[OF _ year(2) month_day time(1-5) _ sod(3) _ total no_overflow])
      (use year(1) time(6) sod(4) in simp_all)
  then show ?thesis unfolding ns by (cases p) (simp add: ns_def)
qed

end
