(* ===== verification/Fab_Display.thy ===== *)
theory Fab_Display
  imports Fab_Query Fab_Diff Fab_Recovery Fab_Number Fab_Utc
begin

text \<open>
  The texts shown to people: \<^verbatim>\<open>Value::display_text\<close>, the canonical summaries of snapshots,
  queries and differences, and the text of a recovery report. The text of a value never contains
  a control character, whatever a source put into it, so it cannot break the line it stands on.
\<close>

section \<open>Values\<close>

definition display_char :: "char \<Rightarrow> string" where
  "display_char ch =
     (if ch = CHR 0x22 then [CHR 0x5C, CHR 0x22]
      else if ch = CHR 0x5C then [CHR 0x5C, CHR 0x5C]
      else if ch = CHR 0x0A then [CHR 0x5C, CHR ''n'']
      else if ch = CHR 0x0D then [CHR 0x5C, CHR ''r'']
      else if ch = CHR 0x09 then [CHR 0x5C, CHR ''t'']
      else if byte_of_char ch < 0x20 \<or> byte_of_char ch = 0x7F
      then [CHR 0x5C, CHR ''x''] @ hex_encode [byte_of_char ch] else [ch])"

definition append_escaped :: "string \<Rightarrow> string" where
  "append_escaped text = CHR 0x22 # concat (map display_char text) @ [CHR 0x22]"

fun display_text :: "fvalue \<Rightarrow> string"
and display_list :: "fvalue list \<Rightarrow> string"
and display_map :: "(string \<times> fvalue) list \<Rightarrow> string" where
  "display_text VNull = ''null''"
| "display_text (VBool b) = (if b then ''true'' else ''false'')"
| "display_text (VInt w) = int_text (sint w)"
| "display_text (VUint w) = u64_text w"
| "display_text (VReal x) = to_chars_double x"
| "display_text (VText s) = append_escaped s"
| "display_text (VBlob bs) = ''0x'' @ hex_encode bs"
| "display_text (VList vs) = ''['' @ display_list vs @ '']''"
| "display_text (VMap es) = ''{'' @ display_map es @ ''}''"
| "display_list [] = []"
| "display_list (v # vs) = display_text v @ (if vs = [] then [] else '', '' @ display_list vs)"
| "display_map [] = []"
| "display_map (e # es) = append_escaped (fst e) @ '': '' @ display_text (snd e) @
     (if es = [] then [] else '', '' @ display_map es)"

section \<open>Summaries\<close>

abbreviation num :: "'a::len word \<Rightarrow> string" where
  "num w \<equiv> nat_text (unat w)"

abbreviation yes_no :: "bool \<Rightarrow> string" where
  "yes_no b \<equiv> (if b then ''yes'' else ''no'')"

abbreviation line :: "string \<Rightarrow> string" where
  "line s \<equiv> s @ [CHR 0x0A]"

definition recovery_report_text :: "recovery_report \<Rightarrow> string" where
  "recovery_report_text r =
     line (''journal_recovery opened='' @ yes_no (rr_opened r) @ '' created='' @ yes_no (rr_created r) @
       '' format_version='' @ num (rr_format_version r) @ '' format_supported='' @ yes_no (rr_format_supported r)) @
     line (''  file_bytes='' @ nat_text (rr_file_bytes r) @ '' records_read='' @ nat_text (rr_records_read r) @
       '' records_accepted='' @ nat_text (rr_records_accepted r) @
       '' records_rejected='' @ nat_text (rr_records_rejected r)) @
     line (''  parts_recovered='' @ nat_text (rr_parts_recovered r) @
       '' restart_markers='' @ nat_text (rr_restart_markers r) @
       '' snapshot_markers='' @ nat_text (rr_snapshot_markers r)) @
     line (''  chain_verified='' @ yes_no (rr_chain_verified r) @ '' truncated='' @ yes_no (rr_truncated r) @
       '' corrupt='' @ yes_no (rr_corrupt r) @ '' truncated_tail_bytes='' @ nat_text (rr_truncated_tail_bytes r)) @
     concat (map (\<lambda>d. line (''  diagnostic at '' @ nat_text (rd_offset d) @ '': '' @ rd_code d @ '' ('' @
       rd_detail d @ '')'')) (rr_diagnostics r))"

definition claim_summary :: "claim_record \<Rightarrow> string" where
  "claim_summary c =
     line (''      claim '' @ id_to_text ''src'' (rc_source c) @ '' seq='' @ num (rc_sequence c) @ '' '' @
       verdict_text (rc_freshness c) @ '' value='' @ display_text (rc_value c) @
       (if \<not> rc_supported c then '' unsupported'' else []) @
       (if superseded_generation c then '' superseded-generation'' else []) @
       (if superseded_epoch c then '' superseded-epoch'' else []) @
       (if superseded_incarnation c then '' superseded-incarnation'' else []) @
       (if superseded_by_later_sequence c then '' superseded-sequence'' else []) @
       (if rc_recovered c then '' recovered'' else []))"

definition aspect_head :: "aspect_state \<Rightarrow> string" where
  "aspect_head a = ''    aspect '' @ aspect_value (as_aspect a) @ '' '' @ truth_text (as_truth a) @
     (case as_agreed_value a of Some v \<Rightarrow> '' value='' @ display_text v | None \<Rightarrow> [])"

definition aspect_summary :: "aspect_state \<Rightarrow> string" where
  "aspect_summary a =
     line (aspect_head a @ '' fresh_sources='' @ num (distinct_fresh_sources (as_coverage a)) @ ''/'' @
       num (required_distinct_fresh_sources (as_coverage a)) @
       '' authority='' @ authority_text (best_fresh_authority (as_coverage a)) @ ''/'' @
       authority_text (cv_required_authority (as_coverage a))) @
     concat (map (\<lambda>g. line (''      conflict '' @ display_text (cg_value g) @ '' sources='' @
       num (cg_fresh_sources g))) (as_conflicts a)) @
     concat (map claim_summary (as_claims a))"

definition subject_head :: "subject_state \<Rightarrow> string" where
  "subject_head t = line (''  subject '' @ typed_text (sb_identity t) @ '' worst='' @ truth_text (sb_worst_truth t))"

definition source_line :: "source_summary \<Rightarrow> string" where
  "source_line s =
     line (''    '' @ ss_name s @ '' '' @ id_to_text ''src'' (ss_id s) @ '' authority='' @
       authority_text (ss_max_authority s) @ '' incarnation='' @ id_to_text ''inc'' (si_id (ss_incarnation s)) @
       '' accepted='' @ num (ss_accepted s) @ '' retained='' @ num (ss_retained_records s) @
       '' freshness='' @ verdict_text (ss_freshness s))"

text \<open>One line for each name of an enumeration and its counter.\<close>

definition count_lines :: "string \<Rightarrow> ('e \<times> string) list \<Rightarrow> nat list \<Rightarrow> string" where
  "count_lines label names counts =
     concat (map (\<lambda>(e, n). line (''    '' @ label @ '' '' @ snd e @ '' '' @ nat_text n)) (zip names counts))"

definition snapshot_summary :: "snapshot \<Rightarrow> string" where
  "snapshot_summary s =
     line (''snapshot '' @ snapshot_id_to_text (sn_id s)) @
     line (''  fabric '' @ id_to_text ''fab'' (sn_fabric s)) @
     line (''  generation '' @ num (sn_generation s) @ '' epoch '' @ num (sn_epoch s)) @
     line (''  evaluation_time '' @ format_utc (sn_evaluation_time s)) @
     line (''  observed_high_water '' @ format_utc (sn_observed_high_water s)) @
     line (''  received_window ['' @ format_utc (sn_received_low_water s) @ '', '' @
       format_utc (sn_received_high_water s) @ '']'') @
     line (''  policy '' @ sn_policy_name s @ '' '' @ digest_to_short_hex (sn_policy_digest s)) @
     line (''  restart_epoch '' @ num (sn_restart_epoch s) @ '' restart_count '' @ num (sn_restart_count s)) @
     line (''  evidence_records '' @ nat_text (sn_evidence_records s)) @
     line (''  sources '' @ nat_text (n_sources (sn_stats s))) @
     concat (map source_line (sn_sources s)) @
     line (''  subjects '' @ nat_text (n_subjects (sn_stats s)) @ '' aspects '' @ nat_text (n_aspects (sn_stats s)) @
       '' claims '' @ nat_text (n_claims (sn_stats s)) @ '' conflicts '' @ nat_text (n_conflicts (sn_stats s))) @
     count_lines ''kind'' entity_kind_names (subjects_by_kind (sn_stats s)) @
     count_lines ''truth'' truth_names (aspects_by_truth (sn_stats s)) @
     line (''  rejected_observations '' @ nat_text (n_rejected_observations (sn_stats s)) @
       '' fenced_claims '' @ nat_text (n_fenced_claims (sn_stats s)) @
       '' superseded_claims '' @ nat_text (n_superseded_claims (sn_stats s)) @
       '' recovered_claims '' @ nat_text (n_recovered_claims (sn_stats s))) @
     concat (map (\<lambda>t. subject_head t @ concat (map aspect_summary (sb_aspects t))) (sn_subjects s))"

definition query_summary :: "query_result \<Rightarrow> string" where
  "query_summary r =
     line (''query snapshot '' @ snapshot_id_to_text (qr_snapshot r)) @
     line (''  generation '' @ num (qr_generation r) @ '' epoch '' @ num (qr_epoch r)) @
     line (''  scanned '' @ num (qr_scanned r) @ '' matched_subjects '' @ num (qr_matched_subjects r) @
       '' matched_aspects '' @ num (qr_matched_aspects r) @ '' truncated '' @ yes_no (qr_truncated r)) @
     line (''  digest '' @ digest_to_hex (qr_digest r)) @
     concat (map (\<lambda>t. subject_head t @ concat (map (\<lambda>a. line (aspect_head a)) (sb_aspects t))) (qr_subjects r))"

definition optional_value :: "fvalue option \<Rightarrow> string" where
  "optional_value v = (case v of Some x \<Rightarrow> display_text x | None \<Rightarrow> ''<none>'')"

definition change_line :: "aspect_change \<Rightarrow> string" where
  "change_line c =
     line (''  '' @ typed_text (ac_subject c) @ '' '' @ aspect_value (ac_aspect c) @ '' '' @
       truth_text (ac_before c) @ '' -> '' @ truth_text (ac_after c) @
       (if ac_value_before c \<noteq> None \<or> ac_value_after c \<noteq> None
        then '' value '' @ optional_value (ac_value_before c) @ '' -> '' @ optional_value (ac_value_after c) else []))"

definition diff_summary :: "snapshot_diff \<Rightarrow> string" where
  "diff_summary d =
     line (''diff '' @ snapshot_id_to_text (df_before_id d) @ '' -> '' @ snapshot_id_to_text (df_after_id d)) @
     line (''  generation '' @ num (df_before_generation d) @ '' -> '' @ num (df_after_generation d) @
       (if df_generation_changed d then '' (changed)'' else [])) @
     line (''  epoch '' @ num (df_before_epoch d) @ '' -> '' @ num (df_after_epoch d) @
       (if df_epoch_changed d then '' (changed)'' else [])) @
     (if df_restart_observed d
      then line (''  restart observed: '' @ num (df_restarts_between d) @ '' restart(s) between the snapshots'')
      else []) @
     line (''  subjects_added '' @ nat_text (length (df_subjects_added d)) @
       '' subjects_removed '' @ nat_text (length (df_subjects_removed d)) @
       '' aspect_changes '' @ nat_text (length (df_changes d)) @ '' truncated '' @ yes_no (df_truncated d)) @
     line (''  digest '' @ digest_to_hex (df_digest d)) @
     concat (map change_line (df_changes d))"

end
