(* ===== verification/Fab_Explanation.thy ===== *)
theory Fab_Explanation
  imports Fab_Display
begin

text \<open>
  \<^verbatim>\<open>explanation.cpp\<close>: why an aspect has the truth state it has. The truth of an explanation is
  the least truth of the aspects it covers, which for a whole subject of a built snapshot is the
  worst truth the snapshot records; every list it carries is bounded.
\<close>

section \<open>Lines\<close>

abbreviation in_quotes :: "string \<Rightarrow> string" where
  "in_quotes s \<equiv> CHR 0x27 # s @ [CHR 0x27]"

definition count_text :: "'a list \<Rightarrow> string" where
  "count_text xs = num (of_nat (length xs) :: 32 word)"

definition truth_state_reason :: "aspect_state \<Rightarrow> string" where
  "truth_state_reason a =
     (let name = aspect_value (as_aspect a)
      in case as_truth a of
        TS_Unknown \<Rightarrow> ''unknown: no evidence for aspect '' @ in_quotes name @
          '' has been accepted; absence of evidence is not positive evidence''
      | TS_Unsupported \<Rightarrow>
          ''unsupported: '' @ count_text (filter (\<lambda>c. \<not> rc_supported c) (as_claims a)) @ '' of '' @
          nat_text (length (as_claims a)) @ '' retained claim(s) for aspect '' @ in_quotes name @
          '' declare that the reporting source cannot supply it''
      | TS_Conflicting \<Rightarrow>
          ''conflicting: '' @ nat_text (length (as_conflicts a)) @
          '' distinct values are asserted by fresh evidence for aspect '' @ in_quotes name @
          '' and this runtime does not choose between them'' @
          concat (map (\<lambda>g. ''; '' @ display_text (cg_value g) @ '' from '' @ num (cg_fresh_sources g) @
            '' fresh source(s)'') (as_conflicts a))
      | TS_Stale \<Rightarrow>
          ''stale: '' @ count_text (filter (\<lambda>c. is_current c \<and> rc_supported c) (as_claims a)) @
          '' current claim(s) for aspect '' @ in_quotes name @
          '' exist but none is fresh at the snapshot evaluation time''
      | TS_Incomplete \<Rightarrow>
          ''incomplete: fresh evidence for aspect '' @ in_quotes name @ '' agrees but coverage is '' @
          num (distinct_fresh_sources (as_coverage a)) @ ''/'' @
          num (required_distinct_fresh_sources (as_coverage a)) @
          '' distinct fresh source(s) with best authority '' @
          authority_text (best_fresh_authority (as_coverage a)) @ '' (requires '' @
          authority_text (cv_required_authority (as_coverage a)) @ '')''
      | TS_Known \<Rightarrow>
          ''known: '' @ num (distinct_fresh_sources (as_coverage a)) @ '' fresh source(s) agree on aspect '' @
          in_quotes name @ (case as_agreed_value a of Some v \<Rightarrow> '' with value '' @ display_text v | None \<Rightarrow> []))"

definition causality_line :: "causal_ref \<Rightarrow> digest256 \<Rightarrow> string" where
  "causality_line r subject_observation =
     ''observation '' @ digest_to_short_hex subject_observation @ '' '' @ causal_text (cr_strength r) @
     '' observation '' @ digest_to_short_hex (cr_antecedent r) @
     (if cr_basis r \<noteq> [] then '' (basis: '' @ cr_basis r @ '')'' else []) @ ''; '' @
     causality_disclaimer (cr_strength r)"

definition claim_line :: "claim_record \<Rightarrow> string" where
  "claim_line c =
     ''source '' @ id_to_text ''src'' (rc_source c) @ '' incarnation '' @
     take 16 (id_to_text ''inc'' (rc_incarnation c)) @ '' sequence '' @ num (rc_sequence c) @
     '' authority '' @ authority_text (rc_authority c) @ '' freshness '' @ verdict_text (rc_freshness c) @
     '' observed '' @ format_utc (rc_observed_at c) @ '' received '' @ format_utc (rc_received_at c) @
     '' value '' @ display_text (rc_value c) @
     (if \<not> rc_supported c then '' [declared unsupported]'' else []) @
     (if superseded_generation c then '' [superseded by a later generation]'' else []) @
     (if superseded_epoch c then '' [superseded by a later epoch of the same generation]'' else []) @
     (if superseded_incarnation c then '' [superseded by a later incarnation of the same source]'' else []) @
     (if superseded_by_later_sequence c
      then '' [superseded by a later sequence from the same source incarnation]'' else []) @
     (if rc_recovered c
      then '' [recovered from persistence at restart '' @ num (rc_recovery_epoch c) @ '']'' else [])"

definition rejection_line :: "rejected_observation \<Rightarrow> string" where
  "rejection_line r =
     ''rejected observation '' @ digest_to_short_hex (rj_observation_id r) @ '' from source '' @
     id_to_text ''src'' (rj_source r) @ '' sequence '' @ num (rj_sequence r) @ '': '' @
     status_code_text (rj_fence r) @ '' ('' @ rj_explanation r @ '')''"

definition fence_line :: "fenced_claim \<Rightarrow> string" where
  "fence_line f =
     ''fenced claim for '' @ typed_text (fc_subject f) @ '' '' @ aspect_value (fc_aspect f) @
     '' from source '' @ id_to_text ''src'' (fc_source f) @ '' sequence '' @ num (fc_sequence f) @ '': '' @
     status_code_text (fc_fence f) @ '' ('' @ fc_explanation f @ '')''"

section \<open>Explanations\<close>

record explanation =
  ex_snapshot :: digest256
  ex_subject :: subject_identity
  ex_aspect :: "aspect_id option"
  ex_truth :: truth_state
  ex_reasons :: "string list"
  ex_evidence :: "string list"
  ex_fences :: "string list"
  ex_causality :: "string list"

definition blank_explanation :: "snapshot \<Rightarrow> subject_identity \<Rightarrow> aspect_id option \<Rightarrow> explanation" where
  "blank_explanation s subject aspect = \<lparr>ex_snapshot = sn_id s, ex_subject = subject, ex_aspect = aspect,
     ex_truth = TS_Unknown, ex_reasons = [], ex_evidence = [], ex_fences = [], ex_causality = []\<rparr>"

text \<open>Appending while there is room, as the loops with a bound do.\<close>

definition append_bounded :: "nat \<Rightarrow> string list \<Rightarrow> string list \<Rightarrow> string list" where
  "append_bounded bound lines extra = (if length lines < bound then lines @ take (bound - length lines) extra else lines)"

definition selected_aspects :: "subject_state \<Rightarrow> aspect_id option \<Rightarrow> aspect_state list" where
  "selected_aspects state aspect =
     filter (\<lambda>a. case aspect of Some i \<Rightarrow> as_aspect a = i | None \<Rightarrow> True) (sb_aspects state)"

definition explain_aspect :: "nat \<Rightarrow> aspect_state \<Rightarrow> explanation \<Rightarrow> explanation" where
  "explain_aspect bound a e =
     (let name = aspect_value (as_aspect a) @ '': ''
      in e\<lparr>ex_truth := (if truth_number (as_truth a) < truth_number (ex_truth e) then as_truth a else ex_truth e),
           ex_reasons := append_bounded bound (ex_reasons e) [name @ truth_state_reason a],
           ex_evidence := append_bounded bound (ex_evidence e) (map (\<lambda>c. name @ claim_line c) (as_claims a))\<rparr>)"

definition fence_lines :: "snapshot \<Rightarrow> subject_state \<Rightarrow> aspect_id option \<Rightarrow> aspect_state list \<Rightarrow> string list" where
  "fence_lines s state aspect selected =
     (let reporting_sources = set (map rc_source (concat (map as_claims selected)))
      in map rejection_line (filter (\<lambda>r. rj_source r \<in> reporting_sources) (sn_rejected s)) @
         map fence_line (filter (\<lambda>f. su_id (fc_subject f) = su_id (sb_identity state) \<and>
           (case aspect of Some i \<Rightarrow> fc_aspect f = i | None \<Rightarrow> True)) (sn_fenced_claims s)))"

definition explain_subject :: "snapshot \<Rightarrow> subject_identity \<Rightarrow> aspect_id option \<Rightarrow> limits \<Rightarrow> explanation" where
  "explain_subject s subject aspect l =
     (let bound = unat (max_explanation_lines l)
      in case find_subject s (subject_ref subject) of
        None \<Rightarrow> (blank_explanation s subject aspect)\<lparr>ex_reasons := [''unknown: subject '' @
          in_quotes (typed_text subject) @
          '' has no accepted evidence in this snapshot; absence of evidence is not positive evidence'']\<rparr>
      | Some state \<Rightarrow>
          (let e = blank_explanation s (sb_identity state) aspect; selected = selected_aspects state aspect
           in if selected = []
              then e\<lparr>ex_reasons := [''unknown: no evidence has been accepted for the requested aspect of subject '' @
                in_quotes (typed_text (sb_identity state))]\<rparr>
              else (fold (explain_aspect bound) selected (e\<lparr>ex_truth := TS_Known\<rparr>))
                \<lparr>ex_fences := append_bounded bound [] (fence_lines s state aspect selected)\<rparr>))"

definition explain_absent :: "snapshot \<Rightarrow> entity_ref \<Rightarrow> aspect_id option \<Rightarrow> explanation" where
  "explain_absent s ref aspect =
     (blank_explanation s (subject_default\<lparr>su_kind := fst ref, su_id := snd ref\<rparr>) aspect)
       \<lparr>ex_reasons := [''unknown: subject '' @ entity_ref_to_text ref @
         '' is not present in this snapshot; absence of evidence is not positive evidence'']\<rparr>"

definition explanation_text :: "explanation \<Rightarrow> string" where
  "explanation_text e =
     line (''explanation snapshot '' @ snapshot_id_to_text (ex_snapshot e)) @
     line (''  subject '' @ typed_text (ex_subject e)) @
     line (''  aspect '' @ (case ex_aspect e of Some i \<Rightarrow> aspect_value i | None \<Rightarrow> ''<all>'')) @
     line (''  truth '' @ truth_text (ex_truth e)) @
     concat (map (\<lambda>t. line (''  reason: '' @ t)) (ex_reasons e)) @
     concat (map (\<lambda>t. line (''  evidence: '' @ t)) (ex_evidence e)) @
     concat (map (\<lambda>t. line (''  fence: '' @ t)) (ex_fences e)) @
     concat (map (\<lambda>t. line (''  causality: '' @ t)) (ex_causality e))"

section \<open>What an explanation says\<close>

lemma append_bounded_take: "append_bounded n (take n xs) ys = take n (xs @ ys)"
  by (simp add: append_bounded_def min_def)

definition reason_lines :: "aspect_state list \<Rightarrow> string list" where
  "reason_lines as = map (\<lambda>a. aspect_value (as_aspect a) @ '': '' @ truth_state_reason a) as"

definition evidence_lines :: "aspect_state list \<Rightarrow> string list" where
  "evidence_lines as =
     concat (map (\<lambda>a. map (\<lambda>c. aspect_value (as_aspect a) @ '': '' @ claim_line c) (as_claims a)) as)"

definition least_truth :: "truth_state \<Rightarrow> aspect_state list \<Rightarrow> truth_state" where
  "least_truth t as = foldl (\<lambda>t a. if truth_number (as_truth a) < truth_number t then as_truth a else t) t as"

lemma fold_explain_aspect:
  "fold (explain_aspect n) as (e\<lparr>ex_truth := t, ex_reasons := take n rs, ex_evidence := take n es\<rparr>) =
   e\<lparr>ex_truth := least_truth t as, ex_reasons := take n (rs @ reason_lines as),
     ex_evidence := take n (es @ evidence_lines as)\<rparr>"
proof (induction as arbitrary: t rs es)
  case (Cons a as)
  have "explain_aspect n a (e\<lparr>ex_truth := t, ex_reasons := take n rs, ex_evidence := take n es\<rparr>) =
    e\<lparr>ex_truth := (if truth_number (as_truth a) < truth_number t then as_truth a else t),
      ex_reasons := take n (rs @ reason_lines [a]), ex_evidence := take n (es @ evidence_lines [a])\<rparr>"
    by (simp add: explain_aspect_def Let_def append_bounded_take reason_lines_def evidence_lines_def)
  then show ?case
    using Cons.IH[where t = "if truth_number (as_truth a) < truth_number t then as_truth a else t"
        and rs = "rs @ reason_lines [a]" and es = "es @ evidence_lines [a]"]
    by (simp add: least_truth_def reason_lines_def evidence_lines_def)
qed (simp add: least_truth_def reason_lines_def evidence_lines_def)

text \<open>An explanation of a subject that has selected aspects, in full.\<close>

lemma explain_subject_exact:
  assumes "find_subject s (subject_ref subject) = Some t" "selected_aspects t aspect \<noteq> []"
  shows "explain_subject s subject aspect l = \<lparr>ex_snapshot = sn_id s, ex_subject = sb_identity t, ex_aspect = aspect,
    ex_truth = least_truth TS_Known (selected_aspects t aspect),
    ex_reasons = take (unat (max_explanation_lines l)) (reason_lines (selected_aspects t aspect)),
    ex_evidence = take (unat (max_explanation_lines l)) (evidence_lines (selected_aspects t aspect)),
    ex_fences = take (unat (max_explanation_lines l)) (fence_lines s t aspect (selected_aspects t aspect)),
    ex_causality = []\<rparr>"
proof -
  let ?n = "unat (max_explanation_lines l)"
  let ?e = "(blank_explanation s (sb_identity t) aspect)\<lparr>ex_truth := TS_Known\<rparr>"
  have "?e = ?e\<lparr>ex_truth := TS_Known, ex_reasons := take ?n [], ex_evidence := take ?n []\<rparr>"
    by (simp add: blank_explanation_def)
  then show ?thesis
    using assms fold_explain_aspect[where n = ?n and as = "selected_aspects t aspect" and e = ?e and t = TS_Known
        and rs = "[]" and es = "[]"]
      append_bounded_take[of ?n "[]" "fence_lines s t aspect (selected_aspects t aspect)"]
    by (simp add: explain_subject_def Let_def) (simp add: blank_explanation_def)
qed

lemma foldl_worst: "sb_worst_truth (foldl note_aspect s as) = least_truth (sb_worst_truth s) as"
  by (induction as arbitrary: s) (simp_all add: least_truth_def note_aspect_def)

lemma worst_is_least:
  assumes "snapshot_build rq = Some s" "t \<in> set (sn_subjects s)" "sb_aspects t \<noteq> []"
  shows "sb_worst_truth t = least_truth TS_Known (sb_aspects t)"
proof -
  obtain b where b: "t = build_subject (rq_policy rq) b" using snapshot_subject[OF assms(1,2)] by metis
  then show ?thesis using assms(3) foldl_worst
    by (simp add: build_subject_facts) (simp add: build_subject_def Let_def foldl_note_aspect)
qed

theorem explanation_of_subject:
  assumes "snapshot_build rq = Some s" "t \<in> set (sn_subjects s)" "sb_aspects t \<noteq> []"
  shows "ex_truth (explain_subject s (sb_identity t) None l) = sb_worst_truth t \<and>
    ex_reasons (explain_subject s (sb_identity t) None l) =
      take (unat (max_explanation_lines l)) (reason_lines (sb_aspects t)) \<and>
    ex_evidence (explain_subject s (sb_identity t) None l) =
      take (unat (max_explanation_lines l)) (evidence_lines (sb_aspects t))"
proof -
  have "find_subject s (subject_ref (sb_identity t)) = Some t" using find_subject_iff[OF assms(1)] assms(2) by simp
  moreover have "selected_aspects t None = sb_aspects t" by (simp add: selected_aspects_def)
  ultimately show ?thesis
    using explain_subject_exact[of s "sb_identity t" t None l] worst_is_least[OF assms] assms(3) by simp
qed

end
