(* ===== verification/Fab_Facade.thy ===== *)
theory Fab_Facade
  imports Fab_Observatory Fab_Explanation
begin

text \<open>
  The reading operations of \<^verbatim>\<open>Observatory\<close> that clients call: queries, hierarchies, differences,
  history, explanations, statistics and the canonical summary. Those that need a snapshot call
  \<^verbatim>\<open>current\<close>, which publishes one when there is none or when it is out of date; none of them
  touches the evidence.
\<close>

section \<open>Operations\<close>

definition ov_query :: "query_filter \<Rightarrow> observatory \<Rightarrow> query_result \<times> observatory" where
  "ov_query f ov = (let (s, ov) = current ov in (execute_query s f (ov_limits ov), ov))"

definition ov_hierarchy :: "hierarchy_query \<Rightarrow> observatory \<Rightarrow> hierarchy_result \<times> observatory" where
  "ov_hierarchy q ov = (let (s, ov) = current ov in (execute_hierarchy s q (ov_limits ov), ov))"

definition ov_diff :: "digest256 \<Rightarrow> digest256 \<Rightarrow> observatory \<Rightarrow> snapshot_diff result" where
  "ov_diff before after ov =
     (case (history_find (ov_history ov) before, history_find (ov_history ov) after) of
        (Some first, Some second) \<Rightarrow> Inr (diff_snapshots first second (ov_limits ov))
      | _ \<Rightarrow> err SC_NotFound (''snapshot history is per process: a snapshot published by an earlier run of this '' @
          ''runtime is recorded in the journal but cannot be rebuilt, because recovered '' @
          ''evidence is deliberately never presented as fresh''))"

definition ov_diff_latest :: "32 word \<Rightarrow> observatory \<Rightarrow> snapshot_diff result" where
  "ov_diff_latest lookback ov =
     (case history_latest (ov_history ov) of
        None \<Rightarrow> err SC_NotFound ''no snapshot has been published''
      | Some after \<Rightarrow>
          if sn_history_index after \<le> ucast lookback
          then err SC_NotFound (''snapshot history is per process: this run has published '' @
            num (sn_history_index after) @ '' snapshot(s) so far, and '' @ num lookback @
            '' step(s) back is not available. The persisted journal records every published '' @
            ''snapshot identity, but a snapshot cannot be rebuilt from a later restart: '' @
            ''recovered evidence is deliberately never presented as fresh.'')
          else case history_at (ov_history ov) (sn_history_index after - ucast lookback) of
            None \<Rightarrow> err SC_NotFound ''the earlier snapshot has been evicted''
          | Some before \<Rightarrow> Inr (diff_snapshots before after (ov_limits ov)))"

definition ov_history_entries :: "32 word \<Rightarrow> observatory \<Rightarrow> history_entry list" where
  "ov_history_entries max_entries ov = history_entries max_entries (ov_history ov)"

text \<open>The causal references of the retained observations behind the claims of the selected aspects.\<close>

definition causal_lines :: "observatory \<Rightarrow> aspect_state list \<Rightarrow> string list" where
  "causal_lines ov selected =
     concat (map (\<lambda>c. case map_of (ov_index ov) (rc_observation_id c) of
         None \<Rightarrow> []
       | Some i \<Rightarrow> if i \<ge> length (ov_records ov) then []
           else map (\<lambda>r. causality_line r (rc_observation_id c)) (ob_causal (or_observation (ov_records ov ! i))))
       (concat (map as_claims selected)))"

definition ov_explain :: "entity_ref \<Rightarrow> aspect_id option \<Rightarrow> observatory \<Rightarrow> explanation \<times> observatory" where
  "ov_explain subject aspect ov =
     (let (s, ov) = current ov
      in case find_subject s subject of
           None \<Rightarrow> (explain_absent s subject aspect, ov)
         | Some state \<Rightarrow>
             ((explain_subject s (sb_identity state) aspect (ov_limits ov))
                \<lparr>ex_causality := append_bounded (unat (max_explanation_lines (ov_limits ov))) []
                  (causal_lines ov (selected_aspects state aspect))\<rparr>, ov))"

record observatory_stats =
  os_observations_accepted :: "64 word"
  os_observations_duplicate :: "64 word"
  os_observations_fenced :: "64 word"
  os_observations_rejected :: "64 word"
  os_claims_fenced :: "64 word"
  os_evidence_evicted :: "64 word"
  os_snapshots_published :: "64 word"
  os_publications_skipped_unchanged :: "64 word"
  os_journal_records :: "64 word"
  os_journal_rotations :: "32 word"
  os_sources :: "32 word"
  os_evidence_records :: "64 word"
  os_restart_count :: "32 word"
  os_published :: bool
  os_dirty :: bool

definition ov_stats :: "observatory \<Rightarrow> observatory_stats" where
  "ov_stats ov = \<lparr>os_observations_accepted = ov_accepted ov, os_observations_duplicate = ov_duplicate ov,
     os_observations_fenced = ov_fenced ov, os_observations_rejected = ov_rejected_count ov,
     os_claims_fenced = ov_claims_fenced ov, os_evidence_evicted = ov_evicted ov,
     os_snapshots_published = ov_snapshots_published ov,
     os_publications_skipped_unchanged = ov_publications_skipped ov,
     os_journal_records = (case ov_journal ov of Some j \<Rightarrow> jn_records_written j | None \<Rightarrow> 0),
     os_journal_rotations = (case ov_journal ov of Some j \<Rightarrow> jn_rotations j | None \<Rightarrow> 0),
     os_sources = of_nat (length (ov_sources ov)), os_evidence_records = of_nat (length (ov_records ov)),
     os_restart_count = ov_restart_count ov, os_published = (ov_published ov \<noteq> None),
     os_dirty = ov_dirty ov\<rparr>"

definition observatory_summary :: "observatory \<Rightarrow> string \<times> observatory" where
  "observatory_summary ov =
     (let (s, ov) = current ov
      in (line (''observatory fabric '' @ id_to_text ''fab'' (oc_fabric (ov_config ov))) @
          line (''  '' @ policy_canonical_text (ov_policy ov)) @
          line (''  restart_epoch '' @ num (ov_restart_epoch ov) @ '' restart_count '' @ num (ov_restart_count ov)) @
          (case ov_journal ov of
             Some j \<Rightarrow> line (''  journal '' @ oc_journal_path (ov_config ov) @ '' bytes '' @ num (jn_current_bytes j) @
               '' rotations '' @ num (jn_rotations j) @ '' records '' @ num (jn_records_written j)) @
               recovery_report_text (ov_recovery ov)
           | None \<Rightarrow> line ''  journal none (in-memory only)'') @
          (if ov_journal_failed ov then line (''  journal_failure '' @ ov_journal_failure ov) else []) @
          snapshot_summary s, ov))"

end
