(* ===== verification/Fab_Json.thy ===== *)
theory Fab_Json
  imports Fab_Value Fab_Number
begin

text \<open>
  \<^verbatim>\<open>json.hpp\<close> and \<^verbatim>\<open>json.cpp\<close>: the bounded JSON subset of the wire format, its writer and its
  parser, and the tagged envelopes that carry values. The parser is total; it reads back what
  the writer wrote, plain or pretty; and a value survives the way through JSON text.
\<close>

section \<open>Documents\<close>

record json_limits =
  jl_max_input_bytes :: nat
  jl_max_depth :: nat
  jl_max_nodes :: nat
  jl_max_string_bytes :: nat
  jl_max_object_members :: nat
  jl_max_array_elements :: nat

definition default_json_limits :: json_limits where
  "default_json_limits = \<lparr>jl_max_input_bytes = 16 * 1024 * 1024, jl_max_depth = 32, jl_max_nodes = 262144,
     jl_max_string_bytes = 1024 * 1024, jl_max_object_members = 4096, jl_max_array_elements = 65536\<rparr>"

datatype json =
    JNull
  | JBool bool
  | JNumber "64 word"
  | JText string
  | JArray "json list"
  | JObject "(string \<times> json) list"

fun json_members :: "json \<Rightarrow> (string \<times> json) list" where
  "json_members (JObject ms) = ms"
| "json_members _ = []"

definition json_find :: "string \<Rightarrow> json \<Rightarrow> json option" where
  "json_find key j = map_of (json_members j) key"

section \<open>Writing\<close>

abbreviation "quote_char \<equiv> CHR 0x22"
abbreviation "backslash \<equiv> CHR 0x5C"

definition escape_char :: "char \<Rightarrow> string" where
  "escape_char ch =
     (if ch = quote_char then [backslash, quote_char]
      else if ch = backslash then [backslash, backslash]
      else if ch = CHR 0x08 then [backslash, CHR ''b'']
      else if ch = CHR 0x0C then [backslash, CHR ''f'']
      else if ch = CHR 0x0A then [backslash, CHR ''n'']
      else if ch = CHR 0x0D then [backslash, CHR ''r'']
      else if ch = CHR 0x09 then [backslash, CHR ''t'']
      else if byte_of_char ch < 0x20 then [backslash, CHR ''u''] @ ''00'' @ hex_encode [byte_of_char ch]
      else [ch])"

definition json_string :: "string \<Rightarrow> string" where
  "json_string text = quote_char # concat (map escape_char text) @ [quote_char]"

definition pad :: "bool \<Rightarrow> nat \<Rightarrow> string" where
  "pad pretty level = (if pretty then CHR 0x0A # replicate (level * 2) (CHR '' '') else [])"

fun write_json :: "bool \<Rightarrow> nat \<Rightarrow> json \<Rightarrow> string"
and write_items :: "bool \<Rightarrow> nat \<Rightarrow> json list \<Rightarrow> string"
and write_members :: "bool \<Rightarrow> nat \<Rightarrow> (string \<times> json) list \<Rightarrow> string" where
  "write_json pretty indent JNull = ''null''"
| "write_json pretty indent (JBool b) = (if b then ''true'' else ''false'')"
| "write_json pretty indent (JNumber x) = to_chars_double x"
| "write_json pretty indent (JText t) = json_string t"
| "write_json pretty indent (JArray xs) =
     (if xs = [] then ''[]'' else ''['' @ write_items pretty indent xs @ pad pretty indent @ '']'')"
| "write_json pretty indent (JObject ms) =
     (if ms = [] then ''{}'' else ''{'' @ write_members pretty indent ms @ pad pretty indent @ ''}'')"
| "write_items pretty indent [] = []"
| "write_items pretty indent (x # xs) =
     pad pretty (indent + 1) @ write_json pretty (indent + 1) x @
     (if xs = [] then [] else '','' @ write_items pretty indent xs)"
| "write_members pretty indent [] = []"
| "write_members pretty indent ((k, x) # ms) =
     pad pretty (indent + 1) @ json_string k @ '':'' @ (if pretty then '' '' else []) @
     write_json pretty (indent + 1) x @ (if ms = [] then [] else '','' @ write_members pretty indent ms)"

definition json_to_text :: "bool \<Rightarrow> json \<Rightarrow> string" where
  "json_to_text pretty j = write_json pretty 0 j"

section \<open>Reading strings\<close>

definition hex4_digit :: "char \<Rightarrow> 32 word option" where
  "hex4_digit ch =
     (let n = (of_char ch :: nat)
      in if CHR ''0'' \<le> ch \<and> ch \<le> CHR ''9'' then Some (of_nat (n - 48))
      else if CHR ''a'' \<le> ch \<and> ch \<le> CHR ''f'' then Some (of_nat (n - 97 + 10))
      else if CHR ''A'' \<le> ch \<and> ch \<le> CHR ''F'' then Some (of_nat (n - 65 + 10))
      else None)"

fun hex4_value :: "32 word \<Rightarrow> string \<Rightarrow> 32 word option" where
  "hex4_value v [] = Some v"
| "hex4_value v (ch # s) =
     (case hex4_digit ch of None \<Rightarrow> None | Some d \<Rightarrow> hex4_value (push_bit 4 v OR d) s)"

definition parse_hex4 :: "string \<Rightarrow> (32 word \<times> string) result" where
  "parse_hex4 s =
     (if length s < 4 then err SC_MalformedInput (''truncated '' @ [backslash] @ ''u escape'')
      else case hex4_value 0 (take 4 s) of
        None \<Rightarrow> err SC_MalformedInput (''non-hexadecimal digit in '' @ [backslash] @ ''u escape'')
      | Some v \<Rightarrow> Inr (v, drop 4 s))"

definition utf8 :: "32 word \<Rightarrow> string" where
  "utf8 c = map (\<lambda>w. char_of_byte (ucast w))
     (if c < 0x80 then [c]
      else if c < 0x800 then [0xC0 OR drop_bit 6 c, 0x80 OR (c AND 0x3F)]
      else if c < 0x10000 then [0xE0 OR drop_bit 12 c, 0x80 OR (drop_bit 6 c AND 0x3F), 0x80 OR (c AND 0x3F)]
      else [0xF0 OR drop_bit 18 c, 0x80 OR (drop_bit 12 c AND 0x3F), 0x80 OR (drop_bit 6 c AND 0x3F),
        0x80 OR (c AND 0x3F)])"

text \<open>A \<^verbatim>\<open>u\<close> escape, after the letter.\<close>

definition parse_unicode :: "string \<Rightarrow> (string \<times> string) result" where
  "parse_unicode s = rbind (parse_hex4 s) (\<lambda>(c, s).
     if 0xD800 \<le> c \<and> c \<le> 0xDBFF
     then if take 2 s \<noteq> [backslash, CHR ''u'']
       then err SC_MalformedInput ''high surrogate without a following low surrogate''
       else rbind (parse_hex4 (drop 2 s)) (\<lambda>(low, s).
         if low < 0xDC00 \<or> low > 0xDFFF
         then err SC_MalformedInput ''high surrogate not followed by a low surrogate''
         else Inr (utf8 (0x10000 + push_bit 10 (c - 0xD800) + (low - 0xDC00)), s))
     else if 0xDC00 \<le> c \<and> c \<le> 0xDFFF
     then err SC_MalformedInput ''unexpected low surrogate in JSON string''
     else Inr (utf8 c, s))"

definition parse_escape :: "string \<Rightarrow> (string \<times> string) result" where
  "parse_escape s =
     (case s of
        [] \<Rightarrow> err SC_MalformedInput ''unterminated JSON escape''
      | ch # r \<Rightarrow>
          if ch = quote_char \<or> ch = backslash \<or> ch = CHR ''/'' then Inr ([ch], r)
          else if ch = CHR ''b'' then Inr ([CHR 0x08], r)
          else if ch = CHR ''f'' then Inr ([CHR 0x0C], r)
          else if ch = CHR ''n'' then Inr ([CHR 0x0A], r)
          else if ch = CHR ''r'' then Inr ([CHR 0x0D], r)
          else if ch = CHR ''t'' then Inr ([CHR 0x09], r)
          else if ch = CHR ''u'' then parse_unicode r
          else err SC_MalformedInput ''unknown JSON escape sequence'')"

text \<open>One character of a string, which is not the closing quote.\<close>

definition parse_char :: "char \<Rightarrow> string \<Rightarrow> (string \<times> string) result" where
  "parse_char ch r =
     (if ch = backslash then parse_escape r
      else if byte_of_char ch < 0x20 then err SC_MalformedInput ''unescaped control character in JSON string''
      else Inr ([ch], r))"

lemma parse_hex4_shorter: "parse_hex4 s = Inr (v, r) \<Longrightarrow> length r \<le> length s"
  by (auto simp: parse_hex4_def err_def split: if_splits option.splits)

lemma parse_unicode_shorter:
  assumes "parse_unicode s = Inr (out, r)"
  shows "length r \<le> length s"
proof -
  obtain c s1 where s1: "parse_hex4 s = Inr (c, s1)"
    using assms by (auto simp: parse_unicode_def rbind_Inr_iff)
  consider "r = s1" | low s2 where "parse_hex4 (drop 2 s1) = Inr (low, s2)" "r = s2"
    using assms s1 by (auto simp: parse_unicode_def rbind_Inr_iff err_def split: if_splits)
  then show ?thesis
    using parse_hex4_shorter[OF s1] parse_hex4_shorter[of "drop 2 s1"] by cases fastforce+
qed

lemma parse_char_shorter: "parse_char ch r = Inr (out, r') \<Longrightarrow> length r' \<le> length r"
  using parse_unicode_shorter
  by (fastforce simp: parse_char_def parse_escape_def err_def split: if_splits list.splits)

text \<open>The loop of \<^verbatim>\<open>parse_string\<close>, after the opening quote.\<close>

function parse_string :: "json_limits \<Rightarrow> string \<Rightarrow> string \<Rightarrow> (string \<times> string) result" where
  "parse_string l out s =
     (case s of
        [] \<Rightarrow> err SC_MalformedInput ''unterminated JSON string''
      | ch # r \<Rightarrow>
          if ch = quote_char then Inr (out, r)
          else case parse_char ch r of
            Inl e \<Rightarrow> Inl e
          | Inr (added, r) \<Rightarrow>
              if length (out @ added) > jl_max_string_bytes l
              then err SC_TooLarge ''JSON string exceeds the configured maximum length''
              else parse_string l (out @ added) r)"
  by pat_completeness auto
termination
  by (relation "measure (\<lambda>(l, out, s). length s)") (auto dest: parse_char_shorter)

declare parse_string.simps [simp del]

section \<open>Reading documents\<close>

definition is_json_space :: "char \<Rightarrow> bool" where
  "is_json_space ch \<longleftrightarrow> ch = CHR '' '' \<or> ch = CHR 0x09 \<or> ch = CHR 0x0A \<or> ch = CHR 0x0D"

definition skip_whitespace :: "string \<Rightarrow> string" where
  "skip_whitespace s = dropWhile is_json_space s"

definition starts_digit :: "string \<Rightarrow> bool" where
  "starts_digit s \<longleftrightarrow> s \<noteq> [] \<and> is_digit_char (hd s)"

text \<open>The scanner of a number: what follows the token.\<close>

definition scan_whole :: "string \<Rightarrow> string result" where
  "scan_whole s =
     (let s = (if s \<noteq> [] \<and> hd s = CHR ''-'' then tl s else s)
      in if \<not> starts_digit s then err SC_MalformedInput ''expected a JSON value''
      else if hd s = CHR ''0'' then Inr (tl s)
      else Inr (dropWhile is_digit_char s))"

definition scan_fraction :: "string \<Rightarrow> string result" where
  "scan_fraction s =
     (if s \<noteq> [] \<and> hd s = CHR ''.''
      then if \<not> starts_digit (tl s) then err SC_MalformedInput ''JSON fraction requires a digit''
        else Inr (dropWhile is_digit_char (tl s))
      else Inr s)"

definition scan_exponent :: "string \<Rightarrow> string result" where
  "scan_exponent s =
     (if s \<noteq> [] \<and> (hd s = CHR ''e'' \<or> hd s = CHR ''E'')
      then let s = tl s; s = (if s \<noteq> [] \<and> (hd s = CHR ''+'' \<or> hd s = CHR ''-'') then tl s else s)
        in if \<not> starts_digit s then err SC_MalformedInput ''JSON exponent requires a digit''
        else Inr (dropWhile is_digit_char s)
      else Inr s)"

definition token_number :: "string \<Rightarrow> json result" where
  "token_number token =
     (case from_chars_double token of
        (Out_of_range, _) \<Rightarrow> err SC_OutOfRange ''JSON number is outside the double range''
      | (Reading x, rest) \<Rightarrow>
          if rest \<noteq> [] then err SC_MalformedInput ''malformed JSON number'' else Inr (JNumber x)
      | (No_number, _) \<Rightarrow> err SC_MalformedInput ''malformed JSON number'')"

definition parse_number :: "string \<Rightarrow> (json \<times> string) result" where
  "parse_number s =
     rbind (rbind (scan_whole s) (\<lambda>r. rbind (scan_fraction r) scan_exponent)) (\<lambda>r.
       rbind (token_number (take (length s - length r) s)) (\<lambda>j. Inr (j, r)))"

definition parse_literal :: "string \<Rightarrow> json \<Rightarrow> string \<Rightarrow> (json \<times> string) result" where
  "parse_literal literal value s =
     (if take (length literal) s \<noteq> literal then err SC_MalformedInput ''invalid JSON literal''
      else Inr (value, drop (length literal) s))"

definition parse_scalar :: "json_limits \<Rightarrow> string \<Rightarrow> (json \<times> string) result" where
  "parse_scalar l s =
     (if hd s = quote_char then rbind (parse_string l [] (tl s)) (\<lambda>(t, q). Inr (JText t, q))
      else if hd s = CHR ''t'' then parse_literal ''true'' (JBool True) s
      else if hd s = CHR ''f'' then parse_literal ''false'' (JBool False) s
      else if hd s = CHR ''n'' then parse_literal ''null'' JNull s
      else parse_number s)"

text \<open>The key of a member and its colon, up to the value.\<close>

definition parse_key :: "json_limits \<Rightarrow> string \<Rightarrow> (string \<times> string) result" where
  "parse_key l s =
     (let s = skip_whitespace s
      in if s = [] \<or> hd s \<noteq> quote_char then err SC_MalformedInput ''expected a JSON object key''
      else rbind (parse_string l [] (tl s)) (\<lambda>(key, s).
        let s = skip_whitespace s
        in if s = [] \<or> hd s \<noteq> CHR '':'' then err SC_MalformedInput ''expected ':' after a JSON object key''
        else Inr (key, skip_whitespace (tl s))))"

text \<open>What follows a member or an element: \<open>True\<close> when there is another one.\<close>

definition after_member :: "json_limits \<Rightarrow> nat \<Rightarrow> string \<Rightarrow> (bool \<times> string) result" where
  "after_member l n s =
     (if n > jl_max_object_members l
      then err SC_TooLarge ''JSON object exceeds the configured member count''
      else let s = skip_whitespace s
      in if s = [] then err SC_MalformedInput ''unterminated JSON object''
      else if hd s = CHR '','' then Inr (True, tl s)
      else if hd s = CHR ''}'' then Inr (False, tl s)
      else err SC_MalformedInput ''expected ',' or '}' in JSON object'')"

definition after_item :: "json_limits \<Rightarrow> nat \<Rightarrow> string \<Rightarrow> (bool \<times> string) result" where
  "after_item l n s =
     (if n > jl_max_array_elements l
      then err SC_TooLarge ''JSON array exceeds the configured element count''
      else let s = skip_whitespace s
      in if s = [] then err SC_MalformedInput ''unterminated JSON array''
      else if hd s = CHR '','' then Inr (True, tl s)
      else if hd s = CHR '']'' then Inr (False, tl s)
      else err SC_MalformedInput ''expected ',' or ']' in JSON array'')"

text \<open>
  The recursive part. The node counter is threaded; the fuel bounds the number of nested calls
  and loop iterations, \<open>None\<close> standing for a parser that did not return. Every call that reads
  at least one character needs two of it.
\<close>

type_synonym 'a parsed = "('a \<times> string \<times> nat) result option"

definition parsed_bind :: "'a parsed \<Rightarrow> ('a \<Rightarrow> string \<Rightarrow> nat \<Rightarrow> 'b parsed) \<Rightarrow> 'b parsed" where
  "parsed_bind p f = (case p of None \<Rightarrow> None | Some (Inl e) \<Rightarrow> Some (Inl e) | Some (Inr (x, s, n)) \<Rightarrow> f x s n)"

definition parsed :: "('a \<times> string) result \<Rightarrow> nat \<Rightarrow> 'a parsed" where
  "parsed r nodes = Some (rbind r (\<lambda>(x, s). Inr (x, s, nodes)))"

function (sequential) parse_value :: "nat \<Rightarrow> json_limits \<Rightarrow> nat \<Rightarrow> string \<Rightarrow> nat \<Rightarrow> json parsed"
and parse_members :: "nat \<Rightarrow> json_limits \<Rightarrow> nat \<Rightarrow> (string \<times> json) list \<Rightarrow> string \<Rightarrow> nat \<Rightarrow> json parsed"
and parse_items :: "nat \<Rightarrow> json_limits \<Rightarrow> nat \<Rightarrow> json list \<Rightarrow> string \<Rightarrow> nat \<Rightarrow> json parsed" where
  "parse_value 0 l depth s nodes = None"
| "parse_value (Suc fuel) l depth s nodes =
     (if depth > jl_max_depth l then Some (err SC_DepthExceeded ''JSON nesting exceeds the configured depth'')
      else if nodes + 1 > jl_max_nodes l
      then Some (err SC_TooLarge ''JSON document exceeds the configured node count'')
      else if s = [] then Some (err SC_MalformedInput ''unexpected end of JSON input'')
      else if hd s = CHR ''{''
      then (let r = skip_whitespace (tl s)
        in if r \<noteq> [] \<and> hd r = CHR ''}'' then Some (Inr (JObject [], tl r, nodes + 1))
        else parse_members fuel l depth [] r (nodes + 1))
      else if hd s = CHR ''[''
      then (let r = skip_whitespace (tl s)
        in if r \<noteq> [] \<and> hd r = CHR '']'' then Some (Inr (JArray [], tl r, nodes + 1))
        else parse_items fuel l depth [] r (nodes + 1))
      else parsed (parse_scalar l s) (nodes + 1))"
| "parse_members 0 l depth members s nodes = None"
| "parse_members (Suc fuel) l depth members s nodes =
     parsed_bind (parsed (parse_key l s) nodes) (\<lambda>key s nodes.
       parsed_bind (parse_value fuel l (depth + 1) s nodes) (\<lambda>value s nodes.
         let members = members @ [(key, value)]
         in parsed_bind (parsed (after_member l (length members) s) nodes) (\<lambda>more s nodes.
           if more then parse_members fuel l depth members s nodes
           else Some (Inr (JObject members, s, nodes)))))"
| "parse_items 0 l depth items s nodes = None"
| "parse_items (Suc fuel) l depth items s nodes =
     parsed_bind (parse_value fuel l (depth + 1) (skip_whitespace s) nodes) (\<lambda>value s nodes.
       let items = items @ [value]
       in parsed_bind (parsed (after_item l (length items) s) nodes) (\<lambda>more s nodes.
         if more then parse_items fuel l depth items s nodes
         else Some (Inr (JArray items, s, nodes))))"
  by pat_completeness auto
termination
  by (relation "measure (\<lambda>x. case x of Inl (fuel, _) \<Rightarrow> fuel | Inr (Inl (fuel, _)) \<Rightarrow> fuel | Inr (Inr (fuel, _)) \<Rightarrow> fuel)")
     simp_all

declare parse_value.simps [simp del] parse_members.simps [simp del] parse_items.simps [simp del]

definition json_fuel :: "string \<Rightarrow> nat" where
  "json_fuel s = 2 * length s + 1"

definition run_parser :: "json_limits \<Rightarrow> string \<Rightarrow> json result option" where
  "run_parser l input =
     (if length input > jl_max_input_bytes l
      then Some (err SC_TooLarge ''JSON input exceeds the configured maximum size'')
      else let s = skip_whitespace input
        in case parse_value (json_fuel s) l 0 s 0 of
          None \<Rightarrow> None
        | Some (Inl e) \<Rightarrow> Some (Inl e)
        | Some (Inr (value, rest, nodes)) \<Rightarrow>
            if skip_whitespace rest \<noteq> []
            then Some (err SC_MalformedInput ''trailing content after the JSON value'') else Some (Inr value))"

section \<open>The parser returns\<close>

lemma length_skip: "length (skip_whitespace s) \<le> length s"
  by (simp add: skip_whitespace_def length_dropWhile_le)

lemma parse_string_shorter: "parse_string l out s = Inr (t, r) \<Longrightarrow> length r < length s"
proof (induction l out s rule: parse_string.induct)
  case (1 l out s)
  note eq = 1(2)[unfolded parse_string.simps[of l out s]]
  obtain ch q where s: "s = ch # q" using eq by (auto simp: err_def split: list.splits)
  show ?case
  proof (cases "ch = quote_char")
    case True
    then show ?thesis using eq by (simp add: s)
  next
    case False
    then obtain added q' where step: "parse_char ch q = Inr (added, q')"
      using eq by (auto simp: s split: sum.splits)
    then have "parse_string l (out @ added) q' = Inr (t, r)" "\<not> length (out @ added) > jl_max_string_bytes l"
      using eq False by (auto simp: s err_def split: if_splits)
    then have "length r < length q'" using 1(1)[OF s False step refl] by simp
    then show ?thesis using parse_char_shorter[OF step] by (simp add: s)
  qed
qed

text \<open>A parser that returned, with fewer than \<open>m\<close> characters left if it succeeded.\<close>

definition returns :: "nat \<Rightarrow> 'a parsed \<Rightarrow> bool" where
  "returns m p \<longleftrightarrow> (case p of None \<Rightarrow> False | Some (Inl e) \<Rightarrow> True | Some (Inr (x, s, n)) \<Rightarrow> length s < m)"

lemma returns_bind:
  assumes "returns m p" "\<And>x s n. p = Some (Inr (x, s, n)) \<Longrightarrow> length s < m \<Longrightarrow> returns k (f x s n)"
  shows "returns k (parsed_bind p f)"
  using assms by (auto simp: returns_def parsed_bind_def split: option.splits sum.splits prod.splits)

lemma returns_simps [simp]:
  "returns m (Some (Inr (x, s, n))) \<longleftrightarrow> length s < m" "returns m (Some (Inl e))"
  "returns m (Some (err c t))"
  by (simp_all add: returns_def err_def)

lemma returns_mono: "returns m p \<Longrightarrow> m \<le> k \<Longrightarrow> returns k p"
  by (auto simp: returns_def split: option.splits sum.splits)

lemma returns_parsed:
  "(\<And>x s. r = Inr (x, s) \<Longrightarrow> length s < m) \<Longrightarrow> returns m (parsed r n)"
  by (cases r) (auto simp: parsed_def)

lemma scan_shorter:
  assumes "rbind (scan_whole s) (\<lambda>r. rbind (scan_fraction r) scan_exponent) = Inr r"
  shows "length r < length s"
proof -
  have drop: "length (dropWhile is_digit_char t) \<le> length t" for t by (rule length_dropWhile_le)
  have drop': "starts_digit t \<Longrightarrow> length (dropWhile is_digit_char t) < length t" for t
    using drop[of "tl t"] by (cases t) (auto simp: starts_digit_def)
  obtain r1 r2 where r: "scan_whole s = Inr r1" "scan_fraction r1 = Inr r2" "scan_exponent r2 = Inr r"
    using assms by (auto simp: rbind_Inr_iff)
  have "length r1 < length s"
    using r(1) drop' by (cases s) (fastforce simp: scan_whole_def err_def Let_def starts_digit_def split: if_splits)+
  moreover have "length r2 \<le> length r1"
    using r(2) drop[of "tl r1"] by (auto simp: scan_fraction_def err_def split: if_splits)
  moreover have "length r \<le> length r2"
    using r(3) drop[of "tl r2"] drop[of "tl (tl r2)"] by (auto simp: scan_exponent_def err_def Let_def split: if_splits)
  ultimately show ?thesis by simp
qed

lemma parse_scalar_shorter:
  assumes "parse_scalar l s = Inr (j, r)" "s \<noteq> []"
  shows "length r < length s"
proof -
  consider t where "parse_string l [] (tl s) = Inr (t, r)"
    | lit v where "parse_literal lit v s = Inr (j, r)" "lit \<noteq> []"
    | "parse_number s = Inr (j, r)"
    using assms(1) by (auto simp: parse_scalar_def rbind_Inr_iff split: if_splits)
  then show ?thesis
  proof cases
    case 1
    then show ?thesis using parse_string_shorter[OF 1] by simp
  next
    case 2
    then show ?thesis using assms(2) by (auto simp: parse_literal_def err_def split: if_splits)
  next
    case 3
    then show ?thesis
      using scan_shorter[of s r] by (auto simp: parse_number_def rbind_Inr_iff)
  qed
qed

lemma parse_key_shorter: "parse_key l s = Inr (k, r) \<Longrightarrow> length r < length s"
  using length_skip[of s] parse_string_shorter[of l "[]" "tl (skip_whitespace s)"]
  by (auto simp: parse_key_def rbind_Inr_iff err_def Let_def split: if_splits)
     (smt (verit) One_nat_def diff_le_self le_trans length_skip length_tl less_le_trans not_less)

lemma after_shorter:
  "after_member l n s = Inr (b, r) \<Longrightarrow> length r < length s" "after_item l n s = Inr (b, r) \<Longrightarrow> length r < length s"
  using length_skip[of s] by (auto simp: after_member_def after_item_def err_def Let_def neq_Nil_conv split: if_splits)

lemma parser_returns:
  "2 * length s + 1 \<le> fuel \<Longrightarrow> returns (length s) (parse_value fuel l depth s nodes)"
  "2 * length s + 2 \<le> fuel \<Longrightarrow> returns (length s) (parse_members fuel l depth members s nodes)"
  "2 * length s + 2 \<le> fuel \<Longrightarrow> returns (length s) (parse_items fuel l depth items s nodes)"
proof (induction fuel l depth s nodes and fuel l depth members s nodes and fuel l depth items s nodes
    rule: parse_value_parse_members_parse_items.induct)
  case (2 fuel l depth s nodes)
  show ?case
  proof (cases "s = []")
    case False
    let ?r = "skip_whitespace (tl s)"
    have less: "length ?r < length s" using length_skip[of "tl s"] False by (cases s) simp_all
    then have fuel: "2 * length ?r + 2 \<le> fuel" using 2(3) by simp
    have container: "returns (length s) p" if "returns (length ?r) p" for p :: "json parsed"
      using that less by (rule returns_mono[OF _ less_imp_le])
    have scalar: "returns (length s) (parsed (parse_scalar l s) (nodes + 1))"
      using parse_scalar_shorter[OF _ False] by (intro returns_parsed)
    show ?thesis
      using 2(1,2) fuel scalar container less False
      by (auto simp: parse_value.simps(2) Let_def not_less)
  qed (simp add: parse_value.simps)
next
  case (4 fuel l depth members s nodes)
  show ?case
    unfolding parse_members.simps Let_def
  proof (rule returns_bind[of "length s"], rule returns_parsed)
    fix key s1 n1 assume s1: "length (s1 :: string) < length s" "parsed (parse_key l s) nodes = Some (Inr (key, s1, n1))"
    show "returns (length s) (parsed_bind (parse_value fuel l (depth + 1) s1 n1) (\<lambda>v s nodes.
        parsed_bind (parsed (after_member l (length (members @ [(key, v)])) s) nodes) (\<lambda>again s nodes.
          if again then parse_members fuel l depth (members @ [(key, v)]) s nodes
          else Some (Inr (JObject (members @ [(key, v)]), s, nodes)))))"
    proof (rule returns_bind[of "length s1"])
      show "returns (length s1) (parse_value fuel l (depth + 1) s1 n1)" using 4 s1 by simp
    next
      fix v s2 n2 assume s2: "length (s2 :: string) < length s1"
      show "returns (length s) (parsed_bind (parsed (after_member l (length (members @ [(key, v)])) s2) n2) (\<lambda>again s nodes.
          if again then parse_members fuel l depth (members @ [(key, v)]) s nodes
          else Some (Inr (JObject (members @ [(key, v)]), s, nodes))))"
      proof (rule returns_bind[of "length s2"], rule returns_parsed)
        fix again s3 n3 assume s3: "length (s3 :: string) < length s2"
        show "returns (length s) (if again then parse_members fuel l depth (members @ [(key, v)]) s3 n3
            else Some (Inr (JObject (members @ [(key, v)]), s3, n3)))"
        proof (cases again)
          case True
          then have "returns (length s3) (parse_members fuel l depth (members @ [(key, v)]) s3 n3)"
            using s1(1) s2 s3 4(3) by (intro 4(2)[OF refl, of True]) auto
          then show ?thesis using True s1(1) s2 s3 by (simp add: returns_mono)
        qed (use s1 s2 s3 in simp)
      qed (rule after_shorter(1))
    qed
  qed (rule parse_key_shorter)
next
  case (6 fuel l depth items s nodes)
  show ?case
    unfolding parse_items.simps Let_def
  proof (rule returns_bind[of "length s"])
    show "returns (length s) (parse_value fuel l (depth + 1) (skip_whitespace s) nodes)"
      using 6 length_skip[of s] by (auto intro: returns_mono)
  next
    fix v s2 n2 assume s2: "length (s2 :: string) < length s"
    show "returns (length s) (parsed_bind (parsed (after_item l (length (items @ [v])) s2) n2) (\<lambda>again s nodes.
        if again then parse_items fuel l depth (items @ [v]) s nodes
        else Some (Inr (JArray (items @ [v]), s, nodes))))"
    proof (rule returns_bind[of "length s2"], rule returns_parsed)
      fix again s3 n3 assume s3: "length (s3 :: string) < length s2"
      show "returns (length s) (if again then parse_items fuel l depth (items @ [v]) s3 n3
          else Some (Inr (JArray (items @ [v]), s3, n3)))"
      proof (cases again)
        case True
        then have "returns (length s3) (parse_items fuel l depth (items @ [v]) s3 n3)"
          using s2 s3 6(3) by (intro 6(2)[OF refl, of True]) auto
        then show ?thesis using True s2 s3 by (simp add: returns_mono)
      qed (use s2 s3 in simp)
    qed (rule after_shorter(2))
  qed
qed simp_all

text \<open>So the parser of a document always returns.\<close>

definition parse_json :: "string \<Rightarrow> json_limits \<Rightarrow> json result" where
  "parse_json input l = the (run_parser l input)"

theorem run_parser_returns: "run_parser l input = Some (parse_json input l)"
proof -
  let ?s = "skip_whitespace input"
  have "returns (length ?s) (parse_value (json_fuel ?s) l 0 ?s 0)"
    by (rule parser_returns(1)) (simp add: json_fuel_def)
  then have "run_parser l input \<noteq> None"
    by (auto simp: run_parser_def returns_def Let_def split: option.splits sum.splits)
  then show ?thesis by (auto simp: parse_json_def)
qed

section \<open>Reading what was written\<close>

text \<open>The documents the limits admit.\<close>

fun json_fits :: "json_limits \<Rightarrow> nat \<Rightarrow> json \<Rightarrow> bool" where
  "json_fits l d JNull \<longleftrightarrow> d \<le> jl_max_depth l"
| "json_fits l d (JBool b) \<longleftrightarrow> d \<le> jl_max_depth l"
| "json_fits l d (JNumber x) \<longleftrightarrow> d \<le> jl_max_depth l \<and> finite_bits x"
| "json_fits l d (JText t) \<longleftrightarrow> d \<le> jl_max_depth l \<and> length t \<le> jl_max_string_bytes l"
| "json_fits l d (JArray xs) \<longleftrightarrow> d \<le> jl_max_depth l \<and> length xs \<le> jl_max_array_elements l \<and>
     (\<forall>x\<in>set xs. json_fits l (d + 1) x)"
| "json_fits l d (JObject ms) \<longleftrightarrow> d \<le> jl_max_depth l \<and> length ms \<le> jl_max_object_members l \<and>
     (\<forall>m\<in>set ms. length (fst m) \<le> jl_max_string_bytes l \<and> json_fits l (d + 1) (snd m))"

fun json_nodes :: "json \<Rightarrow> nat" where
  "json_nodes (JArray xs) = Suc (sum_list (map json_nodes xs))"
| "json_nodes (JObject ms) = Suc (sum_list (map (\<lambda>m. json_nodes (snd m)) ms))"
| "json_nodes _ = 1"

subsection \<open>Strings\<close>

lemma hex4_digit_text: "n < 16 \<Longrightarrow> hex4_digit (hex_digits ! n) = Some (of_nat n)"
proof -
  assume "n < 16"
  then have "n \<in> set [0..<16]" by simp
  then show ?thesis by (simp add: upt_rec hex_digits_def hex4_digit_def less_eq_char_def) (elim disjE; simp)
qed

lemma hex4_byte: "hex4_value 0 (''00'' @ hex_encode [b]) = Some (ucast b)"
proof -
  have zero: "hex4_digit (CHR ''0'') = Some 0" using hex4_digit_text[of 0] by (simp add: hex_digits_def)
  have "push_bit 4 (of_nat (unat (drop_bit 4 b))) OR of_nat (unat (b AND 0x0F)) = (ucast b :: 32 word)"
  proof -
    have low: "(b AND 0x0F :: byte) = take_bit 4 b" by (simp add: take_bit_eq_mask mask_numeral and.commute)
    have "push_bit 4 (ucast (drop_bit 4 b)) OR ucast (take_bit 4 b) = (ucast b :: 32 word)"
      by (rule bit_word_eqI) (auto simp: bit_simps dest: bit_imp_le_length)
    then show ?thesis by (simp add: low)
  qed
  then show ?thesis by (simp add: zero hex4_digit_text unat_high_nibble unat_low_nibble)
qed

lemma parse_control:
  assumes "byte_of_char ch < 0x20"
  shows "parse_unicode (''00'' @ hex_encode [byte_of_char ch] @ r) = Inr ([ch], r)"
proof -
  let ?b = "byte_of_char ch" and ?v = "ucast (byte_of_char ch) :: 32 word"
  have small: "unat ?b < 32" using assms by (simp add: word_less_nat_alt)
  have v: "unat ?v = unat ?b" by (simp add: unsigned_ucast_eq take_bit_nat_eq_self unat_lt2p less_trans[OF unat_lt2p])
  have "parse_hex4 (''00'' @ hex_encode [?b] @ r) = Inr (?v, r)"
    using hex4_byte[of ?b] by (simp add: parse_hex4_def)
  moreover have "\<not> 0xD800 \<le> ?v" "\<not> 0xDC00 \<le> ?v" "?v < 0x80"
    using small v by (simp_all add: word_less_nat_alt word_le_nat_alt)
  moreover have "(ucast ?v :: byte) = ?b" by (rule bit_word_eqI) (simp add: bit_simps)
  ultimately show ?thesis by (simp add: parse_unicode_def utf8_def)
qed

lemma parse_escaped: "\<exists>c w. escape_char ch = c # w \<and> c \<noteq> quote_char \<and> parse_char c (w @ r) = Inr ([ch], r)"
proof -
  consider "ch = quote_char" | "ch = backslash" | "ch = CHR 0x08" | "ch = CHR 0x0C" | "ch = CHR 0x0A"
    | "ch = CHR 0x0D" | "ch = CHR 0x09"
    | (control) "ch \<notin> {quote_char, backslash, CHR 0x08, CHR 0x0C, CHR 0x0A, CHR 0x0D, CHR 0x09}" "byte_of_char ch < 0x20"
    | (plain) "ch \<notin> {quote_char, backslash, CHR 0x08, CHR 0x0C, CHR 0x0A, CHR 0x0D, CHR 0x09}" "\<not> byte_of_char ch < 0x20"
    by blast
  then show ?thesis
  proof cases
    case control
    then have "escape_char ch = [backslash, CHR ''u''] @ ''00'' @ hex_encode [byte_of_char ch]"
      by (simp add: escape_char_def)
    then show ?thesis
      using parse_control[OF control(2), of r] by (simp add: parse_char_def parse_escape_def)
  next
    case plain
    then show ?thesis by (simp add: escape_char_def parse_char_def)
  qed (simp_all add: escape_char_def parse_char_def parse_escape_def)
qed

lemma parse_string_escaped:
  "length out + length t \<le> jl_max_string_bytes l \<Longrightarrow>
     parse_string l out (concat (map escape_char t) @ quote_char # rest) = Inr (out @ t, rest)"
proof (induction t arbitrary: out)
  case Nil
  then show ?case by (simp add: parse_string.simps)
next
  case (Cons ch t)
  obtain c w where c: "escape_char ch = c # w" "c \<noteq> quote_char"
      "parse_char c (w @ concat (map escape_char t) @ quote_char # rest) =
        Inr ([ch], concat (map escape_char t) @ quote_char # rest)"
    using parse_escaped by blast
  have "parse_string l out (concat (map escape_char (ch # t)) @ quote_char # rest) =
      parse_string l (out @ [ch]) (concat (map escape_char t) @ quote_char # rest)"
    using c Cons.prems by (subst parse_string.simps) simp
  then show ?case using Cons.IH[of "out @ [ch]"] Cons.prems by simp
qed

subsection \<open>Numbers\<close>

lemma digits_drop:
  "list_all is_digit_char ds \<Longrightarrow> \<not> starts_digit rest \<Longrightarrow> dropWhile is_digit_char (ds @ rest) = rest"
  using digits_then(2)[of ds rest] by (auto simp: starts_digit_def)

lemma scan_written:
  assumes "whole_ok whole" "list_all is_digit_char fraction" "\<forall>neg ds. ex = Some (neg, ds) \<longrightarrow> plain_digits ds"
    and "number_ends rest"
  shows "rbind (scan_whole ((if neg then ''-'' else []) @ whole @ fraction_part fraction @ exponent_part ex @ rest))
    (\<lambda>r. rbind (scan_fraction r) scan_exponent) = Inr rest"
proof -
  let ?e = "exponent_part ex @ rest" and ?f = "fraction_part fraction @ exponent_part ex @ rest"
  have rest: "\<not> starts_digit rest" "rest = [] \<or> hd rest \<noteq> CHR ''.'' \<and> hd rest \<noteq> CHR ''e'' \<and> hd rest \<noteq> CHR ''E''"
    using assms(4) by (auto simp: number_ends_def starts_digit_def split: list.splits)
  have e: "\<not> starts_digit ?e" "?e = [] \<or> hd ?e \<noteq> CHR ''.''"
    using rest mark_not_digit by (cases ex; auto simp: starts_digit_def)+
  have f: "\<not> starts_digit ?f" using e mark_not_digit by (auto simp: fraction_part_def starts_digit_def)
  obtain c w where w: "whole = c # w" "is_digit_char c" "list_all is_digit_char w" "c = CHR ''0'' \<Longrightarrow> w = []"
    using assms(1) by (cases whole) (auto simp: whole_ok_def plain_digits_def)
  have "c \<noteq> CHR ''-''" using digit_not_mark[OF w(2)] by simp
  then have "scan_whole ((if neg then ''-'' else []) @ whole @ ?f) = Inr ?f"
    using w digits_drop[OF w(3) f] by (auto simp: scan_whole_def Let_def starts_digit_def)
  moreover have "scan_fraction ?f = Inr ?e"
  proof (cases fraction)
    case Nil
    then show ?thesis using e(2) by (auto simp: scan_fraction_def fraction_part_def)
  next
    case (Cons ch ds)
    then show ?thesis
      using assms(2) digits_drop[OF assms(2) e(1)] by (simp add: scan_fraction_def fraction_part_def starts_digit_def)
  qed
  moreover have "scan_exponent ?e = Inr rest"
  proof (cases ex)
    case None
    then show ?thesis using rest by (auto simp: scan_exponent_def)
  next
    case (Some p)
    obtain sgn ds where p: "p = (sgn, ds)" by fastforce
    then have ds: "plain_digits ds" using assms(3) Some by blast
    then have "dropWhile is_digit_char (ds @ rest) = rest" "starts_digit (ds @ rest)"
      using digits_drop[OF _ rest(1)] by (auto simp: plain_digits_def starts_digit_def neq_Nil_conv)
    then show ?thesis by (cases sgn) (simp_all add: scan_exponent_def Some p)
  qed
  ultimately show ?thesis by simp
qed

lemma double_token:
  assumes "finite_bits x"
  obtains whole fraction ex where
    "to_chars_double x = (if bit x 63 then ''-'' else []) @ whole @ fraction_part fraction @ exponent_part ex"
    "whole_ok whole" "list_all is_digit_char fraction" "\<forall>neg ds. ex = Some (neg, ds) \<longrightarrow> plain_digits ds"
  using magnitude_writes[OF assms[unfolded finite_bits_def], unfolded writes_def]
  by (elim exE conjE) (rule that, simp_all add: to_chars_double_def)

lemma parse_written_number:
  assumes "finite_bits x" "number_ends rest"
  shows "parse_number (to_chars_double x @ rest) = Inr (JNumber x, rest)"
proof -
  obtain whole fraction ex where t:
    "to_chars_double x = (if bit x 63 then ''-'' else []) @ whole @ fraction_part fraction @ exponent_part ex"
    "whole_ok whole" "list_all is_digit_char fraction" "\<forall>neg ds. ex = Some (neg, ds) \<longrightarrow> plain_digits ds"
    by (rule double_token[OF assms(1)])
  have "rbind (scan_whole (to_chars_double x @ rest)) (\<lambda>r. rbind (scan_fraction r) scan_exponent) = Inr rest"
    using scan_written[OF t(2-4) assms(2), of "bit x 63"] by (simp add: t(1))
  moreover have "token_number (to_chars_double x) = Inr (JNumber x)"
    using from_chars_to_chars[OF assms(1), of "[]"] by (simp add: token_number_def number_ends_def)
  ultimately show ?thesis by (simp add: parse_number_def)
qed

subsection \<open>Documents\<close>

lemma skip_pad [simp]: "skip_whitespace (pad pretty n @ s) = skip_whitespace s"
proof -
  have "dropWhile is_json_space (replicate k (CHR '' '') @ s) = dropWhile is_json_space s" for k
    by (induction k) (simp_all add: is_json_space_def)
  then show ?thesis by (simp add: pad_def skip_whitespace_def is_json_space_def)
qed

lemma skip_none [simp]: "\<not> is_json_space ch \<Longrightarrow> skip_whitespace (ch # s) = ch # s"
  by (simp add: skip_whitespace_def)

lemma skip_idem [simp]: "skip_whitespace (skip_whitespace s) = skip_whitespace s"
  by (simp add: skip_whitespace_def dropWhile_idem)

lemma punctuation [simp]:
  "\<not> is_json_space (CHR '','')" "\<not> is_json_space (CHR '']'')" "\<not> is_json_space (CHR ''}'')"
  "\<not> is_json_space (CHR '':'')" "\<not> is_json_space quote_char"
  by (simp_all add: is_json_space_def)

lemma ends_pad: "number_ends (pad pretty n @ CHR '']'' # r)" "number_ends (pad pretty n @ CHR ''}'' # r)"
    "number_ends (CHR '','' # r)"
  by (auto simp: number_ends_def pad_def is_digit_char_def less_eq_char_def)

text \<open>The first character of a document.\<close>

lemma double_head:
  assumes "finite_bits x"
  obtains c w where "to_chars_double x = c # w" "c = CHR ''-'' \<or> is_digit_char c"
proof -
  obtain whole fraction ex where t:
    "to_chars_double x = (if bit x 63 then ''-'' else []) @ whole @ fraction_part fraction @ exponent_part ex"
    "whole_ok whole" by (rule double_token[OF assms])
  then show ?thesis
    using that by (cases whole; cases "bit x 63") (auto simp: whole_ok_def plain_digits_def)
qed

lemma number_head_chars:
  assumes "c = CHR ''-'' \<or> is_digit_char c"
  shows "\<not> is_json_space c" "c \<noteq> quote_char" "c \<notin> set ''tfn{[]}''"
  using assms by (auto simp: is_json_space_def is_digit_char_def less_eq_char_def)

lemma write_json_starts:
  "\<exists>ch s. write_json pretty n j = ch # s \<and> \<not> is_json_space ch \<and> ch \<noteq> CHR '']'' \<and> ch \<noteq> CHR ''}''"
proof (cases j)
  case (JNumber x)
  show ?thesis
  proof (cases "finite_bits x")
    case True
    then show ?thesis by (cases rule: double_head[of x]) (use JNumber number_head_chars in auto)
  next
    case False
    then show ?thesis
      by (auto simp: JNumber to_chars_double_def magnitude_text_def finite_bits_def is_json_space_def)
  qed
qed (auto simp: json_string_def is_json_space_def)

lemma write_json_head:
  obtains ch s where "write_json pretty n j = ch # s" "\<not> is_json_space ch" "ch \<noteq> CHR '']''" "ch \<noteq> CHR ''}''"
  using write_json_starts by blast

lemma parse_value_scalar:
  assumes "parse_scalar l s = Inr (j, r)" "d \<le> jl_max_depth l" "nodes + 1 \<le> jl_max_nodes l" "s \<noteq> []"
    and "hd s \<noteq> CHR ''{''" "hd s \<noteq> CHR ''[''" "1 \<le> fuel"
  shows "parse_value fuel l d s nodes = Some (Inr (j, r, nodes + 1))"
  using assms by (cases fuel) (simp_all add: parse_value.simps parsed_def)

lemma parse_key_written:
  assumes "length k \<le> jl_max_string_bytes l"
  shows "parse_key l (pad pretty n @ json_string k @ CHR '':'' # s) = Inr (k, skip_whitespace s)"
  using parse_string_escaped[of "[]" k l "CHR '':'' # s"] assms by (simp add: parse_key_def json_string_def)

lemma parse_skip:
  "parse_items fuel l d items (skip_whitespace s) k = parse_items fuel l d items s k"
  "parse_members fuel l d members (skip_whitespace s) k = parse_members fuel l d members s k"
  by (cases fuel; simp add: parse_items.simps parse_members.simps parse_key_def)+

lemma skip_written [simp]: "skip_whitespace (write_json pretty n j @ s) = write_json pretty n j @ s"
  by (rule write_json_head[of pretty n j]) simp

lemma write_items_head:
  assumes "xs \<noteq> []"
  obtains ch s where "skip_whitespace (write_items pretty n xs @ t) = ch # s" "ch \<noteq> CHR '']''"
proof -
  obtain y ys where "xs = y # ys" using assms by (cases xs) simp_all
  then show ?thesis by (rule_tac write_json_head[of pretty "n + 1" y]) (simp add: that)
qed

lemma write_members_head:
  assumes "ms \<noteq> []"
  obtains ch s where "skip_whitespace (write_members pretty n ms @ t) = ch # s" "ch \<noteq> CHR ''}''"
proof -
  obtain k y ys where "ms = (k, y) # ys" using assms by (cases ms) auto
  then show ?thesis by (intro that[of quote_char]) (simp_all add: json_string_def)
qed

lemma parse_written:
  "json_fits l d j \<Longrightarrow> k + json_nodes j \<le> jl_max_nodes l \<Longrightarrow> number_ends rest \<Longrightarrow>
     2 * length (write_json pretty n j @ rest) + 1 \<le> fuel \<Longrightarrow>
     parse_value fuel l d (write_json pretty n j @ rest) k = Some (Inr (j, rest, k + json_nodes j))"
  "xs \<noteq> [] \<Longrightarrow> \<forall>x\<in>set xs. json_fits l (d + 1) x \<Longrightarrow> length items + length xs \<le> jl_max_array_elements l \<Longrightarrow>
     k + sum_list (map json_nodes xs) \<le> jl_max_nodes l \<Longrightarrow>
     2 * length (write_items pretty n xs @ pad pretty n @ CHR '']'' # rest) + 2 \<le> fuel \<Longrightarrow>
     parse_items fuel l d items (write_items pretty n xs @ pad pretty n @ CHR '']'' # rest) k =
       Some (Inr (JArray (items @ xs), rest, k + sum_list (map json_nodes xs)))"
  "ms \<noteq> [] \<Longrightarrow> \<forall>m\<in>set ms. length (fst m) \<le> jl_max_string_bytes l \<and> json_fits l (d + 1) (snd m) \<Longrightarrow>
     length members + length ms \<le> jl_max_object_members l \<Longrightarrow>
     k + sum_list (map (\<lambda>m. json_nodes (snd m)) ms) \<le> jl_max_nodes l \<Longrightarrow>
     2 * length (write_members pretty n ms @ pad pretty n @ CHR ''}'' # rest) + 2 \<le> fuel \<Longrightarrow>
     parse_members fuel l d members (write_members pretty n ms @ pad pretty n @ CHR ''}'' # rest) k =
       Some (Inr (JObject (members @ ms), rest, k + sum_list (map (\<lambda>m. json_nodes (snd m)) ms)))"
proof (induction pretty n j and pretty n xs and pretty n ms arbitrary: d k rest fuel and d k rest fuel items
    and d k rest fuel members rule: write_json_write_items_write_members.induct)
  case (1 pretty indent)
  then show ?case by (intro parse_value_scalar[THEN trans]) (simp_all add: parse_scalar_def parse_literal_def)
next
  case (2 pretty indent b)
  then show ?case by (intro parse_value_scalar[THEN trans]) (simp_all add: parse_scalar_def parse_literal_def)
next
  case (3 pretty indent x)
  obtain c w where c: "to_chars_double x = c # w" "c = CHR ''-'' \<or> is_digit_char c"
    using 3 by (auto elim: double_head)
  note head = number_head_chars[OF c(2)]
  have "parse_scalar l (to_chars_double x @ rest) = Inr (JNumber x, rest)"
    using head parse_written_number[of x rest] 3 by (simp add: parse_scalar_def c(1))
  then show ?case using 3 head by (simp add: parse_value_scalar c(1))
next
  case (4 pretty indent t)
  have "parse_scalar l (json_string t @ rest) = Inr (JText t, rest)"
    using parse_string_escaped[of "[]" t l rest] 4 by (simp add: parse_scalar_def json_string_def)
  then show ?case using 4 by (simp add: parse_value_scalar json_string_def)
next
  case (5 pretty indent xs)
  then obtain f where f: "fuel = Suc f" by (cases fuel) simp_all
  show ?case
  proof (cases "xs = []")
    case True
    then show ?thesis using 5 by (simp add: f parse_value.simps)
  next
    case False
    let ?s = "write_items pretty indent xs @ pad pretty indent @ CHR '']'' # rest"
    obtain ch t where head: "skip_whitespace ?s = ch # t" "ch \<noteq> CHR '']''" by (rule write_items_head[OF False])
    have "parse_items f l d [] ?s (k + 1) = Some (Inr (JArray ([] @ xs), rest, k + 1 + sum_list (map json_nodes xs)))"
      using 5(2-5) False by (intro 5(1)) (simp_all add: f)
    then have "parse_items f l d [] (ch # t) (k + 1) = Some (Inr (JArray xs, rest, k + 1 + sum_list (map json_nodes xs)))"
      using parse_skip(1)[of f l d "[]" ?s] by (simp add: head(1))
    then show ?thesis using 5(2,3) False head by (simp add: f parse_value.simps Let_def)
  qed
next
  case (6 pretty indent ms)
  then obtain f where f: "fuel = Suc f" by (cases fuel) simp_all
  show ?case
  proof (cases "ms = []")
    case True
    then show ?thesis using 6 by (simp add: f parse_value.simps)
  next
    case False
    let ?s = "write_members pretty indent ms @ pad pretty indent @ CHR ''}'' # rest"
    obtain ch t where head: "skip_whitespace ?s = ch # t" "ch \<noteq> CHR ''}''" by (rule write_members_head[OF False])
    have "parse_members f l d [] ?s (k + 1) =
        Some (Inr (JObject ([] @ ms), rest, k + 1 + sum_list (map (\<lambda>m. json_nodes (snd m)) ms)))"
      using 6(2-5) False by (intro 6(1)) (simp_all add: f)
    then have "parse_members f l d [] (ch # t) (k + 1) =
        Some (Inr (JObject ms, rest, k + 1 + sum_list (map (\<lambda>m. json_nodes (snd m)) ms)))"
      using parse_skip(2)[of f l d "[]" ?s] by (simp add: head(1))
    then show ?thesis using 6(2,3) False head by (simp add: f parse_value.simps Let_def)
  qed
next
  case (7 pretty indent)
  then show ?case by simp
next
  case (8 pretty indent x xs)
  then obtain f where f: "fuel = Suc f" by (cases fuel) simp_all
  let ?close = "pad pretty indent @ CHR '']'' # rest"
  let ?tail = "(if xs = [] then [] else '','' @ write_items pretty indent xs) @ ?close"
  have fits: "json_fits l (d + 1) x" using 8(4) by simp
  have "number_ends ?tail" by (simp add: ends_pad)
  then have first: "parse_value f l (d + 1) (write_json pretty (indent + 1) x @ ?tail) k =
      Some (Inr (x, ?tail, k + json_nodes x))"
    using 8(6,7) by (intro 8(1)[OF fits]) (simp_all add: f)
  show ?case
  proof (cases "xs = []")
    case True
    then show ?thesis using first 8(5) by (simp add: f parse_items.simps parsed_bind_def parsed_def after_item_def)
  next
    case False
    have "parse_items f l d (items @ [x]) (write_items pretty indent xs @ ?close) (k + json_nodes x) =
        Some (Inr (JArray ((items @ [x]) @ xs), rest, k + json_nodes x + sum_list (map json_nodes xs)))"
      using 8(4-7) False by (intro 8(2)) (simp_all add: f)
    then show ?thesis
      using first 8(5) False
      by (simp add: f parse_items.simps(2) parsed_bind_def parsed_def after_item_def Let_def add.assoc)
  qed
next
  case (9 pretty indent)
  then show ?case by simp
next
  case (10 pretty indent key x ms)
  then obtain f where f: "fuel = Suc f" by (cases fuel) simp_all
  let ?close = "pad pretty indent @ CHR ''}'' # rest"
  let ?tail = "(if ms = [] then [] else '','' @ write_members pretty indent ms) @ ?close"
  let ?gap = "if pretty then '' '' else []"
  have fits: "json_fits l (d + 1) x" "length key \<le> jl_max_string_bytes l" using 10(4) by simp_all
  have key: "parse_key l (pad pretty (indent + 1) @ json_string key @ CHR '':'' # ?gap @ write_json pretty (indent + 1) x @ ?tail) =
      Inr (key, write_json pretty (indent + 1) x @ ?tail)"
    using parse_key_written[OF fits(2)] by (simp add: skip_whitespace_def[of "CHR '' '' # _"] is_json_space_def
        flip: skip_whitespace_def)
  have "number_ends ?tail" by (simp add: ends_pad)
  then have first: "parse_value f l (d + 1) (write_json pretty (indent + 1) x @ ?tail) k =
      Some (Inr (x, ?tail, k + json_nodes x))"
    using 10(6,7) by (intro 10(1)[OF fits(1)]) (simp_all add: f)
  show ?case
  proof (cases "ms = []")
    case True
    then show ?thesis
      using first 10(5) key by (simp add: f parse_members.simps parsed_bind_def parsed_def after_member_def)
  next
    case False
    have "parse_members f l d (members @ [(key, x)]) (write_members pretty indent ms @ ?close) (k + json_nodes x) =
        Some (Inr (JObject ((members @ [(key, x)]) @ ms), rest,
          k + json_nodes x + sum_list (map (\<lambda>m. json_nodes (snd m)) ms)))"
      using 10(4-7) False by (intro 10(2)) (simp_all add: f)
    then show ?thesis
      using first 10(5) False key
      by (simp add: f parse_members.simps(2) parsed_bind_def parsed_def after_member_def Let_def add.assoc)
  qed
qed

text \<open>A document within the limits is read back from its text, plain or pretty.\<close>

theorem parse_json_to_text:
  assumes "json_fits l 0 j" "json_nodes j \<le> jl_max_nodes l" "length (json_to_text pretty j) \<le> jl_max_input_bytes l"
  shows "parse_json (json_to_text pretty j) l = Inr j"
proof -
  let ?s = "json_to_text pretty j"
  have skip: "skip_whitespace ?s = ?s" using skip_written[of pretty 0 j "[]"] by (simp add: json_to_text_def)
  have "parse_value (json_fuel ?s) l 0 (write_json pretty 0 j @ []) 0 = Some (Inr (j, [], 0 + json_nodes j))"
    using assms by (intro parse_written(1)) (simp_all add: json_fuel_def json_to_text_def number_ends_def)
  then have "run_parser l ?s = Some (Inr j)"
    using assms(3) by (simp add: run_parser_def skip Let_def) (simp add: json_to_text_def skip_whitespace_def)
  then show ?thesis using run_parser_returns[of l ?s] by simp
qed

end
