(* ===== verification/Fab_Json_Form.thy ===== *)
theory Fab_Json_Form
  imports Fab_Json
begin

text \<open>
  The contract of a JSON form: what is written as a document is read back. Whoever provides it
  gets the round trip through text, plain or pretty, and that different things have different
  texts.
\<close>

locale json_form =
  fixes to_doc :: "'a \<Rightarrow> json" and of_doc :: "json \<Rightarrow> 'a result" and ok :: "'a \<Rightarrow> bool"
  assumes read_write: "ok x \<Longrightarrow> of_doc (to_doc x) = Inr x"
begin

lemma text_round_trip:
  assumes "ok x" "json_fits jl 0 (to_doc x)" "json_nodes (to_doc x) \<le> jl_max_nodes jl"
    and "length (json_to_text pretty (to_doc x)) \<le> jl_max_input_bytes jl"
  shows "rbind (parse_json (json_to_text pretty (to_doc x)) jl) of_doc = Inr x"
  using parse_json_to_text[OF assms(2-4)] read_write[OF assms(1)] by simp

lemma text_injective:
  assumes "ok x" "json_fits jl 0 (to_doc x)" "json_nodes (to_doc x) \<le> jl_max_nodes jl"
    and "length (json_to_text pretty (to_doc x)) \<le> jl_max_input_bytes jl"
    and "ok y" "json_fits jl 0 (to_doc y)" "json_nodes (to_doc y) \<le> jl_max_nodes jl"
    and "json_to_text pretty (to_doc x) = json_to_text pretty (to_doc y)"
  shows "x = y"
proof -
  note texts = text_round_trip[OF assms(1-4)] text_round_trip[OF assms(5-7) assms(4)[unfolded assms(8)]]
  have "Inr x = (Inr y :: 'a result)" using texts unfolding assms(8) by (rule trans[OF sym])
  then show ?thesis by simp
qed

end

end
