(* ===== verification/Fab_Json_Value.thy ===== *)
theory Fab_Json_Value
  imports Fab_Json_Form
begin

text \<open>
  The second half of \<^verbatim>\<open>json.cpp\<close>: values as tagged JSON envelopes. A value that fits the limits
  is read back from its envelope, and from the text of the envelope.
\<close>

section \<open>Integers\<close>

text \<open>\<^verbatim>\<open>std::from_chars\<close> on the whole text: no blanks, no plus sign, in range.\<close>

definition read_u64 :: "string \<Rightarrow> 64 word option" where
  "read_u64 s = (if plain_digits s \<and> decimal_reading s < 2 ^ 64 then Some (of_nat (decimal_reading s)) else None)"

definition read_i64 :: "string \<Rightarrow> 64 word option" where
  "read_i64 s =
     (let (neg, ds) = split_sign s
      in if \<not> plain_digits ds then None
      else if neg then (if decimal_reading ds \<le> 2 ^ 63 then Some (- of_nat (decimal_reading ds)) else None)
      else if decimal_reading ds < 2 ^ 63 then Some (of_nat (decimal_reading ds)) else None)"

lemma read_u64_text: "read_u64 (u64_text w) = Some w"
  using unat_lt2p[of w] by (simp add: read_u64_def u64_text_def plain_text)

lemma read_i64_text: "read_i64 (int_text (sint w)) = Some (w :: 64 word)"
proof (cases "sint w < 0")
  case True
  have "- (2 ^ 63) \<le> sint w" using sint_range_size[of w] by (simp add: word_size)
  then have "nat (- sint w) \<le> 2 ^ 63" by simp
  moreover have "- of_nat (nat (- sint w)) = w" using True by simp
  ultimately show ?thesis
    using True plain_text by (simp add: read_i64_def int_text_def split_sign_def)
next
  case False
  have "sint w < 2 ^ 63" using sint_range_size[of w] by (simp add: word_size)
  then have "nat (sint w) < 2 ^ 63" by simp
  moreover have "split_sign (nat_text (nat (sint w))) = (False, nat_text (nat (sint w)))"
    using digit_not_mark nat_text_digits[of "nat (sint w)"] nat_text_nonempty[of "nat (sint w)"]
    by (cases "nat_text (nat (sint w))") (auto simp: split_sign_def)
  ultimately show ?thesis using False plain_text by (simp add: read_i64_def int_text_def)
qed

section \<open>Envelopes\<close>

definition make_tagged :: "string \<Rightarrow> json \<Rightarrow> json" where
  "make_tagged kind payload = JObject [(''k'', JText kind), (''v'', payload)]"

fun value_to_json :: "fvalue \<Rightarrow> json"
and values_to_json :: "fvalue list \<Rightarrow> json list"
and entries_to_json :: "(string \<times> fvalue) list \<Rightarrow> json list" where
  "value_to_json VNull = make_tagged ''null'' JNull"
| "value_to_json (VBool b) = make_tagged ''bool'' (JBool b)"
| "value_to_json (VInt w) = make_tagged ''int'' (JText (int_text (sint w)))"
| "value_to_json (VUint w) = make_tagged ''uint'' (JText (u64_text w))"
| "value_to_json (VReal bits) = make_tagged ''real'' (JNumber bits)"
| "value_to_json (VText s) = make_tagged ''text'' (JText s)"
| "value_to_json (VBlob bs) = make_tagged ''blob'' (JText (hex_encode bs))"
| "value_to_json (VList xs) = make_tagged ''list'' (JArray (values_to_json xs))"
| "value_to_json (VMap es) = make_tagged ''map'' (JArray (entries_to_json es))"
| "values_to_json [] = []"
| "values_to_json (x # xs) = value_to_json x # values_to_json xs"
| "entries_to_json [] = []"
| "entries_to_json ((k, x) # es) = JObject [(''k'', JText k), (''v'', value_to_json x)] # entries_to_json es"

text \<open>The payload of an envelope and of a map entry are parts of the document.\<close>

lemma json_find_smaller: "json_find key j = Some x \<Longrightarrow> size x < size j"
proof (cases j)
  case (JObject ms)
  assume "json_find key j = Some x"
  then have "(key, x) \<in> set ms" by (auto simp: JObject json_find_def dest: map_of_SomeD)
  then show ?thesis using size_list_estimation'[of "(key, x)" ms "size x" "size_prod (\<lambda>_. 0) size"] by (simp add: JObject)
qed (simp_all add: json_find_def)

definition is_object :: "json \<Rightarrow> bool" where
  "is_object j = (case j of JObject ms \<Rightarrow> True | _ \<Rightarrow> False)"

abbreviation quoted :: "string \<Rightarrow> string" where
  "quoted s \<equiv> CHR 0x27 # s @ [CHR 0x27]"

text \<open>The envelopes without parts.\<close>

definition scalar_from_json :: "string \<Rightarrow> json option \<Rightarrow> value_limits \<Rightarrow> fvalue result" where
  "scalar_from_json tag p l =
     (if tag = ''null'' then Inr VNull
      else if tag = ''bool''
      then (case p of Some (JBool b) \<Rightarrow> Inr (VBool b)
        | _ \<Rightarrow> err SC_MalformedInput (''bool value requires a boolean '' @ quoted ''v''))
      else if tag = ''int''
      then (case p of Some (JText t) \<Rightarrow> (case read_i64 t of Some w \<Rightarrow> Inr (VInt w)
            | None \<Rightarrow> err SC_MalformedInput ''malformed signed integer value'')
        | _ \<Rightarrow> err SC_MalformedInput ''integer values are carried as decimal strings'')
      else if tag = ''uint''
      then (case p of Some (JText t) \<Rightarrow> (case read_u64 t of Some w \<Rightarrow> Inr (VUint w)
            | None \<Rightarrow> err SC_MalformedInput ''malformed unsigned integer value'')
        | _ \<Rightarrow> err SC_MalformedInput ''integer values are carried as decimal strings'')
      else if tag = ''real''
      then (case p of Some (JNumber x) \<Rightarrow> value_real x
        | _ \<Rightarrow> err SC_MalformedInput (''real value requires a numeric '' @ quoted ''v''))
      else if tag = ''text''
      then (case p of Some (JText t) \<Rightarrow> value_text t l
        | _ \<Rightarrow> err SC_MalformedInput (''text value requires a text '' @ quoted ''v''))
      else if tag = ''blob''
      then (case p of Some (JText t) \<Rightarrow> rbind (hex_decode t) (\<lambda>bs. value_blob bs l)
        | _ \<Rightarrow> err SC_MalformedInput (''blob value requires a hex text '' @ quoted ''v''))
      else err SC_Unsupported ''unknown value envelope tag'')"

function (sequential) value_from_json :: "json \<Rightarrow> value_limits \<Rightarrow> fvalue result"
and values_from_json :: "json list \<Rightarrow> value_limits \<Rightarrow> fvalue list result"
and entries_from_json :: "json list \<Rightarrow> value_limits \<Rightarrow> (string \<times> fvalue) list result" where
  "value_from_json j l =
     (if \<not> is_object j then err SC_MalformedInput ''a value envelope must be a JSON object''
      else case json_find ''k'' j of
        Some (JText tag) \<Rightarrow>
          if tag = ''list''
          then (case json_find ''v'' j of
              Some (JArray xs) \<Rightarrow> rbind (values_from_json xs l) (\<lambda>vs. value_list vs l)
            | _ \<Rightarrow> err SC_MalformedInput (''list value requires an array '' @ quoted ''v''))
          else if tag = ''map''
          then (case json_find ''v'' j of
              Some (JArray xs) \<Rightarrow> rbind (entries_from_json xs l) (\<lambda>es. value_map es l)
            | _ \<Rightarrow> err SC_MalformedInput (''map value requires an array '' @ quoted ''v''))
          else scalar_from_json tag (json_find ''v'' j) l
      | _ \<Rightarrow> err SC_MalformedInput (''a value envelope requires a text '' @ quoted ''k'' @ '' member''))"
| "values_from_json [] l = Inr []"
| "values_from_json (x # xs) l =
     rbind (value_from_json x l) (\<lambda>v. rbind (values_from_json xs l) (\<lambda>vs. Inr (v # vs)))"
| "entries_from_json [] l = Inr []"
| "entries_from_json (x # xs) l =
     (if \<not> is_object x then err SC_MalformedInput ''map entries must be JSON objects''
      else case (json_find ''k'' x, json_find ''v'' x) of
        (Some (JText key), Some entry) \<Rightarrow>
          rbind (value_from_json entry l) (\<lambda>v. rbind (entries_from_json xs l) (\<lambda>es. Inr ((key, v) # es)))
      | _ \<Rightarrow> err SC_MalformedInput (''map entries require text '' @ quoted ''k'' @ '' and a value '' @ quoted ''v''))"
  by pat_completeness auto
termination
  by (relation "measure (\<lambda>x. case x of Inl (j, _) \<Rightarrow> size j
      | Inr (Inl (xs, _)) \<Rightarrow> size_list size xs | Inr (Inr (xs, _)) \<Rightarrow> size_list size xs)")
     (auto dest!: json_find_smaller json_find_smaller[OF sym])

declare value_from_json.simps [simp del]

section \<open>Values survive JSON\<close>

lemma find_tagged [simp]:
  "json_find ''k'' (make_tagged t p) = Some (JText t)" "json_find ''v'' (make_tagged t p) = Some p"
  "is_object (make_tagged t p)"
  by (simp_all add: json_find_def make_tagged_def is_object_def)

lemma value_round_trip_json:
  "wf_value_limits l \<Longrightarrow> value_fits l v \<Longrightarrow> value_from_json (value_to_json v) l = Inr v"
  "wf_value_limits l \<Longrightarrow> \<forall>v\<in>set vs. value_fits l v \<Longrightarrow> values_from_json (values_to_json vs) l = Inr vs"
  "wf_value_limits l \<Longrightarrow> \<forall>e\<in>set es. value_fits l (snd e) \<Longrightarrow> entries_from_json (entries_to_json es) l = Inr es"
proof (induction v and vs and es rule: value_to_json_values_to_json_entries_to_json.induct)
  case (5 bits)
  then show ?case by (simp add: value_from_json.simps scalar_from_json_def value_fits_def value_real_def)
next
  case (6 s)
  then show ?case
    by (simp add: value_from_json.simps scalar_from_json_def value_fits_def value_validate.simps[of l "VText s"] value_text_def
        split: if_splits)
next
  case (7 bs)
  then show ?case
    by (simp add: value_from_json.simps scalar_from_json_def value_fits_def value_validate.simps[of l "VBlob bs"] value_blob_def
        hex_decode_encode split: if_splits)
next
  case (8 xs)
  then have "\<forall>x\<in>set xs. value_fits l x" by (auto simp: value_fits_def validate_list list_all_iff)
  then show ?case
    using 8 value_list_fits[of l xs] by (simp add: value_from_json.simps value_fits_def)
next
  case (9 es)
  then have "\<forall>e\<in>set es. value_fits l (snd e)" by (auto simp: value_fits_def validate_map list_all_iff)
  then show ?case
    using 9 value_map_fits[of l es] by (simp add: value_from_json.simps value_fits_def)
next
  case (13 k x es)
  then show ?case by (simp add: is_object_def json_find_def)
qed (simp_all add: value_from_json.simps scalar_from_json_def read_i64_text read_u64_text)

interpretation value_form:
  json_form value_to_json "\<lambda>j. value_from_json j l" "\<lambda>v. wf_value_limits l \<and> value_fits l v" for l
  by unfold_locales (simp add: value_round_trip_json(1))

section \<open>Values survive JSON text\<close>

text \<open>Document limits that leave room for every value within the value limits.\<close>

definition json_room :: "value_limits \<Rightarrow> json_limits \<Rightarrow> bool" where
  "json_room l jl \<longleftrightarrow> 3 * max_depth l \<le> jl_max_depth jl + 2 \<and> 5 * max_total_nodes l \<le> jl_max_nodes jl + 2 \<and>
     max_text_bytes l \<le> jl_max_string_bytes jl \<and> 2 * max_blob_bytes l \<le> jl_max_string_bytes jl \<and>
     20 \<le> jl_max_string_bytes jl \<and> 2 \<le> jl_max_object_members jl \<and>
     max_list_elements l \<le> jl_max_array_elements jl \<and> max_map_entries l \<le> jl_max_array_elements jl"

lemma default_json_room: "json_room default_value_limits default_json_limits"
  by (simp add: json_room_def default_value_limits_def default_json_limits_def)

lemma nat_text_length: "n < 10 ^ k \<Longrightarrow> 1 \<le> k \<Longrightarrow> length (nat_text n) \<le> k"
proof (induction n arbitrary: k rule: nat_text.induct)
  case (1 n)
  show ?case
  proof (cases "n < 10")
    case True
    then show ?thesis using 1(3) by (subst nat_text.simps) simp
  next
    case False
    then obtain k' where k: "k = Suc k'" "1 \<le> k'" using 1(2,3) by (cases k; cases "k - 1") auto
    have "n div 10 < 10 ^ k'" using 1(2) k by auto
    then have "length (nat_text (n div 10)) \<le> k'" using 1(1)[OF False] k by simp
    then show ?thesis using False k by (subst nat_text.simps) simp
  qed
qed

lemma integer_text_length: "length (u64_text w) \<le> 20" "length (int_text (sint (w :: 64 word))) \<le> 20"
proof -
  show "length (u64_text w) \<le> 20"
    using unat_lt2p[of w] nat_text_length[of "unat w" 20] by (simp add: u64_text_def)
  have "nat \<bar>sint w\<bar> < 10 ^ 19" using sint_range_size[of w] by (auto simp: word_size nat_less_iff abs_less_iff)
  then have "length (nat_text (nat \<bar>sint w\<bar>)) \<le> 19" by (intro nat_text_length) simp_all
  then show "length (int_text (sint w)) \<le> 20" by (cases "sint w < 0") (simp_all add: int_text_def)
qed

lemma finite_real: "real_is_finite x \<Longrightarrow> finite_bits x"
proof -
  assume fin: "real_is_finite x"
  have field: "drop_bit 52 x AND 0x7FF = take_bit 11 (drop_bit 52 x)" by (simp add: take_bit_eq_mask mask_numeral)
  have "unat (take_bit 11 (drop_bit 52 x)) \<noteq> 0x7FF" using fin by (auto simp: real_is_finite_def field intro!: word_eq_unatI)
  moreover have "unat (take_bit 11 (drop_bit 52 x)) = unat (take_bit 63 x) div 2 ^ 52"
  proof -
    have "take_bit 11 (drop_bit 52 x) = drop_bit 52 (take_bit 63 x)" by (simp only: drop_bit_take_bit) simp
    then show ?thesis by (simp add: drop_bit_eq_div unat_div)
  qed
  moreover have "unat (take_bit 63 x) < 2 ^ 63" by (simp only: unsigned_take_bit_eq) (rule take_bit_nat_less_exp)
  ultimately have "unat (take_bit 63 x) div 2 ^ 52 < 0x7FF" by simp
  then show ?thesis by (simp add: finite_bits_def infinity_bits_def)
qed

lemma to_json_map:
  "values_to_json vs = map value_to_json vs"
  "entries_to_json es = map (\<lambda>e. JObject [(''k'', JText (fst e)), (''v'', value_to_json (snd e))]) es"
  by (induction vs; simp) (induction es; auto)

lemma value_json_nodes:
  "json_nodes (value_to_json v) + 2 \<le> 5 * value_nodes v"
  "sum_list (map json_nodes (values_to_json vs)) \<le> 5 * sum_list (map value_nodes vs)"
  "sum_list (map json_nodes (entries_to_json es)) \<le> 5 * sum_list (map (\<lambda>e. value_nodes (snd e)) es)"
  by (induction v and vs and es rule: value_to_json_values_to_json_entries_to_json.induct)
     (auto simp: make_tagged_def)

lemma value_json_fits:
  assumes "json_room l jl"
  shows "value_fits l v \<Longrightarrow> d + 3 * value_depth v \<le> jl_max_depth jl + 2 \<Longrightarrow> json_fits jl d (value_to_json v)"
proof (induction v arbitrary: d)
  case (VText t)
  then show ?case
    using assms by (auto simp: make_tagged_def json_room_def value_fits_def value_validate.simps[of l "VText t"] split: if_splits)
next
  case (VBlob bs)
  then show ?case
    using assms by (auto simp: make_tagged_def json_room_def value_fits_def value_validate.simps[of l "VBlob bs"] split: if_splits)
next
  case (VInt w)
  then show ?case
    using assms integer_text_length(2)[of w] by (simp add: make_tagged_def json_room_def)
next
  case (VUint w)
  then show ?case
    using assms integer_text_length(1)[of w] by (simp add: make_tagged_def json_room_def)
next
  case (VReal x)
  then show ?case
    using assms finite_real[of x] by (simp add: make_tagged_def json_room_def value_fits_def)
next
  case (VList vs)
  let ?depth = "value_depth (VList vs)"
  have fits: "\<forall>v\<in>set vs. value_fits l v" "length vs \<le> max_list_elements l"
    using VList.prems(1) by (auto simp: value_fits_def validate_list list_all_iff)
  have deep: "value_depth v + 1 \<le> ?depth" if "v \<in> set vs" for v
    using that foldl_max_le[of value_depth 1 vs ?depth] by simp
  have "json_fits jl (d + 2) (value_to_json v)" if "v \<in> set vs" for v
  proof (rule VList.IH[OF that])
    show "value_fits l v" using fits(1) that by blast
    show "d + 2 + 3 * value_depth v \<le> jl_max_depth jl + 2" using deep[OF that] VList.prems(2) by linarith
  qed
  moreover have "1 \<le> ?depth" by (rule value_depth_pos)
  ultimately show ?case
    using assms VList.prems(2) fits(2) by (simp add: make_tagged_def json_room_def to_json_map del: value_depth.simps)
next
  case (VMap es)
  let ?depth = "value_depth (VMap es)"
  have fits: "\<forall>e\<in>set es. value_fits l (snd e) \<and> length (fst e) \<le> max_text_bytes l" "length es \<le> max_map_entries l"
    using VMap.prems(1) by (auto simp: value_fits_def validate_map list_all_iff)
  have deep: "value_depth (snd e) + 1 \<le> ?depth" if "e \<in> set es" for e
    using that foldl_max_le[of "\<lambda>e. value_depth (snd e)" 1 es ?depth] by simp
  have "json_fits jl (d + 3) (value_to_json (snd e)) \<and> d + 4 \<le> jl_max_depth jl" if "e \<in> set es" for e
    using that deep[OF that] value_depth_pos[of "snd e"] VMap.prems(2) fits(1)
    by (intro conjI VMap.IH[of e]) (auto simp: snds.simps intro: snds.intros simp del: value_depth.simps)
  then have "json_fits jl (Suc (Suc (Suc d))) (value_to_json (snd e))" "Suc (Suc (Suc d)) \<le> jl_max_depth jl"
    if "e \<in> set es" for e
    using that by (fastforce simp: eval_nat_numeral)+
  moreover have "1 \<le> ?depth" by (rule value_depth_pos)
  ultimately show ?case
    using assms VMap.prems(2) fits
    by (fastforce simp: make_tagged_def json_room_def to_json_map simp del: value_depth.simps)
qed (use assms in \<open>auto simp: make_tagged_def json_room_def\<close>)

theorem value_json_text_round_trip:
  assumes "json_room l jl" "wf_value_limits l" "value_fits l v"
    and "length (json_to_text pretty (value_to_json v)) \<le> jl_max_input_bytes jl"
  shows "rbind (parse_json (json_to_text pretty (value_to_json v)) jl) (\<lambda>j. value_from_json j l) = Inr v"
proof -
  have ok: "value_validate l v = Inr ()" using assms(3) by (simp add: value_fits_def)
  note bounds = validate_bounds[OF ok]
  have "json_fits jl 0 (value_to_json v)"
    using assms(1,3) bounds(2) by (intro value_json_fits[OF assms(1)]) (simp_all add: json_room_def)
  moreover have "json_nodes (value_to_json v) \<le> jl_max_nodes jl"
    using value_json_nodes(1)[of v] bounds(1) assms(1) by (simp add: json_room_def)
  ultimately show ?thesis using assms(2-4) by (intro value_form.text_round_trip conjI)
qed

end
