(* ===== verification/Fab_Observation_Json.thy ===== *)
theory Fab_Observation_Json
  imports Fab_Json_Value Fab_Observation
begin

text \<open>
  The JSON form of an observation, from \<^verbatim>\<open>observation.cpp\<close>: the wire format of the transport and
  the command line. A valid observation is read back from its document and from its text, plain
  or pretty; whatever document is read, the result passed validation in canonical form.
\<close>

section \<open>Writing\<close>

definition json_texts :: "(string \<times> string) list \<Rightarrow> (string \<times> json) list" where
  "json_texts kvs = map (\<lambda>(k, t). (k, JText t)) kvs"

definition claim_to_json :: "claim \<Rightarrow> json" where
  "claim_to_json c = JObject
     [(''subject'', JText (typed_text (cl_subject c))), (''aspect'', JText (aspect_value (cl_aspect c))),
      (''value'', value_to_json (cl_value c)), (''supported'', JBool (cl_supported c)),
      (''revision'', JText (u64_text (cl_revision c)))]"

definition causal_to_json :: "causal_ref \<Rightarrow> json" where
  "causal_to_json r = JObject
     (json_texts [(''antecedent'', digest_to_hex (cr_antecedent r)),
       (''strength'', causal_text (cr_strength r)), (''basis'', cr_basis r)])"

definition metadata_entry_to_json :: "string \<times> string \<Rightarrow> json" where
  "metadata_entry_to_json e = JObject (json_texts [(''k'', fst e), (''v'', snd e)])"

definition observation_to_json :: "observation \<Rightarrow> json" where
  "observation_to_json ob = JObject
     (json_texts [(''schema'', ob_schema ob), (''fabric'', id_to_text ''fab'' (ob_fabric ob)),
        (''source'', id_to_text ''src'' (ob_source ob)), (''incarnation'', id_to_text ''inc'' (ob_incarnation ob)),
        (''sequence'', u64_text (ob_sequence ob)), (''generation'', u64_text (ob_generation ob)),
        (''epoch'', u64_text (ob_epoch ob)), (''observed_at'', int_text (sint (tp_nanos (ob_observed_at ob))))] @
      [(''claims'', JArray (map claim_to_json (ob_claims ob))),
       (''causal'', JArray (map causal_to_json (ob_causal ob))),
       (''metadata'', JArray (map metadata_entry_to_json (ob_metadata ob)))])"

definition observation_to_json_text :: "bool \<Rightarrow> observation \<Rightarrow> string" where
  "observation_to_json_text pretty ob = json_to_text pretty (observation_to_json ob)"

section \<open>Reading\<close>

definition text_member :: "string \<Rightarrow> string \<Rightarrow> json \<Rightarrow> string result" where
  "text_member key message j =
     (case json_find key j of Some (JText t) \<Rightarrow> Inr t | _ \<Rightarrow> err SC_MalformedInput message)"

definition parse_u64_text :: "json option \<Rightarrow> string \<Rightarrow> 64 word result" where
  "parse_u64_text j field =
     (case j of Some (JText t) \<Rightarrow> (case read_u64 t of
          Some w \<Rightarrow> Inr w
        | None \<Rightarrow> err SC_MalformedInput (field @ '' is not a valid unsigned decimal string''))
      | _ \<Rightarrow> err SC_MalformedInput (field @ '' must be a decimal string''))"

definition parse_i64_text :: "json option \<Rightarrow> string \<Rightarrow> 64 word result" where
  "parse_i64_text j field =
     (case j of Some (JText t) \<Rightarrow> (case read_i64 t of
          Some w \<Rightarrow> Inr w
        | None \<Rightarrow> err SC_MalformedInput (field @ '' is not a valid signed decimal string''))
      | _ \<Rightarrow> err SC_MalformedInput (field @ '' must be a decimal string''))"

definition optional_u64 :: "string \<Rightarrow> json \<Rightarrow> 64 word result" where
  "optional_u64 field j = (if json_find field j = None then Inr 0 else parse_u64_text (json_find field j) field)"

text \<open>A loop that fills a vector and returns at the first failure.\<close>

fun collect :: "('a \<Rightarrow> 'b result) \<Rightarrow> 'a list \<Rightarrow> 'b list result" where
  "collect f [] = Inr []"
| "collect f (x # xs) = rbind (f x) (\<lambda>y. rbind (collect f xs) (\<lambda>ys. Inr (y # ys)))"

context json_form begin

text \<open>The loop reads back what was written element by element.\<close>

lemma collect_write: "list_all ok xs \<Longrightarrow> collect of_doc (map to_doc xs) = Inr xs"
  by (induction xs) (simp_all add: read_write)

end

definition claim_from_json :: "limits \<Rightarrow> json \<Rightarrow> claim result" where
  "claim_from_json l item =
     (if \<not> is_object item then err SC_MalformedInput ''each claim must be a JSON object''
      else case json_find ''subject'' item of
        None \<Rightarrow> err SC_MalformedInput (''each claim requires a '' @ quoted ''subject'')
      | Some subject_json \<Rightarrow>
          rbind (case subject_json of JText t \<Rightarrow> subject_from_text t
            | _ \<Rightarrow> err SC_MalformedInput ''subject must be a text typed identity'') (\<lambda>subject.
          rbind (text_member ''aspect'' (''each claim requires a text '' @ quoted ''aspect'') item) (\<lambda>aspect_text.
          rbind (aspect_parse aspect_text) (\<lambda>aspect.
          case json_find ''value'' item of
            None \<Rightarrow> err SC_MalformedInput (''each claim requires a '' @ quoted ''value'')
          | Some value_json \<Rightarrow>
              rbind (value_from_json value_json (value_bounds l)) (\<lambda>v.
              rbind (case json_find ''supported'' item of None \<Rightarrow> Inr True | Some (JBool b) \<Rightarrow> Inr b
                | _ \<Rightarrow> err SC_MalformedInput (quoted ''supported'' @ '' must be a boolean'')) (\<lambda>supported.
              rbind (optional_u64 ''revision'' item) (\<lambda>revision.
              Inr \<lparr>cl_subject = subject, cl_aspect = aspect, cl_value = v, cl_supported = supported,
                cl_revision = revision\<rparr>)))))))"

definition causal_from_json :: "limits \<Rightarrow> json \<Rightarrow> causal_ref result" where
  "causal_from_json l item =
     (if \<not> is_object item then err SC_MalformedInput ''each causal reference must be a JSON object''
      else rbind (text_member ''antecedent'' (''causal reference requires a text '' @ quoted ''antecedent'') item)
        (\<lambda>hex. rbind (digest_from_hex hex) (\<lambda>antecedent.
        rbind (case json_find ''strength'' item of
            None \<Rightarrow> Inr CS_CorrelatesWith
          | Some (JText t) \<Rightarrow> (case causal_from_string t of
                Some s \<Rightarrow> Inr s | None \<Rightarrow> err SC_Unsupported ''unknown causal strength'')
          | _ \<Rightarrow> err SC_MalformedInput ''causal strength must be text'') (\<lambda>strength.
        rbind (case json_find ''basis'' item of
            None \<Rightarrow> Inr []
          | Some (JText t) \<Rightarrow>
              if length t > max_metadata_value_bytes l
              then err SC_TooLarge ''causal basis exceeds the maximum length'' else Inr t
          | _ \<Rightarrow> err SC_MalformedInput ''causal basis must be text'') (\<lambda>basis.
        Inr \<lparr>cr_antecedent = antecedent, cr_strength = strength, cr_basis = basis\<rparr>)))))"

definition metadata_entry_from_json :: "json \<Rightarrow> (string \<times> string) result" where
  "metadata_entry_from_json item =
     (if \<not> is_object item then err SC_MalformedInput ''each metadata entry must be a JSON object''
      else case (json_find ''k'' item, json_find ''v'' item) of
        (Some (JText k), Some (JText v)) \<Rightarrow> Inr (k, v)
      | _ \<Rightarrow> err SC_MalformedInput (''metadata entries require text '' @ quoted ''k'' @ '' and '' @ quoted ''v''))"

text \<open>An optional array member: its elements, bounded in number where there is a bound.\<close>

definition array_member :: "string \<Rightarrow> nat option \<Rightarrow> string \<Rightarrow> json \<Rightarrow> json list result" where
  "array_member key bound message j =
     (case json_find key j of
        None \<Rightarrow> Inr []
      | Some (JArray xs) \<Rightarrow>
          (case bound of
             Some n \<Rightarrow> if length xs > n then err SC_TooLarge message else Inr xs
           | None \<Rightarrow> Inr xs)
      | Some _ \<Rightarrow> err SC_MalformedInput (quoted key @ '' must be a JSON array''))"

definition observation_from_json :: "json \<Rightarrow> limits \<Rightarrow> observation result" where
  "observation_from_json j l =
     (if \<not> is_object j then err SC_MalformedInput ''an observation must be a JSON object''
      else
      rbind (text_member ''schema'' (''observation requires a text '' @ quoted ''schema'') j) (\<lambda>schema.
      rbind (text_member ''fabric'' (''observation requires a text '' @ quoted ''fabric'') j) (\<lambda>fabric_text.
      rbind (id_from_text ''fab'' fabric_text) (\<lambda>fabric.
      rbind (text_member ''source'' (''observation requires a text '' @ quoted ''source'') j) (\<lambda>source_text.
      rbind (id_from_text ''src'' source_text) (\<lambda>source.
      rbind (text_member ''incarnation'' (''observation requires a text '' @ quoted ''incarnation'') j) (\<lambda>incarnation_text.
      rbind (id_from_text ''inc'' incarnation_text) (\<lambda>incarnation.
      rbind (parse_u64_text (json_find ''sequence'' j) ''sequence'') (\<lambda>sequence.
      rbind (parse_u64_text (json_find ''generation'' j) ''generation'') (\<lambda>generation.
      rbind (optional_u64 ''epoch'' j) (\<lambda>epoch.
      rbind (parse_i64_text (json_find ''observed_at'' j) ''observed_at'') (\<lambda>observed_at.
      rbind (array_member ''claims'' (Some (unat (max_claims_per_observation l)))
        ''observation carries more claims than the configured maximum'' j) (\<lambda>claim_items.
      rbind (collect (claim_from_json l) claim_items) (\<lambda>claims.
      rbind (array_member ''causal'' (Some (unat (max_causal_refs l)))
        ''observation carries more causal references than the maximum'' j) (\<lambda>causal_items.
      rbind (collect (causal_from_json l) causal_items) (\<lambda>causal.
      rbind (array_member ''metadata'' None [] j) (\<lambda>metadata_items.
      rbind (collect metadata_entry_from_json metadata_items) (\<lambda>entries.
      rbind (if json_find ''metadata'' j = None then Inr [] else metadata_make entries l) (\<lambda>metadata.
      let ob = canonicalize \<lparr>ob_schema = schema, ob_fabric = fabric, ob_source = source,
          ob_incarnation = incarnation, ob_sequence = sequence, ob_generation = generation,
          ob_epoch = epoch, ob_observed_at = TimePoint observed_at, ob_claims = claims,
          ob_causal = causal, ob_metadata = metadata\<rparr>
      in rbind (observation_validate l ob) (\<lambda>_. Inr ob))))))))))))))))))))"

definition observation_from_json_text :: "string \<Rightarrow> json_limits \<Rightarrow> limits \<Rightarrow> observation result" where
  "observation_from_json_text text jl l = rbind (parse_json text jl) (\<lambda>j. observation_from_json j l)"

section \<open>The round trip\<close>

text \<open>Only this form bounds the basis of a causal reference.\<close>

definition bases_fit :: "limits \<Rightarrow> observation \<Rightarrow> bool" where
  "bases_fit l ob \<longleftrightarrow> (\<forall>r\<in>set (ob_causal ob). length (cr_basis r) \<le> max_metadata_value_bytes l)"

lemma claim_from_to_json:
  assumes "wf_claim c" "value_validate (value_bounds l) (cl_value c) = Inr ()" "wf_limits l"
  shows "claim_from_json l (claim_to_json c) = Inr c"
proof -
  have "value_from_json (value_to_json (cl_value c)) (value_bounds l) = Inr (cl_value c)"
    using assms by (intro value_round_trip_json(1)) (auto simp: wf_claim_def value_fits_def wf_limits_def)
  moreover have "subject_from_text (typed_text (cl_subject c)) = Inr (cl_subject c)"
    "aspect_parse (aspect_value (cl_aspect c)) = Inr (cl_aspect c)"
    using assms(1) by (simp_all add: wf_claim_def subject_from_typed_text wf_aspect_def)
  ultimately show ?thesis
    by (simp add: claim_from_json_def claim_to_json_def is_object_def json_find_def text_member_def optional_u64_def
        parse_u64_text_def read_u64_text record_collapse)
qed

lemma causal_from_to_json:
  assumes "wf_causal r" "length (cr_basis r) \<le> max_metadata_value_bytes l"
  shows "causal_from_json l (causal_to_json r) = Inr r"
  using assms
  by (simp add: causal_from_json_def causal_to_json_def is_object_def json_find_def text_member_def json_texts_def
      wf_causal_def digest_from_hex_to_hex causal_from_string_def causal_text_def causal_enum.of_name_name record_collapse)

lemma metadata_from_to_json: "metadata_entry_from_json (metadata_entry_to_json e) = Inr e"
  by (simp add: metadata_entry_from_json_def metadata_entry_to_json_def is_object_def json_find_def json_texts_def)

interpretation claim_form: json_form claim_to_json "claim_from_json l"
  "\<lambda>c. wf_claim c \<and> value_validate (value_bounds l) (cl_value c) = Inr () \<and> wf_limits l" for l
  by unfold_locales (simp add: claim_from_to_json)

interpretation causal_form: json_form causal_to_json "causal_from_json l"
  "\<lambda>r. wf_causal r \<and> length (cr_basis r) \<le> max_metadata_value_bytes l" for l
  by unfold_locales (simp add: causal_from_to_json)

interpretation metadata_form: json_form metadata_entry_to_json metadata_entry_from_json "\<lambda>_. True"
  by unfold_locales (simp add: metadata_from_to_json)

theorem observation_from_to_json:
  assumes "wf_limits l" "wf_observation l ob" "bases_fit l ob"
  shows "observation_from_json (observation_to_json ob) l = Inr ob"
proof -
  have wf: "list_all wf_claim (ob_claims ob)" "list_all wf_causal (ob_causal ob)" "canonicalize ob = ob"
    "metadata_make (ob_metadata ob) l = Inr (ob_metadata ob)" "observation_validate l ob = Inr ()"
    using assms(2) by (simp_all add: wf_observation_def)
  note ok = wf(5)[unfolded observation_validate_ok]
  have claims: "collect (claim_from_json l) (map claim_to_json (ob_claims ob)) = Inr (ob_claims ob)"
    using wf(1) ok assms(1) by (intro claim_form.collect_write) (auto simp: list_all_iff)
  have causal: "collect (causal_from_json l) (map causal_to_json (ob_causal ob)) = Inr (ob_causal ob)"
    using wf(2) assms(3) by (intro causal_form.collect_write) (auto simp: list_all_iff bases_fit_def)
  have metadata: "collect metadata_entry_from_json (map metadata_entry_to_json (ob_metadata ob)) = Inr (ob_metadata ob)"
    by (intro metadata_form.collect_write) (simp add: list_all_iff)
  have bounds: "\<not> length (ob_claims ob) > unat (max_claims_per_observation l)"
    "\<not> length (ob_causal ob) > unat (max_causal_refs l)" using ok by simp_all
  have collapse: "\<lparr>ob_schema = ob_schema ob, ob_fabric = ob_fabric ob, ob_source = ob_source ob,
      ob_incarnation = ob_incarnation ob, ob_sequence = ob_sequence ob, ob_generation = ob_generation ob,
      ob_epoch = ob_epoch ob, ob_observed_at = ob_observed_at ob, ob_claims = ob_claims ob,
      ob_causal = ob_causal ob, ob_metadata = ob_metadata ob\<rparr> = ob" by simp
  show ?thesis
    using bounds wf(3-5)
    by (simp add: collapse observation_from_json_def observation_to_json_def json_texts_def is_object_def json_find_def
        text_member_def parse_u64_text_def parse_i64_text_def optional_u64_def read_u64_text read_i64_text
        id_from_to_text array_member_def claims causal metadata Let_def)
qed

interpretation observation_form: json_form observation_to_json "\<lambda>j. observation_from_json j l"
  "\<lambda>ob. wf_limits l \<and> wf_observation l ob \<and> bases_fit l ob" for l
  by unfold_locales (simp add: observation_from_to_json)

theorem observation_json_text_round_trip:
  assumes "wf_limits l" "wf_observation l ob" "bases_fit l ob"
    and "json_fits jl 0 (observation_to_json ob)" "json_nodes (observation_to_json ob) \<le> jl_max_nodes jl"
    and "length (observation_to_json_text pretty ob) \<le> jl_max_input_bytes jl"
  shows "observation_from_json_text (observation_to_json_text pretty ob) jl l = Inr ob"
  using assms unfolding observation_from_json_text_def observation_to_json_text_def
  by (intro observation_form.text_round_trip conjI)

text \<open>Whatever is read is valid and canonical.\<close>

theorem observation_from_json_valid:
  assumes "observation_from_json j l = Inr ob"
  shows "observation_validate l ob = Inr () \<and> canonicalize ob = ob"
proof -
  obtain ob0 where "ob = canonicalize ob0" "observation_validate l ob = Inr ()"
    using assms by (auto simp: observation_from_json_def rbind_Inr_iff Let_def split: if_splits)
  then show ?thesis by (simp add: canonicalize_idem)
qed

end
