(* ===== verification/Fab_Json_Io.thy ===== *)
theory Fab_Json_Io
  imports Fab_Facade Fab_Observation_Json
begin

text \<open>
  \<^verbatim>\<open>json_io.cpp\<close>: the JSON form of everything the command line tool and the transport report,
  and the two requests they read, a query filter and a hierarchy query.
\<close>

section \<open>Scalars\<close>

definition u64_json :: "'a::len word \<Rightarrow> json" where
  "u64_json w = JText (num w)"

definition size_json :: "nat \<Rightarrow> json" where
  "size_json n = JText (nat_text n)"

definition i64_json :: "64 word \<Rightarrow> json" where
  "i64_json w = JText (int_text (sint w))"

definition time_json :: "time_point \<Rightarrow> json" where
  "time_json t = i64_json (tp_nanos t)"

definition utc_json :: "time_point \<Rightarrow> json" where
  "utc_json t = JText (format_utc t)"

definition strings_json :: "string list \<Rightarrow> json" where
  "strings_json ts = JArray (map JText ts)"

definition source_ids_json :: "source_id list \<Rightarrow> json" where
  "source_ids_json is = JArray (map (\<lambda>i. JText (id_to_text ''src'' i)) is)"

definition optional_json :: "('a \<Rightarrow> json) \<Rightarrow> 'a option \<Rightarrow> json" where
  "optional_json f x = (case x of Some v \<Rightarrow> f v | None \<Rightarrow> JNull)"

section \<open>Snapshots\<close>

definition claim_record_to_json :: "claim_record \<Rightarrow> json" where
  "claim_record_to_json c = JObject
     [(''source'', JText (id_to_text ''src'' (rc_source c))),
      (''incarnation'', JText (id_to_text ''inc'' (rc_incarnation c))),
      (''authority'', JText (authority_text (rc_authority c))), (''sequence'', u64_json (rc_sequence c)),
      (''revision'', u64_json (rc_revision c)), (''value'', value_to_json (rc_value c)),
      (''supported'', JBool (rc_supported c)), (''freshness'', JText (verdict_text (rc_freshness c))),
      (''observed_at'', time_json (rc_observed_at c)), (''observed_at_utc'', utc_json (rc_observed_at c)),
      (''received_at'', time_json (rc_received_at c)), (''received_at_utc'', utc_json (rc_received_at c)),
      (''recovered'', JBool (rc_recovered c)), (''recovery_epoch'', u64_json (rc_recovery_epoch c)),
      (''superseded_generation'', JBool (superseded_generation c)),
      (''superseded_epoch'', JBool (superseded_epoch c)),
      (''superseded_incarnation'', JBool (superseded_incarnation c)),
      (''superseded_by_later_sequence'', JBool (superseded_by_later_sequence c)),
      (''fenced'', JBool (rc_fenced c)), (''fence'', JText (status_code_text (rc_fence c))),
      (''observation_id'', JText (digest_to_hex (rc_observation_id c)))]"

definition coverage_to_json :: "coverage_report \<Rightarrow> json" where
  "coverage_to_json v = JObject
     [(''distinct_fresh_sources'', u64_json (distinct_fresh_sources v)),
      (''required_distinct_fresh_sources'', u64_json (required_distinct_fresh_sources v)),
      (''best_fresh_authority'', JText (authority_text (best_fresh_authority v))),
      (''required_authority'', JText (authority_text (cv_required_authority v))),
      (''satisfied'', JBool (cv_satisfied v))]"

definition conflict_to_json :: "conflict_group \<Rightarrow> json" where
  "conflict_to_json g = JObject
     [(''value'', value_to_json (cg_value g)), (''sources'', source_ids_json (cg_sources g)),
      (''fresh_sources'', u64_json (cg_fresh_sources g))]"

definition aspect_state_to_json :: "bool \<Rightarrow> aspect_state \<Rightarrow> json" where
  "aspect_state_to_json include_claims a = JObject
     ([(''aspect'', JText (aspect_value (as_aspect a))), (''domain'', JText (domain_text (as_domain a))),
       (''truth'', JText (truth_text (as_truth a))),
       (''agreed_value'', optional_json value_to_json (as_agreed_value a)),
       (''coverage'', coverage_to_json (as_coverage a)),
       (''conflicts'', JArray (map conflict_to_json (as_conflicts a))),
       (''claims_truncated'', JBool (as_claims_truncated a))] @
      (if include_claims then [(''claims'', JArray (map claim_record_to_json (as_claims a)))] else []))"

definition entity_id_json :: "entity_id \<Rightarrow> json" where
  "entity_id_json i = JText (entity_id_to_text i)"

definition subject_state_to_json :: "bool \<Rightarrow> subject_state \<Rightarrow> json" where
  "subject_state_to_json include_claims t = JObject
     [(''subject'', JText (typed_text (sb_identity t))),
      (''kind'', JText (entity_kind_text (su_kind (sb_identity t)))),
      (''id'', entity_id_json (su_id (sb_identity t))), (''parent'', optional_json entity_id_json (sb_parent t)),
      (''topology_truth'', JText (truth_text (sb_topology_truth t))),
      (''worst_truth'', JText (truth_text (sb_worst_truth t))),
      (''aspects'', JArray (map (aspect_state_to_json include_claims) (sb_aspects t)))]"

definition source_summary_to_json :: "source_summary \<Rightarrow> json" where
  "source_summary_to_json s = JObject
     [(''source'', JText (id_to_text ''src'' (ss_id s))), (''name'', JText (ss_name s)),
      (''authority_name'', JText (ss_authority_name s)),
      (''max_authority'', JText (authority_text (ss_max_authority s))),
      (''incarnation'', JText (id_to_text ''inc'' (si_id (ss_incarnation s)))),
      (''incarnation_boot_time'', time_json (si_boot_time (ss_incarnation s))),
      (''incarnation_boot_counter'', u64_json (si_boot_counter (ss_incarnation s))),
      (''last_sequence'', u64_json (ss_last_sequence s)), (''first_receive'', time_json (ss_first_receive s)),
      (''last_receive'', time_json (ss_last_receive s)), (''last_observation'', time_json (ss_last_observation s)),
      (''last_generation'', u64_json (ss_last_generation s)), (''last_epoch'', u64_json (ss_last_epoch s)),
      (''accepted'', u64_json (ss_accepted s)), (''retained_records'', u64_json (ss_retained_records s)),
      (''freshness'', JText (verdict_text (ss_freshness s))), (''recovered'', JBool (ss_recovered s))]"

text \<open>An object with one counter for each name of an enumeration.\<close>

definition counters_json :: "('e \<times> string) list \<Rightarrow> nat list \<Rightarrow> json" where
  "counters_json names counts = JObject (map (\<lambda>(e, n). (snd e, size_json n)) (zip names counts))"

definition snapshot_stats_to_json :: "snapshot_stats \<Rightarrow> json" where
  "snapshot_stats_to_json n = JObject
     [(''subjects'', size_json (n_subjects n)), (''aspects'', size_json (n_aspects n)),
      (''claims'', size_json (n_claims n)), (''conflicts'', size_json (n_conflicts n)),
      (''sources'', size_json (n_sources n)), (''rejected_observations'', size_json (n_rejected_observations n)),
      (''fenced_claims'', size_json (n_fenced_claims n)), (''superseded_claims'', size_json (n_superseded_claims n)),
      (''recovered_claims'', size_json (n_recovered_claims n)),
      (''unsupported_claims'', size_json (n_unsupported_claims n)),
      (''subjects_by_kind'', counters_json entity_kind_names (subjects_by_kind n)),
      (''aspects_by_truth'', counters_json truth_names (aspects_by_truth n))]"

definition rejection_to_json :: "rejected_observation \<Rightarrow> json" where
  "rejection_to_json r = JObject
     [(''observation_id'', JText (digest_to_hex (rj_observation_id r))),
      (''source'', JText (id_to_text ''src'' (rj_source r))),
      (''incarnation'', JText (id_to_text ''inc'' (rj_incarnation r))),
      (''sequence'', u64_json (rj_sequence r)), (''generation'', u64_json (rj_generation r)),
      (''epoch'', u64_json (rj_epoch r)), (''received_at'', time_json (rj_received_at r)),
      (''fence'', JText (status_code_text (rj_fence r))), (''explanation'', JText (rj_explanation r))]"

definition fenced_claim_to_json :: "fenced_claim \<Rightarrow> json" where
  "fenced_claim_to_json f = JObject
     [(''observation_id'', JText (digest_to_hex (fc_observation_id f))),
      (''subject'', JText (typed_text (fc_subject f))), (''aspect'', JText (aspect_value (fc_aspect f))),
      (''source'', JText (id_to_text ''src'' (fc_source f))), (''sequence'', u64_json (fc_sequence f)),
      (''received_at'', time_json (fc_received_at f)), (''fence'', JText (status_code_text (fc_fence f))),
      (''explanation'', JText (fc_explanation f))]"

definition snapshot_to_json :: "bool \<Rightarrow> snapshot \<Rightarrow> json" where
  "snapshot_to_json include_claims s = JObject
     [(''id'', JText (snapshot_id_to_text (sn_id s))), (''digest'', JText (digest_to_hex (sn_id s))),
      (''fabric'', JText (id_to_text ''fab'' (sn_fabric s))), (''generation'', u64_json (sn_generation s)),
      (''epoch'', u64_json (sn_epoch s)), (''evaluation_time'', time_json (sn_evaluation_time s)),
      (''evaluation_time_utc'', utc_json (sn_evaluation_time s)),
      (''observed_high_water'', time_json (sn_observed_high_water s)),
      (''received_high_water'', time_json (sn_received_high_water s)),
      (''received_low_water'', time_json (sn_received_low_water s)), (''policy_name'', JText (sn_policy_name s)),
      (''policy_digest'', JText (digest_to_hex (sn_policy_digest s))),
      (''restart_epoch'', u64_json (sn_restart_epoch s)), (''restart_count'', u64_json (sn_restart_count s)),
      (''history_index'', u64_json (sn_history_index s)), (''published_at'', time_json (sn_published_at s)),
      (''evidence_records'', size_json (sn_evidence_records s)),
      (''evidence_truncated'', JBool (sn_evidence_truncated s)),
      (''rejected_truncated'', JBool (sn_rejected_truncated s)),
      (''stats'', snapshot_stats_to_json (sn_stats s)),
      (''sources'', JArray (map source_summary_to_json (sn_sources s))),
      (''subjects'', JArray (map (subject_state_to_json include_claims) (sn_subjects s))),
      (''rejected'', JArray (map rejection_to_json (sn_rejected s))),
      (''fenced_claims'', JArray (map fenced_claim_to_json (sn_fenced_claims s)))]"

section \<open>Results\<close>

definition query_result_to_json :: "query_result \<Rightarrow> json" where
  "query_result_to_json r = JObject
     [(''snapshot'', JText (snapshot_id_to_text (qr_snapshot r))), (''generation'', u64_json (qr_generation r)),
      (''epoch'', u64_json (qr_epoch r)), (''scanned_subjects'', u64_json (qr_scanned r)),
      (''matched_subjects'', u64_json (qr_matched_subjects r)), (''matched_aspects'', u64_json (qr_matched_aspects r)),
      (''truncated'', JBool (qr_truncated r)), (''digest'', JText (digest_to_hex (qr_digest r))),
      (''subjects'', JArray (map (subject_state_to_json True) (qr_subjects r)))]"

definition hierarchy_node_to_json :: "hierarchy_node \<Rightarrow> json" where
  "hierarchy_node_to_json n = JObject
     [(''subject'', JText (typed_text (hn_identity n))),
      (''kind'', JText (entity_kind_text (su_kind (hn_identity n)))),
      (''id'', entity_id_json (su_id (hn_identity n))), (''parent'', optional_json entity_id_json (hn_parent n)),
      (''depth'', u64_json (hn_depth n)), (''topology_truth'', JText (truth_text (hn_topology_truth n))),
      (''parent_absent'', JBool (hn_parent_absent n))]"

definition hierarchy_result_to_json :: "hierarchy_result \<Rightarrow> json" where
  "hierarchy_result_to_json r = JObject
     [(''snapshot'', JText (snapshot_id_to_text (hr_snapshot r))),
      (''max_depth_reached'', u64_json (hr_max_depth_reached r)), (''cycles_detected'', u64_json (hr_cycles_detected r)),
      (''depth_limited'', u64_json (hr_depth_limited r)),
      (''children_of_absent_parents'', u64_json (hr_children_of_absent_parents r)),
      (''truncated'', JBool (hr_truncated r)), (''digest'', JText (digest_to_hex (hr_digest r))),
      (''nodes'', JArray (map hierarchy_node_to_json (hr_nodes r))),
      (''unattached'', JArray (map entity_id_json (hr_unattached r)))]"

definition aspect_change_to_json :: "aspect_change \<Rightarrow> json" where
  "aspect_change_to_json c = JObject
     [(''subject'', JText (typed_text (ac_subject c))), (''aspect'', JText (aspect_value (ac_aspect c))),
      (''domain'', JText (domain_text (ac_domain c))), (''before'', JText (truth_text (ac_before c))),
      (''after'', JText (truth_text (ac_after c))),
      (''value_before'', optional_json value_to_json (ac_value_before c)),
      (''value_after'', optional_json value_to_json (ac_value_after c)),
      (''sources_added'', source_ids_json (ac_sources_added c)),
      (''sources_removed'', source_ids_json (ac_sources_removed c)),
      (''freshness_changed'', JBool (ac_freshness_changed c))]"

definition source_delta_to_json :: "source_delta \<Rightarrow> json" where
  "source_delta_to_json d = JObject
     [(''source'', JText (id_to_text ''src'' (dl_id d))), (''added'', JBool (dl_added d)),
      (''removed'', JBool (dl_removed d)), (''incarnation_changed'', JBool (dl_incarnation_changed d)),
      (''before_incarnation'', JText (id_to_text ''inc'' (dl_before_incarnation d))),
      (''after_incarnation'', JText (id_to_text ''inc'' (dl_after_incarnation d))),
      (''before_freshness'', JText (verdict_text (dl_before_freshness d))),
      (''after_freshness'', JText (verdict_text (dl_after_freshness d)))]"

definition diff_to_json :: "snapshot_diff \<Rightarrow> json" where
  "diff_to_json d = JObject
     [(''before'', JText (snapshot_id_to_text (df_before_id d))), (''after'', JText (snapshot_id_to_text (df_after_id d))),
      (''before_generation'', u64_json (df_before_generation d)),
      (''after_generation'', u64_json (df_after_generation d)), (''before_epoch'', u64_json (df_before_epoch d)),
      (''after_epoch'', u64_json (df_after_epoch d)), (''generation_changed'', JBool (df_generation_changed d)),
      (''epoch_changed'', JBool (df_epoch_changed d)), (''restart_observed'', JBool (df_restart_observed d)),
      (''restarts_between'', u64_json (df_restarts_between d)), (''truncated'', JBool (df_truncated d)),
      (''digest'', JText (digest_to_hex (df_digest d))),
      (''subjects_added'', JArray (map (\<lambda>i. JText (typed_text i)) (df_subjects_added d))),
      (''subjects_removed'', JArray (map (\<lambda>i. JText (typed_text i)) (df_subjects_removed d))),
      (''changes'', JArray (map aspect_change_to_json (df_changes d))),
      (''source_changes'', JArray (map source_delta_to_json (df_source_changes d)))]"

definition history_entry_to_json :: "history_entry \<Rightarrow> json" where
  "history_entry_to_json e = JObject
     [(''index'', u64_json (he_index e)), (''id'', JText (snapshot_id_to_text (he_id e))),
      (''published_at'', time_json (he_published_at e)), (''published_at_utc'', utc_json (he_published_at e)),
      (''generation'', u64_json (he_generation e)), (''epoch'', u64_json (he_epoch e)),
      (''evaluation_time'', time_json (he_evaluation_time e)), (''stats'', snapshot_stats_to_json (he_stats e))]"

definition explanation_to_json :: "explanation \<Rightarrow> json" where
  "explanation_to_json e = JObject
     [(''snapshot'', JText (snapshot_id_to_text (ex_snapshot e))), (''subject'', JText (typed_text (ex_subject e))),
      (''aspect'', optional_json (\<lambda>i. JText (aspect_value i)) (ex_aspect e)),
      (''truth'', JText (truth_text (ex_truth e))), (''reasons'', strings_json (ex_reasons e)),
      (''evidence'', strings_json (ex_evidence e)), (''fences'', strings_json (ex_fences e)),
      (''causality'', strings_json (ex_causality e))]"

definition ingest_outcome_to_json :: "ingest_outcome \<Rightarrow> json" where
  "ingest_outcome_to_json g = JObject
     [(''disposition'', JText (disposition_text (ig_disposition g))), (''code'', JText (status_code_text (ig_code g))),
      (''explanation'', JText (ig_explanation g)),
      (''observation_id'', JText (digest_to_hex (ig_observation_id g))),
      (''snapshot'', JText (snapshot_id_to_text (ig_snapshot g))),
      (''claims_accepted'', u64_json (ig_claims_accepted g)), (''claims_fenced'', u64_json (ig_claims_fenced g))]"

definition diagnostic_to_json :: "recovery_diagnostic \<Rightarrow> json" where
  "diagnostic_to_json d = JObject
     [(''offset'', size_json (rd_offset d)), (''code'', JText (rd_code d)), (''detail'', JText (rd_detail d))]"

definition recovery_report_to_json :: "recovery_report \<Rightarrow> json" where
  "recovery_report_to_json r = JObject
     [(''opened'', JBool (rr_opened r)), (''created'', JBool (rr_created r)),
      (''format_version'', u64_json (rr_format_version r)), (''format_supported'', JBool (rr_format_supported r)),
      (''file_bytes'', size_json (rr_file_bytes r)), (''records_read'', size_json (rr_records_read r)),
      (''records_accepted'', size_json (rr_records_accepted r)),
      (''records_rejected'', size_json (rr_records_rejected r)),
      (''truncated_tail_bytes'', size_json (rr_truncated_tail_bytes r)),
      (''parts_recovered'', size_json (rr_parts_recovered r)),
      (''restart_markers'', size_json (rr_restart_markers r)),
      (''snapshot_markers'', size_json (rr_snapshot_markers r)), (''chain_verified'', JBool (rr_chain_verified r)),
      (''corrupt'', JBool (rr_corrupt r)), (''truncated'', JBool (rr_truncated r)),
      (''diagnostics'', JArray (map diagnostic_to_json (rr_diagnostics r)))]"

definition observatory_stats_to_json :: "observatory_stats \<Rightarrow> json" where
  "observatory_stats_to_json n = JObject
     [(''observations_accepted'', u64_json (os_observations_accepted n)),
      (''observations_duplicate'', u64_json (os_observations_duplicate n)),
      (''observations_fenced'', u64_json (os_observations_fenced n)),
      (''observations_rejected'', u64_json (os_observations_rejected n)),
      (''claims_fenced'', u64_json (os_claims_fenced n)), (''evidence_evicted'', u64_json (os_evidence_evicted n)),
      (''snapshots_published'', u64_json (os_snapshots_published n)),
      (''publications_skipped_unchanged'', u64_json (os_publications_skipped_unchanged n)),
      (''journal_records'', u64_json (os_journal_records n)), (''journal_rotations'', u64_json (os_journal_rotations n)),
      (''sources'', u64_json (os_sources n)), (''evidence_records'', u64_json (os_evidence_records n)),
      (''restart_count'', u64_json (os_restart_count n)), (''published'', JBool (os_published n)),
      (''dirty'', JBool (os_dirty n))]"

section \<open>Requests\<close>

text \<open>
  A count in a request: decimal text, or a number that is not negative and at most two to the 53,
  whose fraction is cut off. The bits of a double that is not negative are ordered as the doubles
  are; a NaN, which the parser never yields, counts as too large.
\<close>

definition read_u64_member :: "string \<Rightarrow> json \<Rightarrow> 64 word result" where
  "read_u64_member member j =
     (case json_find member j of
        None \<Rightarrow> err SC_InvalidArgument (member @ '' is required'')
      | Some (JText t) \<Rightarrow> (case read_u64 t of Some w \<Rightarrow> Inr w
          | None \<Rightarrow> err SC_MalformedInput (member @ '' must be a decimal string''))
      | Some (JNumber x) \<Rightarrow>
          (let b = unat (take_bit 63 x)
           in if bit x 63 \<and> b \<noteq> 0 \<or> b > 0x4340000000000000
              then err SC_OutOfRange (member @ '' is outside the exactly representable range'')
              else Inr (of_nat (units b div 2 ^ unit_exponent)))
      | Some _ \<Rightarrow> err SC_MalformedInput (member @ '' must be a decimal string''))"

definition text_option ::
  "string \<Rightarrow> bool \<Rightarrow> string \<Rightarrow> (string \<Rightarrow> 'a result) \<Rightarrow> json \<Rightarrow> 'a option result" where
  "text_option member null_allowed message parse j =
     (case json_find member j of
        None \<Rightarrow> Inr None
      | Some (JText t) \<Rightarrow> rbind (parse t) (\<lambda>x. Inr (Some x))
      | Some x \<Rightarrow> if null_allowed \<and> x = JNull then Inr None else err SC_InvalidArgument message)"

definition bool_member :: "string \<Rightarrow> bool \<Rightarrow> string \<Rightarrow> json \<Rightarrow> bool result" where
  "bool_member member otherwise message j =
     (case json_find member j of None \<Rightarrow> Inr otherwise | Some (JBool b) \<Rightarrow> Inr b | _ \<Rightarrow> err SC_InvalidArgument message)"

definition name_list ::
  "string \<Rightarrow> string \<Rightarrow> string \<Rightarrow> string \<Rightarrow> (string \<Rightarrow> ('a::linorder) option) \<Rightarrow> json \<Rightarrow> 'a list result" where
  "name_list member array_message text_message unknown_message from_string j =
     (case json_find member j of
        None \<Rightarrow> Inr []
      | Some (JArray items) \<Rightarrow> rbind (collect (\<lambda>item. case item of
            JText t \<Rightarrow> (case from_string t of Some x \<Rightarrow> Inr x | None \<Rightarrow> err SC_Unsupported unknown_message)
          | _ \<Rightarrow> err SC_InvalidArgument text_message) items) (\<lambda>xs. Inr (sort xs))
      | Some _ \<Rightarrow> err SC_InvalidArgument array_message)"

definition bounded_u32 :: "string \<Rightarrow> json \<Rightarrow> 32 word result" where
  "bounded_u32 member j =
     (if json_find member j = None then Inr 0
      else rbind (read_u64_member member j) (\<lambda>w.
        if w > 0xFFFFFFFF then err SC_OutOfRange (member @ '' is out of range'') else Inr (ucast w)))"

definition clamped_u32 :: "string \<Rightarrow> json \<Rightarrow> 32 word result" where
  "clamped_u32 member j =
     (if json_find member j = None then Inr 0
      else rbind (read_u64_member member j) (\<lambda>w. Inr (if w > 0xFFFFFFFF then 0xFFFFFFFF else ucast w)))"

definition default_query_filter :: query_filter where
  "default_query_filter = \<lparr>qf_kind = None, qf_domains = [], qf_truths = [], qf_aspect = None,
     qf_subtree_root = None, qf_max_depth = 0, qf_limit = 0, qf_include_claims = True,
     qf_include_conflicts = True\<rparr>"

definition query_filter_from_json :: "json \<Rightarrow> query_filter result" where
  "query_filter_from_json j =
     (if j = JNull then Inr default_query_filter
      else if \<not> is_object j then err SC_InvalidArgument ''filter must be a JSON object''
      else rbind (text_option ''kind'' False ''filter kind must be text'' entity_kind_from_string j) (\<lambda>kind.
      rbind (name_list ''domains'' ''filter domains must be an array'' ''domain names must be text''
        ''unknown domain in filter'' domain_from_string j) (\<lambda>domains.
      rbind (name_list ''truths'' ''filter truths must be an array'' ''truth names must be text''
        ''unknown truth state in filter'' truth_from_string j) (\<lambda>truths.
      rbind (text_option ''aspect'' True ''filter aspect must be text'' aspect_parse j) (\<lambda>aspect.
      rbind (text_option ''subtree_root'' True ''subtree_root must be text'' entity_id_from_text j) (\<lambda>root.
      rbind (bounded_u32 ''max_depth'' j) (\<lambda>depth.
      rbind (bounded_u32 ''limit'' j) (\<lambda>lim.
      rbind (bool_member ''include_claims'' True ''include_claims must be a boolean'' j) (\<lambda>claims.
      rbind (bool_member ''include_conflicts'' True ''include_conflicts must be a boolean'' j) (\<lambda>conflicts.
      Inr \<lparr>qf_kind = kind, qf_domains = domains, qf_truths = truths, qf_aspect = aspect, qf_subtree_root = root,
        qf_max_depth = depth, qf_limit = lim, qf_include_claims = claims, qf_include_conflicts = conflicts\<rparr>))))))))))"

definition default_hierarchy_query :: hierarchy_query where
  "default_hierarchy_query = \<lparr>hq_root_kind = None, hq_root = None, hq_max_depth = 0, hq_limit = 0,
     hq_include_unattached = True\<rparr>"

definition hierarchy_query_from_json :: "json \<Rightarrow> hierarchy_query result" where
  "hierarchy_query_from_json j =
     (if j = JNull then Inr default_hierarchy_query
      else if \<not> is_object j then err SC_InvalidArgument ''hierarchy query must be an object''
      else rbind (text_option ''root_kind'' True ''root_kind must be text'' entity_kind_from_string j) (\<lambda>kind.
      rbind (text_option ''root'' True ''root must be text'' entity_id_from_text j) (\<lambda>root.
      rbind (clamped_u32 ''max_depth'' j) (\<lambda>depth.
      rbind (clamped_u32 ''limit'' j) (\<lambda>lim.
      rbind (bool_member ''include_unattached'' True ''include_unattached must be a boolean'' j) (\<lambda>unattached.
      Inr \<lparr>hq_root_kind = kind, hq_root = root, hq_max_depth = depth, hq_limit = lim,
        hq_include_unattached = unattached\<rparr>))))))"

text \<open>Only used by clients of the library.\<close>

definition optional_aspect_from_json :: "json \<Rightarrow> string \<Rightarrow> aspect_id result" where
  "optional_aspect_from_json j member =
     (case json_find member j of
        None \<Rightarrow> err SC_NotFound ''aspect member is absent''
      | Some JNull \<Rightarrow> err SC_NotFound ''aspect member is absent''
      | Some (JText t) \<Rightarrow> aspect_parse t
      | Some _ \<Rightarrow> err SC_InvalidArgument ''aspect must be text'')"

end
