(* ===== verification/Fab_Locks.thy ===== *)
theory Fab_Locks
  imports Fab_Status
begin

text \<open>
  \<^verbatim>\<open>lock_audit.cpp\<close> and the lock discipline it watches. The auditor is a stack of levels per
  thread and four shared counters; a violation aborts the process, which is \<open>None\<close> here. Every
  critical section of \<^verbatim>\<open>ingest.cpp\<close> and \<^verbatim>\<open>observatory.cpp\<close> is a script of lock and guard
  events. The auditor accepts all of them, and threads that run any sequence of them can never
  block each other for ever.
\<close>

section \<open>The auditor\<close>

datatype lock_level = LL_Queue | LL_State | LL_Persistence

fun level_number :: "lock_level \<Rightarrow> nat" where
  "level_number LL_Queue = 0"
| "level_number LL_State = 1"
| "level_number LL_Persistence = 2"

fun lock_level_text :: "lock_level \<Rightarrow> string" where
  "lock_level_text LL_Queue = ''queue''"
| "lock_level_text LL_State = ''state''"
| "lock_level_text LL_Persistence = ''persistence''"

definition max_audited_depth :: nat where
  "max_audited_depth = 8"

record audit =
  au_acquisitions :: "64 word"
  au_reentrancy :: "64 word"
  au_order :: "64 word"
  au_max_depth :: "32 word"

definition audit_reset :: audit where
  "audit_reset = \<lparr>au_acquisitions = 0, au_reentrancy = 0, au_order = 0, au_max_depth = 0\<rparr>"

text \<open>
  The loop over the levels held: the counters it leaves and whether it went through. The first
  violation aborts.
\<close>

fun audit_held :: "lock_level \<Rightarrow> lock_level list \<Rightarrow> audit \<Rightarrow> audit \<times> bool" where
  "audit_held level [] g = (g, True)"
| "audit_held level (h # held) g =
     (if h = level then (g\<lparr>au_reentrancy := au_reentrancy g + 1\<rparr>, False)
      else if level_number h \<ge> level_number level then (g\<lparr>au_order := au_order g + 1\<rparr>, False)
      else audit_held level held g)"

definition guard_enter :: "lock_level \<Rightarrow> lock_level list \<Rightarrow> audit \<Rightarrow> (lock_level list \<times> audit) option" where
  "guard_enter level held g =
     (let (g, fine) = audit_held level held (g\<lparr>au_acquisitions := au_acquisitions g + 1\<rparr>)
      in if \<not> fine then None
      else if length held \<ge> max_audited_depth then None
      else let depth = of_nat (length held + 1)
        in Some (held @ [level], g\<lparr>au_max_depth := max (au_max_depth g) depth\<rparr>))"

definition guard_leave :: "lock_level list \<Rightarrow> lock_level list option" where
  "guard_leave held = (if held = [] then None else Some (butlast held))"

record lock_audit_report =
  la_acquisitions :: "64 word"
  la_reentrancy_violations :: "64 word"
  la_order_violations :: "64 word"
  la_max_depth :: "32 word"
  la_clean :: bool

definition lock_audit_report_of :: "audit \<Rightarrow> lock_audit_report" where
  "lock_audit_report_of g = \<lparr>la_acquisitions = au_acquisitions g, la_reentrancy_violations = au_reentrancy g,
     la_order_violations = au_order g, la_max_depth = au_max_depth g,
     la_clean = (au_reentrancy g = 0 \<and> au_order g = 0)\<rparr>"

definition lock_audit_text :: "lock_audit_report \<Rightarrow> string" where
  "lock_audit_text r =
     ''lock_audit acquisitions='' @ nat_text (unat (la_acquisitions r)) @
     '' max_depth='' @ nat_text (unat (la_max_depth r)) @
     '' reentrancy_violations='' @ nat_text (unat (la_reentrancy_violations r)) @
     '' order_violations='' @ nat_text (unat (la_order_violations r)) @
     (if la_clean r then '' clean=yes'' else '' clean=no'')"

section \<open>Critical sections\<close>

datatype lock_id = ShardLock nat | CountersLock | StateLock

datatype lock_mode = Exclusive | Shared

datatype lock_event = Acquire lock_id lock_mode | Release lock_id | Enter lock_level | Leave

text \<open>
  One constructor for each critical section of the sources. A section of the observatory carries
  the number of journal writes made in it; the worker's \<open>dropped\<close> says whether there was
  something to discard.
\<close>

datatype critical_section =
    SubmitRefused nat
  | SubmitFull nat
  | SubmitQueued nat
  | WorkerTake nat
  | WorkerDiscard nat bool
  | WorkerCount
  | StopShard nat
  | PeakShard nat
  | PeakCounters
  | StatsCounters
  | StatsShard nat
  | StateExclusive nat
  | StateShared

definition counters_section :: "lock_event list" where
  "counters_section = [Acquire CountersLock Exclusive, Release CountersLock]"

definition shard_section :: "nat \<Rightarrow> lock_event list \<Rightarrow> lock_event list" where
  "shard_section i body = [Acquire (ShardLock i) Exclusive, Enter LL_Queue] @ body @ [Leave, Release (ShardLock i)]"

fun journal_guards :: "nat \<Rightarrow> lock_event list" where
  "journal_guards 0 = []"
| "journal_guards (Suc n) = Enter LL_Persistence # Leave # journal_guards n"

fun script :: "critical_section \<Rightarrow> lock_event list" where
  "script (SubmitRefused i) = shard_section i []"
| "script (SubmitFull i) = shard_section i counters_section"
| "script (SubmitQueued i) = shard_section i [] @ counters_section"
| "script (WorkerTake i) = shard_section i []"
| "script (WorkerDiscard i dropped) = shard_section i (if dropped then counters_section else [])"
| "script WorkerCount = counters_section"
| "script (StopShard i) = shard_section i []"
| "script (PeakShard i) = [Acquire (ShardLock i) Exclusive, Release (ShardLock i)]"
| "script PeakCounters = counters_section"
| "script StatsCounters = counters_section"
| "script (StatsShard i) = shard_section i []"
| "script (StateExclusive writes) =
     [Acquire StateLock Exclusive, Enter LL_State] @ journal_guards writes @ [Leave, Release StateLock]"
| "script StateShared = [Acquire StateLock Shared, Enter LL_State, Leave, Release StateLock]"

text \<open>The auditor along a script.\<close>

fun audit_run :: "lock_event list \<Rightarrow> lock_level list \<Rightarrow> audit \<Rightarrow> (lock_level list \<times> audit) option" where
  "audit_run [] held g = Some (held, g)"
| "audit_run (Enter level # es) held g =
     (case guard_enter level held g of None \<Rightarrow> None | Some (held, g) \<Rightarrow> audit_run es held g)"
| "audit_run (Leave # es) held g =
     (case guard_leave held of None \<Rightarrow> None | Some held \<Rightarrow> audit_run es held g)"
| "audit_run (_ # es) held g = audit_run es held g"

section \<open>Threads\<close>

text \<open>The locks a thread holds, the newest last, and what it still does.\<close>

record lock_thread =
  lt_held :: "(lock_id \<times> lock_mode) list"
  lt_rest :: "lock_event list"

definition free_for :: "lock_thread list \<Rightarrow> lock_id \<Rightarrow> lock_mode \<Rightarrow> bool" where
  "free_for ts l m \<longleftrightarrow> list_all (\<lambda>t. list_all (\<lambda>(k, n). k = l \<longrightarrow> m = Shared \<and> n = Shared) (lt_held t)) ts"

fun thread_moves :: "lock_thread list \<Rightarrow> lock_thread \<Rightarrow> lock_thread option" where
  "thread_moves ts t =
     (case lt_rest t of
        [] \<Rightarrow> None
      | Acquire l m # es \<Rightarrow> if free_for ts l m then Some (t\<lparr>lt_held := lt_held t @ [(l, m)], lt_rest := es\<rparr>) else None
      | Release l # es \<Rightarrow> Some (t\<lparr>lt_held := filter (\<lambda>h. fst h \<noteq> l) (lt_held t), lt_rest := es\<rparr>)
      | _ # es \<Rightarrow> Some (t\<lparr>lt_rest := es\<rparr>))"

inductive threads_step :: "lock_thread list \<Rightarrow> lock_thread list \<Rightarrow> bool" where
  step: "i < length ts \<Longrightarrow> thread_moves ts (ts ! i) = Some t \<Longrightarrow> threads_step ts (ts[i := t])"

definition all_started :: "critical_section list list \<Rightarrow> lock_thread list" where
  "all_started programs = map (\<lambda>p. \<lparr>lt_held = [], lt_rest = concat (map script p)\<rparr>) programs"

section \<open>The auditor accepts every critical section\<close>

lemma audit_held_counts: "audit_held level held g = (g', True) \<Longrightarrow> g' = g"
  by (induction held) (auto split: if_splits)

text \<open>A process that is still running has no violation on record.\<close>

lemma guard_enter_clean:
  assumes "guard_enter level held g = Some (held', g')"
  shows "au_reentrancy g' = au_reentrancy g \<and> au_order g' = au_order g"
  using assms audit_held_counts
  by (fastforce simp: guard_enter_def Let_def split: prod.splits if_splits)

lemma audit_run_clean:
  "audit_run es held g = Some (held', g') \<Longrightarrow> au_reentrancy g' = au_reentrancy g \<and> au_order g' = au_order g"
  by (induction es held g rule: audit_run.induct)
    (auto split: option.splits dest!: guard_enter_clean)

lemma audit_run_append:
  "audit_run (es @ fs) held g =
    (case audit_run es held g of None \<Rightarrow> None | Some (held, g) \<Rightarrow> audit_run fs held g)"
  by (induction es held g rule: audit_run.induct) (auto split: option.splits)

lemma enter_empty:
  "guard_enter l [] g = Some ([l], g\<lparr>au_acquisitions := au_acquisitions g + 1, au_max_depth := max (au_max_depth g) 1\<rparr>)"
  by (simp add: guard_enter_def max_audited_depth_def Let_def)

lemma enter_persistence:
  "guard_enter LL_Persistence [LL_State] g =
    Some ([LL_State, LL_Persistence],
      g\<lparr>au_acquisitions := au_acquisitions g + 1, au_max_depth := max (au_max_depth g) 2\<rparr>)"
  by (simp add: guard_enter_def max_audited_depth_def Let_def)

lemma audit_journal_guards:
  assumes "au_max_depth g \<le> 2"
  shows "\<exists>g'. audit_run (journal_guards n) [LL_State] g = Some ([LL_State], g') \<and> au_max_depth g' \<le> 2"
  using assms by (induction n arbitrary: g) (simp_all add: enter_persistence guard_leave_def)

lemma audit_script:
  assumes "au_max_depth g \<le> 2"
  shows "\<exists>g'. audit_run (script c) [] g = Some ([], g') \<and> au_max_depth g' \<le> 2"
proof -
  have one: "max (au_max_depth g) 1 \<le> 2" using assms by simp
  have body: "audit_run counters_section held g = Some (held, g)" for held g by (simp add: counters_section_def)
  show ?thesis
  proof (cases c)
    case (StateExclusive n)
    let ?g = "g\<lparr>au_acquisitions := au_acquisitions g + 1, au_max_depth := max (au_max_depth g) 1\<rparr>"
    obtain g' where "audit_run (journal_guards n) [LL_State] ?g = Some ([LL_State], g')" "au_max_depth g' \<le> 2"
      using audit_journal_guards[of ?g n] one by auto
    then show ?thesis by (simp add: StateExclusive enter_empty audit_run_append guard_leave_def)
  qed (use assms one body in \<open>simp_all add: shard_section_def audit_run_append enter_empty guard_leave_def counters_section_def\<close>)
qed

theorem audit_accepts_programs:
  assumes "au_max_depth g \<le> 2"
  shows "\<exists>g'. audit_run (concat (map script p)) [] g = Some ([], g') \<and> au_max_depth g' \<le> 2"
  using assms
proof (induction p arbitrary: g)
  case (Cons c p)
  obtain g' where "audit_run (script c) [] g = Some ([], g')" "au_max_depth g' \<le> 2"
    using audit_script[OF Cons.prems] by blast
  then show ?case using Cons.IH[of g'] by (simp add: audit_run_append)
qed simp

section \<open>No deadlock\<close>

fun lock_rank :: "lock_id \<Rightarrow> nat" where
  "lock_rank (ShardLock i) = 0"
| "lock_rank CountersLock = 1"
| "lock_rank StateLock = 2"

fun disciplined :: "(lock_id \<times> lock_mode) list \<Rightarrow> lock_event list \<Rightarrow> bool" where
  "disciplined held [] \<longleftrightarrow> held = []"
| "disciplined held (Acquire l m # es) \<longleftrightarrow>
     list_all (\<lambda>h. lock_rank (fst h) < lock_rank l) held \<and> disciplined (held @ [(l, m)]) es"
| "disciplined held (Release l # es) \<longleftrightarrow> disciplined (filter (\<lambda>h. fst h \<noteq> l) held) es"
| "disciplined held (_ # es) \<longleftrightarrow> disciplined held es"

lemma disciplined_guards: "disciplined held (journal_guards n @ es) \<longleftrightarrow> disciplined held es"
  by (induction n) simp_all

lemma disciplined_script: "disciplined [] (script c @ es) \<longleftrightarrow> disciplined [] es"
  by (cases c) (simp_all add: shard_section_def counters_section_def disciplined_guards)

lemma disciplined_program: "disciplined [] (concat (map script p))"
  by (induction p) (simp_all add: disciplined_script)

definition well_locked :: "lock_thread list \<Rightarrow> bool" where
  "well_locked ts \<longleftrightarrow> (\<forall>t\<in>set ts. disciplined (lt_held t) (lt_rest t))"

lemma started_well_locked: "well_locked (all_started programs)"
  by (auto simp: well_locked_def all_started_def disciplined_program)

lemma moves_disciplined:
  assumes "disciplined (lt_held t) (lt_rest t)" "thread_moves ts t = Some t'"
  shows "disciplined (lt_held t') (lt_rest t')"
proof (cases "lt_rest t")
  case (Cons e es)
  then show ?thesis using assms by (cases e) (auto split: if_splits)
qed (use assms in simp)

lemma step_well_locked: "threads_step ts ts' \<Longrightarrow> well_locked ts \<Longrightarrow> well_locked ts'"
proof (induction rule: threads_step.induct)
  case (step i ts t)
  have "disciplined (lt_held t) (lt_rest t)"
    using step.prems nth_mem[OF step.hyps(1)] by (intro moves_disciplined[OF _ step.hyps(2)]) (simp add: well_locked_def)
  then show ?case using step.prems unfolding well_locked_def by (metis insertE set_update_subset_insert subsetD)
qed

lemma reachable_well_locked: "threads_step\<^sup>*\<^sup>* (all_started programs) ts \<Longrightarrow> well_locked ts"
  by (induction rule: rtranclp_induct) (simp_all add: started_well_locked step_well_locked)

text \<open>
  A thread that waits is blocked by a thread that holds a lock of the same rank, and what that one
  waits for has a higher rank: following the chain ends at a thread that can move.
\<close>

lemma waiting_thread_progress:
  assumes "well_locked ts" "t \<in> set ts" "lt_rest t = Acquire l m # es"
  shows "\<exists>t\<in>set ts. thread_moves ts t \<noteq> None"
  using assms(2,3)
proof (induction "2 - lock_rank l" arbitrary: t l m es rule: less_induct)
  case less
  show ?case
  proof (cases "free_for ts l m")
    case True
    then show ?thesis using less.prems by (intro bexI[of _ t]) simp_all
  next
    case False
    then obtain u n where u: "u \<in> set ts" "(l, n) \<in> set (lt_held u)"
      by (fastforce simp: free_for_def list_all_iff)
    have d: "disciplined (lt_held u) (lt_rest u)" using assms(1) u(1) by (simp add: well_locked_def)
    then obtain e fs where rest: "lt_rest u = e # fs" using u(2) by (cases "lt_rest u") auto
    show ?thesis
    proof (cases e)
      case (Acquire k n')
      then have "lock_rank l < lock_rank k" using d u(2) by (fastforce simp: rest list_all_iff)
      moreover have "lock_rank k \<le> 2" by (cases k) simp_all
      ultimately show ?thesis using less.hyps[of k u n' fs] u(1) rest Acquire by simp
    qed (use u(1) rest in \<open>auto intro!: bexI[of _ u]\<close>)
  qed
qed

lemma well_locked_progress:
  assumes "well_locked ts" "t \<in> set ts" "lt_rest t \<noteq> []"
  shows "\<exists>ts'. threads_step ts ts'"
proof -
  obtain e es where rest: "lt_rest t = e # es" using assms(3) by (cases "lt_rest t") auto
  have "\<exists>t\<in>set ts. thread_moves ts t \<noteq> None"
  proof (cases e)
    case (Acquire l m)
    then show ?thesis using waiting_thread_progress[OF assms(1,2)] rest by simp
  qed (use rest assms(2) in \<open>auto intro!: bexI[of _ t]\<close>)
  then obtain i t' where "i < length ts" "thread_moves ts (ts ! i) = Some t'" by (metis in_set_conv_nth option.exhaust)
  then show ?thesis using threads_step.step by blast
qed

theorem no_deadlock:
  assumes "threads_step\<^sup>*\<^sup>* (all_started programs) ts" "t \<in> set ts" "lt_rest t \<noteq> []"
  shows "\<exists>ts'. threads_step ts ts'"
proof -
  have "well_locked ts" using assms(1) by (rule reachable_well_locked)
  then show ?thesis using assms(2,3) by (rule well_locked_progress)
qed

section \<open>Every run ends\<close>

definition events_left :: "lock_thread list \<Rightarrow> nat" where
  "events_left ts = sum_list (map (length \<circ> lt_rest) ts)"

lemma moves_shorter: "thread_moves ts t = Some t' \<Longrightarrow> length (lt_rest t) = Suc (length (lt_rest t'))"
  by (cases "lt_rest t"; cases "hd (lt_rest t)") (auto split: if_splits)

lemma step_consumes: "threads_step ts ts' \<Longrightarrow> events_left ts = Suc (events_left ts')"
proof (induction rule: threads_step.induct)
  case (step i ts t)
  then show ?case
    using moves_shorter[OF step(2)] elem_le_sum_list[of i "map (length \<circ> lt_rest) ts"]
    by (simp add: events_left_def map_update sum_list_update del: thread_moves.simps)
qed

theorem runs_are_finite:
  assumes "(threads_step ^^ n) ts ts'"
  shows "events_left ts = n + events_left ts'"
  using assms
proof (induction n arbitrary: ts')
  case (Suc n)
  then obtain u where "(threads_step ^^ n) ts u" "threads_step u ts'" by auto
  then show ?case using Suc.IH step_consumes by fastforce
qed simp

theorem finished_threads_hold_nothing:
  assumes "threads_step\<^sup>*\<^sup>* (all_started programs) ts" "t \<in> set ts" "lt_rest t = []"
  shows "lt_held t = []"
proof -
  have "well_locked ts" using assms(1) by (rule reachable_well_locked)
  then show ?thesis using assms(2,3) by (fastforce simp: well_locked_def)
qed

theorem locks_progress:
  assumes "threads_step\<^sup>*\<^sup>* (all_started programs) ts"
  shows "list_all (\<lambda>t. lt_rest t = [] \<and> lt_held t = []) ts \<or> (\<exists>ts'. threads_step ts ts' \<and> events_left ts' < events_left ts)"
proof (cases "list_all (\<lambda>t. lt_rest t = []) ts")
  case True
  then show ?thesis using finished_threads_hold_nothing[OF assms] by (auto simp: list_all_iff)
next
  case False
  then obtain ts' where "threads_step ts ts'" using no_deadlock[OF assms] by (auto simp: list_all_iff)
  then show ?thesis using step_consumes[of ts ts'] by auto
qed

end
