(* ===== verification/Fab_Printable.thy ===== *)
theory Fab_Printable
  imports Fab_Display Fab_Json
begin

text \<open>
  No control character in the output: compact JSON and the displayed form of a value consist of
  characters from the blank on, whatever text they carry. A line-based protocol can frame them by
  newlines.
\<close>

definition printable :: "string \<Rightarrow> bool" where
  "printable s \<longleftrightarrow> (\<forall>ch\<in>set s. 0x20 \<le> (of_char ch :: nat))"

lemma printable_simps [simp]:
  "printable []" "printable (ch # s) \<longleftrightarrow> 0x20 \<le> (of_char ch :: nat) \<and> printable s"
  "printable (s @ t) \<longleftrightarrow> printable s \<and> printable t" "printable (concat ss) \<longleftrightarrow> (\<forall>s\<in>set ss. printable s)"
  "printable (replicate n ch) \<longleftrightarrow> n = 0 \<or> 0x20 \<le> (of_char ch :: nat)"
  by (auto simp: printable_def)

lemma printable_subset: "printable s \<Longrightarrow> set t \<subseteq> set s \<Longrightarrow> printable t"
  by (auto simp: printable_def)

lemma printable_no_newline: "printable s \<Longrightarrow> CHR 0x0A \<notin> set s"
  by (auto simp: printable_def)

lemma control_byte: "byte_of_char ch < 0x20 \<longleftrightarrow> (of_char ch :: nat) < 0x20"
  by (simp add: byte_of_char_def word_less_nat_alt unat_of_nat)

section \<open>Numbers\<close>

lemma digit_printable: "is_digit_char ch \<Longrightarrow> 0x20 \<le> (of_char ch :: nat)"
  by (simp add: is_digit_char_def less_eq_char_def)

lemma printable_nat [simp]: "printable (nat_text n)"
  using nat_text_digits[of n] digit_printable by (auto simp: printable_def list_all_iff)

lemma printable_integers [simp]: "printable (u64_text w)" "printable (int_text i)"
  by (simp_all add: u64_text_def int_text_def)

lemma printable_hex [simp]: "printable (hex_encode bs)"
  using set_hex_encode[of bs] by (auto simp: printable_def hex_digits_def)

lemma printable_parts:
  "printable s \<Longrightarrow> printable (take n s)" "printable s \<Longrightarrow> printable (drop n s)" "printable s \<Longrightarrow> printable (tl s)"
  by (auto elim!: printable_subset dest: in_set_takeD in_set_dropD) (metis list.set_sel(2) list.sel(2))

lemma printable_number [simp]: "printable (to_chars_double x)"
proof -
  have digits: "0x20 \<le> (of_char (hd (nat_text n)) :: nat)" for n
    using printable_nat[of n] nat_text_nonempty[of n] by (cases "nat_text n") (auto simp: printable_def)
  have "printable (scientific_text d t)" for d t
    using printable_parts(3)[OF printable_nat[of d]] by (simp add: scientific_text_def Let_def digits)
  moreover have "printable (fixed_text b d t)" for b d t
    by (simp add: fixed_text_def Let_def printable_parts)
  ultimately show ?thesis by (simp add: to_chars_double_def magnitude_text_def split: prod.split)
qed

section \<open>Values as they are displayed\<close>

lemma display_char_printable: "printable (display_char ch)"
  by (auto simp: display_char_def control_byte not_less simp del: hex_encode.simps)

lemma append_escaped_printable [simp]: "printable (append_escaped s)"
  using display_char_printable by (simp add: append_escaped_def)

lemma display_text_printable:
  "printable (display_text v)" "printable (display_list vs)" "printable (display_map es)"
  by (induction v and vs and es rule: display_text_display_list_display_map.induct) auto

section \<open>Compact JSON\<close>

lemma escape_char_printable: "printable (escape_char ch)"
  by (auto simp: escape_char_def control_byte not_less simp del: hex_encode.simps)

lemma json_string_printable [simp]: "printable (json_string s)"
  using escape_char_printable by (simp add: json_string_def)

lemma compact_json_printable:
  "\<not> pretty \<Longrightarrow> printable (write_json pretty d j)"
  "\<not> pretty \<Longrightarrow> printable (write_items pretty d xs)"
  "\<not> pretty \<Longrightarrow> printable (write_members pretty d ms)"
  by (induction pretty d j and pretty d xs and pretty d ms rule: write_json_write_items_write_members.induct)
    (auto simp: pad_def)

lemma compact_text_printable: "printable (json_to_text False j)"
  by (simp add: json_to_text_def compact_json_printable)

end
