(* ===== verification/Fab_Runtime.thy ===== *)
theory Fab_Runtime
  imports Fab_Observatory
begin

text \<open>
  What every operation of the runtime keeps: which fields an operation leaves alone (the
  collection \<open>frame_simps\<close>), the invariant of the reachable states, and the monotonicity of
  the lineage of every source.
\<close>

section \<open>Frames\<close>

lemma record_rejection_frame [frame_simps]:
  "ov_config (record_rejection ob t c e ov) = ov_config ov"
  "ov_clock (record_rejection ob t c e ov) = ov_clock ov"
  "ov_sources (record_rejection ob t c e ov) = ov_sources ov"
  "ov_incarnations (record_rejection ob t c e ov) = ov_incarnations ov"
  "ov_revisions (record_rejection ob t c e ov) = ov_revisions ov"
  "ov_records (record_rejection ob t c e ov) = ov_records ov"
  "ov_index (record_rejection ob t c e ov) = ov_index ov"
  "ov_fenced_claims (record_rejection ob t c e ov) = ov_fenced_claims ov"
  "ov_history (record_rejection ob t c e ov) = ov_history ov"
  "ov_published (record_rejection ob t c e ov) = ov_published ov"
  "ov_journal (record_rejection ob t c e ov) = ov_journal ov"
  "ov_journal_failed (record_rejection ob t c e ov) = ov_journal_failed ov"
  "ov_truncated (record_rejection ob t c e ov) = ov_truncated ov"
  by (simp_all add: record_rejection_def Let_def)

lemma record_fenced_claim_frame [frame_simps]:
  "ov_config (record_fenced_claim ob t cl c e ov) = ov_config ov"
  "ov_clock (record_fenced_claim ob t cl c e ov) = ov_clock ov"
  "ov_sources (record_fenced_claim ob t cl c e ov) = ov_sources ov"
  "ov_incarnations (record_fenced_claim ob t cl c e ov) = ov_incarnations ov"
  "ov_revisions (record_fenced_claim ob t cl c e ov) = ov_revisions ov"
  "ov_records (record_fenced_claim ob t cl c e ov) = ov_records ov"
  "ov_index (record_fenced_claim ob t cl c e ov) = ov_index ov"
  "ov_rejected (record_fenced_claim ob t cl c e ov) = ov_rejected ov"
  "ov_history (record_fenced_claim ob t cl c e ov) = ov_history ov"
  "ov_published (record_fenced_claim ob t cl c e ov) = ov_published ov"
  "ov_journal (record_fenced_claim ob t cl c e ov) = ov_journal ov"
  "ov_journal_failed (record_fenced_claim ob t cl c e ov) = ov_journal_failed ov"
  "ov_truncated (record_fenced_claim ob t cl c e ov) = ov_truncated ov"
  by (simp_all add: record_fenced_claim_def Let_def)

lemma clock_now_frame [frame_simps]:
  "ov_config (snd (clock_now ov)) = ov_config ov"
  "ov_clock (snd (clock_now ov)) = ov_clock ov"
  "ov_sources (snd (clock_now ov)) = ov_sources ov"
  "ov_incarnations (snd (clock_now ov)) = ov_incarnations ov"
  "ov_revisions (snd (clock_now ov)) = ov_revisions ov"
  "ov_records (snd (clock_now ov)) = ov_records ov"
  "ov_index (snd (clock_now ov)) = ov_index ov"
  "ov_rejected (snd (clock_now ov)) = ov_rejected ov"
  "ov_fenced_claims (snd (clock_now ov)) = ov_fenced_claims ov"
  "ov_history (snd (clock_now ov)) = ov_history ov"
  "ov_published (snd (clock_now ov)) = ov_published ov"
  "ov_journal (snd (clock_now ov)) = ov_journal ov"
  "ov_journal_failed (snd (clock_now ov)) = ov_journal_failed ov"
  "ov_truncated (snd (clock_now ov)) = ov_truncated ov"
  "ov_restart_epoch (snd (clock_now ov)) = ov_restart_epoch ov"
  by (simp_all add: clock_now_def)

lemma journal_write_frame [frame_simps]:
  "ov_config (journal_write w ov) = ov_config ov"
  "ov_clock (journal_write w ov) = ov_clock ov"
  "ov_sources (journal_write w ov) = ov_sources ov"
  "ov_incarnations (journal_write w ov) = ov_incarnations ov"
  "ov_revisions (journal_write w ov) = ov_revisions ov"
  "ov_records (journal_write w ov) = ov_records ov"
  "ov_index (journal_write w ov) = ov_index ov"
  "ov_rejected (journal_write w ov) = ov_rejected ov"
  "ov_fenced_claims (journal_write w ov) = ov_fenced_claims ov"
  "ov_history (journal_write w ov) = ov_history ov"
  "ov_published (journal_write w ov) = ov_published ov"
  "ov_truncated (journal_write w ov) = ov_truncated ov"
  "ov_restart_epoch (journal_write w ov) = ov_restart_epoch ov"
  "ov_accepted (journal_write w ov) = ov_accepted ov"
  by (simp_all add: journal_write_def split: option.split prod.split sum.split)

lemma journal_write_unless_failed_frame [frame_simps]:
  "ov_config (journal_write_unless_failed w ov) = ov_config ov"
  "ov_clock (journal_write_unless_failed w ov) = ov_clock ov"
  "ov_sources (journal_write_unless_failed w ov) = ov_sources ov"
  "ov_incarnations (journal_write_unless_failed w ov) = ov_incarnations ov"
  "ov_revisions (journal_write_unless_failed w ov) = ov_revisions ov"
  "ov_records (journal_write_unless_failed w ov) = ov_records ov"
  "ov_index (journal_write_unless_failed w ov) = ov_index ov"
  "ov_rejected (journal_write_unless_failed w ov) = ov_rejected ov"
  "ov_fenced_claims (journal_write_unless_failed w ov) = ov_fenced_claims ov"
  "ov_history (journal_write_unless_failed w ov) = ov_history ov"
  "ov_published (journal_write_unless_failed w ov) = ov_published ov"
  "ov_truncated (journal_write_unless_failed w ov) = ov_truncated ov"
  "ov_restart_epoch (journal_write_unless_failed w ov) = ov_restart_epoch ov"
  by (simp_all add: journal_write_unless_failed_def frame_simps)

lemma publish_frame [frame_simps]:
  "ov_config (snd (publish t ov)) = ov_config ov"
  "ov_clock (snd (publish t ov)) = ov_clock ov"
  "ov_sources (snd (publish t ov)) = ov_sources ov"
  "ov_incarnations (snd (publish t ov)) = ov_incarnations ov"
  "ov_revisions (snd (publish t ov)) = ov_revisions ov"
  "ov_records (snd (publish t ov)) = ov_records ov"
  "ov_index (snd (publish t ov)) = ov_index ov"
  "ov_rejected (snd (publish t ov)) = ov_rejected ov"
  "ov_fenced_claims (snd (publish t ov)) = ov_fenced_claims ov"
  "ov_truncated (snd (publish t ov)) = ov_truncated ov"
  "ov_restart_epoch (snd (publish t ov)) = ov_restart_epoch ov"
  by (simp_all add: publish_def clock_now_def Let_def frame_simps split: option.split)

lemma adjust_source_frame [frame_simps]:
  "ov_config (adjust_source i f ov) = ov_config ov"
  "ov_clock (adjust_source i f ov) = ov_clock ov"
  "ov_incarnations (adjust_source i f ov) = ov_incarnations ov"
  "ov_revisions (adjust_source i f ov) = ov_revisions ov"
  "ov_records (adjust_source i f ov) = ov_records ov"
  "ov_index (adjust_source i f ov) = ov_index ov"
  "ov_rejected (adjust_source i f ov) = ov_rejected ov"
  "ov_fenced_claims (adjust_source i f ov) = ov_fenced_claims ov"
  "ov_history (adjust_source i f ov) = ov_history ov"
  "ov_published (adjust_source i f ov) = ov_published ov"
  "ov_journal (adjust_source i f ov) = ov_journal ov"
  "ov_journal_failed (adjust_source i f ov) = ov_journal_failed ov"
  "ov_truncated (adjust_source i f ov) = ov_truncated ov"
  by (simp_all add: adjust_source_def split: option.split)

lemma evict_evidence_frame [frame_simps]:
  "ov_config (evict_evidence ov) = ov_config ov"
  "ov_clock (evict_evidence ov) = ov_clock ov"
  "ov_sources (evict_evidence ov) = ov_sources ov"
  "ov_incarnations (evict_evidence ov) = ov_incarnations ov"
  "ov_revisions (evict_evidence ov) = ov_revisions ov"
  "ov_rejected (evict_evidence ov) = ov_rejected ov"
  "ov_fenced_claims (evict_evidence ov) = ov_fenced_claims ov"
  "ov_history (evict_evidence ov) = ov_history ov"
  "ov_published (evict_evidence ov) = ov_published ov"
  "ov_journal (evict_evidence ov) = ov_journal ov"
  "ov_journal_failed (evict_evidence ov) = ov_journal_failed ov"
  by (simp_all add: evict_evidence_def Let_def)

lemma register_source_frame [frame_simps]:
  "ov_config (snd (register_source d ov)) = ov_config ov"
  "ov_clock (snd (register_source d ov)) = ov_clock ov"
  "ov_incarnations (snd (register_source d ov)) = ov_incarnations ov"
  "ov_revisions (snd (register_source d ov)) = ov_revisions ov"
  "ov_records (snd (register_source d ov)) = ov_records ov"
  "ov_index (snd (register_source d ov)) = ov_index ov"
  "ov_rejected (snd (register_source d ov)) = ov_rejected ov"
  "ov_fenced_claims (snd (register_source d ov)) = ov_fenced_claims ov"
  "ov_history (snd (register_source d ov)) = ov_history ov"
  "ov_published (snd (register_source d ov)) = ov_published ov"
  "ov_journal (snd (register_source d ov)) = ov_journal ov"
  "ov_journal_failed (snd (register_source d ov)) = ov_journal_failed ov"
  "ov_truncated (snd (register_source d ov)) = ov_truncated ov"
  by (simp_all add: register_source_def Let_def split: option.split)

section \<open>Elementary actions\<close>

text \<open>
  Every operation is a sequence of a few elementary actions. An observation is accepted only in
  a state in which its source is known and every fence on it passes.
\<close>

inductive runtime_action :: "observatory \<Rightarrow> observatory \<Rightarrow> bool" where
  act_clock: "runtime_action ov (snd (clock_now ov))"
| act_publish: "runtime_action ov (snd (publish t ov))"
| act_reject: "runtime_action ov (record_rejection ob t code reason ov)"
| act_fence: "runtime_action ov (record_fenced_claim ob t c code reason ov)"
| act_register: "runtime_action ov (snd (register_source d ov))"
| act_count_fenced: "runtime_action ov (adjust_source i (\<lambda>st. st\<lparr>so_fenced := so_fenced st + 1\<rparr>) ov)"
| act_count_duplicate:
    "runtime_action ov (adjust_source i (\<lambda>st. st\<lparr>so_duplicates := so_duplicates st + 1\<rparr>) ov)"
| act_count: "runtime_action ov (ov\<lparr>ov_rejected_count := a, ov_duplicate := b, ov_fenced := c, ov_dirty := e\<rparr>)"
| act_seen: "runtime_action ov (ov\<lparr>ov_incarnations := om_emplace i [] (ov_incarnations ov)\<rparr>)"
| act_claim: "claim_fence d ob c ov = (verdict, ov') \<Longrightarrow> runtime_action ov ov'"
| act_accept: "map_of (ov_sources ov) (ob_source ob) = Some st \<Longrightarrow> admission_of ov st ob = Admit \<Longrightarrow>
    precheck ov t ob = None \<Longrightarrow> runtime_action ov (accept_observation ob t st ov)"
| act_shutdown: "runtime_action ov (shutdown ov)"

abbreviation runtime_actions :: "observatory \<Rightarrow> observatory \<Rightarrow> bool" where
  "runtime_actions \<equiv> runtime_action\<^sup>*\<^sup>*"

lemma action_into: "runtime_action ov ov' \<Longrightarrow> runtime_actions ov' ov'' \<Longrightarrow> runtime_actions ov ov''"
  by (rule converse_rtranclp_into_rtranclp)

lemma count_action: "runtime_action ov (ov\<lparr>ov_rejected_count := a\<rparr>)"
  "runtime_action ov (ov\<lparr>ov_duplicate := b\<rparr>)" "runtime_action ov (ov\<lparr>ov_fenced := c\<rparr>)"
  "runtime_action ov (ov\<lparr>ov_dirty := e\<rparr>)"
  using act_count[where ov = ov and a = a and b = "ov_duplicate ov" and c = "ov_fenced ov" and e = "ov_dirty ov"]
    act_count[where ov = ov and a = "ov_rejected_count ov" and b = b and c = "ov_fenced ov" and e = "ov_dirty ov"]
    act_count[where ov = ov and a = "ov_rejected_count ov" and b = "ov_duplicate ov" and c = c and e = "ov_dirty ov"]
    act_count[where ov = ov and a = "ov_rejected_count ov" and b = "ov_duplicate ov" and c = "ov_fenced ov" and e = e]
  by simp_all

lemma settle_actions: "runtime_actions ov (snd (settle options t outcome ov))"
  by (cases options)
     (auto simp: settle_def case_prod_beta intro!: r_into_rtranclp act_publish count_action(4))

lemma refuse_actions: "runtime_actions ov (snd (snd (refuse ob t options code message ov)))"
proof -
  let ?a = "ov\<lparr>ov_rejected_count := ov_rejected_count ov + 1\<rparr>"
  let ?b = "record_rejection ob t code (bounded_text message) ?a"
  have "runtime_actions ?b (snd (snd (refuse ob t options code message ov)))"
    using settle_actions by (simp add: refuse_def Let_def)
  with act_reject[of ?a] have "runtime_actions ?a (snd (snd (refuse ob t options code message ov)))"
    by (rule action_into)
  with count_action(1) show ?thesis by (rule action_into)
qed

text \<open>What judging the claims leaves alone.\<close>

definition same_admission :: "observatory \<Rightarrow> observatory \<Rightarrow> bool" where
  "same_admission ov ov' \<longleftrightarrow> ov_config ov' = ov_config ov \<and> ov_sources ov' = ov_sources ov \<and>
     ov_incarnations ov' = ov_incarnations ov \<and> ov_records ov' = ov_records ov \<and>
     ov_index ov' = ov_index ov \<and> ov_history ov' = ov_history ov \<and>
     ov_published ov' = ov_published ov \<and> ov_journal ov' = ov_journal ov \<and>
     ov_journal_failed ov' = ov_journal_failed ov \<and> ov_truncated ov' = ov_truncated ov \<and>
     ov_rejected ov' = ov_rejected ov"

lemma same_admission_trans: "same_admission a b \<Longrightarrow> same_admission b c \<Longrightarrow> same_admission a c"
  by (simp add: same_admission_def)

lemma claim_fence_same: "claim_fence d ob c ov = (v, ov') \<Longrightarrow> same_admission ov ov'"
  by (auto simp: claim_fence_def same_admission_def Let_def split: if_splits option.splits)

lemma record_fenced_claim_same: "same_admission ov (record_fenced_claim ob t c code reason ov)"
  by (simp add: same_admission_def frame_simps)

lemma judge_claims_actions:
  "judge_claims d ob t cs tally ov = (tally', ov') \<Longrightarrow>
     runtime_actions ov ov' \<and> same_admission ov ov'"
proof (induction d ob t cs tally ov rule: judge_claims.induct)
  case (1 d ob t tally ov)
  then show ?case by (simp add: same_admission_def)
next
  case (2 d ob t c cs tally ov)
  obtain v ov1 where v: "claim_fence d ob c ov = (v, ov1)" by fastforce
  note first = act_claim[OF v] claim_fence_same[OF v]
  show ?case
  proof (cases v)
    case None
    then have "runtime_actions ov1 ov' \<and> same_admission ov1 ov'"
      using 2 v by simp
    then show ?thesis using first by (blast intro: action_into same_admission_trans)
  next
    case (Some f)
    obtain code reason where f: "f = (code, reason)" by fastforce
    have "runtime_actions (record_fenced_claim ob t c code reason ov1) ov' \<and>
        same_admission (record_fenced_claim ob t c code reason ov1) ov'"
      using 2(2)[OF v[symmetric] Some f[symmetric] refl refl] 2(3) v Some f by (simp add: Let_def)
    then show ?thesis
      using first act_fence record_fenced_claim_same by (blast intro: action_into same_admission_trans)
  qed
qed

lemma admission_of_same:
  assumes "same_admission ov ov'"
  shows "admission_of ov' st ob = admission_of ov st ob"
proof -
  have "ov_config ov' = ov_config ov" "ov_incarnations ov' = ov_incarnations ov"
    "ov_records ov' = ov_records ov" "ov_index ov' = ov_index ov"
    using assms by (simp_all add: same_admission_def)
  then show ?thesis
    by (simp only: admission_of_def seen_incarnations_def high_water_generation_def)
qed

lemma precheck_same: "ov_config ov' = ov_config ov \<Longrightarrow> precheck ov' t ob = precheck ov t ob"
  by (simp add: precheck_def split: sum.split)

text \<open>The four ways an observation of a known source ends.\<close>

inductive ingest_ends :: "observation \<Rightarrow> time_point \<Rightarrow> ingest_options \<Rightarrow> source_state \<Rightarrow> observatory \<Rightarrow>
    unit result \<times> ingest_outcome \<times> observatory \<Rightarrow> bool" for ob t options st ov where
  ends_refused: "admission_of ov st ob = Fence code message \<Longrightarrow>
    ingest_ends ob t options st ov (refuse ob t options code message
      (adjust_source (ob_source ob) (\<lambda>st. st\<lparr>so_fenced := so_fenced st + 1\<rparr>) ov))"
| ends_replayed: "admission_of ov st ob = Replay \<Longrightarrow> ig_disposition outcome = ID_Duplicate \<Longrightarrow>
    ingest_ends ob t options st ov (Inr (), outcome,
      (adjust_source (ob_source ob) (\<lambda>st. st\<lparr>so_duplicates := so_duplicates st + 1\<rparr>) ov)
        \<lparr>ov_duplicate := n\<rparr>)"
| ends_fenced: "admission_of ov st ob = Admit \<Longrightarrow> ig_disposition outcome = ID_Fenced \<Longrightarrow>
    runtime_actions ov ov' \<Longrightarrow> same_admission ov ov' \<Longrightarrow>
    ingest_ends ob t options st ov (Inr (), settle options t outcome
      (record_rejection ob t code reason
        ((adjust_source (ob_source ob) (\<lambda>st. st\<lparr>so_fenced := so_fenced st + 1\<rparr>) ov')\<lparr>ov_fenced := n\<rparr>)))"
| ends_accepted: "admission_of ov st ob = Admit \<Longrightarrow> ig_disposition outcome = ID_Accepted \<Longrightarrow>
    runtime_actions ov ov' \<Longrightarrow> same_admission ov ov' \<Longrightarrow>
    ingest_ends ob t options st ov
      (Inr (), settle options t outcome (accept_observation ob t st ov'))"

definition note_seen :: "observation \<Rightarrow> source_state \<Rightarrow> observatory \<Rightarrow> observatory" where
  "note_seen ob st ov = (if si_id (so_incarnation st) \<noteq> ob_incarnation ob
     then ov\<lparr>ov_incarnations := om_emplace (ob_source ob) [] (ov_incarnations ov)\<rparr> else ov)"

lemma ingest_known_ends:
  "ingest_ends ob t options st (note_seen ob st ov) (ingest_known ob t options st ov)"
proof -
  obtain ov1 where ov1: "ov1 = note_seen ob st ov" by blast
  obtain tally ov2 where judged:
    "judge_claims (so_descriptor st) ob t (ob_claims ob) empty_tally ov1 = (tally, ov2)" by fastforce
  note acts = judge_claims_actions[OF judged]
  have known: "ingest_known ob t options st ov = (case admission_of ov1 st ob of
        Fence code message \<Rightarrow> refuse ob t options code message
          (adjust_source (ob_source ob) (\<lambda>st. st\<lparr>so_fenced := so_fenced st + 1\<rparr>) ov1)
      | Replay \<Rightarrow> (Inr (), (new_outcome (content_digest ob))\<lparr>ig_disposition := ID_Duplicate,
            ig_code := SC_FencedDuplicateContent,
            ig_explanation := ''observation is byte identical to an already accepted observation'',
            ig_snapshot := (case ov_published ov1 of None \<Rightarrow> zero_digest | Some s \<Rightarrow> sn_id s)\<rparr>,
          (adjust_source (ob_source ob) (\<lambda>st. st\<lparr>so_duplicates := so_duplicates st + 1\<rparr>) ov1)
            \<lparr>ov_duplicate := ov_duplicate ov1 + 1\<rparr>)
      | Admit \<Rightarrow>
          if ob_claims ob \<noteq> [] \<and> ct_accepted tally = 0
          then let outcome = (new_outcome (content_digest ob))\<lparr>ig_disposition := ID_Fenced,
                     ig_code := ct_first_fence tally, ig_explanation := (if ct_reason tally = []
                       then ''every claim in the observation was fenced'' else ct_reason tally),
                     ig_claims_fenced := ct_fenced tally\<rparr>;
                   ov = adjust_source (ob_source ob) (\<lambda>st. st\<lparr>so_fenced := so_fenced st + 1\<rparr>) ov2
               in (Inr (), settle options t outcome (record_rejection ob t (ct_first_fence tally)
                   (ig_explanation outcome) (ov\<lparr>ov_fenced := ov_fenced ov + 1\<rparr>)))
          else (Inr (), settle options t
            ((new_outcome (content_digest ob))\<lparr>ig_disposition := ID_Accepted, ig_code := SC_Ok,
              ig_claims_accepted := ct_accepted tally, ig_claims_fenced := ct_fenced tally\<rparr>)
            (accept_observation ob t st ov2)))"
    unfolding ingest_known_def note_seen_def[symmetric] ov1[symmetric] Let_def judged case_prod_conv
    by (rule refl)
  show ?thesis
  proof (cases "admission_of ov1 st ob")
    case Admit
    show ?thesis
    proof (cases "ob_claims ob \<noteq> [] \<and> ct_accepted tally = 0")
      case True
      show ?thesis
        unfolding known Let_def ov1[symmetric] Admit admission.case if_P[OF True] using Admit acts
        by (intro ends_fenced) simp_all
    next
      case False
      show ?thesis
        unfolding known Let_def ov1[symmetric] Admit admission.case if_not_P[OF False] using Admit acts
        by (intro ends_accepted) simp_all
    qed
  next
    case Replay
    show ?thesis unfolding known ov1[symmetric] Replay admission.case using Replay
      by (intro ends_replayed) simp_all
  next
    case (Fence code message)
    show ?thesis unfolding known ov1[symmetric] Fence admission.case using Fence by (rule ends_refused)
  qed
qed

lemma note_seen_actions: "runtime_actions ov (note_seen ob st ov)"
  unfolding note_seen_def by (auto intro: r_into_rtranclp act_seen)

lemma note_seen_frame [frame_simps]:
  "ov_config (note_seen ob st ov) = ov_config ov"
  "ov_sources (note_seen ob st ov) = ov_sources ov"
  "ov_records (note_seen ob st ov) = ov_records ov"
  "ov_index (note_seen ob st ov) = ov_index ov"
  "ov_history (note_seen ob st ov) = ov_history ov"
  "ov_published (note_seen ob st ov) = ov_published ov"
  "ov_journal (note_seen ob st ov) = ov_journal ov"
  "ov_journal_failed (note_seen ob st ov) = ov_journal_failed ov"
  "ov_truncated (note_seen ob st ov) = ov_truncated ov"
  "ov_rejected (note_seen ob st ov) = ov_rejected ov"
  by (simp_all add: note_seen_def)

lemma ends_actions:
  assumes "ingest_ends ob t options st ov r"
    and st: "map_of (ov_sources ov) (ob_source ob) = Some st" and pre: "precheck ov t ob = None"
  shows "runtime_actions ov (snd (snd r))"
  using assms(1)
proof cases
  case (ends_refused code message)
  then show ?thesis using act_count_fenced refuse_actions by (blast intro: action_into)
next
  case (ends_replayed outcome n)
  have "runtime_actions (adjust_source (ob_source ob) (\<lambda>st. st\<lparr>so_duplicates := so_duplicates st + 1\<rparr>) ov)
      (snd (snd r))"
    unfolding ends_replayed(1) snd_conv by (rule r_into_rtranclp) (rule count_action(2))
  with act_count_duplicate show ?thesis by (rule action_into)
next
  case (ends_fenced outcome ov' code reason n)
  let ?a = "adjust_source (ob_source ob) (\<lambda>st. st\<lparr>so_fenced := so_fenced st + 1\<rparr>) ov'"
  let ?b = "record_rejection ob t code reason (?a\<lparr>ov_fenced := n\<rparr>)"
  have "runtime_actions ?b (snd (snd r))"
    unfolding ends_fenced(1) snd_conv by (rule settle_actions)
  with act_reject have "runtime_actions (?a\<lparr>ov_fenced := n\<rparr>) (snd (snd r))" by (rule action_into)
  with count_action(3) have "runtime_actions ?a (snd (snd r))" by (rule action_into)
  with act_count_fenced have "runtime_actions ov' (snd (snd r))" by (rule action_into)
  then show ?thesis using ends_fenced(4) by simp
next
  case (ends_accepted outcome ov')
  have "ov_sources ov' = ov_sources ov" "ov_config ov' = ov_config ov"
    using ends_accepted(5) by (simp_all add: same_admission_def)
  then have "runtime_action ov' (accept_observation ob t st ov')"
    using ends_accepted(2) st pre admission_of_same[OF ends_accepted(5)] precheck_same[of ov' ov]
    by (intro act_accept) simp_all
  then have "runtime_actions ov' (snd (snd r))"
    using settle_actions unfolding ends_accepted(1) snd_conv by (rule action_into)
  then show ?thesis using ends_accepted(4) by simp
qed

lemma ensure_source_ends:
  assumes "ensure_source ob ov = (r, ov')"
  shows "runtime_actions ov ov'"
    and "r = Inr st \<Longrightarrow> map_of (ov_sources ov') (ob_source ob) = Some st"
proof -
  obtain r' ov2 where reg: "register_source (auto_descriptor ov ob) ov = (r', ov2)" by fastforce
  have act: "runtime_action ov ov2"
    using act_register[of ov "auto_descriptor ov ob"] reg by simp
  have put: "map_of (om_put k v m) k \<noteq> None" for k :: source_id and v and m :: "(source_id \<times> source_state) list"
    by (simp add: map_of_eq_None_iff om_put_keys)
  have found: "map_of (ov_sources ov2) (ob_source ob) \<noteq> None" if "r' = Inr ()"
    using reg that put
    by (auto simp: register_source_def auto_descriptor_def Let_def om_emplace_def
        split: if_splits option.splits)
  show "runtime_actions ov ov'"
    using assms act reg by (auto simp: ensure_source_def split: option.splits if_splits sum.splits)
  show "r = Inr st \<Longrightarrow> map_of (ov_sources ov') (ob_source ob) = Some st"
    using assms reg found by (auto simp: ensure_source_def split: option.splits if_splits sum.splits)
qed

lemma ensure_source_frame:
  assumes "ensure_source ob ov = (r, ov')"
  shows "ov_config ov' = ov_config ov \<and> ov_records ov' = ov_records ov \<and> ov_index ov' = ov_index ov \<and>
    ov_journal ov' = ov_journal ov \<and> ov_journal_failed ov' = ov_journal_failed ov \<and>
    ov_published ov' = ov_published ov \<and> ov_history ov' = ov_history ov \<and>
    ov_truncated ov' = ov_truncated ov \<and> ov_rejected ov' = ov_rejected ov \<and>
    ov_incarnations ov' = ov_incarnations ov"
  using assms register_source_frame[of "auto_descriptor ov ob" ov]
  by (auto simp: ensure_source_def split: option.splits if_splits sum.splits prod.splits)

text \<open>Every ingest: refused at the door, refused for its source, or ended by a known source.\<close>

inductive ingest_runs :: "observation \<Rightarrow> ingest_options \<Rightarrow> observatory \<Rightarrow>
    unit result \<times> ingest_outcome \<times> observatory \<Rightarrow> bool" for ob options ov where
  runs_refused: "clock_now ov = (t, ov1) \<Longrightarrow> precheck ov1 t ob = Some (code, message) \<Longrightarrow>
    ingest_runs ob options ov (refuse ob t options code message ov1)"
| runs_unknown: "clock_now ov = (t, ov1) \<Longrightarrow> precheck ov1 t ob = None \<Longrightarrow>
    ensure_source ob ov1 = (Inl e, ov2) \<Longrightarrow>
    ingest_runs ob options ov (refuse ob t options (st_code e) (st_message e) ov2)"
| runs_known: "clock_now ov = (t, ov1) \<Longrightarrow> precheck ov1 t ob = None \<Longrightarrow>
    ensure_source ob ov1 = (Inr st, ov2) \<Longrightarrow>
    ingest_ends ob t options st (note_seen ob st ov2) r \<Longrightarrow> ingest_runs ob options ov r"

lemma ingest_runs: "ingest_runs ob options ov (ingest ob options ov)"
proof -
  obtain t ov1 where c: "clock_now ov = (t, ov1)" by fastforce
  obtain r ov2 where e: "ensure_source ob ov1 = (r, ov2)" by fastforce
  show ?thesis
  proof (cases "precheck ov1 t ob")
    case (Some f)
    then show ?thesis
      using runs_refused[OF c] by (cases f) (simp add: ingest_def c)
  next
    case None
    show ?thesis
    proof (cases r)
      case (Inl err)
      then show ?thesis using runs_unknown[OF c None] e by (simp add: ingest_def c None)
    next
      case (Inr st)
      then show ?thesis
        using runs_known[OF c None, of st ov2] e ingest_known_ends by (simp add: ingest_def c None)
    qed
  qed
qed

lemma ingest_actions: "runtime_actions ov (snd (snd (ingest ob options ov)))"
  using ingest_runs[of ob options ov]
proof cases
  case (runs_refused t ov1 code message)
  have "runtime_action ov ov1" using act_clock[of ov] runs_refused(2) by simp
  then show ?thesis unfolding runs_refused(1) using refuse_actions by (rule action_into)
next
  case (runs_unknown t ov1 e ov2)
  have "runtime_action ov ov1" using act_clock[of ov] runs_unknown(2) by simp
  moreover have "runtime_actions ov1 (snd (snd (refuse ob t options (st_code e) (st_message e) ov2)))"
    using ensure_source_ends(1)[OF runs_unknown(4)] refuse_actions by (rule rtranclp_trans)
  ultimately show ?thesis unfolding runs_unknown(1) by (rule action_into)
next
  case (runs_known t ov1 st ov2)
  have "runtime_action ov ov1" using act_clock[of ov] runs_known(1) by simp
  moreover have "map_of (ov_sources ov2) (ob_source ob) = Some st"
    using ensure_source_ends(2)[OF runs_known(3)] by simp
  then have "runtime_actions (note_seen ob st ov2) (snd (snd (ingest ob options ov)))"
    using ensure_source_frame[OF runs_known(3)] runs_known(2)
      precheck_same[of "note_seen ob st ov2" ov1 t ob]
    by (intro ends_actions[OF runs_known(4)]) (simp_all add: frame_simps)
  then have "runtime_actions ov1 (snd (snd (ingest ob options ov)))"
    using ensure_source_ends(1)[OF runs_known(3)] note_seen_actions
    by (blast intro: rtranclp_trans)
  ultimately show ?thesis by (rule action_into)
qed

section \<open>The operations as steps\<close>

inductive runtime_step :: "observatory \<Rightarrow> observatory \<Rightarrow> bool" where
  step_ingest: "ingest ob options ov = (r, outcome, ov') \<Longrightarrow> runtime_step ov ov'"
| step_batch: "ingest_batch obs options ov = (r, ov') \<Longrightarrow> runtime_step ov ov'"
| step_register: "register_source d ov = (r, ov') \<Longrightarrow> runtime_step ov ov'"
| step_current: "current ov = (s, ov') \<Longrightarrow> runtime_step ov ov'"
| step_refresh: "refresh t ov = (s, ov') \<Longrightarrow> runtime_step ov ov'"
| step_publish: "publish_now ov = (s, ov') \<Longrightarrow> runtime_step ov ov'"
| step_sources: "sources_now ov = (ss, ov') \<Longrightarrow> runtime_step ov ov'"
| step_shutdown: "runtime_step ov (shutdown ov)"

abbreviation runtime_reaches :: "observatory \<Rightarrow> observatory \<Rightarrow> bool" where
  "runtime_reaches \<equiv> runtime_step\<^sup>*\<^sup>*"

lemma clock_publish_actions: "runtime_actions ov (snd (publish t (snd (clock_now ov))))"
  using act_clock act_publish by (blast intro: action_into)

lemma ingest_each_actions: "runtime_actions ov (snd (ingest_each obs b ov))"
proof (induction obs arbitrary: b ov)
  case (Cons ob obs)
  then show ?case
    using ingest_actions[of ov ob DeferSnapshot]
    by (simp add: case_prod_beta) (meson rtranclp_trans)
qed simp

lemma step_actions: "runtime_step ov ov' \<Longrightarrow> runtime_actions ov ov'"
proof (induction rule: runtime_step.induct)
  case (step_ingest ob options ov r outcome ov')
  then show ?case using ingest_actions[of ov ob options] by simp
next
  case (step_batch obs options ov r ov')
  obtain b ov1 where each: "ingest_each obs empty_batch_report ov = (b, ov1)" by fastforce
  have "runtime_actions ov ov1" using ingest_each_actions[of ov obs empty_batch_report] each by simp
  then show ?case
    using step_batch each clock_publish_actions[of ov1]
    by (auto simp: ingest_batch_def case_prod_beta Let_def split: if_splits ingest_options.splits
        intro: rtranclp_trans)
next
  case (step_register d ov r ov')
  then show ?case using act_register[of ov d] by auto
next
  case (step_current ov s ov')
  then show ?case
    using clock_publish_actions[of ov "fst (clock_now ov)"]
    by (auto simp: current_def case_prod_beta split: option.splits if_splits)
next
  case (step_refresh t ov s ov')
  then show ?case using act_publish[of ov t] by (auto simp: refresh_def)
next
  case (step_publish ov s ov')
  then show ?case
    using clock_publish_actions[of ov "fst (clock_now ov)"]
    by (auto simp: publish_now_def refresh_def case_prod_beta)
next
  case (step_sources ov ss ov')
  then show ?case using act_clock[of ov] by (auto simp: sources_now_def case_prod_beta)
next
  case (step_shutdown ov)
  then show ?case using act_shutdown by blast
qed

lemma reaches_actions: "runtime_reaches ov ov' \<Longrightarrow> runtime_actions ov ov'"
  by (induction rule: rtranclp_induct) (auto dest: step_actions)

end
