(* ===== verification/Fab_Transport.thy ===== *)
theory Fab_Transport
  imports Fab_Json_Io Fab_Locks Fab_Printable Fab_Runtime
begin

text \<open>
  \<^verbatim>\<open>transport.cpp\<close>: one JSON request per line, one JSON response per line. A request is at most
  one operation of the observatory, so everything proved of the states a runtime reaches holds of
  a served one; compact responses contain no newline, so a client can split them; a request that
  is not understood changes nothing. The report of the lock auditor, process-wide counters, is an
  argument.
\<close>

section \<open>Responses\<close>

record transport_options =
  to_max_line_bytes :: nat
  to_pretty :: bool
  to_include_claims :: bool
  to_json :: json_limits

definition default_transport_options :: transport_options where
  "default_transport_options = \<lparr>to_max_line_bytes = 2097152, to_pretty = False, to_include_claims = True,
     to_json = default_json_limits\<rparr>"

definition error_response :: "string \<Rightarrow> status_code \<Rightarrow> string \<Rightarrow> json" where
  "error_response op code message = JObject
     [(''ok'', JBool False), (''op'', JText op), (''code'', JText (status_code_text code)),
      (''message'', JText message)]"

definition ok_response :: "string \<Rightarrow> json \<Rightarrow> json" where
  "ok_response op r = JObject [(''ok'', JBool True), (''op'', JText op), (''result'', r)]"

text \<open>Always compact, whatever the options say.\<close>

definition generic_error :: "string \<Rightarrow> string \<Rightarrow> string" where
  "generic_error op what = json_to_text False (error_response op SC_MalformedInput what)"

definition reply :: "transport_options \<Rightarrow> json \<Rightarrow> string" where
  "reply opts j = json_to_text (to_pretty opts) j"

definition reply_error :: "transport_options \<Rightarrow> string \<Rightarrow> status \<Rightarrow> string" where
  "reply_error opts op e = reply opts (error_response op (st_code e) (st_message e))"

definition reply_result :: "transport_options \<Rightarrow> string \<Rightarrow> json result \<Rightarrow> string" where
  "reply_result opts op r = (case r of Inl e \<Rightarrow> reply_error opts op e | Inr j \<Rightarrow> reply opts (ok_response op j))"

definition read_count :: "json \<Rightarrow> string \<Rightarrow> 64 word \<Rightarrow> 64 word result" where
  "read_count j member fallback =
     (case json_find member j of
        None \<Rightarrow> Inr fallback
      | Some JNull \<Rightarrow> Inr fallback
      | Some (JText t) \<Rightarrow> (case read_u64 t of Some w \<Rightarrow> Inr w
          | None \<Rightarrow> err SC_MalformedInput (member @ '' is not a valid decimal string''))
      | Some _ \<Rightarrow> err SC_InvalidArgument (member @ '' must be a decimal string''))"

section \<open>Operations\<close>

definition version_string :: string where
  "version_string = ''1.0.0''"

definition serve_ping :: "lock_audit_report \<Rightarrow> observatory \<Rightarrow> json" where
  "serve_ping report ov = JObject
     [(''version'', JText version_string), (''schema'', JText observation_schema),
      (''fabric'', JText (id_to_text ''fab'' (oc_fabric (ov_config ov)))), (''lock_audit'', JText (lock_audit_text report))]"

definition batch_report_json :: "batch_report \<Rightarrow> json" where
  "batch_report_json b = JObject
     [(''accepted'', u64_json (br_accepted b)), (''duplicates'', u64_json (br_duplicates b)),
      (''fenced'', u64_json (br_fenced b)), (''rejected'', u64_json (br_rejected b)),
      (''snapshot'', JText (snapshot_id_to_text (br_snapshot b))),
      (''outcomes'', JArray (map ingest_outcome_to_json (br_outcomes b)))]"

definition serve_batch :: "transport_options \<Rightarrow> string \<Rightarrow> json \<Rightarrow> observatory \<Rightarrow> string \<times> observatory" where
  "serve_batch opts op request ov =
     (case json_find ''observations'' request of
        None \<Rightarrow> (generic_error op (quoted ''observations'' @ '' is required''), ov)
      | Some (JArray items) \<Rightarrow>
          (case collect (\<lambda>item. observation_from_json item (ov_limits ov)) items of
             Inl e \<Rightarrow> (generic_error op (st_message e), ov)
           | Inr obs \<Rightarrow>
               (let (r, ov) = ingest_batch obs PublishSnapshot ov
                in (reply_result opts op (rbind r (\<lambda>b. Inr (batch_report_json b))), ov)))
      | Some _ \<Rightarrow> (generic_error op (quoted ''observations'' @ '' must be an array''), ov))"

definition serve_ingest :: "transport_options \<Rightarrow> string \<Rightarrow> json \<Rightarrow> observatory \<Rightarrow> string \<times> observatory" where
  "serve_ingest opts op request ov =
     (case json_find ''observation'' request of
        None \<Rightarrow> (generic_error op (quoted ''observation'' @ '' is required''), ov)
      | Some payload \<Rightarrow>
          (case observation_from_json payload (ov_limits ov) of
             Inl e \<Rightarrow> (generic_error op (st_message e), ov)
           | Inr ob \<Rightarrow>
               (let (r, outcome, ov) = ingest ob PublishSnapshot ov
                in (reply opts (ok_response op (JObject
                     [(''outcome'', ingest_outcome_to_json outcome),
                      (''status'', JText (case r of Inl e \<Rightarrow> status_text e | Inr _ \<Rightarrow> status_code_text SC_Ok))])), ov))))"

definition serve_refresh :: "transport_options \<Rightarrow> string \<Rightarrow> json \<Rightarrow> observatory \<Rightarrow> string \<times> observatory" where
  "serve_refresh opts op request ov =
     (case read_count request ''at'' 0 of
        Inl e \<Rightarrow> (reply_error opts op e, ov)
      | Inr at_time \<Rightarrow>
          (let (s, ov) = refresh (TimePoint at_time) ov
           in (reply opts (ok_response op (snapshot_to_json (to_include_claims opts) s)), ov)))"

definition serve_query :: "transport_options \<Rightarrow> string \<Rightarrow> json \<Rightarrow> observatory \<Rightarrow> string \<times> observatory" where
  "serve_query opts op request ov =
     (case query_filter_from_json (case json_find ''filter'' request of None \<Rightarrow> JNull | Some f \<Rightarrow> f) of
        Inl e \<Rightarrow> (reply_error opts op e, ov)
      | Inr f \<Rightarrow> (let (r, ov) = ov_query f ov in (reply opts (ok_response op (query_result_to_json r)), ov)))"

definition serve_hierarchy :: "transport_options \<Rightarrow> string \<Rightarrow> json \<Rightarrow> observatory \<Rightarrow> string \<times> observatory" where
  "serve_hierarchy opts op request ov =
     (case hierarchy_query_from_json (case json_find ''query'' request of None \<Rightarrow> JNull | Some q \<Rightarrow> q) of
        Inl e \<Rightarrow> (reply_error opts op e, ov)
      | Inr q \<Rightarrow> (let (r, ov) = ov_hierarchy q ov in (reply opts (ok_response op (hierarchy_result_to_json r)), ov)))"

definition serve_diff :: "transport_options \<Rightarrow> string \<Rightarrow> json \<Rightarrow> observatory \<Rightarrow> string" where
  "serve_diff opts op request ov =
     (case (json_find ''before'' request, json_find ''after'' request) of
        (Some (JText before), Some (JText after)) \<Rightarrow>
          (case (snapshot_id_from_text before, snapshot_id_from_text after) of
             (Inr first, Inr second) \<Rightarrow>
               reply_result opts op (rbind (ov_diff first second ov) (\<lambda>d. Inr (diff_to_json d)))
           | _ \<Rightarrow> generic_error op ''snapshot identifiers must be snap:<64 hex characters>'')
      | _ \<Rightarrow>
          (case read_count request ''lookback'' 1 of
             Inl e \<Rightarrow> reply_error opts op e
           | Inr lookback \<Rightarrow>
               if lookback = 0 \<or> lookback > 0xFFFFFFFF
               then generic_error op ''lookback must be between 1 and 4294967295''
               else reply_result opts op (rbind (ov_diff_latest (ucast lookback) ov) (\<lambda>d. Inr (diff_to_json d)))))"

definition serve_history :: "transport_options \<Rightarrow> string \<Rightarrow> json \<Rightarrow> observatory \<Rightarrow> string" where
  "serve_history opts op request ov =
     (case read_count request ''max'' 16 of
        Inl e \<Rightarrow> reply_error opts op e
      | Inr max_entries \<Rightarrow>
          if max_entries > 0xFFFFFFFF then generic_error op ''max is out of range''
          else reply opts (ok_response op (JObject
            [(''entries'', JArray (map history_entry_to_json (ov_history_entries (ucast max_entries) ov)))])))"

definition serve_explain :: "transport_options \<Rightarrow> string \<Rightarrow> json \<Rightarrow> observatory \<Rightarrow> string \<times> observatory" where
  "serve_explain opts op request ov =
     (case json_find ''subject'' request of
        Some (JText t) \<Rightarrow>
          (case subject_from_text t of
             Inl e \<Rightarrow> (generic_error op (st_message e), ov)
           | Inr identity \<Rightarrow>
               (case (case json_find ''aspect'' request of
                    None \<Rightarrow> Inr None
                  | Some JNull \<Rightarrow> Inr None
                  | Some (JText a) \<Rightarrow> rbind (aspect_parse a) (\<lambda>i. Inr (Some i))
                  | Some _ \<Rightarrow> err SC_MalformedInput (quoted ''aspect'' @ '' must be text'')) of
                  Inl e \<Rightarrow> (generic_error op (st_message e), ov)
                | Inr aspect \<Rightarrow>
                    (let (e, ov) = ov_explain (subject_ref identity) aspect ov
                     in (reply opts (ok_response op (explanation_to_json e)), ov))))
      | _ \<Rightarrow> (generic_error op (quoted ''subject'' @ '' must be a typed identity string''), ov))"

definition serve_recovery :: "observatory \<Rightarrow> json" where
  "serve_recovery ov = JObject
     [(''report'', recovery_report_to_json (ov_recovery ov)), (''text'', JText (recovery_report_text (ov_recovery ov)))]"

definition serve_policy :: "policy \<Rightarrow> json" where
  "serve_policy p = JObject
     [(''name'', JText (policy_name p)), (''revision'', u64_json (policy_revision p)),
      (''digest'', JText (digest_to_hex (policy_digest p))), (''canonical'', JText (policy_canonical_text p)),
      (''strict_generation_fence'', JBool (strict_generation_fence (p_ingest p))),
      (''allow_recovered_as_fresh'', JBool (allow_recovered_as_fresh (p_freshness p)))]"

definition serve_op ::
  "transport_options \<Rightarrow> lock_audit_report \<Rightarrow> string \<Rightarrow> json \<Rightarrow> observatory \<Rightarrow> string \<times> observatory" where
  "serve_op opts report op request ov =
     (if op = ''ping'' then (reply opts (ok_response op (serve_ping report ov)), ov)
      else if op = ''ingest_batch'' then serve_batch opts op request ov
      else if op = ''ingest'' then serve_ingest opts op request ov
      else if op = ''snapshot''
      then (let (s, ov) = current ov
        in (reply opts (ok_response op (snapshot_to_json (to_include_claims opts) s)), ov))
      else if op = ''refresh'' then serve_refresh opts op request ov
      else if op = ''query'' then serve_query opts op request ov
      else if op = ''hierarchy'' then serve_hierarchy opts op request ov
      else if op = ''diff'' then (serve_diff opts op request ov, ov)
      else if op = ''history'' then (serve_history opts op request ov, ov)
      else if op = ''explain'' then serve_explain opts op request ov
      else if op = ''sources''
      then (let (ss, ov) = sources_now ov
        in (reply opts (ok_response op (JObject [(''sources'', JArray (map source_summary_to_json ss))])), ov))
      else if op = ''stats'' then (reply opts (ok_response op (observatory_stats_to_json (ov_stats ov))), ov)
      else if op = ''recovery'' then (reply opts (ok_response op (serve_recovery ov)), ov)
      else if op = ''summary''
      then (let (t, ov) = observatory_summary ov in (reply opts (ok_response op (JText t)), ov))
      else if op = ''policy'' then (reply opts (ok_response op (serve_policy (ov_policy ov))), ov)
      else if op = ''shutdown'' then (reply opts (ok_response op (JBool True)), ov)
      else (reply opts (error_response op SC_Unsupported (''unknown operation: '' @ op)), ov))"

definition handle_request_line ::
  "transport_options \<Rightarrow> lock_audit_report \<Rightarrow> string \<Rightarrow> observatory \<Rightarrow> string \<times> observatory" where
  "handle_request_line opts report input ov =
     (let trimmed = trim input
      in if length trimmed > to_max_line_bytes opts
      then (reply opts (error_response ''-'' SC_TooLarge ''request line exceeds the configured maximum''), ov)
      else if trimmed = [] then (reply opts (error_response ''-'' SC_MalformedInput ''empty request line''), ov)
      else case parse_json trimmed (to_json opts) of
        Inl e \<Rightarrow> (reply_error opts ''-'' e, ov)
      | Inr request \<Rightarrow>
          if \<not> is_object request
          then (reply opts (error_response ''-'' SC_MalformedInput ''a request must be a JSON object''), ov)
          else case json_find ''op'' request of
            Some (JText op) \<Rightarrow> serve_op opts report op request ov
          | _ \<Rightarrow> (reply opts (error_response ''-'' SC_MalformedInput
              (''a request requires a text '' @ quoted ''op'' @ '' member'')), ov))"

section \<open>The server\<close>

datatype line_result = Line string | TooLong | EndOfInput

abbreviation newline :: char where
  "newline \<equiv> CHR 0x0A"

text \<open>The characters read so far, and whether there were any.\<close>

fun read_bounded_line :: "nat \<Rightarrow> string \<Rightarrow> bool \<Rightarrow> string \<Rightarrow> line_result \<times> string" where
  "read_bounded_line max_bytes out any [] = (if any then Line out else EndOfInput, [])"
| "read_bounded_line max_bytes out any (ch # input) =
     (if ch = newline then (Line out, input)
      else if length out < max_bytes then read_bounded_line max_bytes (out @ [ch]) True input
      else (TooLong, tl (dropWhile (\<lambda>c. c \<noteq> newline) input)))"

record transport_stats =
  tt_requests :: "64 word"
  tt_failures :: "64 word"
  tt_oversized :: "64 word"
  tt_shutdown_requested :: bool

definition no_requests :: transport_stats where
  "no_requests = \<lparr>tt_requests = 0, tt_failures = 0, tt_oversized = 0, tt_shutdown_requested = False\<rparr>"

text \<open>\<^verbatim>\<open>std::string::find\<close>, as a test.\<close>

fun contains :: "string \<Rightarrow> string \<Rightarrow> bool" where
  "contains pattern [] \<longleftrightarrow> pattern = []"
| "contains pattern (ch # s) \<longleftrightarrow> starts_with (ch # s) pattern \<or> contains pattern s"

definition failure_mark :: string where
  "failure_mark = [CHR 0x22] @ ''ok'' @ [CHR 0x22] @ '':false''"

definition asks_shutdown :: "transport_options \<Rightarrow> string \<Rightarrow> bool" where
  "asks_shutdown opts input =
     (case parse_json (trim input) (to_json opts) of
        Inl e \<Rightarrow> False
      | Inr request \<Rightarrow> is_object request \<and> json_find ''op'' request = Some (JText ''shutdown''))"

definition count_response :: "string \<Rightarrow> transport_stats \<Rightarrow> transport_stats" where
  "count_response response st =
     st\<lparr>tt_requests := tt_requests st + 1,
        tt_failures := (if contains failure_mark response then tt_failures st + 1 else tt_failures st)\<rparr>"

lemma read_bounded_line_shorter:
  "read_bounded_line n out any input = (r, rest) \<Longrightarrow> r \<noteq> EndOfInput \<Longrightarrow> any \<or> input \<noteq> [] \<Longrightarrow>
   length rest \<le> length input \<and> (any \<or> length rest < length input)"
proof (induction n out any input rule: read_bounded_line.induct)
  case (2 n out any ch input)
  show ?case
  proof (cases "ch \<noteq> newline \<and> length out < n")
    case True
    then show ?thesis using 2(1) 2(2-) by fastforce
  next
    case False
    have "length (dropWhile (\<lambda>c. c \<noteq> newline) input) \<le> length input" by (rule length_dropWhile_le)
    then show ?thesis using 2(2) False by (auto split: if_splits)
  qed
qed (auto split: if_splits)

lemma read_line_consumes:
  "read_bounded_line n [] False input = (r, rest) \<Longrightarrow> r \<noteq> EndOfInput \<Longrightarrow> length rest < length input"
  using read_bounded_line_shorter[of n "[]" False input r rest] by (cases input) auto

text \<open>
  The lines written, in order, the observatory and the counters when the server returns, and the
  input it did not read. The auditor's report is taken anew for each request.
\<close>

function run_stdio_server ::
  "transport_options \<Rightarrow> (nat \<Rightarrow> lock_audit_report) \<Rightarrow> string \<Rightarrow> observatory \<Rightarrow> transport_stats \<Rightarrow>
     string list \<times> observatory \<times> transport_stats \<times> string" where
  "run_stdio_server opts reports input ov st =
     (case read_bounded_line (to_max_line_bytes opts) [] False input of
        (EndOfInput, rest) \<Rightarrow> ([], ov, st, rest)
      | (TooLong, rest) \<Rightarrow>
          (let (out, ov, st, left) = run_stdio_server opts reports rest ov (st\<lparr>tt_oversized := tt_oversized st + 1\<rparr>)
           in (reply opts (error_response ''-'' SC_TooLarge ''request line exceeds the configured maximum'') # out,
             ov, st, left))
      | (Line text, rest) \<Rightarrow>
          (let (response, ov) = handle_request_line opts (reports (length input)) text ov; st = count_response response st
           in if asks_shutdown opts text then ([response], ov, st\<lparr>tt_shutdown_requested := True\<rparr>, rest)
              else let (out, ov, st, left) = run_stdio_server opts reports rest ov st
                in (response # out, ov, st, left)))"
  by pat_completeness auto
termination
  by (relation "measure (\<lambda>(opts, reports, input, ov, st). length input)")
    (auto dest!: read_line_consumes[OF sym])

declare run_stdio_server.simps [simp del]

definition server_output :: "string list \<Rightarrow> string" where
  "server_output lines = concat (map line lines)"

end
