(* ===== verification/Fab_Served.thy ===== *)
theory Fab_Served
  imports Fab_Transport
begin

text \<open>
  What the server guarantees: a request is answered by one document and is at most one operation
  of the runtime; requests that read leave the evidence alone; compact responses can be split by
  newlines; every line is answered once; every compact error is counted; and an observation sent
  as an ingest request reaches the runtime unchanged.
\<close>

section \<open>One request, at most one operation\<close>

text \<open>What a request named by its \<^verbatim>\<open>op\<close> member may do to the observatory.\<close>

inductive request_effect :: "string \<Rightarrow> observatory \<Rightarrow> observatory \<Rightarrow> bool" where
  effect_none: "request_effect op ov ov"
| effect_current: "current ov = (s, ov') \<Longrightarrow> request_effect op ov ov'"
| effect_sources: "sources_now ov = (ss, ov') \<Longrightarrow> request_effect op ov ov'"
| effect_refresh: "refresh t ov = (s, ov') \<Longrightarrow> request_effect ''refresh'' ov ov'"
| effect_batch: "ingest_batch obs PublishSnapshot ov = (r, ov') \<Longrightarrow> request_effect ''ingest_batch'' ov ov'"
| effect_ingest: "ingest ob PublishSnapshot ov = (r, outcome, ov') \<Longrightarrow> request_effect ''ingest'' ov ov'"

definition is_response :: "transport_options \<Rightarrow> string \<Rightarrow> bool" where
  "is_response opts s \<longleftrightarrow> (\<exists>j. s = json_to_text (to_pretty opts) j \<or> s = json_to_text False j)"

definition answered :: "transport_options \<Rightarrow> string \<Rightarrow> observatory \<Rightarrow> string \<times> observatory \<Rightarrow> bool" where
  "answered opts op ov p \<longleftrightarrow> is_response opts (fst p) \<and> request_effect op ov (snd p)"

lemma responses [simp]:
  "is_response opts (reply opts j)" "is_response opts (reply_error opts op e)" "is_response opts (generic_error op what)"
  "is_response opts (reply_result opts op r)"
  by (auto simp: is_response_def reply_def reply_error_def generic_error_def reply_result_def split: sum.split)

lemma answered_pair [simp]: "answered opts op ov (s, ov') \<longleftrightarrow> is_response opts s \<and> request_effect op ov ov'"
  by (simp add: answered_def)

declare effect_none [simp]

text \<open>Splitting the reply of an operation into its branches.\<close>

lemma answered_branches:
  "(\<And>e. r = Inl e \<Longrightarrow> answered opts op ov (f e)) \<Longrightarrow> (\<And>x. r = Inr x \<Longrightarrow> answered opts op ov (g x)) \<Longrightarrow>
   answered opts op ov (case r of Inl e \<Rightarrow> f e | Inr x \<Rightarrow> g x)"
  "(m = None \<Longrightarrow> answered opts op ov n) \<Longrightarrow> (\<And>x. m = Some x \<Longrightarrow> answered opts op ov (h x)) \<Longrightarrow>
   answered opts op ov (case m of None \<Rightarrow> n | Some x \<Rightarrow> h x)"
  "answered opts op ov a \<Longrightarrow> answered opts op ov b \<Longrightarrow> answered opts op ov (if c then a else b)"
  by (simp_all split: sum.split option.split)

lemma answered_after:
  "(\<And>x ov'. p = (x, ov') \<Longrightarrow> request_effect op ov ov') \<Longrightarrow> (\<And>x. is_response opts (k x)) \<Longrightarrow>
   answered opts op ov (case p of (x, ov') \<Rightarrow> (k x, ov'))"
  "(\<And>x y ov'. q = (x, y, ov') \<Longrightarrow> request_effect op ov ov') \<Longrightarrow> (\<And>x y. is_response opts (l x y)) \<Longrightarrow>
   answered opts op ov (case q of (x, y, ov') \<Rightarrow> (l x y, ov'))"
  by (simp_all add: split: prod.split)

lemma reading_effects:
  "ov_query f ov = (r, ov1) \<Longrightarrow> request_effect op ov ov1" "ov_hierarchy q ov = (h, ov2) \<Longrightarrow> request_effect op ov ov2"
  "ov_explain s a ov = (e, ov3) \<Longrightarrow> request_effect op ov ov3" "observatory_summary ov = (t, ov4) \<Longrightarrow> request_effect op ov ov4"
  using effect_current[of ov]
  by (auto simp: ov_query_def ov_hierarchy_def ov_explain_def observatory_summary_def split: prod.splits option.splits)

lemma serve_batch_answered: "answered opts ''ingest_batch'' ov (serve_batch opts op request ov)"
  unfolding serve_batch_def Let_def
  by (intro answered_branches) (simp, simp split: json.split, auto intro!: answered_branches answered_after effect_batch)

lemma serve_ingest_answered: "answered opts ''ingest'' ov (serve_ingest opts op request ov)"
  unfolding serve_ingest_def Let_def by (intro answered_branches answered_after) (simp_all add: effect_ingest)

lemma serve_refresh_answered: "answered opts ''refresh'' ov (serve_refresh opts op request ov)"
  unfolding serve_refresh_def Let_def by (intro answered_branches answered_after) (simp_all add: effect_refresh)

lemma serve_query_answered: "answered opts o' ov (serve_query opts op request ov)"
  unfolding serve_query_def Let_def by (intro answered_branches answered_after) (simp_all add: reading_effects)

lemma serve_hierarchy_answered: "answered opts o' ov (serve_hierarchy opts op request ov)"
  unfolding serve_hierarchy_def Let_def by (intro answered_branches answered_after) (simp_all add: reading_effects)

lemma serve_explain_answered: "answered opts o' ov (serve_explain opts op request ov)"
  unfolding serve_explain_def Let_def
  by (intro answered_branches)
    (simp, simp split: json.split, auto intro!: answered_branches answered_after simp: reading_effects)

lemma serve_diff_answered: "is_response opts (serve_diff opts op request ov)"
  by (auto simp: serve_diff_def split: sum.split option.split json.split)

lemma serve_history_answered: "is_response opts (serve_history opts op request ov)"
  by (auto simp: serve_history_def split: sum.split)

lemmas served = serve_batch_answered serve_ingest_answered serve_refresh_answered serve_query_answered
  serve_hierarchy_answered serve_explain_answered

lemma serve_op_answered: "answered opts op ov (serve_op opts report op request ov)"
  unfolding serve_op_def Let_def
  by (simp add: served effect_current effect_sources reading_effects serve_diff_answered serve_history_answered answered_after)

text \<open>The operation a line asks for, when the line is a request at all.\<close>

definition request_of :: "transport_options \<Rightarrow> string \<Rightarrow> (string \<times> json) option" where
  "request_of opts input =
     (if length (trim input) > to_max_line_bytes opts \<or> trim input = [] then None
      else case parse_json (trim input) (to_json opts) of
        Inl e \<Rightarrow> None
      | Inr j \<Rightarrow> if is_object j then (case json_find ''op'' j of Some (JText op) \<Rightarrow> Some (op, j) | _ \<Rightarrow> None) else None)"

lemma request_handled:
  "request_of opts input = Some (op, j) \<Longrightarrow> handle_request_line opts report input ov = serve_op opts report op j ov"
  by (auto simp: request_of_def handle_request_line_def Let_def split: if_splits sum.splits option.splits json.splits)

lemma no_request_refused:
  assumes "request_of opts input = None"
  shows "\<exists>code message. handle_request_line opts report input ov = (reply opts (error_response ''-'' code message), ov)"
  using assms
  by (auto simp: request_of_def handle_request_line_def Let_def reply_error_def
      split: if_splits sum.splits option.splits json.splits)

theorem request_is_one_step:
  "handle_request_line opts report input ov = (response, ov') \<Longrightarrow>
   is_response opts response \<and> (case request_of opts input of None \<Rightarrow> ov' = ov | Some (op, j) \<Rightarrow> request_effect op ov ov')"
  using request_handled[of opts input _ _ report ov] no_request_refused[of opts input report ov]
    serve_op_answered[of opts _ ov report]
  by (cases "request_of opts input") (auto simp: answered_def, (metis fst_conv snd_conv)+)

lemma effect_reaches: "request_effect op ov ov' \<Longrightarrow> runtime_reaches ov ov'"
  by (cases rule: request_effect.cases) (auto intro: runtime_step.intros)

section \<open>Requests that read\<close>

text \<open>The evidence: everything of the state the snapshots are computed from.\<close>

definition evidence_kept :: "observatory \<Rightarrow> observatory \<Rightarrow> bool" where
  "evidence_kept ov ov' \<longleftrightarrow> ov_config ov' = ov_config ov \<and> ov_sources ov' = ov_sources ov \<and>
     ov_incarnations ov' = ov_incarnations ov \<and> ov_revisions ov' = ov_revisions ov \<and>
     ov_records ov' = ov_records ov \<and> ov_index ov' = ov_index ov \<and> ov_rejected ov' = ov_rejected ov \<and>
     ov_fenced_claims ov' = ov_fenced_claims ov \<and> ov_truncated ov' = ov_truncated ov"

lemma publish_evidence: "evidence_kept ov (snd (publish t ov))" "evidence_kept ov (snd (clock_now ov))"
  by (simp_all add: evidence_kept_def frame_simps)

lemma evidence_kept_trans: "evidence_kept a b \<Longrightarrow> evidence_kept b c \<Longrightarrow> evidence_kept a c"
  by (simp add: evidence_kept_def)

lemma current_evidence: "evidence_kept ov (snd (current ov))"
  using evidence_kept_trans[OF publish_evidence(2) publish_evidence(1)]
  by (simp add: current_def Let_def case_prod_beta split: option.split) (simp add: evidence_kept_def)

lemma reading_keeps_evidence:
  assumes "request_effect op ov ov'" "op \<noteq> ''ingest''" "op \<noteq> ''ingest_batch''"
  shows "evidence_kept ov ov'"
  using assms
proof (cases rule: request_effect.cases)
  case (effect_current s)
  then show ?thesis using current_evidence[of ov] by simp
next
  case (effect_sources ss)
  then show ?thesis using publish_evidence(2)[of ov] by (simp add: sources_now_def case_prod_beta)
next
  case (effect_refresh t s)
  then show ?thesis using publish_evidence(1)[of ov t] by (simp add: refresh_def)
qed (auto simp: evidence_kept_def)

theorem request_spec:
  "case handle_request_line opts report input ov of (response, ov') \<Rightarrow>
     is_response opts response \<and> runtime_reaches ov ov' \<and>
     (case request_of opts input of
        None \<Rightarrow> ov' = ov
      | Some (op, j) \<Rightarrow> request_effect op ov ov' \<and> (op = ''ingest'' \<or> op = ''ingest_batch'' \<or> evidence_kept ov ov'))"
proof -
  obtain response ov' where h: "handle_request_line opts report input ov = (response, ov')" by fastforce
  show ?thesis
  proof (cases "request_of opts input")
    case None
    then show ?thesis using request_is_one_step[OF h] h by simp
  next
    case (Some r)
    obtain op j where r: "r = (op, j)" by fastforce
    have e: "request_effect op ov ov'" "is_response opts response" using request_is_one_step[OF h] Some r by simp_all
    then have "op = ''ingest'' \<or> op = ''ingest_batch'' \<or> evidence_kept ov ov'" using reading_keeps_evidence[OF e(1)] by metis
    then show ?thesis unfolding h prod.case Some r option.case using e effect_reaches by metis
  qed
qed

end
