(* ===== verification/Fab_Framing.thy ===== *)
theory Fab_Framing
  imports Fab_Served
begin

text \<open>
  The server loop against its specification: the input is a list of lines, each answered once and
  in order by a fold over the observatory until one asks to shut down; compact output splits back
  into the responses by the same rule; the counters add up; and a whole exchange, an observation
  written as a request and read by the server, is the operation of the runtime it names.
\<close>

section \<open>Lines\<close>

text \<open>The lines of a text: a newline ends one, and so does the end of the text.\<close>

fun lines_from :: "string \<Rightarrow> string \<Rightarrow> string list" where
  "lines_from acc [] = (if acc = [] then [] else [acc])"
| "lines_from acc (ch # s) = (if ch = newline then acc # lines_from [] s else lines_from (acc @ [ch]) s)"

abbreviation lines_of :: "string \<Rightarrow> string list" where
  "lines_of \<equiv> lines_from []"

lemma lines_unfold:
  "acc \<noteq> [] \<or> s \<noteq> [] \<Longrightarrow>
   lines_from acc s = (acc @ takeWhile (\<lambda>c. c \<noteq> newline) s) # lines_of (tl (dropWhile (\<lambda>c. c \<noteq> newline) s))"
  by (induction acc s rule: lines_from.induct) auto

lemma read_unfold:
  "length out \<le> n \<Longrightarrow> out \<noteq> [] \<or> s \<noteq> [] \<Longrightarrow>
   read_bounded_line n out (out \<noteq> []) s =
     (if length (out @ takeWhile (\<lambda>c. c \<noteq> newline) s) \<le> n then Line (out @ takeWhile (\<lambda>c. c \<noteq> newline) s) else TooLong,
      tl (dropWhile (\<lambda>c. c \<noteq> newline) s))"
proof (induction s arbitrary: out)
  case (Cons ch s)
  show ?case
  proof (cases "ch \<noteq> newline \<and> length out < n")
    case True
    then show ?thesis using Cons.IH[of "out @ [ch]"] by simp
  qed (use Cons.prems in auto)
qed simp

definition bounded_line :: "nat \<Rightarrow> string \<Rightarrow> line_result" where
  "bounded_line n l = (if length l \<le> n then Line l else TooLong)"

text \<open>The reader takes one line of the text, and leaves the others.\<close>

lemma reader_takes_a_line:
  "read_bounded_line n [] False s =
     (case lines_of s of [] \<Rightarrow> (EndOfInput, []) | l # ls \<Rightarrow> (bounded_line n l, tl (dropWhile (\<lambda>c. c \<noteq> newline) s)))"
  "lines_of s = l # ls \<Longrightarrow> ls = lines_of (tl (dropWhile (\<lambda>c. c \<noteq> newline) s))"
  using lines_unfold[of "[]" s] read_unfold[of "[]" n s] by (cases "s = []"; simp add: bounded_line_def)+

lemma lines_of_output: "\<forall>l\<in>set ls. newline \<notin> set l \<Longrightarrow> lines_of (server_output ls) = ls"
proof (induction ls)
  case (Cons l ls)
  have "lines_from acc (l @ newline # s) = (acc @ l) # lines_of s" if "newline \<notin> set l" for acc s
    using that by (induction l arbitrary: acc) auto
  then show ?case using Cons by (simp add: server_output_def)
qed (simp add: server_output_def)

section \<open>The server loop\<close>

abbreviation oversized_response :: "transport_options \<Rightarrow> string" where
  "oversized_response opts \<equiv>
     reply opts (error_response ''-'' SC_TooLarge ''request line exceeds the configured maximum'')"

text \<open>The specification: the responses, the observatory after them, and whether a line asked to stop.\<close>

fun answer_lines ::
  "transport_options \<Rightarrow> lock_audit_report \<Rightarrow> string list \<Rightarrow> observatory \<Rightarrow> string list \<times> observatory \<times> bool" where
  "answer_lines opts report [] ov = ([], ov, False)"
| "answer_lines opts report (l # ls) ov =
     (if length l > to_max_line_bytes opts
      then let (out, ov', stopped) = answer_lines opts report ls ov in (oversized_response opts # out, ov', stopped)
      else let (response, ov1) = handle_request_line opts report l ov
        in if asks_shutdown opts l then ([response], ov1, True)
           else let (out, ov', stopped) = answer_lines opts report ls ov1 in (response # out, ov', stopped))"

text \<open>The counters after a run, from the counters before it and the lines answered.\<close>

definition counters_add_up :: "transport_stats \<Rightarrow> string list \<Rightarrow> transport_stats \<Rightarrow> bool" where
  "counters_add_up st out st' \<longleftrightarrow>
     tt_requests st' + tt_oversized st' = tt_requests st + tt_oversized st + of_nat (length out)"

lemma run_one_line:
  "read_bounded_line (to_max_line_bytes opts) [] False input = (EndOfInput, rest) \<Longrightarrow>
   run_stdio_server opts reports input ov st = ([], ov, st, rest)"
  "read_bounded_line (to_max_line_bytes opts) [] False input = (TooLong, rest) \<Longrightarrow>
   run_stdio_server opts reports rest ov (st\<lparr>tt_oversized := tt_oversized st + 1\<rparr>) = (out, ov2, st2, left) \<Longrightarrow>
   run_stdio_server opts reports input ov st = (oversized_response opts # out, ov2, st2, left)"
  "read_bounded_line (to_max_line_bytes opts) [] False input = (Line l, rest) \<Longrightarrow>
   handle_request_line opts (reports (length input)) l ov = (response, ov1) \<Longrightarrow> asks_shutdown opts l \<Longrightarrow>
   run_stdio_server opts reports input ov st =
     ([response], ov1, (count_response response st)\<lparr>tt_shutdown_requested := True\<rparr>, rest)"
  "read_bounded_line (to_max_line_bytes opts) [] False input = (Line l, rest) \<Longrightarrow>
   handle_request_line opts (reports (length input)) l ov = (response, ov1) \<Longrightarrow> \<not> asks_shutdown opts l \<Longrightarrow>
   run_stdio_server opts reports rest ov1 (count_response response st) = (out, ov2, st2, left) \<Longrightarrow>
   run_stdio_server opts reports input ov st = (response # out, ov2, st2, left)"
  by (subst run_stdio_server.simps, simp)+

lemma run_stdio_server_spec:
  "run_stdio_server opts (\<lambda>_. report) input ov st = (out, ov', st', left) \<Longrightarrow>
   \<exists>stopped. answer_lines opts report (lines_of input) ov = (out, ov', stopped) \<and>
     tt_shutdown_requested st' = (tt_shutdown_requested st \<or> stopped) \<and> (\<not> stopped \<longrightarrow> left = []) \<and>
     counters_add_up st out st'"
proof (induction "length input" arbitrary: input ov st out ov' st' left rule: less_induct)
  case less
  show ?case
  proof (cases "lines_of input")
    case Nil
    then show ?thesis
      using less(2) run_one_line(1)[of opts input] by (auto simp: reader_takes_a_line(1) counters_add_up_def)
  next
    case (Cons l ls)
    define rest where "rest = tl (dropWhile (\<lambda>c. c \<noteq> newline) input)"
    have ls: "ls = lines_of rest" using reader_takes_a_line(2)[OF Cons] by (simp add: rest_def)
    have read: "read_bounded_line (to_max_line_bytes opts) [] False input = (bounded_line (to_max_line_bytes opts) l, rest)"
      using reader_takes_a_line(1)[of "to_max_line_bytes opts" input] Cons by (simp add: rest_def)
    have shorter: "length rest < length input" by (rule read_line_consumes[OF read]) (simp add: bounded_line_def)
    show ?thesis
    proof (cases "length l \<le> to_max_line_bytes opts")
      case False
      obtain out2 ov2 st2 left2 where rec:
        "run_stdio_server opts (\<lambda>_. report) rest ov (st\<lparr>tt_oversized := tt_oversized st + 1\<rparr>) = (out2, ov2, st2, left2)"
        by (metis prod_cases4)
      then have "out = oversized_response opts # out2" "ov' = ov2" "st' = st2" "left = left2"
        using less(2) False read run_one_line(2)[OF _ rec] by (simp_all add: bounded_line_def)
      then show ?thesis using less(1)[OF shorter rec] False Cons ls by (auto simp: counters_add_up_def)
    next
      case True
      obtain response ov1 where h: "handle_request_line opts report l ov = (response, ov1)" by fastforce
      show ?thesis
      proof (cases "asks_shutdown opts l")
        case stop: True
        then have "out = [response]" "ov' = ov1" "st' = (count_response response st)\<lparr>tt_shutdown_requested := True\<rparr>"
          using less(2) True read run_one_line(3)[where l = l and st = st, OF _ h stop] by (auto simp: bounded_line_def)
        then show ?thesis using stop True Cons h by (auto simp: counters_add_up_def count_response_def)
      next
        case go: False
        obtain out2 ov2 st2 left2 where rec:
          "run_stdio_server opts (\<lambda>_. report) rest ov1 (count_response response st) = (out2, ov2, st2, left2)"
          by (metis prod_cases4)
        then have "out = response # out2" "ov' = ov2" "st' = st2" "left = left2"
          using less(2) True read run_one_line(4)[where l = l, OF _ h go rec] by (simp_all add: bounded_line_def)
        then show ?thesis
          using less(1)[OF shorter rec] True go Cons ls h by (auto simp: counters_add_up_def count_response_def)
      qed
    qed
  qed
qed

lemma answer_lines_length:
  "answer_lines opts report ls ov = (out, ov', stopped) \<Longrightarrow>
   length out \<le> length ls \<and> (\<not> stopped \<longrightarrow> length out = length ls)"
  by (induction ls arbitrary: ov out ov' stopped)
    (fastforce simp: case_prod_beta Let_def prod_eq_iff split: if_splits)+

lemma run_responses:
  "run_stdio_server opts reports input ov st = (out, ov', st', left) \<Longrightarrow>
   runtime_reaches ov ov' \<and> (\<forall>s\<in>set out. is_response opts s)"
proof (induction "length input" arbitrary: input ov st out ov' st' left rule: less_induct)
  case less
  obtain r rest where read: "read_bounded_line (to_max_line_bytes opts) [] False input = (r, rest)" by fastforce
  show ?case
  proof (cases r)
    case EndOfInput
    then show ?thesis using less(2) run_one_line(1) read by simp
  next
    case TooLong
    have shorter: "length rest < length input" using read_line_consumes[OF read] TooLong by simp
    obtain out2 ov2 st2 left2 where rec:
      "run_stdio_server opts reports rest ov (st\<lparr>tt_oversized := tt_oversized st + 1\<rparr>) = (out2, ov2, st2, left2)"
      by (metis prod_cases4)
    then show ?thesis using less(1)[OF shorter rec] less(2) run_one_line(2)[OF _ rec] read TooLong by auto
  next
    case (Line l)
    have shorter: "length rest < length input" using read_line_consumes[OF read] Line by simp
    obtain response ov1 where h: "handle_request_line opts (reports (length input)) l ov = (response, ov1)" by fastforce
    have one: "runtime_reaches ov ov1" "is_response opts response"
      using request_is_one_step[OF h] effect_reaches by (auto split: option.splits)
    obtain out2 ov2 st2 left2 where rec:
      "run_stdio_server opts reports rest ov1 (count_response response st) = (out2, ov2, st2, left2)"
      by (metis prod_cases4)
    then show ?thesis
      using less(1)[OF shorter rec] less(2) one read Line
        run_one_line(3)[where l = l and input = input and reports = reports, OF _ h]
        run_one_line(4)[where l = l and input = input and reports = reports, OF _ h _ rec]
      by (cases "asks_shutdown opts l") (auto intro: rtranclp_trans)
  qed
qed

section \<open>What a client relies on\<close>

theorem run_is_framed:
  assumes "run_stdio_server opts reports input ov st = (out, ov', st', left)" "\<not> to_pretty opts"
  shows "lines_of (server_output out) = out"
proof (rule lines_of_output)
  have "\<forall>s\<in>set out. is_response opts s" using run_responses[OF assms(1)] by blast
  then show "\<forall>s\<in>set out. newline \<notin> set s"
    using assms(2) printable_no_newline[OF compact_text_printable] by (auto simp: is_response_def)
qed

theorem server_spec:
  "case run_stdio_server opts (\<lambda>_. report) input ov st of (out, ov', st', left) \<Rightarrow>
     \<exists>stopped. answer_lines opts report (lines_of input) ov = (out, ov', stopped) \<and>
       (stopped \<or> left = [] \<and> length out = length (lines_of input)) \<and>
       tt_requests st' + tt_oversized st' = tt_requests st + tt_oversized st + of_nat (length out) \<and>
       (to_pretty opts \<or> lines_of (server_output out) = out)"
proof -
  obtain out ov' st' left where run: "run_stdio_server opts (\<lambda>_. report) input ov st = (out, ov', st', left)"
    by (metis prod_cases4)
  obtain stopped where spec: "answer_lines opts report (lines_of input) ov = (out, ov', stopped)"
      "\<not> stopped \<longrightarrow> left = []" "counters_add_up st out st'"
    using run_stdio_server_spec[OF run] by blast
  then show ?thesis
    using answer_lines_length[OF spec(1)] run_is_framed[OF run] unfolding run prod.case counters_add_up_def
    by (intro exI[of _ stopped]) blast
qed

text \<open>Errors are counted by looking for their mark in the text.\<close>

lemma contains_middle: "contains p (s @ p @ t)"
proof (induction s)
  case Nil
  then show ?case by (cases "p @ t") (auto, metis starts_with_append)
qed simp

lemma compact_errors_marked: "contains failure_mark (json_to_text False (error_response op code message))"
proof -
  have "json_to_text False (error_response op code message) = ''{'' @ failure_mark @
      drop (1 + length failure_mark) (json_to_text False (error_response op code message))"
    by (simp add: json_to_text_def error_response_def failure_mark_def json_string_def escape_char_def byte_of_char_def pad_def)
  then show ?thesis using contains_middle[of failure_mark "''{''"] by metis
qed

section \<open>An observation as a request\<close>

definition ingest_request :: "observation \<Rightarrow> json" where
  "ingest_request ob = JObject [(''op'', JText ''ingest''), (''observation'', observation_to_json ob)]"

lemma object_text_trim: "trim (json_to_text pretty (JObject (m # ms))) = json_to_text pretty (JObject (m # ms))"
  by (cases m) (simp add: json_to_text_def trim_def is_trim_char_def)

lemma ingest_exchange:
  assumes ob: "wf_limits (ov_limits ov)" "wf_observation (ov_limits ov) ob" "bases_fit (ov_limits ov) ob"
    and room: "json_fits (to_json opts) 0 (ingest_request ob)" "json_nodes (ingest_request ob) \<le> jl_max_nodes (to_json opts)"
      "length (json_to_text pretty (ingest_request ob)) \<le> min (to_max_line_bytes opts) (jl_max_input_bytes (to_json opts))"
  shows "handle_request_line opts report (json_to_text pretty (ingest_request ob)) ov =
    (case ingest ob PublishSnapshot ov of (r, outcome, ov') \<Rightarrow>
       (reply opts (ok_response ''ingest'' (JObject
          [(''outcome'', ingest_outcome_to_json outcome),
           (''status'', JText (case r of Inl e \<Rightarrow> status_text e | Inr _ \<Rightarrow> status_code_text SC_Ok))])), ov'))"
proof -
  let ?s = "json_to_text pretty (ingest_request ob)"
  have trim: "trim ?s = ?s" by (simp add: ingest_request_def object_text_trim)
  have nonempty: "?s \<noteq> []" by (simp add: json_to_text_def ingest_request_def)
  have parsed: "parse_json ?s (to_json opts) = Inr (ingest_request ob)" using room by (intro parse_json_to_text) simp_all
  have asked: "request_of opts ?s = Some (''ingest'', ingest_request ob)"
    using room(3) nonempty by (simp add: request_of_def trim parsed) (simp add: ingest_request_def is_object_def json_find_def)
  have "handle_request_line opts report ?s ov = serve_ingest opts ''ingest'' (ingest_request ob) ov"
    by (rule trans[OF request_handled[OF asked]]) (simp only: serve_op_def, simp)
  moreover have "json_find ''observation'' (ingest_request ob) = Some (observation_to_json ob)"
    by (simp add: ingest_request_def json_find_def)
  ultimately show ?thesis
    by (simp add: serve_ingest_def observation_from_to_json[OF ob])
qed

end
