(* ===== verification/Fab_Arguments.thy ===== *)
theory Fab_Arguments
  imports Fab_Framing
begin

text \<open>
  The command line of \<^verbatim>\<open>fabobs_main.cpp\<close>: arguments and options, the numbers read by
  \<^verbatim>\<open>std::stoll\<close> and \<^verbatim>\<open>std::stoul\<close>, the fabric a name stands for, and the observation files. What
  was written on the command line is read back, and only valid observations are loaded. The text
  of the files is an argument, \<open>None\<close> for a file that cannot be opened.
\<close>

section \<open>Arguments\<close>

record arguments =
  ag_command :: string
  ag_options :: "(string \<times> string list) list"
  ag_positional :: "string list"

definition ag_has :: "arguments \<Rightarrow> string \<Rightarrow> bool" where
  "ag_has a name \<longleftrightarrow> map_of (ag_options a) name \<noteq> None"

definition ag_many :: "arguments \<Rightarrow> string \<Rightarrow> string list" where
  "ag_many a name = (case map_of (ag_options a) name of None \<Rightarrow> [] | Some vs \<Rightarrow> vs)"

definition ag_single :: "arguments \<Rightarrow> string \<Rightarrow> string option" where
  "ag_single a name =
     (case map_of (ag_options a) name of None \<Rightarrow> None | Some vs \<Rightarrow> if vs = [] then None else Some (last vs))"

definition ag_single_or :: "arguments \<Rightarrow> string \<Rightarrow> string \<Rightarrow> string" where
  "ag_single_or a name fallback = (case ag_single a name of Some v \<Rightarrow> v | None \<Rightarrow> fallback)"

definition push_option :: "string \<Rightarrow> string \<Rightarrow> arguments \<Rightarrow> arguments" where
  "push_option name v a = a\<lparr>ag_options := om_put name (ag_many a name @ [v]) (ag_options a)\<rparr>"

text \<open>The name and the value of an option token without its dashes, and the tokens left.\<close>

definition option_value :: "string \<Rightarrow> string list \<Rightarrow> string \<times> string \<times> string list" where
  "option_value name rest =
     (case split_first (CHR ''='') name of
        Some (n, v) \<Rightarrow> (n, v, rest)
      | None \<Rightarrow> (case rest of
            [] \<Rightarrow> (name, [], [])
          | v # rest' \<Rightarrow> if starts_with v ''--'' then (name, [], rest) else (name, v, rest')))"

lemma option_value_shorter: "option_value name rest = (n, v, r) \<Longrightarrow> length r \<le> length rest"
  by (auto simp: option_value_def split: option.splits list.splits if_splits prod.splits)

function parse_tokens :: "string list \<Rightarrow> arguments \<Rightarrow> arguments result" where
  "parse_tokens [] a = Inr a"
| "parse_tokens (token # rest) a =
     (if starts_with token ''--''
      then case option_value (drop 2 token) rest of
        (name, v, left) \<Rightarrow> if name = [] then err SC_InvalidArgument ''empty option name''
          else parse_tokens left (push_option name v a)
      else parse_tokens rest (a\<lparr>ag_positional := ag_positional a @ [token]\<rparr>))"
  by pat_completeness auto
termination
  by (relation "measure (\<lambda>(tokens, a). length tokens)") (auto dest: option_value_shorter[OF sym])

text \<open>The arguments after the name of the program.\<close>

definition parse_arguments :: "string list \<Rightarrow> arguments result" where
  "parse_arguments argv =
     (case argv of
        [] \<Rightarrow> err SC_InvalidArgument ''a command is required''
      | c # tokens \<Rightarrow> parse_tokens tokens \<lparr>ag_command = c, ag_options = [], ag_positional = []\<rparr>)"

section \<open>Numbers\<close>

definition is_c_space :: "char \<Rightarrow> bool" where
  "is_c_space ch \<longleftrightarrow> ch = CHR '' '' \<or> (9 \<le> (of_char ch :: nat) \<and> (of_char ch :: nat) \<le> 13)"

text \<open>The sign and the digits at the start of a text; whatever follows them is ignored.\<close>

definition signed_digits :: "string \<Rightarrow> (bool \<times> nat) option" where
  "signed_digits t =
     (let s = dropWhile is_c_space t;
          negative = (s \<noteq> [] \<and> hd s = CHR ''-'');
          signed = (negative \<or> s \<noteq> [] \<and> hd s = CHR ''+'');
          digits = takeWhile is_digit_char (if signed then tl s else s)
      in if digits = [] then None else Some (negative, decimal_reading digits))"

text \<open>\<open>None\<close> where the functions throw.\<close>

definition stoll :: "string \<Rightarrow> 64 word option" where
  "stoll t =
     (case signed_digits t of
        None \<Rightarrow> None
      | Some (negative, n) \<Rightarrow>
          (let i = (if negative then - int n else int n)
           in if - (2 ^ 63) \<le> i \<and> i < 2 ^ 63 then Some (word_of_int i) else None))"

definition stoul :: "string \<Rightarrow> 64 word option" where
  "stoul t =
     (case signed_digits t of
        None \<Rightarrow> None
      | Some (negative, n) \<Rightarrow>
          if n < 2 ^ 64 then Some (if negative then - of_nat n else of_nat n) else None)"

section \<open>Fabric\<close>

definition resolve_fabric :: "arguments \<Rightarrow> fabric_id result" where
  "resolve_fabric a =
     (let name = ag_single_or a ''fabric'' ''default''
      in if starts_with name ''fab:'' \<or> length name = 32 then id_from_text ''fab'' name
         else if \<not> is_valid_identifier name 64
         then err SC_InvalidArgument ''fabric name is restricted to [a-z0-9._-] or must be a fab:<hex> identity''
         else Inr (id_derive ''fab'' (''fabric/'' @ name)))"

section \<open>Observation files\<close>

type_synonym file_texts = "string \<Rightarrow> string option"

definition read_file :: "file_texts \<Rightarrow> string \<Rightarrow> nat \<Rightarrow> string result" where
  "read_file files path max_bytes =
     (case files path of
        None \<Rightarrow> err SC_IoError (''cannot open '' @ quoted path @ '' for reading'')
      | Some content \<Rightarrow>
          if length content > max_bytes
          then err SC_TooLarge (quoted path @ '' is larger than the configured maximum input size'')
          else Inr content)"

function load_lines :: "limits \<Rightarrow> string \<Rightarrow> nat \<Rightarrow> observation list \<Rightarrow> observation list result" where
  "load_lines l input number obs =
     (case read_bounded_line (max_observation_bytes l) [] False input of
        (EndOfInput, rest) \<Rightarrow> Inr obs
      | (TooLong, rest) \<Rightarrow>
          err SC_TooLarge (''line '' @ nat_text (number + 1) @ '' is larger than the configured maximum'')
      | (Line text, rest) \<Rightarrow>
          (let trimmed = trim text
           in if trimmed = [] \<or> hd trimmed = CHR ''#'' then load_lines l rest (number + 1) obs
              else if length obs \<ge> unat (max_batch_observations l)
              then err SC_TooLarge ''the input carries more observations than the configured maximum''
              else case observation_from_json_text trimmed default_json_limits l of
                Inl e \<Rightarrow> err (st_code e) (''line '' @ nat_text (number + 1) @ '': '' @ st_message e)
              | Inr ob \<Rightarrow> load_lines l rest (number + 1) (obs @ [ob])))"
  by pat_completeness auto
termination
  by (relation "measure (\<lambda>(l, input, number, obs). length input)") (auto dest!: read_line_consumes[OF sym])

declare load_lines.simps [simp del]

definition load_observations :: "file_texts \<Rightarrow> string \<Rightarrow> bool \<Rightarrow> limits \<Rightarrow> observation list result" where
  "load_observations files path line_delimited l =
     (if \<not> line_delimited
      then rbind (read_file files path ((max_observation_bytes l * 4 + 65536) mod 2 ^ 64)) (\<lambda>content.
        rbind (observation_from_json_text content default_json_limits l) (\<lambda>ob. Inr [ob]))
      else case files path of
        None \<Rightarrow> err SC_IoError (''cannot open '' @ quoted path @ '' for reading'')
      | Some input \<Rightarrow> load_lines l input 0 [])"

section \<open>What was written is read\<close>

text \<open>A way to write an option with any value: in one token where the value looks like an option.\<close>

definition option_tokens :: "string \<times> string \<Rightarrow> string list" where
  "option_tokens e =
     (case e of (name, v) \<Rightarrow>
        if starts_with v ''--'' then [''--'' @ name @ CHR ''='' # v] else [''--'' @ name, v])"

definition option_name :: "string \<Rightarrow> bool" where
  "option_name name \<longleftrightarrow> name \<noteq> [] \<and> CHR ''='' \<notin> set name"

lemma dashes [simp]: "starts_with (CHR ''-'' # CHR ''-'' # s) ''--''"
  by (simp add: starts_with_def)

lemma split_first_none:
  assumes "c \<notin> set cs"
  shows "split_first c cs = None"
proof -
  have "dropWhile (\<lambda>x. x \<noteq> c) cs = []" using assms by (auto simp: dropWhile_eq_Nil_conv)
  then show ?thesis by (simp only: split_first_def list.case)
qed

lemma option_value_tokens:
  assumes "option_name name"
  shows "parse_tokens (option_tokens (name, v) @ rest) a = parse_tokens rest (push_option name v a)"
proof (cases "starts_with v ''--''")
  case True
  then show ?thesis
    using assms by (simp add: option_tokens_def option_name_def option_value_def split_first_append)
next
  case False
  then have "option_value name (v # rest) = (name, v, rest)"
    using assms by (simp add: option_name_def option_value_def split_first_none)
  then show ?thesis using assms False by (simp add: option_tokens_def option_name_def)
qed

lemma push_option_sorted: "om_sorted (ag_options a) \<Longrightarrow> om_sorted (ag_options (push_option name v a))"
  by (simp add: push_option_def om_sorted_put)

lemma push_option_many:
  "om_sorted (ag_options a) \<Longrightarrow>
   ag_many (push_option name v a) n = (if n = name then ag_many a name @ [v] else ag_many a n)"
  by (simp add: push_option_def ag_many_def map_of_om_put)

lemma options_read:
  "om_sorted (ag_options a) \<Longrightarrow> \<forall>e\<in>set opts. option_name (fst e) \<Longrightarrow>
   \<exists>b. parse_tokens (concat (map option_tokens opts)) a = Inr b \<and>
     ag_command b = ag_command a \<and> ag_positional b = ag_positional a \<and>
     (\<forall>n. ag_many b n = ag_many a n @ map snd (filter (\<lambda>e. fst e = n) opts))"
proof (induction opts arbitrary: a)
  case (Cons e opts)
  obtain name v where e: "e = (name, v)" by fastforce
  have "om_sorted (ag_options (push_option name v a))" using Cons.prems(1) by (rule push_option_sorted)
  from Cons.IH[OF this] obtain b where
    "parse_tokens (concat (map option_tokens opts)) (push_option name v a) = Inr b"
    "ag_command b = ag_command a" "ag_positional b = ag_positional a"
    "\<forall>n. ag_many b n = ag_many (push_option name v a) n @ map snd (filter (\<lambda>e. fst e = n) opts)"
    using Cons.prems(2) by (auto simp: push_option_def)
  then show ?case
    using Cons.prems e option_value_tokens[of name v "concat (map option_tokens opts)" a]
    by (simp add: push_option_many)
qed simp

theorem arguments_read:
  assumes "\<forall>e\<in>set opts. option_name (fst e)"
  shows "\<exists>a. parse_arguments (command # concat (map option_tokens opts)) = Inr a \<and> ag_command a = command \<and>
    ag_positional a = [] \<and> (\<forall>n. ag_many a n = map snd (filter (\<lambda>e. fst e = n) opts))"
  using options_read[OF _ assms, of "\<lparr>ag_command = command, ag_options = [], ag_positional = []\<rparr>"]
  by (auto simp: parse_arguments_def om_sorted_def ag_many_def)

section \<open>What is loaded is valid\<close>

definition loadable :: "limits \<Rightarrow> observation list \<Rightarrow> bool" where
  "loadable l obs \<longleftrightarrow> length obs \<le> unat (max_batch_observations l) \<and>
     (\<forall>ob\<in>set obs. observation_validate l ob = Inr () \<and> canonicalize ob = ob)"

lemma from_json_text_valid:
  "observation_from_json_text t jl l = Inr ob \<Longrightarrow> observation_validate l ob = Inr () \<and> canonicalize ob = ob"
  by (auto simp: observation_from_json_text_def rbind_Inr_iff intro: observation_from_json_valid[THEN conjunct1]
      observation_from_json_valid[THEN conjunct2])

lemma load_lines_step:
  "read_bounded_line (max_observation_bytes l) [] False input = (EndOfInput, rest) \<Longrightarrow> load_lines l input k obs = Inr obs"
  "read_bounded_line (max_observation_bytes l) [] False input = (TooLong, rest) \<Longrightarrow> \<exists>e. load_lines l input k obs = Inl e"
  "read_bounded_line (max_observation_bytes l) [] False input = (Line t, rest) \<Longrightarrow> trim t = [] \<or> hd (trim t) = CHR ''#'' \<Longrightarrow>
   load_lines l input k obs = load_lines l rest (k + 1) obs"
  "read_bounded_line (max_observation_bytes l) [] False input = (Line t, rest) \<Longrightarrow> trim t \<noteq> [] \<Longrightarrow> hd (trim t) \<noteq> CHR ''#'' \<Longrightarrow>
   length obs \<ge> unat (max_batch_observations l) \<Longrightarrow> \<exists>e. load_lines l input k obs = Inl e"
  "read_bounded_line (max_observation_bytes l) [] False input = (Line t, rest) \<Longrightarrow> trim t \<noteq> [] \<Longrightarrow> hd (trim t) \<noteq> CHR ''#'' \<Longrightarrow>
   length obs < unat (max_batch_observations l) \<Longrightarrow>
   observation_from_json_text (trim t) default_json_limits l = Inl e \<Longrightarrow> \<exists>e. load_lines l input k obs = Inl e"
  "read_bounded_line (max_observation_bytes l) [] False input = (Line t, rest) \<Longrightarrow> trim t \<noteq> [] \<Longrightarrow> hd (trim t) \<noteq> CHR ''#'' \<Longrightarrow>
   length obs < unat (max_batch_observations l) \<Longrightarrow>
   observation_from_json_text (trim t) default_json_limits l = Inr ob \<Longrightarrow>
   load_lines l input k obs = load_lines l rest (k + 1) (obs @ [ob])"
  by (subst load_lines.simps, simp add: err_def Let_def)+

lemma load_lines_valid:
  "load_lines l input k obs = Inr out \<Longrightarrow> loadable l obs \<Longrightarrow> loadable l out"
proof (induction "length input" arbitrary: input k obs rule: less_induct)
  case less
  let ?n = "max_observation_bytes l"
  obtain r rest where read: "read_bounded_line ?n [] False input = (r, rest)" by fastforce
  show ?case
  proof (cases r)
    case EndOfInput
    then show ?thesis using less read load_lines_step(1) by simp
  next
    case TooLong
    then show ?thesis using less(2) read load_lines_step(2)[of l input rest k obs] by simp
  next
    case (Line t)
    have shorter: "length rest < length input" using read_line_consumes[OF read] Line by simp
    note read = read[unfolded Line]
    show ?thesis
    proof (cases "trim t = [] \<or> hd (trim t) = CHR ''#''")
      case True
      then show ?thesis using less(1)[OF shorter _ less(3)] less(2) load_lines_step(3)[OF read True] by simp
    next
      case False
      then have starts: "trim t \<noteq> []" "hd (trim t) \<noteq> CHR ''#''" by simp_all
      have room: "length obs < unat (max_batch_observations l)"
        using less(2) load_lines_step(4)[OF read starts, of obs k] by (cases "length obs < unat (max_batch_observations l)") auto
      obtain ob where ob: "observation_from_json_text (trim t) default_json_limits l = Inr ob"
        using less(2) load_lines_step(5)[OF read starts room, where k = k]
        by (cases "observation_from_json_text (trim t) default_json_limits l") auto
      have "loadable l (obs @ [ob])"
        using less(3) room from_json_text_valid[OF ob] by (auto simp: loadable_def)
      then show ?thesis
        using less(1)[OF shorter] less(2) load_lines_step(6)[OF read starts room ob, where k = k] by simp
    qed
  qed
qed

theorem load_observations_valid:
  assumes "load_observations files path delimited l = Inr obs"
    "delimited \<or> max_batch_observations l \<noteq> 0"
  shows "loadable l obs"
proof (cases delimited)
  case True
  then show ?thesis
    using assms(1) load_lines_valid[of l _ 0 "[]" obs]
    by (auto simp: load_observations_def loadable_def split: option.splits)
next
  case False
  then obtain t ob where "observation_from_json_text t default_json_limits l = Inr ob" "obs = [ob]"
    using assms(1) by (auto simp: load_observations_def rbind_Inr_iff)
  then show ?thesis
    using from_json_text_valid assms(2) False by (auto simp: loadable_def word_neq_0_conv unat_gt_0 Suc_le_eq)
qed

section \<open>An observation per line\<close>

definition one_line :: "limits \<Rightarrow> observation \<Rightarrow> bool" where
  "one_line l ob \<longleftrightarrow> wf_observation l ob \<and> bases_fit l ob \<and> json_fits default_json_limits 0 (observation_to_json ob) \<and>
     json_nodes (observation_to_json ob) \<le> jl_max_nodes default_json_limits \<and>
     length (observation_to_json_text False ob) \<le> min (max_observation_bytes l) (jl_max_input_bytes default_json_limits)"

lemma observation_line_trim:
  "trim (observation_to_json_text pretty ob) = observation_to_json_text pretty ob"
  "observation_to_json_text pretty ob \<noteq> []" "hd (observation_to_json_text pretty ob) \<noteq> CHR ''#''"
  by (simp_all add: observation_to_json_text_def observation_to_json_def json_texts_def object_text_trim)
    (simp_all add: json_to_text_def)

lemma read_first_line:
  assumes "newline \<notin> set t" "length t \<le> n"
  shows "read_bounded_line n [] False (line t @ s) = (Line t, s)"
proof -
  have "\<forall>c\<in>set t. c \<noteq> newline" using assms(1) by auto
  then have "takeWhile (\<lambda>c. c \<noteq> newline) (line t @ s) = t" "dropWhile (\<lambda>c. c \<noteq> newline) (line t @ s) = newline # s"
    by (simp_all add: takeWhile_append2 dropWhile_append2)
  then show ?thesis using read_unfold[of "[]" n "line t @ s"] assms(2) by simp
qed

lemma load_written_lines:
  assumes "wf_limits l"
  shows "\<forall>ob\<in>set obs. one_line l ob \<Longrightarrow> length acc + length obs \<le> unat (max_batch_observations l) \<Longrightarrow>
    load_lines l (server_output (map (observation_to_json_text False) obs)) k acc = Inr (acc @ obs)"
proof (induction obs arbitrary: k acc)
  case Nil
  then show ?case by (subst load_lines.simps) (simp add: server_output_def)
next
  case (Cons ob obs)
  let ?t = "observation_to_json_text False ob"
  let ?rest = "server_output (map (observation_to_json_text False) obs)"
  have ok: "one_line l ob" using Cons.prems by simp
  have "newline \<notin> set ?t"
    using printable_no_newline[OF compact_text_printable] by (simp add: observation_to_json_text_def)
  then have read: "read_bounded_line (max_observation_bytes l) [] False (line ?t @ ?rest) = (Line ?t, ?rest)"
    using ok by (intro read_first_line) (simp_all add: one_line_def)
  have parsed: "observation_from_json_text (trim ?t) default_json_limits l = Inr ob"
    using ok assms unfolding observation_line_trim(1) one_line_def by (intro observation_json_text_round_trip) simp_all
  have "load_lines l (line ?t @ ?rest) k acc = load_lines l ?rest (k + 1) (acc @ [ob])"
    using Cons.prems by (intro load_lines_step(6)[OF read _ _ _ parsed]) (simp_all add: observation_line_trim)
  then show ?case using Cons by (simp add: server_output_def)
qed

theorem load_written:
  assumes "wf_limits l" "\<forall>ob\<in>set obs. one_line l ob" "length obs \<le> unat (max_batch_observations l)"
    and "files path = Some (server_output (map (observation_to_json_text False) obs))"
  shows "load_observations files path True l = Inr obs"
  using load_written_lines[OF assms(1,2), of "[]" 0] assms(3,4) by (simp add: load_observations_def)

end
