(* ===== verification/Fab_Cli.thy ===== *)
theory Fab_Cli
  imports Fab_Arguments
begin

text \<open>
  The commands of \<^verbatim>\<open>fabobs_main.cpp\<close>. A run of the tool is its exit code, what it wrote to the
  two streams and to the \<^verbatim>\<open>--out\<close> file, and the observatory it left, shut down by the command or
  by the destructor. A run that ends in an uncaught exception or a violated contract has no exit
  code. The system clock, the files, standard input, the auditor's report and the identity of the
  build are arguments.
\<close>

section \<open>The environment and the outcome of a run\<close>

record tool_environment =
  te_clock :: "nat \<Rightarrow> time_point"
  te_files :: file_texts
  te_disk :: disk
  te_faults :: "io_outcome list"
  te_stdin :: string
  te_audit :: "nat \<Rightarrow> lock_audit_report"
  te_build :: "string list"

record tool_run =
  tr_exit :: "nat option"
  tr_out :: string
  tr_err :: string
  tr_file :: "(string \<times> string) option"
  tr_observatory :: "observatory option"

definition exit_ok :: nat where "exit_ok = 0"
definition exit_usage :: nat where "exit_usage = 1"
definition exit_failure :: nat where "exit_failure = 2"

definition printed :: "nat \<Rightarrow> string \<Rightarrow> string \<Rightarrow> observatory option \<Rightarrow> tool_run" where
  "printed code out errors ov = \<lparr>tr_exit = Some code, tr_out = out, tr_err = errors, tr_file = None,
     tr_observatory = map_option shutdown ov\<rparr>"

definition complain :: "nat \<Rightarrow> string \<Rightarrow> observatory option \<Rightarrow> tool_run" where
  "complain code what ov = printed code [] (line (''fabobs: '' @ what)) ov"

definition aborted :: "observatory \<Rightarrow> tool_run" where
  "aborted ov = \<lparr>tr_exit = None, tr_out = [], tr_err = [], tr_file = None, tr_observatory = Some ov\<rparr>"

text \<open>\<^verbatim>\<open>emit\<close>, then the exit of the command. The result of the write is not looked at.\<close>

definition emit :: "arguments \<Rightarrow> string \<Rightarrow> nat \<Rightarrow> observatory \<Rightarrow> tool_run" where
  "emit a t code ov =
     (case ag_single a ''out'' of
        None \<Rightarrow> printed code t [] (Some ov)
      | Some path \<Rightarrow>
          (printed code (line (''wrote '' @ nat_text (length t) @ '' bytes to '' @ path)) [] (Some ov))
            \<lparr>tr_file := Some (path, t)\<rparr>)"

definition usage_text :: string where
  "usage_text = concat (map line
     [''fabobs '' @ version_string @ '' - Fabric Observatory runtime tooling'',
      [],
      ''usage: fabobs <command> [options]'',
      [],
      ''commands:'',
      ''  version                       print version, schema and build identity'',
      ''  serve                         run the newline delimited JSON protocol on stdio'',
      ''  ingest                        ingest one observation file or a batch file'',
      ''  snapshot                      print the current snapshot'',
      ''  query                         query the current snapshot'',
      ''  hierarchy                     print the observed topology hierarchy'',
      ''  diff                          diff two retained snapshots'',
      ''  history                       list retained snapshots'',
      ''  explain                       explain the truth state of a subject or aspect'',
      ''  sources                       list observed sources'',
      ''  verify                        verify and report journal recovery'',
      ''  policy                        print the effective deterministic policy'',
      [],
      ''common options:'',
      ''  --journal PATH                journal file (enables persistence and recovery)'',
      ''  --fabric NAME|fab:HEX         fabric identity (default: derived from '' @ quoted ''default'' @ '')'',
      ''  --pretty                      pretty print JSON output'',
      ''  --no-claims                   omit per claim evidence from JSON output'',
      ''  --out PATH                    write output to a file instead of stdout'',
      ''  --evaluation-time NANOS       explicit evaluation time for freshness'',
      ''  --clock system|manual[:NANOS] clock source (manual makes a replay reproducible)'',
      [],
      ''ingest options:'',
      ''  --observation PATH            one observation as JSON'',
      ''  --observations PATH           newline delimited observations as JSON'',
      [],
      ''query options:'',
      ''  --kind KIND --domain DOMAIN --truth STATE --aspect ASPECT'',
      ''  --subtree ENTITY --limit N --max-depth N'',
      [],
      ''diff options:'',
      ''  --before SNAPSHOT --after SNAPSHOT   or   --lookback N'',
      ''  --batch                               emit every diff up to lookback'',
      [],
      ''explain options:'',
      ''  --subject TYPED_IDENTITY --aspect ASPECT'',
      ''  --all-aspects                         explain every aspect of the subject'',
      [],
      ''serve options:'',
      ''  --stdio                               required; the transport is stdin/stdout''])"

section \<open>Opening\<close>

record opened =
  op_observatory :: observatory
  op_pretty :: bool
  op_claims :: bool

definition choose_clock :: "arguments \<Rightarrow> (nat \<Rightarrow> time_point) \<Rightarrow> (nat \<Rightarrow> time_point) result" where
  "choose_clock a system_clock =
     (let option = ag_single_or a ''clock'' ''system''
      in if option = ''system'' then Inr system_clock
         else if option = ''manual'' then Inr (\<lambda>_. TimePoint 0)
         else if starts_with option ''manual:''
         then (case stoll (drop 7 option) of
             Some start \<Rightarrow> Inr (\<lambda>_. TimePoint start)
           | None \<Rightarrow> err SC_InvalidArgument ''--clock manual:<nanoseconds> requires a decimal value'')
         else err SC_InvalidArgument (''--clock must be '' @ quoted ''system'' @ '', '' @ quoted ''manual'' @ '' or '' @
           quoted ''manual:<nanoseconds>''))"

definition default_journal_options :: journal_options where
  "default_journal_options = \<lparr>jo_fabric = BasicId nil_u128, jo_max_bytes = 64 * 1024 * 1024, jo_max_files = 8,
     jo_max_record_bytes = 4 * 1024 * 1024, jo_max_recovered_observations = 1048576, jo_limits = default_limits\<rparr>"

definition tool_config :: "arguments \<Rightarrow> fabric_id \<Rightarrow> observatory_config" where
  "tool_config a fabric = \<lparr>oc_fabric = fabric,
     oc_policy = default_policy\<lparr>policy_name := ag_single_or a ''policy'' ''default''\<rparr>,
     oc_journal_path = ag_single_or a ''journal'' [], oc_journal = default_journal_options,
     oc_recover_on_open = True\<rparr>"

definition open_observatory :: "tool_environment \<Rightarrow> arguments \<Rightarrow> opened result" where
  "open_observatory env a =
     rbind (resolve_fabric a) (\<lambda>fabric.
     rbind (choose_clock a (te_clock env)) (\<lambda>clock.
     rbind (observatory_open (tool_config a fabric) clock (te_disk env) (te_faults env)) (\<lambda>ov.
     Inr \<lparr>op_observatory = ov, op_pretty = ag_has a ''pretty'', op_claims = \<not> ag_has a ''no-claims''\<rparr>)))"

text \<open>The first lines of every command that needs an observatory.\<close>

definition with_observatory :: "tool_environment \<Rightarrow> arguments \<Rightarrow> (opened \<Rightarrow> tool_run) \<Rightarrow> tool_run" where
  "with_observatory env a command =
     (case open_observatory env a of
        Inl e \<Rightarrow> complain exit_failure (status_text e) None
      | Inr opened \<Rightarrow> command opened)"

definition evaluation_time :: "arguments \<Rightarrow> observatory \<Rightarrow> time_point result \<times> observatory" where
  "evaluation_time a ov =
     (case ag_single a ''evaluation-time'' of
        Some raw \<Rightarrow> ((case stoll raw of Some t \<Rightarrow> Inr (TimePoint t)
          | None \<Rightarrow> err SC_InvalidArgument ''evaluation time must be an integer''), ov)
      | None \<Rightarrow> (let (s, ov) = current ov in (Inr (sn_evaluation_time s), ov)))"

definition json_line :: "opened \<Rightarrow> json \<Rightarrow> string" where
  "json_line o' j = line (json_to_text (op_pretty o') j)"

section \<open>Commands\<close>

definition command_version :: "tool_environment \<Rightarrow> tool_run" where
  "command_version env = printed exit_ok
     (line (''fabobs '' @ version_string) @ line (''observation schema: '' @ observation_schema) @
      line (''journal format version: '' @ num journal_format_version) @ concat (map line (te_build env))) [] None"

definition pad_right :: "nat \<Rightarrow> string \<Rightarrow> string" where
  "pad_right n s = s @ replicate (n - length s) (CHR '' '')"

definition policy_report :: "policy \<Rightarrow> string" where
  "policy_report p =
     line (policy_canonical_text p) @ line (''digest: '' @ digest_to_hex (policy_digest p)) @
     line (''fresh window: '' @ int_text (sint (du_nanos (fresh_window (p_freshness p)))) @ '' ns'') @
     line (''aging window: '' @ int_text (sint (du_nanos (aging_window (p_freshness p)))) @ '' ns'') @
     line (''max clock skew: '' @ int_text (sint (du_nanos (max_clock_skew (p_freshness p)))) @ '' ns'') @
     line (''recovered evidence may be fresh: '' @ yes_no (allow_recovered_as_fresh (p_freshness p))) @
     line (''strict generation fence: '' @ yes_no (strict_generation_fence (p_ingest p))) @
     line (''default coverage: '' @ num (min_distinct_fresh_sources (default_coverage (p_truth p))) @
       '' fresh source(s), authority >= '' @ authority_text (required_authority (default_coverage (p_truth p)))) @
     concat (map (\<lambda>d. line (''  '' @ pad_right 28 (ad_name d) @ '' '' @ pad_right 18 (domain_text (ad_domain d)) @
       '' sources>='' @ num (ad_required_sources d) @ '' authority>='' @ authority_text (ad_required_authority d)))
       well_known_aspects)"

definition command_policy :: "arguments \<Rightarrow> tool_run" where
  "command_policy a =
     (let p = default_policy\<lparr>policy_name := ag_single_or a ''policy'' ''default''\<rparr>
      in case policy_validate p of
           Inl e \<Rightarrow> printed exit_failure [] (line (''invalid policy: '' @ status_text e)) None
         | Inr _ \<Rightarrow> printed exit_ok (policy_report p) [] None)"

definition command_serve :: "tool_environment \<Rightarrow> arguments \<Rightarrow> tool_run" where
  "command_serve env a = with_observatory env a (\<lambda>o'.
     let (out, ov, st, left) = run_stdio_server
           (default_transport_options\<lparr>to_pretty := op_pretty o', to_include_claims := op_claims o'\<rparr>)
           (te_audit env) (te_stdin env) (op_observatory o') no_requests
     in printed exit_ok (server_output out) [] (Some ov))"

definition ingest_report_text :: "batch_report \<Rightarrow> string" where
  "ingest_report_text r =
     line (''accepted '' @ num (br_accepted r) @ '' duplicates '' @ num (br_duplicates r) @ '' fenced '' @ num (br_fenced r) @
       '' rejected '' @ num (br_rejected r)) @
     line (''snapshot '' @ snapshot_id_to_text (br_snapshot r)) @
     concat (map (\<lambda>x. line (''  '' @ disposition_text (ig_disposition x) @ '' '' @ status_code_text (ig_code x) @ '': '' @
       ig_explanation x)) (filter (\<lambda>x. ig_disposition x \<noteq> ID_Accepted) (br_outcomes r)))"

text \<open>With both options the path of the first is read as the second's: one observation per line.\<close>

definition command_ingest :: "tool_environment \<Rightarrow> arguments \<Rightarrow> tool_run" where
  "command_ingest env a = with_observatory env a (\<lambda>o'.
     let ov = op_observatory o'; single = ag_single a ''observation''; batch = ag_single a ''observations''
     in case (case single of Some p \<Rightarrow> Some p | None \<Rightarrow> batch) of
          None \<Rightarrow> complain exit_usage ''ingest requires --observation PATH or --observations PATH'' (Some ov)
        | Some path \<Rightarrow>
            (case load_observations (te_files env) path (batch \<noteq> None) (ov_limits ov) of
               Inl e \<Rightarrow> complain exit_failure (status_text e) (Some ov)
             | Inr obs \<Rightarrow>
                 (case ingest_batch obs PublishSnapshot ov of
                    (Inl e, ov) \<Rightarrow> complain exit_failure (status_text e) (Some ov)
                  | (Inr r, ov) \<Rightarrow>
                      emit a (ingest_report_text r) (if br_rejected r > 0 then exit_failure else exit_ok) ov)))"

text \<open>A malformed evaluation time is dereferenced as it is: the contract of the result aborts.\<close>

definition command_snapshot :: "tool_environment \<Rightarrow> arguments \<Rightarrow> tool_run" where
  "command_snapshot env a = with_observatory env a (\<lambda>o'.
     case evaluation_time a (op_observatory o') of
       (Inl e, ov) \<Rightarrow> aborted ov
     | (Inr at_time, ov) \<Rightarrow>
         (let (s, ov) = refresh at_time ov in emit a (json_line o' (snapshot_to_json (op_claims o') s)) exit_ok ov))"

text \<open>An option read by a parser, absent when it was not given; a malformed one is a usage error.\<close>

definition parsed_option :: "arguments \<Rightarrow> string \<Rightarrow> (string \<Rightarrow> 'a result) \<Rightarrow> 'a option result" where
  "parsed_option a name parse =
     (case ag_single a name of None \<Rightarrow> Inr None | Some t \<Rightarrow> rbind (parse t) (\<lambda>x. Inr (Some x)))"

definition named_options :: "arguments \<Rightarrow> string \<Rightarrow> string \<Rightarrow> (string \<Rightarrow> 'a option) \<Rightarrow> (string + 'a list)" where
  "named_options a name what parse =
     (case find (\<lambda>t. parse t = None) (ag_many a name) of
        Some t \<Rightarrow> Inl (''unknown '' @ what @ '' '' @ quoted t)
      | None \<Rightarrow> Inr (map (\<lambda>t. the (parse t)) (ag_many a name)))"

definition complaint :: "'a result \<Rightarrow> (string + 'a)" where
  "complaint r = (case r of Inl e \<Rightarrow> Inl (status_text e) | Inr x \<Rightarrow> Inr x)"

text \<open>A number option: \<open>None\<close> is an uncaught exception.\<close>

definition u32_option :: "arguments \<Rightarrow> string \<Rightarrow> 32 word option" where
  "u32_option a name =
     (case ag_single a name of None \<Rightarrow> Some 0 | Some t \<Rightarrow> map_option ucast (stoul t))"

abbreviation sbind :: "('e + 'a) \<Rightarrow> ('a \<Rightarrow> 'e + 'b) \<Rightarrow> ('e + 'b)" where
  "sbind r f \<equiv> (case r of Inl e \<Rightarrow> Inl e | Inr x \<Rightarrow> f x)"

definition tool_filter :: "arguments \<Rightarrow> bool \<Rightarrow> (string + query_filter)" where
  "tool_filter a claims =
     sbind (complaint (parsed_option a ''kind'' entity_kind_from_string)) (\<lambda>kind.
     sbind (named_options a ''domain'' ''domain'' domain_from_string) (\<lambda>domains.
     sbind (named_options a ''truth'' ''truth state'' truth_from_string) (\<lambda>truths.
     sbind (complaint (parsed_option a ''aspect'' aspect_parse)) (\<lambda>aspect.
     sbind (complaint (parsed_option a ''subtree'' entity_id_from_text)) (\<lambda>root.
     Inr (default_query_filter\<lparr>qf_kind := kind, qf_domains := domains, qf_truths := truths, qf_aspect := aspect,
       qf_subtree_root := root, qf_include_claims := claims, qf_include_conflicts := True\<rparr>))))))"

definition command_query :: "tool_environment \<Rightarrow> arguments \<Rightarrow> tool_run" where
  "command_query env a = with_observatory env a (\<lambda>o'.
     let ov = op_observatory o'
     in case tool_filter a (op_claims o') of
          Inl what \<Rightarrow> complain exit_usage what (Some ov)
        | Inr f \<Rightarrow>
            (case (u32_option a ''limit'', u32_option a ''max-depth'') of
               (Some lim, Some depth) \<Rightarrow>
                 (let (r, ov) = ov_query (f\<lparr>qf_limit := lim, qf_max_depth := depth\<rparr>) ov
                  in emit a (if ag_has a ''text'' then query_summary r else json_line o' (query_result_to_json r)) exit_ok ov)
             | _ \<Rightarrow> aborted ov))"

definition command_hierarchy :: "tool_environment \<Rightarrow> arguments \<Rightarrow> tool_run" where
  "command_hierarchy env a = with_observatory env a (\<lambda>o'.
     let ov = op_observatory o'
     in case sbind (complaint (parsed_option a ''root-kind'' entity_kind_from_string)) (\<lambda>kind.
          sbind (complaint (parsed_option a ''root'' entity_id_from_text)) (\<lambda>root. Inr (kind, root))) of
          Inl what \<Rightarrow> complain exit_usage what (Some ov)
        | Inr (kind, root) \<Rightarrow>
            (case u32_option a ''max-depth'' of
               None \<Rightarrow> aborted ov
             | Some depth \<Rightarrow>
                 (let (r, ov) = ov_hierarchy
                        (default_hierarchy_query\<lparr>hq_root_kind := kind, hq_root := root, hq_max_depth := depth\<rparr>) ov
                  in emit a (json_line o' (hierarchy_result_to_json r)) exit_ok ov)))"

definition command_diff :: "tool_environment \<Rightarrow> arguments \<Rightarrow> tool_run" where
  "command_diff env a = with_observatory env a (\<lambda>o'.
     let ov = op_observatory o';
         report = (\<lambda>r. case r of
             Inl e \<Rightarrow> complain exit_failure (status_text e) (Some ov)
           | Inr d \<Rightarrow> emit a (if ag_has a ''text'' then diff_summary d else json_line o' (diff_to_json d)) exit_ok ov)
     in case (ag_single a ''before'', ag_single a ''after'') of
          (Some before, Some after) \<Rightarrow>
            report (rbind (snapshot_id_from_text before) (\<lambda>first.
              rbind (snapshot_id_from_text after) (\<lambda>second. ov_diff first second ov)))
        | _ \<Rightarrow> (case stoul (ag_single_or a ''lookback'' ''1'') of
              None \<Rightarrow> aborted ov
            | Some lookback \<Rightarrow> report (ov_diff_latest (ucast lookback) ov)))"

definition command_history :: "tool_environment \<Rightarrow> arguments \<Rightarrow> tool_run" where
  "command_history env a = with_observatory env a (\<lambda>o'.
     let ov = op_observatory o'
     in case stoul (ag_single_or a ''max'' ''16'') of
          None \<Rightarrow> aborted ov
        | Some n \<Rightarrow> emit a (json_line o' (JObject
            [(''entries'', JArray (map history_entry_to_json (ov_history_entries (ucast n) ov)))])) exit_ok ov)"

definition command_explain :: "tool_environment \<Rightarrow> arguments \<Rightarrow> tool_run" where
  "command_explain env a = with_observatory env a (\<lambda>o'.
     let ov = op_observatory o'
     in case ag_single a ''subject'' of
          None \<Rightarrow> complain exit_usage ''explain requires --subject TYPED_IDENTITY'' (Some ov)
        | Some subject \<Rightarrow>
            (case sbind (complaint (subject_from_text subject)) (\<lambda>identity.
               sbind (complaint (parsed_option a ''aspect'' aspect_parse)) (\<lambda>aspect. Inr (identity, aspect))) of
               Inl what \<Rightarrow> complain exit_usage what (Some ov)
             | Inr (identity, aspect) \<Rightarrow>
                 (let (e, ov) = ov_explain (subject_ref identity) aspect ov
                  in emit a (if ag_has a ''text'' then explanation_text e else json_line o' (explanation_to_json e))
                    exit_ok ov)))"

definition command_sources :: "tool_environment \<Rightarrow> arguments \<Rightarrow> tool_run" where
  "command_sources env a = with_observatory env a (\<lambda>o'.
     let (ss, ov) = sources_now (op_observatory o')
     in emit a (json_line o' (JObject [(''sources'', JArray (map source_summary_to_json ss))])) exit_ok ov)"

definition command_verify :: "tool_environment \<Rightarrow> arguments \<Rightarrow> tool_run" where
  "command_verify env a =
     (if ag_single a ''journal'' = None then complain exit_usage ''verify requires --journal PATH'' None
      else with_observatory env a (\<lambda>o'.
        let ov = op_observatory o'; r = ov_recovery ov
        in emit a (recovery_report_text r)
          (if rr_format_supported r \<and> \<not> rr_corrupt r \<and> \<not> rr_truncated r then exit_ok else exit_failure) ov))"

definition tool_main :: "tool_environment \<Rightarrow> string list \<Rightarrow> tool_run" where
  "tool_main env argv =
     (case parse_arguments argv of
        Inl e \<Rightarrow> printed exit_usage usage_text [] None
      | Inr a \<Rightarrow>
          (let c = ag_command a
           in if c = ''version'' \<or> c = ''--version'' \<or> c = ''-v'' then command_version env
              else if c = ''help'' \<or> c = ''--help'' \<or> c = ''-h'' then printed exit_ok usage_text [] None
              else if c = ''policy'' then command_policy a
              else if c = ''serve'' then command_serve env a
              else if c = ''ingest'' then command_ingest env a
              else if c = ''snapshot'' then command_snapshot env a
              else if c = ''query'' then command_query env a
              else if c = ''hierarchy'' then command_hierarchy env a
              else if c = ''diff'' then command_diff env a
              else if c = ''history'' then command_history env a
              else if c = ''explain'' then command_explain env a
              else if c = ''sources'' then command_sources env a
              else if c = ''verify'' then command_verify env a
              else printed exit_usage usage_text (line (''fabobs: unknown command '' @ quoted c)) None))"

end
