(* ===== verification/Fab_Tool.thy ===== *)
theory Fab_Tool
  imports Fab_Cli
begin

text \<open>
  What the commands of the tool do to the observatory they open: every run leaves a state the
  runtime reaches from the opened one, and every command but \<^verbatim>\<open>ingest\<close> and \<^verbatim>\<open>serve\<close> leaves the
  evidence as it was. The exit code of \<^verbatim>\<open>ingest\<close> tells whether an observation was rejected, and a
  run under a manual clock does not depend on the system clock.
\<close>

section \<open>What a run leaves\<close>

definition only_reads :: "observatory \<Rightarrow> observatory \<Rightarrow> bool" where
  "only_reads ov ov' \<longleftrightarrow> runtime_reaches ov ov' \<and> evidence_kept ov ov'"

definition leaves :: "(observatory \<Rightarrow> observatory \<Rightarrow> bool) \<Rightarrow> observatory \<Rightarrow> tool_run \<Rightarrow> bool" where
  "leaves P ov r \<longleftrightarrow> (\<forall>ov'. tr_observatory r = Some ov' \<longrightarrow> P ov ov')"

lemma leaves_simps [simp]:
  "leaves P ov (printed code out errors None)" "leaves P ov (complain code what None)"
  "leaves P ov (printed code out errors (Some ov1)) \<longleftrightarrow> P ov (shutdown ov1)"
  "leaves P ov (complain code what (Some ov1)) \<longleftrightarrow> P ov (shutdown ov1)"
  "leaves P ov (emit a t code ov1) \<longleftrightarrow> P ov (shutdown ov1)"
  "leaves P ov (aborted ov1) \<longleftrightarrow> P ov ov1"
  by (auto simp: leaves_def printed_def complain_def emit_def aborted_def split: option.split)

lemma reads_refl [simp]: "only_reads ov ov"
  by (simp add: only_reads_def evidence_kept_def)

lemma reads_trans: "only_reads a b \<Longrightarrow> only_reads b c \<Longrightarrow> only_reads a c"
  by (auto simp: only_reads_def intro: evidence_kept_trans)

lemma shutdown_reads: "only_reads ov (shutdown ov)"
  using step_shutdown[of ov] by (auto simp: only_reads_def evidence_kept_def shutdown_def)

lemma effect_reads: "request_effect op ov ov' \<Longrightarrow> op \<noteq> ''ingest'' \<Longrightarrow> op \<noteq> ''ingest_batch'' \<Longrightarrow> only_reads ov ov'"
  by (simp add: only_reads_def effect_reaches reading_keeps_evidence)

lemma current_reads: "current ov = (s, ov') \<Longrightarrow> only_reads ov ov'"
  using effect_reads[OF effect_current, of ov s ov' "''query''"] by simp

lemma reading_reads:
  "sources_now ov = (ss, ov2) \<Longrightarrow> only_reads ov ov2" "refresh t ov = (s, ov3) \<Longrightarrow> only_reads ov ov3"
  "ov_query f ov = (r, ov4) \<Longrightarrow> only_reads ov ov4" "ov_hierarchy q ov = (h, ov5) \<Longrightarrow> only_reads ov ov5"
  "ov_explain i a ov = (e, ov6) \<Longrightarrow> only_reads ov ov6" "evaluation_time args ov = (at_time, ov7) \<Longrightarrow> only_reads ov ov7"
  using effect_reads[OF effect_sources, of ov ss ov2 "''sources''"] effect_reads[OF effect_refresh, of t ov s ov3]
    effect_reads[of "''query''" ov ov4] effect_reads[of "''query''" ov ov5] effect_reads[of "''query''" ov ov6]
    reading_effects(1)[of f ov r ov4 "''query''"] reading_effects(2)[of q ov h ov5 "''query''"]
    reading_effects(3)[of i a ov e ov6 "''query''"] current_reads[of ov _ ov7]
  by (simp_all add: evaluation_time_def split: option.splits prod.splits)

section \<open>The commands\<close>

text \<open>The run left an observatory related to the one it opened.\<close>

definition left_by :: "(observatory \<Rightarrow> observatory \<Rightarrow> bool) \<Rightarrow> tool_environment \<Rightarrow> arguments \<Rightarrow> tool_run \<Rightarrow> bool" where
  "left_by P env a r \<longleftrightarrow> (\<forall>ov'. tr_observatory r = Some ov' \<longrightarrow>
     (\<exists>o'. open_observatory env a = Inr o' \<and> P (op_observatory o') ov'))"

lemma ran_with:
  "(\<And>o'. open_observatory env a = Inr o' \<Longrightarrow> leaves P (op_observatory o') (k o')) \<Longrightarrow> left_by P env a (with_observatory env a k)"
  by (auto simp: left_by_def with_observatory_def complain_def printed_def leaves_def split: sum.splits)

lemma ran_printed [simp]: "left_by P env a (printed code out errors None)" "left_by P env a (complain code what None)"
  by (simp_all add: left_by_def printed_def complain_def)

lemma shut_after: "only_reads ov ov' \<Longrightarrow> only_reads ov (shutdown ov')"
  using reads_trans shutdown_reads by blast

lemmas left_simps = Let_def shut_after reading_reads shutdown_reads

lemma command_snapshot_reads: "left_by only_reads env a (command_snapshot env a)"
  unfolding command_snapshot_def
  by (rule ran_with) (auto simp: left_simps split: prod.split sum.split dest: reading_reads intro: reads_trans[THEN shut_after])

lemma command_query_reads: "left_by only_reads env a (command_query env a)"
  unfolding command_query_def
  by (rule ran_with) (auto simp: left_simps split: prod.split sum.split option.split)

lemma command_hierarchy_reads: "left_by only_reads env a (command_hierarchy env a)"
  unfolding command_hierarchy_def
  by (rule ran_with) (auto simp: left_simps split: prod.split sum.split option.split)

lemma command_diff_reads: "left_by only_reads env a (command_diff env a)"
  unfolding command_diff_def
  by (rule ran_with) (auto simp: left_simps split: prod.split sum.split option.split)

lemma command_history_reads: "left_by only_reads env a (command_history env a)"
  unfolding command_history_def
  by (rule ran_with) (auto simp: left_simps split: option.split)

lemma command_explain_reads: "left_by only_reads env a (command_explain env a)"
  unfolding command_explain_def
  by (rule ran_with) (auto simp: left_simps split: prod.split sum.split option.split)

lemma command_sources_reads: "left_by only_reads env a (command_sources env a)"
  unfolding command_sources_def
  by (rule ran_with) (auto simp: left_simps split: prod.split)

lemma command_verify_reads: "left_by only_reads env a (command_verify env a)"
  unfolding command_verify_def by (simp, intro impI ran_with) (simp add: left_simps)

lemma batch_step: "ingest_batch obs options ov = (r, ov') \<Longrightarrow> runtime_reaches ov ov'"
  using step_batch by blast

lemma shut_reaches: "runtime_reaches ov ov' \<Longrightarrow> runtime_reaches ov (shutdown ov')"
  using step_shutdown[of ov'] by (simp add: rtranclp.rtrancl_into_rtrancl)

lemma command_serve_reaches: "left_by runtime_reaches env a (command_serve env a)"
  unfolding command_serve_def
  by (rule ran_with) (auto simp: Let_def dest: run_responses intro: shut_reaches split: prod.split)

lemma command_ingest_reaches: "left_by runtime_reaches env a (command_ingest env a)"
  unfolding command_ingest_def
  by (rule ran_with) (auto simp: Let_def intro: shut_reaches batch_step split: prod.split option.split sum.split)

lemma ran_reads_reaches: "left_by only_reads env a r \<Longrightarrow> left_by runtime_reaches env a r"
  by (fastforce simp: left_by_def only_reads_def)

lemmas command_reads = command_snapshot_reads command_query_reads command_hierarchy_reads command_diff_reads
  command_history_reads command_explain_reads command_sources_reads command_verify_reads

lemma tool_main_ran:
  assumes "parse_arguments argv = Inr a"
  shows "left_by runtime_reaches env a (tool_main env argv)"
    and "ag_command a \<noteq> ''ingest'' \<Longrightarrow> ag_command a \<noteq> ''serve'' \<Longrightarrow> left_by only_reads env a (tool_main env argv)"
  unfolding tool_main_def assms sum.case Let_def command_policy_def
  by (simp_all add: command_reads command_reads[THEN ran_reads_reaches] command_serve_reaches command_ingest_reaches
      command_version_def Let_def split: sum.split)

section \<open>The exit code of ingest\<close>

definition rejections :: "ingest_outcome list \<Rightarrow> nat" where
  "rejections xs = length (filter (\<lambda>x. ig_disposition x = ID_Rejected) xs)"

lemma ingest_each_report:
  "ingest_each obs b ov = (b', ov') \<Longrightarrow>
   \<exists>new. br_outcomes b' = br_outcomes b @ new \<and> length new = length obs \<and>
     br_rejected b' = br_rejected b + of_nat (rejections new)"
proof (induction obs arbitrary: b ov)
  case (Cons ob obs)
  obtain st x ov1 where one: "ingest ob DeferSnapshot ov = (st, x, ov1)" by (metis prod_cases3)
  then obtain new where "br_outcomes b' = br_outcomes (report_outcome x b) @ new" "length new = length obs"
    "br_rejected b' = br_rejected (report_outcome x b) + of_nat (rejections new)"
    using Cons by auto
  then show ?case
    by (intro exI[of _ "x # new"]) (auto simp: report_outcome_def rejections_def Let_def split: ingest_disposition.split)
qed (simp add: rejections_def)

lemma ingest_batch_report:
  assumes "ingest_batch obs PublishSnapshot ov = (Inr b, ov')"
  shows "length (br_outcomes b) = length obs \<and> br_rejected b = of_nat (rejections (br_outcomes b)) \<and>
    length obs \<le> unat (max_batch_observations (ov_limits ov))"
proof -
  obtain b1 ov1 where each: "ingest_each obs empty_batch_report ov = (b1, ov1)" by fastforce
  show ?thesis
    using assms ingest_each_report[OF each] each
    by (auto simp: ingest_batch_def empty_batch_report_def case_prod_beta Let_def err_def split: if_splits)
qed

lemma ingest_batch_none_rejected:
  assumes "ingest_batch obs PublishSnapshot ov = (Inr b, ov')"
  shows "br_rejected b = 0 \<longleftrightarrow> list_all (\<lambda>x. ig_disposition x \<noteq> ID_Rejected) (br_outcomes b)"
proof -
  have r: "rejections (br_outcomes b) \<le> length (br_outcomes b)" by (simp add: rejections_def)
  have "unat (max_batch_observations (ov_limits ov)) < 2 ^ 32"
    using unat_lt2p[of "max_batch_observations (ov_limits ov)"] by simp
  then have "rejections (br_outcomes b) < 2 ^ 32"
    using r ingest_batch_report[OF assms] le_less_trans le_trans by (metis (no_types, lifting))
  then have "rejections (br_outcomes b) < 2 ^ 64" by simp
  then have "br_rejected b = 0 \<longleftrightarrow> rejections (br_outcomes b) = 0"
    using ingest_batch_report[OF assms] by (auto simp: word_of_nat_eq_0_iff dvd_imp_le nat_dvd_not_less)
  then show ?thesis by (auto simp: rejections_def filter_empty_conv list_all_iff)
qed

text \<open>The options name the file: one observation, or one per line.\<close>

definition input_path :: "arguments \<Rightarrow> string option" where
  "input_path a = (case ag_single a ''observation'' of Some p \<Rightarrow> Some p | None \<Rightarrow> ag_single a ''observations'')"

lemma exit_codes [simp]:
  "exit_ok \<noteq> exit_failure" "exit_failure \<noteq> exit_ok" "exit_ok \<noteq> exit_usage" "exit_usage \<noteq> exit_ok"
  "tr_exit (complain code what ov) = Some code" "tr_exit (emit a t code ov') = Some code"
  "tr_observatory (emit a t code ov') = Some (shutdown ov')"
  by (simp_all add: exit_ok_def exit_failure_def exit_usage_def complain_def printed_def emit_def split: option.split)

lemma command_ingest_ok:
  assumes "tr_exit (command_ingest env a) = Some exit_ok"
  obtains o' path obs b ov' where "open_observatory env a = Inr o'" "input_path a = Some path"
    "load_observations (te_files env) path (ag_single a ''observations'' \<noteq> None) (ov_limits (op_observatory o')) = Inr obs"
    "ingest_batch obs PublishSnapshot (op_observatory o') = (Inr b, ov')" "br_rejected b = 0"
    "tr_observatory (command_ingest env a) = Some (shutdown ov')"
proof -
  obtain o' where op: "open_observatory env a = Inr o'"
    using assms by (cases "open_observatory env a") (simp_all add: command_ingest_def with_observatory_def)
  obtain path where path: "input_path a = Some path"
    using assms op by (cases "input_path a") (simp_all add: command_ingest_def with_observatory_def input_path_def Let_def)
  let ?load = "load_observations (te_files env) path (ag_single a ''observations'' \<noteq> None) (ov_limits (op_observatory o'))"
  have run: "command_ingest env a =
      (case ?load of Inl e \<Rightarrow> complain exit_failure (status_text e) (Some (op_observatory o'))
       | Inr obs \<Rightarrow> (case ingest_batch obs PublishSnapshot (op_observatory o') of
           (Inl e, ov) \<Rightarrow> complain exit_failure (status_text e) (Some ov)
         | (Inr r, ov) \<Rightarrow> emit a (ingest_report_text r) (if br_rejected r > 0 then exit_failure else exit_ok) ov))"
    using op path by (simp add: command_ingest_def with_observatory_def input_path_def Let_def)
  obtain obs where load: "?load = Inr obs" using assms run by (cases ?load) simp_all
  obtain r ov' where batch: "ingest_batch obs PublishSnapshot (op_observatory o') = (r, ov')" by fastforce
  show ?thesis
  proof (cases r)
    case (Inr b)
    then have "br_rejected b = 0" using assms run load batch by (simp add: word_neq_0_conv[symmetric] split: if_splits)
    then show ?thesis using that op path load batch run Inr by simp
  qed (use assms run load batch in simp)
qed

theorem command_ingest_exit:
  "tr_exit (command_ingest env a) = Some exit_ok \<longleftrightarrow>
   (\<exists>o' path obs b ov'. open_observatory env a = Inr o' \<and> input_path a = Some path \<and>
      load_observations (te_files env) path (ag_single a ''observations'' \<noteq> None) (ov_limits (op_observatory o')) = Inr obs \<and>
      ingest_batch obs PublishSnapshot (op_observatory o') = (Inr b, ov') \<and> length (br_outcomes b) = length obs \<and>
      list_all (\<lambda>x. ig_disposition x \<noteq> ID_Rejected) (br_outcomes b))"
proof
  assume "tr_exit (command_ingest env a) = Some exit_ok"
  then show "\<exists>o' path obs b ov'. open_observatory env a = Inr o' \<and> input_path a = Some path \<and>
      load_observations (te_files env) path (ag_single a ''observations'' \<noteq> None) (ov_limits (op_observatory o')) = Inr obs \<and>
      ingest_batch obs PublishSnapshot (op_observatory o') = (Inr b, ov') \<and> length (br_outcomes b) = length obs \<and>
      list_all (\<lambda>x. ig_disposition x \<noteq> ID_Rejected) (br_outcomes b)"
    using ingest_batch_report ingest_batch_none_rejected by (elim command_ingest_ok) metis
next
  assume "\<exists>o' path obs b ov'. open_observatory env a = Inr o' \<and> input_path a = Some path \<and>
      load_observations (te_files env) path (ag_single a ''observations'' \<noteq> None) (ov_limits (op_observatory o')) = Inr obs \<and>
      ingest_batch obs PublishSnapshot (op_observatory o') = (Inr b, ov') \<and> length (br_outcomes b) = length obs \<and>
      list_all (\<lambda>x. ig_disposition x \<noteq> ID_Rejected) (br_outcomes b)"
  then obtain o' path obs b ov' where "open_observatory env a = Inr o'" "input_path a = Some path"
      "load_observations (te_files env) path (ag_single a ''observations'' \<noteq> None) (ov_limits (op_observatory o')) = Inr obs"
      "ingest_batch obs PublishSnapshot (op_observatory o') = (Inr b, ov')" "br_rejected b = 0"
    using ingest_batch_none_rejected by metis
  then show "tr_exit (command_ingest env a) = Some exit_ok"
    by (simp add: command_ingest_def with_observatory_def input_path_def Let_def)
qed

section \<open>Reproducible runs\<close>

lemma manual_clock_open:
  assumes "ag_single a ''clock'' = Some t" "t \<noteq> ''system''"
  shows "open_observatory (env\<lparr>te_clock := c\<rparr>) a = open_observatory env a"
  using assms by (simp add: open_observatory_def choose_clock_def ag_single_or_def Let_def)

lemma manual_clock_run:
  assumes "parse_arguments argv = Inr a" "ag_single a ''clock'' = Some t" "t \<noteq> ''system''"
  shows "tool_main (env\<lparr>te_clock := c\<rparr>) argv = tool_main env argv"
proof -
  have "with_observatory (env\<lparr>te_clock := c\<rparr>) a k = with_observatory env a k" for k
    by (simp add: with_observatory_def manual_clock_open[OF assms(2,3)])
  moreover have "te_files (env\<lparr>te_clock := c\<rparr>) = te_files env" "te_audit (env\<lparr>te_clock := c\<rparr>) = te_audit env"
    "te_stdin (env\<lparr>te_clock := c\<rparr>) = te_stdin env" "te_build (env\<lparr>te_clock := c\<rparr>) = te_build env" by simp_all
  ultimately have same: "command_serve (env\<lparr>te_clock := c\<rparr>) a = command_serve env a"
    "command_ingest (env\<lparr>te_clock := c\<rparr>) a = command_ingest env a"
    "command_snapshot (env\<lparr>te_clock := c\<rparr>) a = command_snapshot env a"
    "command_query (env\<lparr>te_clock := c\<rparr>) a = command_query env a"
    "command_hierarchy (env\<lparr>te_clock := c\<rparr>) a = command_hierarchy env a"
    "command_diff (env\<lparr>te_clock := c\<rparr>) a = command_diff env a"
    "command_history (env\<lparr>te_clock := c\<rparr>) a = command_history env a"
    "command_explain (env\<lparr>te_clock := c\<rparr>) a = command_explain env a"
    "command_sources (env\<lparr>te_clock := c\<rparr>) a = command_sources env a"
    "command_verify (env\<lparr>te_clock := c\<rparr>) a = command_verify env a"
    "command_version (env\<lparr>te_clock := c\<rparr>) = command_version env"
    by (simp_all only: command_version_def command_serve_def command_ingest_def command_snapshot_def command_query_def
        command_hierarchy_def command_diff_def command_history_def command_explain_def command_sources_def
        command_verify_def)
  show ?thesis unfolding tool_main_def assms(1) sum.case same by (rule refl)
qed

theorem tool_spec:
  "case parse_arguments argv of
     Inl e \<Rightarrow> tr_observatory (tool_main env argv) = None
   | Inr a \<Rightarrow> left_by runtime_reaches env a (tool_main env argv) \<and>
       (ag_command a = ''ingest'' \<or> ag_command a = ''serve'' \<or> left_by only_reads env a (tool_main env argv))"
  using tool_main_ran[of argv _ env]
  by (cases "parse_arguments argv") (simp add: tool_main_def printed_def, simp, blast)

end
