(* ===== verification/Fab_Pipeline.thy ===== *)
theory Fab_Pipeline
  imports Fab_Observatory
begin

text \<open>
  \<^verbatim>\<open>ingest.hpp\<close> and \<^verbatim>\<open>ingest.cpp\<close>: the concurrent ingest front end. Threads are modelled by the
  interleaving of their critical sections: every step below is what one thread does between
  taking and releasing one lock, so a run of the program is a sequence of steps. A wait on the
  condition variable is a step that is enabled when its predicate holds.
\<close>

section \<open>State\<close>

datatype shutdown_mode = Drain | Discard

fun shutdown_mode_text :: "shutdown_mode \<Rightarrow> string" where
  "shutdown_mode_text Drain = ''drain''"
| "shutdown_mode_text Discard = ''discard''"

record pipeline_config =
  pc_workers :: "32 word"
  pc_max_queue :: "32 word"
  pc_publish_per_observation :: bool

record pipeline_stats =
  ps_submitted :: "64 word"
  ps_accepted :: "64 word"
  ps_duplicates :: "64 word"
  ps_fenced :: "64 word"
  ps_rejected :: "64 word"
  ps_queue_full :: "64 word"
  ps_discarded :: "64 word"
  ps_workers :: "32 word"
  ps_peak_queue_depth :: "32 word"
  ps_running :: bool

record shard =
  sh_queue :: "observation list"
  sh_capacity :: "32 word"
  sh_peak_depth :: "32 word"
  sh_stopping :: bool
  sh_discard :: bool

text \<open>
  Where a worker is in its loop: at the head of it, with an observation it took from its queue,
  with an outcome it has yet to count, or returned.
\<close>

datatype worker = Waiting | Working observation | Counting ingest_disposition | Returned

text \<open>
  Where \<^verbatim>\<open>shutdown\<close> is: not called, marking the shards from an index on, joining the workers
  from an index on, or done.
\<close>

datatype control = Serving | Stopping shutdown_mode nat | Joining shutdown_mode nat | Closed shutdown_mode

record pipeline =
  pl_config :: pipeline_config
  pl_shards :: "shard list"
  pl_workers :: "worker list"
  pl_observatory :: observatory
  pl_counters :: pipeline_stats
  pl_running :: bool
  pl_control :: control
  pl_uncounted :: nat

text \<open>\<open>pl_uncounted\<close> is the number of clients between their push and their counting.\<close>

definition source_hash :: "source_id \<Rightarrow> 64 word" where
  "source_hash s = xor (u_hi (id_value s) * 0x9E3779B97F4A7C15) (u_lo (id_value s) + 0x165667B19E3779F9)"

definition shard_for :: "nat \<Rightarrow> source_id \<Rightarrow> nat" where
  "shard_for workers s = unat (source_hash s mod of_nat workers)"

definition zero_stats :: pipeline_stats where
  "zero_stats = \<lparr>ps_submitted = 0, ps_accepted = 0, ps_duplicates = 0, ps_fenced = 0, ps_rejected = 0,
     ps_queue_full = 0, ps_discarded = 0, ps_workers = 0, ps_peak_queue_depth = 0, ps_running = False\<rparr>"

text \<open>The constructor; \<open>None\<close> where a contract stops the process.\<close>

definition new_pipeline :: "observatory \<Rightarrow> pipeline_config \<Rightarrow> pipeline option" where
  "new_pipeline ov cfg =
     (if pc_workers cfg = 0 \<or> pc_max_queue cfg = 0 then None
      else let workers = min (pc_workers cfg) (max 1 (max_workers (ov_limits ov)));
               effective_queue = min (pc_max_queue cfg) (max_ingest_queue (ov_limits ov));
               per_shard = max 1 (effective_queue div workers)
      in Some \<lparr>pl_config = cfg,
           pl_shards = replicate (unat workers) \<lparr>sh_queue = [], sh_capacity = per_shard,
             sh_peak_depth = 0, sh_stopping = False, sh_discard = False\<rparr>,
           pl_workers = replicate (unat workers) Waiting, pl_observatory = ov,
           pl_counters = zero_stats\<lparr>ps_workers := workers\<rparr>, pl_running = True,
           pl_control = Serving, pl_uncounted = 0\<rparr>)"

section \<open>Submission\<close>

definition shard_of :: "pipeline \<Rightarrow> observation \<Rightarrow> nat" where
  "shard_of p ob = shard_for (length (pl_shards p)) (ob_source ob)"

definition update_shard :: "nat \<Rightarrow> (shard \<Rightarrow> shard) \<Rightarrow> pipeline \<Rightarrow> pipeline" where
  "update_shard k f p = p\<lparr>pl_shards := (pl_shards p)[k := f (pl_shards p ! k)]\<rparr>"

text \<open>The part of \<^verbatim>\<open>submit\<close> under the lock of the shard.\<close>

definition enqueue :: "observation \<Rightarrow> pipeline \<Rightarrow> unit result \<times> pipeline" where
  "enqueue ob p =
     (let k = shard_of p ob; sh = pl_shards p ! k
      in if sh_stopping sh
      then (err SC_ShuttingDown ''the ingest pipeline is stopping'', p)
      else if length (sh_queue sh) \<ge> unat (sh_capacity sh)
      then (err SC_QueueFull ''the ingest queue for this source shard is full'',
        p\<lparr>pl_counters := (pl_counters p)\<lparr>ps_queue_full := ps_queue_full (pl_counters p) + 1\<rparr>\<rparr>)
      else (Inr (), (update_shard k (\<lambda>sh. sh\<lparr>sh_queue := sh_queue sh @ [ob],
          sh_peak_depth := max (sh_peak_depth sh) (of_nat (length (sh_queue sh @ [ob])))\<rparr>) p)
            \<lparr>pl_uncounted := pl_uncounted p + 1\<rparr>))"

definition count_submission :: "pipeline \<Rightarrow> pipeline" where
  "count_submission p = p\<lparr>pl_uncounted := pl_uncounted p - 1,
     pl_counters := (pl_counters p)\<lparr>ps_submitted := ps_submitted (pl_counters p) + 1\<rparr>\<rparr>"

text \<open>The whole call when nobody interferes.\<close>

definition submit :: "observation \<Rightarrow> pipeline \<Rightarrow> unit result \<times> pipeline" where
  "submit ob p =
     (if \<not> pl_running p then (err SC_ShuttingDown ''the ingest pipeline is not running'', p)
      else (case enqueue ob p of
        (Inl e, p) \<Rightarrow> (Inl e, p)
      | (Inr _, p) \<Rightarrow> (Inr (), count_submission p)))"

section \<open>The workers\<close>

definition set_worker :: "nat \<Rightarrow> worker \<Rightarrow> pipeline \<Rightarrow> pipeline" where
  "set_worker k w p = p\<lparr>pl_workers := (pl_workers p)[k := w]\<rparr>"

definition worker_awake :: "shard \<Rightarrow> bool" where
  "worker_awake sh \<longleftrightarrow> sh_queue sh \<noteq> [] \<or> sh_stopping sh"

text \<open>The first critical section of an iteration, entered when the wait is over.\<close>

definition worker_take :: "nat \<Rightarrow> pipeline \<Rightarrow> pipeline" where
  "worker_take k p =
     (let sh = pl_shards p ! k
      in if sh_discard sh \<and> sh_stopping sh
      then (set_worker k Returned (update_shard k (\<lambda>sh. sh\<lparr>sh_queue := []\<rparr>) p))
        \<lparr>pl_counters := (pl_counters p)\<lparr>ps_discarded :=
          ps_discarded (pl_counters p) + of_nat (length (sh_queue sh))\<rparr>\<rparr>
      else case sh_queue sh of
        [] \<Rightarrow> set_worker k Returned p
      | ob # rest \<Rightarrow> set_worker k (Working ob) (update_shard k (\<lambda>sh. sh\<lparr>sh_queue := rest\<rparr>) p))"

definition worker_options :: "pipeline \<Rightarrow> ingest_options" where
  "worker_options p = (if pc_publish_per_observation (pl_config p) then PublishSnapshot else DeferSnapshot)"

definition worker_ingest :: "nat \<Rightarrow> observation \<Rightarrow> pipeline \<Rightarrow> pipeline" where
  "worker_ingest k ob p =
     (let (status, outcome, ov) = ingest ob (worker_options p) (pl_observatory p)
      in set_worker k (Counting (ig_disposition outcome)) (p\<lparr>pl_observatory := ov\<rparr>))"

definition count_disposition :: "ingest_disposition \<Rightarrow> pipeline_stats \<Rightarrow> pipeline_stats" where
  "count_disposition d st =
     (case d of
        ID_Accepted \<Rightarrow> st\<lparr>ps_accepted := ps_accepted st + 1\<rparr>
      | ID_Duplicate \<Rightarrow> st\<lparr>ps_duplicates := ps_duplicates st + 1\<rparr>
      | ID_Fenced \<Rightarrow> st\<lparr>ps_fenced := ps_fenced st + 1\<rparr>
      | ID_Rejected \<Rightarrow> st\<lparr>ps_rejected := ps_rejected st + 1\<rparr>)"

definition worker_count :: "nat \<Rightarrow> ingest_disposition \<Rightarrow> pipeline \<Rightarrow> pipeline" where
  "worker_count k d p = set_worker k Waiting (p\<lparr>pl_counters := count_disposition d (pl_counters p)\<rparr>)"

section \<open>Shutdown\<close>

definition cancel_shard :: "nat \<Rightarrow> pipeline \<Rightarrow> pipeline" where
  "cancel_shard k p = update_shard k (\<lambda>sh. sh\<lparr>sh_stopping := True, sh_discard := True\<rparr>) p"

definition stop_shard :: "shutdown_mode \<Rightarrow> nat \<Rightarrow> pipeline \<Rightarrow> pipeline" where
  "stop_shard mode k p = (update_shard k (\<lambda>sh. sh\<lparr>sh_stopping := True, sh_discard := (mode = Discard)\<rparr>) p)
     \<lparr>pl_control := Stopping mode (k + 1)\<rparr>"

definition peak_depth :: "pipeline \<Rightarrow> 32 word" where
  "peak_depth p = foldl (\<lambda>peak sh. max peak (sh_peak_depth sh)) 0 (pl_shards p)"

definition close_pipeline :: "shutdown_mode \<Rightarrow> pipeline \<Rightarrow> pipeline" where
  "close_pipeline mode p = p\<lparr>pl_running := False, pl_control := Closed mode,
     pl_counters := (pl_counters p)\<lparr>ps_running := False, ps_peak_queue_depth := peak_depth p\<rparr>\<rparr>"

definition stats_of :: "pipeline \<Rightarrow> pipeline_stats" where
  "stats_of p = (pl_counters p)\<lparr>ps_running := pl_running p,
     ps_peak_queue_depth := max (ps_peak_queue_depth (pl_counters p)) (peak_depth p)\<rparr>"

record shutdown_report =
  sr_mode :: shutdown_mode
  sr_processed :: "64 word"
  sr_discarded :: "64 word"
  sr_workers_joined :: "32 word"
  sr_cancelled :: bool
  sr_stats :: pipeline_stats

definition shutdown_report_of :: "shutdown_mode \<Rightarrow> pipeline \<Rightarrow> shutdown_report" where
  "shutdown_report_of mode p =
     (let st = stats_of p
      in \<lparr>sr_mode = mode,
          sr_processed = ps_accepted st + ps_duplicates st + ps_fenced st + ps_rejected st,
          sr_discarded = ps_discarded st, sr_workers_joined = of_nat (length (pl_workers p)),
          sr_cancelled = (mode = Discard), sr_stats = st\<rparr>)"

section \<open>Steps\<close>

text \<open>What an observer of the queues and of the runtime sees of a step.\<close>

datatype event = Quiet | Cancelled | Enqueued observation | Ingested observation | Dropped "observation list"

inductive worker_step :: "pipeline \<Rightarrow> event \<Rightarrow> pipeline \<Rightarrow> bool" where
  take_item: "k < length (pl_workers p) \<Longrightarrow> pl_workers p ! k = Waiting \<Longrightarrow> worker_awake (pl_shards p ! k) \<Longrightarrow>
    \<not> (sh_discard (pl_shards p ! k) \<and> sh_stopping (pl_shards p ! k)) \<Longrightarrow>
    worker_step p Quiet (worker_take k p)"
| drop_items: "k < length (pl_workers p) \<Longrightarrow> pl_workers p ! k = Waiting \<Longrightarrow> worker_awake (pl_shards p ! k) \<Longrightarrow>
    sh_discard (pl_shards p ! k) \<and> sh_stopping (pl_shards p ! k) \<Longrightarrow>
    worker_step p (Dropped (sh_queue (pl_shards p ! k))) (worker_take k p)"
| ingest_item: "k < length (pl_workers p) \<Longrightarrow> pl_workers p ! k = Working ob \<Longrightarrow>
    worker_step p (Ingested ob) (worker_ingest k ob p)"
| count_item: "k < length (pl_workers p) \<Longrightarrow> pl_workers p ! k = Counting d \<Longrightarrow>
    worker_step p Quiet (worker_count k d p)"

inductive pipeline_step :: "pipeline \<Rightarrow> event \<Rightarrow> pipeline \<Rightarrow> bool" where
  do_work: "worker_step p e p' \<Longrightarrow> pipeline_step p e p'"
| do_enqueue: "enqueue ob p = (Inr (), p') \<Longrightarrow> pipeline_step p (Enqueued ob) p'"
| do_refuse: "enqueue ob p = (Inl er, p') \<Longrightarrow> pipeline_step p Quiet p'"
| do_count: "0 < pl_uncounted p \<Longrightarrow> pipeline_step p Quiet (count_submission p)"
| do_cancel: "k < length (pl_shards p) \<Longrightarrow> pipeline_step p Cancelled (cancel_shard k p)"
| do_begin: "pl_control p = Serving \<Longrightarrow> pipeline_step p Quiet (p\<lparr>pl_control := Stopping mode 0\<rparr>)"
| do_stop: "pl_control p = Stopping mode k \<Longrightarrow> k < length (pl_shards p) \<Longrightarrow>
    pipeline_step p Quiet (stop_shard mode k p)"
| do_stopped: "pl_control p = Stopping mode (length (pl_shards p)) \<Longrightarrow>
    pipeline_step p Quiet (p\<lparr>pl_control := Joining mode 0\<rparr>)"
| do_join: "pl_control p = Joining mode k \<Longrightarrow> k < length (pl_workers p) \<Longrightarrow> pl_workers p ! k = Returned \<Longrightarrow>
    pipeline_step p Quiet (p\<lparr>pl_control := Joining mode (k + 1)\<rparr>)"
| do_close: "pl_control p = Joining mode (length (pl_workers p)) \<Longrightarrow>
    pipeline_step p Quiet (close_pipeline mode p)"

inductive pipeline_run :: "pipeline \<Rightarrow> event list \<Rightarrow> pipeline \<Rightarrow> bool" where
  run_start: "pipeline_run p [] p"
| run_step: "pipeline_run p es p' \<Longrightarrow> pipeline_step p' e p'' \<Longrightarrow> pipeline_run p (es @ [e]) p''"

section \<open>The log of a run\<close>

definition enqueued :: "event list \<Rightarrow> observation list" where
  "enqueued es = concat (map (\<lambda>e. case e of Enqueued ob \<Rightarrow> [ob] | _ \<Rightarrow> []) es)"

definition ingested :: "event list \<Rightarrow> observation list" where
  "ingested es = concat (map (\<lambda>e. case e of Ingested ob \<Rightarrow> [ob] | _ \<Rightarrow> []) es)"

definition dropped :: "event list \<Rightarrow> observation list" where
  "dropped es = concat (map (\<lambda>e. case e of Dropped obs \<Rightarrow> obs | _ \<Rightarrow> []) es)"

definition on_shard :: "nat \<Rightarrow> nat \<Rightarrow> observation list \<Rightarrow> observation list" where
  "on_shard n k obs = filter (\<lambda>ob. shard_for n (ob_source ob) = k) obs"

fun in_flight :: "worker \<Rightarrow> observation list" where
  "in_flight (Working ob) = [ob]"
| "in_flight _ = []"

lemma log_simps [simp]:
  "enqueued [] = []" "ingested [] = []" "dropped [] = []"
  "enqueued (es @ fs) = enqueued es @ enqueued fs" "ingested (es @ fs) = ingested es @ ingested fs"
  "dropped (es @ fs) = dropped es @ dropped fs"
  "enqueued [e] = (case e of Enqueued ob \<Rightarrow> [ob] | _ \<Rightarrow> [])"
  "ingested [e] = (case e of Ingested ob \<Rightarrow> [ob] | _ \<Rightarrow> [])"
  "dropped [e] = (case e of Dropped obs \<Rightarrow> obs | _ \<Rightarrow> [])"
  by (simp_all add: enqueued_def ingested_def dropped_def)

lemma on_shard_simps [simp]:
  "on_shard n k [] = []" "on_shard n k (xs @ ys) = on_shard n k xs @ on_shard n k ys"
  "on_shard n k (ob # xs) = (if shard_for n (ob_source ob) = k then ob # on_shard n k xs else on_shard n k xs)"
  by (simp_all add: on_shard_def)

lemma on_shard_all: "\<forall>ob\<in>set obs. shard_for n (ob_source ob) = k \<Longrightarrow> on_shard n k obs = obs"
  by (simp add: on_shard_def)

lemma on_shard_other: "\<forall>ob\<in>set obs. shard_for n (ob_source ob) = k \<Longrightarrow> j \<noteq> k \<Longrightarrow> on_shard n j obs = []"
  by (simp add: on_shard_def)

lemma shard_for_less: "0 < n \<Longrightarrow> n < 2 ^ 64 \<Longrightarrow> shard_for n s < n"
  by (simp add: shard_for_def unat_mod unat_of_nat)

section \<open>What holds in every run\<close>

definition shape_ok :: "pipeline \<Rightarrow> bool" where
  "shape_ok p \<longleftrightarrow> 0 < length (pl_shards p) \<and> length (pl_shards p) < 2 ^ 32 \<and>
     length (pl_workers p) = length (pl_shards p)"

text \<open>
  One shard: what was queued is what was ingested, then what its worker holds, then what was
  dropped, then what still waits, in this order; only a worker that returned has dropped
  anything; and a worker returns when its shard is stopping and its queue is empty.
\<close>

definition shard_log :: "event list \<Rightarrow> nat \<Rightarrow> nat \<Rightarrow> worker \<Rightarrow> shard \<Rightarrow> bool" where
  "shard_log es n k w sh \<longleftrightarrow>
     on_shard n k (enqueued es) = on_shard n k (ingested es) @ in_flight w @ on_shard n k (dropped es) @ sh_queue sh \<and>
     (on_shard n k (dropped es) \<noteq> [] \<longrightarrow> w = Returned) \<and>
     (w = Returned \<longrightarrow> sh_stopping sh \<and> sh_queue sh = []) \<and>
     length (sh_queue sh) \<le> unat (sh_capacity sh)"

definition shards_ok :: "event list \<Rightarrow> pipeline \<Rightarrow> bool" where
  "shards_ok es p \<longleftrightarrow> (\<forall>k < length (pl_shards p).
     shard_log es (length (pl_shards p)) k (pl_workers p ! k) (pl_shards p ! k))"

lemma shard_log_members:
  assumes "shard_log es n k w sh" "ob \<in> set (in_flight w) \<union> set (sh_queue sh)"
  shows "shard_for n (ob_source ob) = k"
proof -
  have "ob \<in> set (on_shard n k (enqueued es))" using assms by (auto simp: shard_log_def)
  then show ?thesis by (simp add: on_shard_def)
qed

lemma shard_log_quiet:
  assumes "shard_log es n k w sh" "enqueued [e] = []" "ingested [e] = []" "dropped [e] = []"
  shows "shard_log (es @ [e]) n k w sh"
  using assms by (simp add: shard_log_def)

lemma update_shard_simps [simp]:
  "pl_workers (update_shard k f p) = pl_workers p" "pl_shards (set_worker k w p) = pl_shards p"
  "pl_control (update_shard k f p) = pl_control p" "pl_control (set_worker k w p) = pl_control p"
  "pl_config (update_shard k f p) = pl_config p" "pl_config (set_worker k w p) = pl_config p"
  "pl_observatory (update_shard k f p) = pl_observatory p" "pl_observatory (set_worker k w p) = pl_observatory p"
  "pl_counters (update_shard k f p) = pl_counters p" "pl_counters (set_worker k w p) = pl_counters p"
  "pl_uncounted (update_shard k f p) = pl_uncounted p" "pl_uncounted (set_worker k w p) = pl_uncounted p"
  "length (pl_shards (update_shard k f p)) = length (pl_shards p)"
  "length (pl_workers (set_worker k w p)) = length (pl_workers p)"
  "pl_shards (update_shard k f p) = [] \<longleftrightarrow> pl_shards p = []"
  by (simp_all add: update_shard_def set_worker_def)

lemma nth_updated [simp]:
  "j < length (pl_shards p) \<Longrightarrow> pl_shards (update_shard k f p) ! j = (if j = k then f (pl_shards p ! j) else pl_shards p ! j)"
  "j < length (pl_workers p) \<Longrightarrow> pl_workers (set_worker k w p) ! j = (if j = k then w else pl_workers p ! j)"
  by (simp_all add: update_shard_def set_worker_def nth_list_update)

lemma worker_step_shape: "worker_step p e p' \<Longrightarrow> shape_ok p \<Longrightarrow> shape_ok p' \<and> length (pl_shards p') = length (pl_shards p)"
  by (induction rule: worker_step.induct)
     (simp_all add: shape_ok_def worker_take_def worker_ingest_def worker_count_def Let_def case_prod_beta
       split: list.split)

lemma enqueue_shape: "shape_ok p \<Longrightarrow> enqueue ob p = (r, p') \<Longrightarrow> shape_ok p' \<and> length (pl_shards p') = length (pl_shards p)"
  by (auto simp: enqueue_def Let_def shape_ok_def err_def split: if_splits)

lemma pipeline_step_shape: "pipeline_step p e p' \<Longrightarrow> shape_ok p \<Longrightarrow> shape_ok p' \<and> length (pl_shards p') = length (pl_shards p)"
proof (induction rule: pipeline_step.induct)
  case (do_work p e p')
  then show ?case using worker_step_shape by blast
next
  case (do_enqueue ob p p')
  then show ?case using enqueue_shape by blast
next
  case (do_refuse ob p er p')
  then show ?case using enqueue_shape by blast
qed (simp_all add: shape_ok_def count_submission_def cancel_shard_def stop_shard_def close_pipeline_def)

text \<open>A step of worker \<open>k\<close> changes its own shard and leaves the logs of the others as they are.\<close>

lemma shards_ok_update:
  assumes "shards_ok es p" "length (pl_shards p') = length (pl_shards p)" "k < length (pl_shards p)"
    and "shard_log (es @ [e]) (length (pl_shards p)) k (pl_workers p' ! k) (pl_shards p' ! k)"
    and "\<And>j. j < length (pl_shards p) \<Longrightarrow> j \<noteq> k \<Longrightarrow> pl_workers p' ! j = pl_workers p ! j \<and> pl_shards p' ! j = pl_shards p ! j"
    and "\<forall>ob\<in>set (enqueued [e] @ ingested [e] @ dropped [e]). shard_for (length (pl_shards p)) (ob_source ob) = k"
  shows "shards_ok (es @ [e]) p'"
  unfolding shards_ok_def assms(2)
proof (intro allI impI)
  fix j assume j: "j < length (pl_shards p)"
  show "shard_log (es @ [e]) (length (pl_shards p)) j (pl_workers p' ! j) (pl_shards p' ! j)"
  proof (cases "j = k")
    case False
    have "on_shard (length (pl_shards p)) j obs = []" if "set obs \<subseteq> set (enqueued [e] @ ingested [e] @ dropped [e])" for obs
      using on_shard_other[of obs "length (pl_shards p)" k j] assms(6) that False by blast
    from this[of "enqueued [e]"] this[of "ingested [e]"] this[of "dropped [e]"]
    have "on_shard (length (pl_shards p)) j (enqueued [e]) = []" "on_shard (length (pl_shards p)) j (ingested [e]) = []"
      "on_shard (length (pl_shards p)) j (dropped [e]) = []"
      by (auto simp del: log_simps)
    moreover have "shard_log es (length (pl_shards p)) j (pl_workers p ! j) (pl_shards p ! j)"
      using assms(1) j by (simp add: shards_ok_def)
    ultimately show ?thesis
      using assms(5)[OF j False] by (simp add: shard_log_def)
  qed (use assms(4) in simp)
qed

lemma worker_step_shards:
  assumes "worker_step p e p'" "shape_ok p" "shards_ok es p"
  shows "shards_ok (es @ [e]) p'"
  using assms(1)
proof cases
  case (take_item k)
  let ?n = "length (pl_shards p)" and ?sh = "pl_shards p ! k"
  have k: "k < ?n" using take_item(3) assms(2) by (simp add: shape_ok_def)
  have log: "shard_log es ?n k Waiting ?sh" using assms(3) k take_item(4) by (auto simp: shards_ok_def)
  have "shard_log (es @ [Quiet]) ?n k (pl_workers p' ! k) (pl_shards p' ! k)"
  proof (cases "sh_queue ?sh")
    case Nil
    then show ?thesis
      using log take_item k by (auto simp: shard_log_def worker_take_def Let_def worker_awake_def)
  next
    case (Cons ob rest)
    then show ?thesis
      using log take_item k by (auto simp: shard_log_def worker_take_def Let_def)
  qed
  then show ?thesis
    unfolding take_item(1)
    by (rule shards_ok_update[OF assms(3) _ k, rotated 1])
       (use take_item assms(2) in \<open>auto simp: worker_take_def Let_def shape_ok_def split: list.splits\<close>)
next
  case (drop_items k)
  let ?n = "length (pl_shards p)" and ?sh = "pl_shards p ! k"
  have k: "k < ?n" using drop_items(3) assms(2) by (simp add: shape_ok_def)
  have log: "shard_log es ?n k Waiting ?sh" using assms(3) k drop_items(4) by (auto simp: shards_ok_def)
  have mine: "\<forall>ob\<in>set (sh_queue ?sh). shard_for ?n (ob_source ob) = k"
    using shard_log_members[OF log] by auto
  have "shard_log (es @ [Dropped (sh_queue ?sh)]) ?n k (pl_workers p' ! k) (pl_shards p' ! k)"
    using log drop_items k on_shard_all[OF mine] by (auto simp: shard_log_def worker_take_def Let_def)
  then show ?thesis
    unfolding drop_items(1)
    by (rule shards_ok_update[OF assms(3) _ k, rotated 1])
       (use drop_items assms(2) mine in \<open>auto simp: worker_take_def Let_def shape_ok_def\<close>)
next
  case (ingest_item k ob)
  let ?n = "length (pl_shards p)" and ?sh = "pl_shards p ! k"
  have k: "k < ?n" using ingest_item(3) assms(2) by (simp add: shape_ok_def)
  have log: "shard_log es ?n k (Working ob) ?sh" using assms(3) k ingest_item(4) by (auto simp: shards_ok_def)
  have mine: "shard_for ?n (ob_source ob) = k" using shard_log_members[OF log] by simp
  have "shard_log (es @ [Ingested ob]) ?n k (pl_workers p' ! k) (pl_shards p' ! k)"
    using log ingest_item k mine by (auto simp: shard_log_def worker_ingest_def case_prod_beta)
  then show ?thesis
    unfolding ingest_item(1)
    by (rule shards_ok_update[OF assms(3) _ k, rotated 1])
       (use ingest_item assms(2) mine in \<open>auto simp: worker_ingest_def case_prod_beta shape_ok_def\<close>)
next
  case (count_item k d)
  let ?n = "length (pl_shards p)" and ?sh = "pl_shards p ! k"
  have k: "k < ?n" using count_item(3) assms(2) by (simp add: shape_ok_def)
  have log: "shard_log es ?n k (Counting d) ?sh" using assms(3) k count_item(4) by (auto simp: shards_ok_def)
  have "shard_log (es @ [Quiet]) ?n k (pl_workers p' ! k) (pl_shards p' ! k)"
    using log count_item k by (auto simp: shard_log_def worker_count_def)
  then show ?thesis
    unfolding count_item(1)
    by (rule shards_ok_update[OF assms(3) _ k, rotated 1])
       (use count_item assms(2) in \<open>auto simp: worker_count_def shape_ok_def\<close>)
qed

lemma shards_ok_quiet:
  assumes "shards_ok es p" "pl_workers p' = pl_workers p" "length (pl_shards p') = length (pl_shards p)"
    and "e \<in> {Quiet, Cancelled}"
    and "\<And>k. k < length (pl_shards p) \<Longrightarrow> sh_queue (pl_shards p' ! k) = sh_queue (pl_shards p ! k) \<and>
      sh_capacity (pl_shards p' ! k) = sh_capacity (pl_shards p ! k) \<and>
      (sh_stopping (pl_shards p ! k) \<longrightarrow> sh_stopping (pl_shards p' ! k))"
  shows "shards_ok (es @ [e]) p'"
  using assms by (auto simp: shards_ok_def shard_log_def)

lemma enqueue_shards:
  assumes "enqueue ob p = (Inr (), p')" "shape_ok p" "shards_ok es p"
  shows "shards_ok (es @ [Enqueued ob]) p'"
proof -
  let ?n = "length (pl_shards p)" and ?k = "shard_of p ob"
  have k: "?k < ?n" using assms(2) by (simp add: shape_ok_def shard_of_def shard_for_less)
  have mine: "shard_for ?n (ob_source ob) = ?k" by (simp add: shard_of_def)
  have run: "\<not> sh_stopping (pl_shards p ! ?k)" "length (sh_queue (pl_shards p ! ?k)) < unat (sh_capacity (pl_shards p ! ?k))"
    "p' = (update_shard ?k (\<lambda>sh. sh\<lparr>sh_queue := sh_queue sh @ [ob],
          sh_peak_depth := max (sh_peak_depth sh) (of_nat (length (sh_queue sh @ [ob])))\<rparr>) p)
            \<lparr>pl_uncounted := pl_uncounted p + 1\<rparr>"
    using assms(1) by (auto simp: enqueue_def Let_def err_def split: if_splits)
  have log: "shard_log es ?n ?k (pl_workers p ! ?k) (pl_shards p ! ?k)" using assms(3) k by (simp add: shards_ok_def)
  then have alive: "pl_workers p ! ?k \<noteq> Returned" using run(1) by (auto simp: shard_log_def)
  have "shard_log (es @ [Enqueued ob]) ?n ?k (pl_workers p' ! ?k) (pl_shards p' ! ?k)"
    using log run(1,2) alive k mine unfolding run(3) by (simp add: shard_log_def)
  then show ?thesis
    by (rule shards_ok_update[OF assms(3) _ k, rotated 1]) (use mine in \<open>auto simp: run(3)\<close>)
qed

lemma pipeline_step_shards:
  "pipeline_step p e p' \<Longrightarrow> shape_ok p \<Longrightarrow> shards_ok es p \<Longrightarrow> shards_ok (es @ [e]) p'"
proof (induction rule: pipeline_step.induct)
  case (do_work p e p')
  then show ?case by (intro worker_step_shards)
next
  case (do_enqueue ob p p')
  then show ?case by (intro enqueue_shards)
next
  case (do_refuse ob p er p')
  then show ?case
    by (intro shards_ok_quiet[of es p]) (auto simp: enqueue_def Let_def err_def split: if_splits)
qed (erule shards_ok_quiet; auto simp: count_submission_def cancel_shard_def stop_shard_def close_pipeline_def)+

text \<open>How far \<^verbatim>\<open>shutdown\<close> has come, and what that says of shards and workers.\<close>

definition control_ok :: "pipeline \<Rightarrow> bool" where
  "control_ok p \<longleftrightarrow>
     (case pl_control p of
        Serving \<Rightarrow> True
      | Stopping mode j \<Rightarrow> j \<le> length (pl_shards p) \<and> (\<forall>k<j. sh_stopping (pl_shards p ! k))
      | Joining mode j \<Rightarrow> j \<le> length (pl_workers p) \<and> (\<forall>sh\<in>set (pl_shards p). sh_stopping sh) \<and>
          (\<forall>k<j. pl_workers p ! k = Returned)
      | Closed mode \<Rightarrow> (\<forall>sh\<in>set (pl_shards p). sh_stopping sh) \<and> set (pl_workers p) \<subseteq> {Returned})"

text \<open>No step takes a stopping mark or a return back.\<close>

lemma worker_step_keeps:
  assumes "worker_step p e p'" "shape_ok p"
  shows "pl_control p' = pl_control p \<and>
    (\<forall>k<length (pl_shards p). sh_stopping (pl_shards p' ! k) = sh_stopping (pl_shards p ! k) \<and>
       sh_discard (pl_shards p' ! k) = sh_discard (pl_shards p ! k)) \<and>
    (\<forall>k<length (pl_workers p). pl_workers p ! k = Returned \<longrightarrow> pl_workers p' ! k = Returned)"
  using assms
proof (induction rule: worker_step.induct)
  case (take_item k p)
  then show ?case by (auto simp: worker_take_def Let_def shape_ok_def split: list.split)
next
  case (drop_items k p)
  then show ?case by (auto simp: worker_take_def Let_def shape_ok_def)
next
  case (ingest_item k p ob)
  then show ?case by (auto simp: worker_ingest_def case_prod_beta)
next
  case (count_item k p d)
  then show ?case by (auto simp: worker_count_def)
qed

lemma enqueue_keeps:
  assumes "enqueue ob p = (r, p')"
  shows "pl_control p' = pl_control p \<and> pl_workers p' = pl_workers p \<and>
    (\<forall>k<length (pl_shards p). sh_stopping (pl_shards p' ! k) = sh_stopping (pl_shards p ! k) \<and>
       sh_discard (pl_shards p' ! k) = sh_discard (pl_shards p ! k))"
  using assms by (auto simp: enqueue_def Let_def err_def split: if_splits)

lemma control_ok_keep:
  assumes "control_ok p" "pl_control p' = pl_control p" "length (pl_shards p') = length (pl_shards p)"
    and "length (pl_workers p') = length (pl_workers p)"
    and "\<And>k. k < length (pl_shards p) \<Longrightarrow> sh_stopping (pl_shards p ! k) \<Longrightarrow> sh_stopping (pl_shards p' ! k)"
    and "\<And>k. k < length (pl_workers p) \<Longrightarrow> pl_workers p ! k = Returned \<Longrightarrow> pl_workers p' ! k = Returned"
  shows "control_ok p'"
proof (cases "pl_control p")
  case (Closed mode)
  then show ?thesis
    using assms by (simp add: control_ok_def all_set_conv_all_nth subset_iff in_set_conv_nth) metis
qed (use assms in \<open>simp_all add: control_ok_def all_set_conv_all_nth\<close>)

lemma pipeline_step_control:
  "pipeline_step p e p' \<Longrightarrow> shape_ok p \<Longrightarrow> control_ok p \<Longrightarrow> control_ok p'"
proof (induction rule: pipeline_step.induct)
  case (do_work p e p')
  then show ?case
    using worker_step_keeps[OF do_work(1,2)] worker_step_shape[OF do_work(1,2)]
    by (intro control_ok_keep[OF do_work(3)]) (auto simp: shape_ok_def)
next
  case (do_enqueue ob p p')
  then show ?case
    using enqueue_keeps[OF do_enqueue(1)] enqueue_shape[OF do_enqueue(2,1)]
    by (intro control_ok_keep[OF do_enqueue(3)]) auto
next
  case (do_refuse ob p er p')
  then show ?case
    using enqueue_keeps[OF do_refuse(1)] enqueue_shape[OF do_refuse(2,1)]
    by (intro control_ok_keep[OF do_refuse(3)]) auto
next
  case (do_count p)
  then show ?case by (intro control_ok_keep[OF do_count(3)]) (simp_all add: count_submission_def)
next
  case (do_cancel k p)
  then show ?case by (intro control_ok_keep[OF do_cancel(3)]) (simp_all add: cancel_shard_def)
next
  case (do_begin p mode)
  then show ?case by (simp add: control_ok_def)
next
  case (do_stop p mode k)
  then show ?case by (auto simp: control_ok_def stop_shard_def less_Suc_eq)
next
  case (do_stopped p mode)
  then show ?case by (simp add: control_ok_def all_set_conv_all_nth)
next
  case (do_join p mode k)
  then show ?case by (auto simp: control_ok_def less_Suc_eq)
next
  case (do_close p mode)
  then show ?case by (auto simp: control_ok_def close_pipeline_def in_set_conv_nth)
qed

text \<open>Nothing is thrown away unless somebody asked for it.\<close>

definition asked_to_discard :: "event list \<Rightarrow> pipeline \<Rightarrow> bool" where
  "asked_to_discard es p \<longleftrightarrow> Cancelled \<in> set es \<or>
     (case pl_control p of Serving \<Rightarrow> False | Stopping mode j \<Rightarrow> mode = Discard
      | Joining mode j \<Rightarrow> mode = Discard | Closed mode \<Rightarrow> mode = Discard)"

definition discard_ok :: "event list \<Rightarrow> pipeline \<Rightarrow> bool" where
  "discard_ok es p \<longleftrightarrow> asked_to_discard es p \<or>
     (dropped es = [] \<and> (\<forall>k<length (pl_shards p). \<not> sh_discard (pl_shards p ! k)))"

lemma worker_step_discard:
  assumes "worker_step p e p'" "shape_ok p" "discard_ok es p"
  shows "discard_ok (es @ [e]) p'"
proof -
  have "asked_to_discard (es @ [e]) p'" if "asked_to_discard es p"
    using that worker_step_keeps[OF assms(1,2)] by (auto simp: asked_to_discard_def)
  moreover have "dropped [e] = []" if "\<forall>k<length (pl_shards p). \<not> sh_discard (pl_shards p ! k)"
    using assms(1) that assms(2) by (cases rule: worker_step.cases) (auto simp: shape_ok_def)
  ultimately show ?thesis
    using assms(3) worker_step_keeps[OF assms(1,2)] worker_step_shape[OF assms(1,2)]
    by (auto simp: discard_ok_def)
qed

lemma enqueue_discard:
  assumes "enqueue ob p = (r, p')" "shape_ok p" "discard_ok es p" "dropped [e] = []"
  shows "discard_ok (es @ [e]) p'"
  using assms(3,4) enqueue_keeps[OF assms(1)] enqueue_shape[OF assms(2,1)]
  by (auto simp: discard_ok_def asked_to_discard_def)

lemma pipeline_step_discard:
  "pipeline_step p e p' \<Longrightarrow> shape_ok p \<Longrightarrow> discard_ok es p \<Longrightarrow> discard_ok (es @ [e]) p'"
proof (induction rule: pipeline_step.induct)
  case (do_work p e p')
  then show ?case by (intro worker_step_discard)
next
  case (do_enqueue ob p p')
  then show ?case by (intro enqueue_discard) simp_all
next
  case (do_refuse ob p er p')
  then show ?case by (intro enqueue_discard) simp_all
next
  case (do_stop p mode k)
  then show ?case
    by (cases mode) (auto simp: discard_ok_def asked_to_discard_def stop_shard_def)
qed (auto simp: discard_ok_def asked_to_discard_def count_submission_def cancel_shard_def close_pipeline_def)

text \<open>The counters, as words, and the runtime behind the workers.\<close>

fun uncounted_outcomes :: "worker \<Rightarrow> nat" where
  "uncounted_outcomes (Counting d) = 1"
| "uncounted_outcomes _ = 0"

definition counting :: "pipeline \<Rightarrow> nat" where
  "counting p = sum_list (map uncounted_outcomes (pl_workers p))"

definition processed :: "pipeline \<Rightarrow> 64 word" where
  "processed p = ps_accepted (pl_counters p) + ps_duplicates (pl_counters p) + ps_fenced (pl_counters p) +
     ps_rejected (pl_counters p)"

definition counters_ok :: "event list \<Rightarrow> pipeline \<Rightarrow> bool" where
  "counters_ok es p \<longleftrightarrow>
     ps_submitted (pl_counters p) + of_nat (pl_uncounted p) = of_nat (length (enqueued es)) \<and>
     processed p + of_nat (counting p) = of_nat (length (ingested es)) \<and>
     ps_discarded (pl_counters p) = of_nat (length (dropped es))"

definition ingest_all :: "ingest_options \<Rightarrow> observation list \<Rightarrow> observatory \<Rightarrow> observatory" where
  "ingest_all options obs ov = fold (\<lambda>ob ov. snd (snd (ingest ob options ov))) obs ov"

lemma sum_list_update:
  "k < length ws \<Longrightarrow> sum_list (map f (ws[k := w])) + f (ws ! k) = sum_list (map f ws) + (f w :: nat)"
proof (induction ws arbitrary: k)
  case (Cons x xs)
  then show ?case by (cases k) (auto simp: algebra_simps)
qed simp

lemma counting_set_worker:
  "k < length (pl_workers p) \<Longrightarrow> counting (set_worker k w p) + uncounted_outcomes (pl_workers p ! k) =
    counting p + uncounted_outcomes w"
  unfolding counting_def set_worker_def by (simp add: sum_list_update)

lemma counting_cong: "pl_workers p' = pl_workers p \<Longrightarrow> counting p' = counting p"
  by (simp add: counting_def)

lemma count_disposition_processed:
  "ps_accepted (count_disposition d st) + ps_duplicates (count_disposition d st) + ps_fenced (count_disposition d st) +
     ps_rejected (count_disposition d st) = ps_accepted st + ps_duplicates st + ps_fenced st + ps_rejected st + 1"
  "ps_submitted (count_disposition d st) = ps_submitted st" "ps_discarded (count_disposition d st) = ps_discarded st"
  by (cases d; simp add: count_disposition_def)+

lemma worker_step_counters:
  assumes "worker_step p e p'" "shape_ok p" "counters_ok es p"
  shows "counters_ok (es @ [e]) p'"
  using assms(1)
proof cases
  case (take_item k)
  obtain w where w: "p' = set_worker k w (update_shard k (\<lambda>sh. sh\<lparr>sh_queue := tl (sh_queue sh)\<rparr>) p) \<or> p' = set_worker k w p"
    "uncounted_outcomes w = 0"
    using take_item that[of Returned] that[of "Working (hd (sh_queue (pl_shards p ! k)))"]
    by (cases "sh_queue (pl_shards p ! k)") (auto simp: worker_take_def Let_def update_shard_def set_worker_def)
  then have "counting p' = counting p" "pl_counters p' = pl_counters p" "pl_uncounted p' = pl_uncounted p"
    using counting_set_worker[of k p w] counting_set_worker[of k "update_shard k (\<lambda>sh. sh\<lparr>sh_queue := tl (sh_queue sh)\<rparr>) p" w]
      take_item(3,4) counting_cong[of "update_shard k (\<lambda>sh. sh\<lparr>sh_queue := tl (sh_queue sh)\<rparr>) p" p]
    by auto
  then show ?thesis using assms(3) take_item(1) by (simp add: counters_ok_def processed_def)
next
  case (drop_items k)
  let ?q = "update_shard k (\<lambda>sh. sh\<lparr>sh_queue := []\<rparr>) p"
  have "counting (set_worker k Returned ?q) = counting p"
    using counting_set_worker[of k ?q Returned] drop_items(3,4) counting_cong[of ?q p] by simp
  then show ?thesis
    using assms(3) drop_items
    by (simp add: counters_ok_def processed_def worker_take_def Let_def counting_def)
next
  case (ingest_item k ob)
  obtain st outcome ov where i: "ingest ob (worker_options p) (pl_observatory p) = (st, outcome, ov)"
    by (metis prod_cases3)
  have "counting p' = counting p + 1"
    using counting_set_worker[of k "p\<lparr>pl_observatory := ov\<rparr>" "Counting (ig_disposition outcome)"] ingest_item(3,4)
      counting_cong[of "p\<lparr>pl_observatory := ov\<rparr>" p] i
    by (simp add: ingest_item(2) worker_ingest_def)
  then show ?thesis
    using assms(3) i by (simp add: ingest_item counters_ok_def processed_def worker_ingest_def add.assoc)
next
  case (count_item k d)
  let ?q = "p\<lparr>pl_counters := count_disposition d (pl_counters p)\<rparr>"
  have "counting p' + 1 = counting p"
    using counting_set_worker[of k ?q Waiting] count_item(3,4) counting_cong[of ?q p]
    by (simp add: count_item(2) worker_count_def)
  then have "(of_nat (counting p) :: 64 word) = of_nat (counting p') + 1"
    by (metis of_nat_add of_nat_1)
  then show ?thesis
    using assms(3) count_disposition_processed[of d "pl_counters p"]
    by (simp add: count_item counters_ok_def processed_def worker_count_def algebra_simps)
qed

lemma enqueue_counters:
  assumes "enqueue ob p = (r, p')" "counters_ok es p" "e = (case r of Inr _ \<Rightarrow> Enqueued ob | Inl _ \<Rightarrow> Quiet)"
  shows "counters_ok (es @ [e]) p'"
  using assms
  by (auto simp: enqueue_def Let_def err_def counters_ok_def processed_def counting_def split: if_splits)

lemma pipeline_step_counters:
  "pipeline_step p e p' \<Longrightarrow> shape_ok p \<Longrightarrow> counters_ok es p \<Longrightarrow> counters_ok (es @ [e]) p'"
proof (induction rule: pipeline_step.induct)
  case (do_work p e p')
  then show ?case by (intro worker_step_counters)
next
  case (do_enqueue ob p p')
  show ?case by (rule enqueue_counters[OF do_enqueue(1,3)]) simp
next
  case (do_refuse ob p er p')
  show ?case by (rule enqueue_counters[OF do_refuse(1,3)]) simp
next
  case (do_count p)
  then obtain m where m: "pl_uncounted p = Suc m" by (cases "pl_uncounted p") auto
  then show ?case using do_count
    by (simp add: counters_ok_def processed_def counting_def count_submission_def algebra_simps)
qed (simp_all add: counters_ok_def processed_def counting_def cancel_shard_def stop_shard_def close_pipeline_def)

lemma pipeline_step_observatory:
  assumes "pipeline_step p e p'"
  shows "pl_config p' = pl_config p \<and>
    pl_observatory p' = ingest_all (worker_options p) (ingested [e]) (pl_observatory p)"
  using assms
proof (induction rule: pipeline_step.induct)
  case (do_work p e p')
  then show ?case
    by (induction rule: worker_step.induct)
       (auto simp: worker_take_def worker_ingest_def worker_count_def Let_def ingest_all_def case_prod_beta split: list.split)
next
  case (do_enqueue ob p p')
  then show ?case by (auto simp: enqueue_def Let_def err_def ingest_all_def split: if_splits)
next
  case (do_refuse ob p er p')
  then show ?case by (auto simp: enqueue_def Let_def err_def ingest_all_def split: if_splits)
qed (simp_all add: ingest_all_def count_submission_def cancel_shard_def stop_shard_def close_pipeline_def)

section \<open>Every run of a pipeline\<close>

lemma new_pipeline_fields:
  assumes "new_pipeline ov cfg = Some p"
  obtains n cap where "0 < n" "n < 2 ^ 32" "pl_config p = cfg" "pl_observatory p = ov"
    "pl_shards p = replicate n \<lparr>sh_queue = [], sh_capacity = cap, sh_peak_depth = 0, sh_stopping = False,
       sh_discard = False\<rparr>"
    "pl_workers p = replicate n Waiting" "pl_control p = Serving" "pl_uncounted p = 0"
    "pl_counters p = zero_stats\<lparr>ps_workers := of_nat n\<rparr>"
proof -
  let ?n = "min (pc_workers cfg) (max 1 (max_workers (ov_limits ov)))"
  have some: "\<not> (pc_workers cfg = 0 \<or> pc_max_queue cfg = 0)" using assms by (auto simp: new_pipeline_def)
  have "max 1 (max_workers (ov_limits ov)) \<noteq> 0" by (auto simp: max_def)
  then have "?n \<noteq> 0" using some by (simp add: min_def)
  then have "0 < unat ?n" "unat ?n < 2 ^ 32" using unat_lt2p[of ?n] by (simp_all add: unat_gt_0)
  then show ?thesis
    using assms some by (intro that[of "unat ?n"]) (auto simp: new_pipeline_def Let_def)
qed

lemma run_invariants:
  assumes "new_pipeline ov cfg = Some p0" "pipeline_run p0 es p"
  shows "shape_ok p \<and> shards_ok es p \<and> control_ok p \<and> discard_ok es p \<and> counters_ok es p \<and>
    pl_config p = cfg \<and> length (pl_shards p) = length (pl_shards p0) \<and>
    pl_observatory p = ingest_all (worker_options p0) (ingested es) ov"
  using assms(2,1)
proof (induction rule: pipeline_run.induct)
  case (run_start p)
  obtain n cap where n: "0 < n" "n < 2 ^ 32" "pl_config p = cfg" "pl_observatory p = ov"
    "pl_shards p = replicate n \<lparr>sh_queue = [], sh_capacity = cap, sh_peak_depth = 0, sh_stopping = False,
       sh_discard = False\<rparr>"
    "pl_workers p = replicate n Waiting" "pl_control p = Serving" "pl_uncounted p = 0"
    "pl_counters p = zero_stats\<lparr>ps_workers := of_nat n\<rparr>"
    using new_pipeline_fields[OF run_start] .
  have "counting p = 0" by (simp add: n counting_def map_replicate_const sum_list_replicate)
  then show ?case
    using n by (simp add: shape_ok_def shards_ok_def shard_log_def control_ok_def discard_ok_def counters_ok_def
        processed_def zero_stats_def ingest_all_def)
next
  case (run_step p es p' e p'')
  then have IH: "shape_ok p'" "shards_ok es p'" "control_ok p'" "discard_ok es p'" "counters_ok es p'"
    "pl_config p' = cfg" "length (pl_shards p') = length (pl_shards p)"
    "pl_observatory p' = ingest_all (worker_options p) (ingested es) ov" by simp_all
  note step = run_step(2)
  have cfg: "worker_options p' = worker_options p"
    using IH(6) new_pipeline_fields[OF run_step.prems] by (metis worker_options_def)
  show ?case
    using pipeline_step_shape[OF step IH(1)] pipeline_step_shards[OF step IH(1,2)] pipeline_step_control[OF step IH(1,3)]
      pipeline_step_discard[OF step IH(1,4)] pipeline_step_counters[OF step IH(1,5)] pipeline_step_observatory[OF step]
      IH(6-8) by (simp add: cfg ingest_all_def)
qed

section \<open>Order\<close>

definition from_source :: "source_id \<Rightarrow> observation list \<Rightarrow> observation list" where
  "from_source i obs = filter (\<lambda>ob. ob_source ob = i) obs"

lemma from_source_append [simp]: "from_source i (xs @ ys) = from_source i xs @ from_source i ys"
  by (simp add: from_source_def)

lemma from_source_shard: "from_source i (on_shard n (shard_for n i) obs) = from_source i obs"
  by (induction obs) (auto simp: from_source_def)

text \<open>What was ingested of a source is a prefix of what was queued of it, in the same order.\<close>

lemma run_source_order:
  assumes "new_pipeline ov cfg = Some p0" "pipeline_run p0 es p"
  shows "\<exists>rest. from_source i (enqueued es) = from_source i (ingested es) @ rest"
proof -
  note inv = run_invariants[OF assms]
  let ?n = "length (pl_shards p)" and ?k = "shard_for (length (pl_shards p)) i"
  have ok: "shape_ok p" "shards_ok es p" using inv by blast+
  then have "?k < ?n" by (simp add: shape_ok_def shard_for_less)
  then have "shard_log es ?n ?k (pl_workers p ! ?k) (pl_shards p ! ?k)" using ok by (simp add: shards_ok_def)
  then have "from_source i (on_shard ?n ?k (enqueued es)) = from_source i (on_shard ?n ?k (ingested es)) @
      from_source i (in_flight (pl_workers p ! ?k) @ on_shard ?n ?k (dropped es) @ sh_queue (pl_shards p ! ?k))"
    by (simp add: shard_log_def)
  then show ?thesis by (simp only: from_source_shard) blast
qed

section \<open>Accounting\<close>

lemma mset_on_shards:
  assumes "\<And>ob. ob \<in> set obs \<Longrightarrow> shard_for n (ob_source ob) < n"
  shows "mset obs = (\<Sum>k<n. mset (on_shard n k obs))"
  using assms
proof (induction obs)
  case (Cons ob obs)
  let ?k = "shard_for n (ob_source ob)"
  have "(\<Sum>k<n. mset (on_shard n k (ob # obs))) =
      (\<Sum>k<n. (if k = ?k then {#ob#} else {#}) + mset (on_shard n k obs))"
    by (rule sum.cong) auto
  also have "\<dots> = {#ob#} + (\<Sum>k<n. mset (on_shard n k obs))"
    using Cons.prems[of ob] by (simp add: sum.distrib)
  finally show ?case using Cons by simp
qed simp

lemma closed_accounts:
  assumes "new_pipeline ov cfg = Some p0" "pipeline_run p0 es p" "pl_control p = Closed mode"
  shows "mset (enqueued es) = mset (ingested es) + mset (dropped es) \<and>
    (pl_uncounted p \<noteq> 0 \<or> ps_submitted (pl_counters p) = processed p + ps_discarded (pl_counters p)) \<and>
    (asked_to_discard es p \<or> dropped es = [])"
proof -
  note inv = run_invariants[OF assms(1,2)]
  let ?n = "length (pl_shards p)"
  have ok: "shape_ok p" "shards_ok es p" "control_ok p" "discard_ok es p" "counters_ok es p"
    using inv by blast+
  then have n: "0 < ?n" "?n < 2 ^ 64" by (simp_all add: shape_ok_def)
  have gone: "set (pl_workers p) \<subseteq> {Returned}" using ok assms(3) by (simp add: control_ok_def)
  have "on_shard ?n k (enqueued es) = on_shard ?n k (ingested es @ dropped es)" if k: "k < ?n" for k
  proof -
    have "pl_workers p ! k \<in> set (pl_workers p)" using k ok(1) by (simp add: shape_ok_def)
    then have "pl_workers p ! k = Returned" using gone by blast
    then show ?thesis using ok(2) k by (auto simp: shards_ok_def shard_log_def)
  qed
  then have "(\<Sum>k<?n. mset (on_shard ?n k (enqueued es))) = (\<Sum>k<?n. mset (on_shard ?n k (ingested es @ dropped es)))"
    by simp
  moreover have "mset obs = (\<Sum>k<?n. mset (on_shard ?n k obs))" for obs
    using n by (intro mset_on_shards shard_for_less)
  ultimately have all: "mset (enqueued es) = mset (ingested es @ dropped es)" by metis
  have "uncounted_outcomes w = 0" if "w \<in> set (pl_workers p)" for w
    using gone that by auto
  then have none: "counting p = 0" by (simp add: counting_def)
  have "length (enqueued es) = length (ingested es) + length (dropped es)"
    using arg_cong[OF all, of size] by simp
  with ok(5) none have sums: "ps_submitted (pl_counters p) + of_nat (pl_uncounted p) =
      processed p + ps_discarded (pl_counters p)"
    by (simp add: counters_ok_def)
  then have "ps_submitted (pl_counters p) = processed p + ps_discarded (pl_counters p)" if "pl_uncounted p = 0"
    using that by simp
  moreover have "asked_to_discard es p \<or> dropped es = []" using ok(4) by (auto simp: discard_ok_def)
  ultimately show ?thesis using all by auto
qed

section \<open>Shutdown ends\<close>

text \<open>
  What is left to do for the workers, an observation in a queue being three steps: it is
  taken, ingested and counted.
\<close>

fun steps_left :: "worker \<Rightarrow> nat" where
  "steps_left Returned = 0"
| "steps_left Waiting = 1"
| "steps_left (Counting d) = 2"
| "steps_left (Working ob) = 3"

definition work_left :: "pipeline \<Rightarrow> nat" where
  "work_left p = sum_list (map steps_left (pl_workers p)) +
     3 * sum_list (map (\<lambda>sh. length (sh_queue sh)) (pl_shards p))"

lemma work_left_set_worker:
  "k < length (pl_workers p) \<Longrightarrow> work_left (set_worker k w p) + steps_left (pl_workers p ! k) =
    work_left p + steps_left w"
  using sum_list_update[of k "pl_workers p" steps_left w]
  by (simp add: work_left_def set_worker_def)

lemma work_left_update_shard:
  "k < length (pl_shards p) \<Longrightarrow> work_left (update_shard k f p) + 3 * length (sh_queue (pl_shards p ! k)) =
    work_left p + 3 * length (sh_queue (f (pl_shards p ! k)))"
  using sum_list_update[of k "pl_shards p" "\<lambda>sh. length (sh_queue sh)" "f (pl_shards p ! k)"]
  by (simp add: work_left_def update_shard_def)

lemma work_left_cong: "pl_workers p' = pl_workers p \<Longrightarrow> pl_shards p' = pl_shards p \<Longrightarrow> work_left p' = work_left p"
  by (simp add: work_left_def)

lemma worker_step_less:
  assumes "worker_step p e p'" "shape_ok p"
  shows "work_left p' < work_left p"
  using assms(1)
proof cases
  case (take_item k)
  have k: "k < length (pl_shards p)" using take_item(3) assms(2) by (simp add: shape_ok_def)
  show ?thesis
  proof (cases "sh_queue (pl_shards p ! k)")
    case Nil
    then have "p' = set_worker k Returned p" using take_item by (auto simp: worker_take_def Let_def)
    then show ?thesis using work_left_set_worker[OF take_item(3), of Returned] take_item(4) by simp
  next
    case (Cons ob rest)
    let ?q = "update_shard k (\<lambda>sh. sh\<lparr>sh_queue := rest\<rparr>) p"
    have "p' = set_worker k (Working ob) ?q" using take_item Cons by (auto simp: worker_take_def Let_def)
    then show ?thesis
      using work_left_set_worker[of k ?q "Working ob"] work_left_update_shard[OF k, of "\<lambda>sh. sh\<lparr>sh_queue := rest\<rparr>"]
        take_item(3,4) Cons by simp
  qed
next
  case (drop_items k)
  have k: "k < length (pl_shards p)" using drop_items(3) assms(2) by (simp add: shape_ok_def)
  let ?q = "update_shard k (\<lambda>sh. sh\<lparr>sh_queue := []\<rparr>) p"
  have "work_left p' = work_left (set_worker k Returned ?q)"
    using drop_items by (intro work_left_cong) (simp_all add: worker_take_def Let_def)
  then show ?thesis
    using work_left_set_worker[of k ?q Returned] work_left_update_shard[OF k, of "\<lambda>sh. sh\<lparr>sh_queue := []\<rparr>"]
      drop_items(3,4) by simp
next
  case (ingest_item k ob)
  obtain st outcome ov where i: "ingest ob (worker_options p) (pl_observatory p) = (st, outcome, ov)"
    by (metis prod_cases3)
  show ?thesis
    using work_left_set_worker[of k "p\<lparr>pl_observatory := ov\<rparr>" "Counting (ig_disposition outcome)"]
      work_left_cong[of "p\<lparr>pl_observatory := ov\<rparr>" p] ingest_item(3,4) i
    by (simp add: ingest_item(2) worker_ingest_def)
next
  case (count_item k d)
  let ?q = "p\<lparr>pl_counters := count_disposition d (pl_counters p)\<rparr>"
  show ?thesis
    using work_left_set_worker[of k ?q Waiting] work_left_cong[of ?q p] count_item(3,4)
    by (simp add: count_item(2) worker_count_def)
qed

text \<open>Nobody waits for ever once every shard is stopping.\<close>

lemma worker_not_stuck:
  assumes "shape_ok p" "\<forall>sh\<in>set (pl_shards p). sh_stopping sh" "\<not> set (pl_workers p) \<subseteq> {Returned}"
  shows "\<exists>e p'. worker_step p e p'"
proof -
  obtain k where k: "k < length (pl_workers p)" "pl_workers p ! k \<noteq> Returned"
    using assms(3) by (metis in_set_conv_nth insertI1 subsetI)
  have stop: "sh_stopping (pl_shards p ! k)" using assms(1,2) k(1) by (simp add: shape_ok_def)
  show ?thesis
  proof (cases "pl_workers p ! k")
    case Waiting
    then show ?thesis
      using k(1) stop take_item[of k p] drop_items[of k p] by (auto simp: worker_awake_def)
  next
    case (Working ob)
    then show ?thesis using k(1) ingest_item by blast
  next
    case (Counting d)
    then show ?thesis using k(1) count_item by blast
  qed (use k in simp)
qed

inductive worker_run :: "nat \<Rightarrow> pipeline \<Rightarrow> pipeline \<Rightarrow> bool" where
  worker_idle: "worker_run 0 p p"
| worker_more: "worker_run n p p' \<Longrightarrow> worker_step p' e p'' \<Longrightarrow> worker_run (Suc n) p p''"

lemma worker_run_keeps:
  "worker_run n p p' \<Longrightarrow> shape_ok p \<Longrightarrow> shape_ok p' \<and> pl_control p' = pl_control p \<and>
     length (pl_shards p') = length (pl_shards p) \<and> n + work_left p' \<le> work_left p \<and>
     (\<forall>k<length (pl_shards p). sh_stopping (pl_shards p' ! k) = sh_stopping (pl_shards p ! k))"
proof (induction rule: worker_run.induct)
  case (worker_more n p p' e p'')
  then have IH: "shape_ok p'" "pl_control p' = pl_control p" "length (pl_shards p') = length (pl_shards p)"
    "n + work_left p' \<le> work_left p"
    "\<forall>k<length (pl_shards p). sh_stopping (pl_shards p' ! k) = sh_stopping (pl_shards p ! k)" by simp_all
  show ?case
    using worker_step_shape[OF worker_more(2) IH(1)] worker_step_keeps[OF worker_more(2) IH(1)]
      worker_step_less[OF worker_more(2) IH(1)] IH by simp
qed simp

lemma worker_run_trans:
  "worker_run n p p' \<Longrightarrow> pipeline_run p0 es p \<Longrightarrow> \<exists>fs. pipeline_run p0 (es @ fs) p'"
proof (induction rule: worker_run.induct)
  case (worker_idle p)
  then show ?case by (intro exI[of _ "[]"]) simp
next
  case (worker_more n p p' e p'')
  then obtain fs where "pipeline_run p0 (es @ fs) p'" by blast
  then have "pipeline_run p0 ((es @ fs) @ [e]) p''" using worker_more(2) by (intro run_step do_work)
  then show ?case by (metis append.assoc)
qed

lemma worker_run_ends:
  "shape_ok p \<Longrightarrow> \<forall>sh\<in>set (pl_shards p). sh_stopping sh \<Longrightarrow>
     \<exists>n p'. worker_run n p p' \<and> set (pl_workers p') \<subseteq> {Returned}"
proof (induction "work_left p" arbitrary: p rule: less_induct)
  case less
  show ?case
  proof (cases "set (pl_workers p) \<subseteq> {Returned}")
    case True
    then show ?thesis using worker_idle by blast
  next
    case False
    then obtain e q where step: "worker_step p e q" using worker_not_stuck less.prems by blast
    have "shape_ok q" "\<forall>sh\<in>set (pl_shards q). sh_stopping sh"
      using worker_step_shape[OF step less.prems(1)] worker_step_keeps[OF step less.prems(1)] less.prems(2)
      by (simp_all add: all_set_conv_all_nth)
    then obtain n p' where run: "worker_run n q p'" "set (pl_workers p') \<subseteq> {Returned}"
      using less.hyps[OF worker_step_less[OF step less.prems(1)]] by blast
    have "worker_run (Suc n) p p'"
      using run(1) step
    proof (induction n q p' rule: worker_run.induct)
      case (worker_idle q)
      then show ?case using worker_run.worker_idle worker_run.worker_more by blast
    next
      case (worker_more n q q' e' q'')
      then show ?case using worker_run.worker_more by blast
    qed
    then show ?thesis using run(2) by blast
  qed
qed

text \<open>Joining the workers that returned.\<close>

lemma join_all:
  assumes "set (pl_workers p) \<subseteq> {Returned}" "pl_control p = Joining mode j" "j \<le> length (pl_workers p)"
    and "pipeline_run p0 es p"
  shows "\<exists>fs p'. pipeline_run p0 (es @ fs) p' \<and> pl_control p' = Closed mode"
  using assms
proof (induction "length (pl_workers p) - j" arbitrary: j p es)
  case 0
  then have "pipeline_step p Quiet (close_pipeline mode p)" by (intro do_close) simp
  from run_step[OF 0(5) this] show ?case by (intro exI[of _ "[Quiet]"]) (auto simp: close_pipeline_def)
next
  case (Suc m)
  have j: "j < length (pl_workers p)" using Suc(2) by simp
  then have "pl_workers p ! j = Returned" using Suc(3) nth_mem by blast
  then have "pipeline_step p Quiet (p\<lparr>pl_control := Joining mode (j + 1)\<rparr>)" using Suc(4) j by (intro do_join)
  from run_step[OF Suc(6) this] have r: "pipeline_run p0 (es @ [Quiet]) (p\<lparr>pl_control := Joining mode (j + 1)\<rparr>)" .
  have "\<exists>fs p'. pipeline_run p0 ((es @ [Quiet]) @ fs) p' \<and> pl_control p' = Closed mode"
    by (rule Suc(1)[OF _ _ _ _ r]) (use Suc j in auto)
  then show ?case by (metis append.assoc)
qed

lemma shutdown_ends:
  assumes "new_pipeline ov cfg = Some p0" "pipeline_run p0 es p" "pl_control p = Joining mode j"
  shows "(\<forall>n p'. worker_run n p p' \<longrightarrow> n \<le> work_left p \<and>
      (set (pl_workers p') \<subseteq> {Returned} \<or> (\<exists>e p''. worker_step p' e p''))) \<and>
    (\<exists>fs p'. pipeline_run p0 (es @ fs) p' \<and> pl_control p' = Closed mode)"
proof -
  note inv = run_invariants[OF assms(1,2)]
  have shape: "shape_ok p" and stop: "\<forall>sh\<in>set (pl_shards p). sh_stopping sh"
    using inv assms(3) by (simp_all add: control_ok_def)
  have "n \<le> work_left p \<and> (set (pl_workers p') \<subseteq> {Returned} \<or> (\<exists>e p''. worker_step p' e p''))"
    if "worker_run n p p'" for n p'
    using worker_run_keeps[OF that shape] worker_not_stuck[of p'] stop by (auto simp: all_set_conv_all_nth)
  moreover obtain n q where q: "worker_run n p q" "set (pl_workers q) \<subseteq> {Returned}"
    using worker_run_ends[OF shape stop] by blast
  obtain gs where gs: "pipeline_run p0 (es @ gs) q" using worker_run_trans[OF q(1) assms(2)] by blast
  have "pl_control q = Joining mode j" using worker_run_keeps[OF q(1) shape] assms(3) by simp
  moreover from this have "j \<le> length (pl_workers q)"
    using run_invariants[OF assms(1) gs] by (simp add: control_ok_def)
  ultimately show ?thesis using join_all[OF q(2) _ _ gs] by (metis append.assoc)
qed

end
