(* ===== verification/Fab_Invariant.thy ===== *)
theory Fab_Invariant
  imports Fab_Runtime
begin

text \<open>
  The invariant of the runtime. Every store is within its configured bound, the index finds
  exactly the retained evidence, refusals are recorded once, sources are filed under their own
  identity, and the published snapshot is the newest entry of the history. Every elementary
  action keeps it, so every reachable state has it.
\<close>

section \<open>The index of the evidence\<close>

text \<open>The index maps a content digest to the first record with that content.\<close>

definition digest_entries :: "observation_record list \<Rightarrow> (digest256 \<times> nat) list" where
  "digest_entries rs = map (\<lambda>(i, r). (content_digest (or_observation r), i)) (enumerate 0 rs)"

definition index_ok :: "observation_record list \<Rightarrow> (digest256 \<times> nat) list \<Rightarrow> bool" where
  "index_ok rs idx \<longleftrightarrow> om_sorted idx \<and> map_of idx = map_of (digest_entries rs)"

lemma digest_entries_snoc:
  "digest_entries (rs @ [r]) = digest_entries rs @ [(content_digest (or_observation r), length rs)]"
  by (simp add: digest_entries_def enumerate_append_eq)

lemma index_ok_build: "index_ok rs (build_index rs)"
proof -
  have "build_index rs = fold (\<lambda>x. om_emplace (content_digest (or_observation (snd x))) (fst x)) (enumerate 0 rs) []"
    by (simp add: build_index_def case_prod_unfold)
  then show ?thesis
    using om.invar_fold_emplace[of "[]" "\<lambda>x. content_digest (or_observation (snd x))" fst "enumerate 0 rs"]
      om.find_fold_emplace[of "[]" "\<lambda>x. content_digest (or_observation (snd x))" fst "enumerate 0 rs"]
    by (auto simp: index_ok_def digest_entries_def case_prod_unfold fun_eq_iff)
qed

lemma index_ok_emplace:
  assumes "index_ok rs idx"
  shows "index_ok (rs @ [r]) (om_emplace (content_digest (or_observation r)) (length rs) idx)"
  using assms om.find_emplace[of idx "content_digest (or_observation r)" "length rs"]
  by (auto simp: index_ok_def om_sorted_emplace digest_entries_snoc map_add_def fun_eq_iff split: option.splits)

text \<open>So membership in the index is membership of the content in the evidence.\<close>

lemma index_ok_known:
  assumes "index_ok rs idx"
  shows "map_of idx d \<noteq> None \<longleftrightarrow> d \<in> (\<lambda>r. content_digest (or_observation r)) ` set rs"
proof -
  have "map_of idx d \<noteq> None \<longleftrightarrow> d \<in> fst ` set (digest_entries rs)"
    using assms by (simp add: index_ok_def map_of_eq_None_iff)
  also have "fst ` set (digest_entries rs) = (\<lambda>r. content_digest (or_observation r)) ` snd ` set (enumerate 0 rs)"
    by (force simp: digest_entries_def image_iff)
  also have "snd ` set (enumerate 0 rs) = set rs"
    by (metis map_snd_enumerate set_map)
  finally show ?thesis .
qed

section \<open>Eviction\<close>

definition evicted_positions :: "nat \<Rightarrow> observation_record list \<Rightarrow> nat list" where
  "evicted_positions bound rs = take (eviction_count (length rs) bound)
     (sort_key (\<lambda>i. eviction_key (rs ! i)) [0..<length rs])"

definition kept_records :: "nat \<Rightarrow> observation_record list \<Rightarrow> observation_record list" where
  "kept_records bound rs =
     map snd (filter (\<lambda>(i, r). i \<notin> set (evicted_positions bound rs)) (enumerate 0 rs))"

lemma evict_evidence_records:
  "ov_records (evict_evidence ov) =
     (let rs = ov_records ov; bound = unat (max_evidence_records (ov_limits ov))
      in if length rs \<le> bound then rs else kept_records bound rs)"
  "index_ok (ov_records ov) (ov_index ov) \<Longrightarrow> index_ok (ov_records (evict_evidence ov)) (ov_index (evict_evidence ov))"
  by (simp_all add: evict_evidence_def kept_records_def evicted_positions_def Let_def index_ok_build)

lemma length_kept_filter:
  "length (filter (\<lambda>(i, r). i \<notin> S) (enumerate k rs)) = card ({k..<k + length rs} - S)"
proof (induction rs arbitrary: k)
  case (Cons r rs)
  have "{k..<k + length (r # rs)} - S = (if k \<in> S then {} else {k}) \<union> ({Suc k..<Suc k + length rs} - S)"
    by (cases "k \<in> S") (auto simp: Suc_le_eq le_less)
  moreover have "k \<notin> {Suc k..<Suc k + length rs} - S" by simp
  ultimately show ?case using Cons[of "Suc k"] by simp
qed simp

lemma evicted_positions_facts:
  "distinct (evicted_positions bound rs)" "set (evicted_positions bound rs) \<subseteq> {..<length rs}"
  "length (evicted_positions bound rs) = min (length rs) (eviction_count (length rs) bound)"
proof -
  show "distinct (evicted_positions bound rs)" "length (evicted_positions bound rs) =
      min (length rs) (eviction_count (length rs) bound)"
    by (simp_all add: evicted_positions_def)
  show "set (evicted_positions bound rs) \<subseteq> {..<length rs}"
    using set_take_subset[of "eviction_count (length rs) bound" "sort_key (\<lambda>i. eviction_key (rs ! i)) [0..<length rs]"]
    by (auto simp: evicted_positions_def)
qed

lemma length_kept_records:
  "length (kept_records bound rs) = length rs - eviction_count (length rs) bound"
proof -
  have "length (kept_records bound rs) = card ({0..<length rs} - set (evicted_positions bound rs))"
    by (simp add: kept_records_def length_kept_filter)
  also have "\<dots> = length rs - card (set (evicted_positions bound rs))"
    using evicted_positions_facts(2)[of bound rs] by (subst card_Diff_subset) (auto simp: lessThan_atLeast0)
  also have "card (set (evicted_positions bound rs)) = min (length rs) (eviction_count (length rs) bound)"
    using evicted_positions_facts(1,3)[of bound rs] by (simp add: distinct_card)
  finally show ?thesis by simp
qed

lemma eviction_count_enough: "n - bound \<le> eviction_count n bound"
  by (auto simp: eviction_count_def Let_def)

lemma evict_evidence_bounded:
  "length (ov_records (evict_evidence ov)) \<le> unat (max_evidence_records (ov_limits ov))"
  using eviction_count_enough[of "length (ov_records ov)" "unat (max_evidence_records (ov_limits ov))"]
  by (auto simp: evict_evidence_records Let_def length_kept_records)

lemma kept_records_subset: "set (kept_records bound rs) \<subseteq> set rs"
proof -
  have "set (kept_records bound rs) \<subseteq> snd ` set (enumerate 0 rs)"
    by (auto simp: kept_records_def)
  then show ?thesis by (metis map_snd_enumerate set_map)
qed

text \<open>What is dropped was received no later than anything that is kept.\<close>

lemma evicted_before_kept:
  assumes "i \<in> set (evicted_positions bound rs)" "k < length rs" "k \<notin> set (evicted_positions bound rs)"
  shows "eviction_key (rs ! i) \<le> eviction_key (rs ! k)"
proof -
  let ?key = "\<lambda>i. eviction_key (rs ! i)" and ?n = "eviction_count (length rs) bound"
  let ?order = "sort_key ?key [0..<length rs]"
  have "sorted (map ?key (take ?n ?order @ drop ?n ?order))" by simp
  then have "\<forall>x\<in>set (take ?n ?order). \<forall>y\<in>set (drop ?n ?order). ?key x \<le> ?key y"
    by (simp only: map_append sorted_append) auto
  moreover have "k \<in> set (drop ?n ?order)"
  proof -
    have "k \<in> set ?order" using assms(2) by simp
    then have "k \<in> set (take ?n ?order) \<union> set (drop ?n ?order)" by (metis append_take_drop_id set_append)
    then show ?thesis using assms(3) by (simp add: evicted_positions_def)
  qed
  ultimately show ?thesis using assms(1) by (simp add: evicted_positions_def)
qed

section \<open>The invariant\<close>

definition sources_ok :: "observatory \<Rightarrow> bool" where
  "sources_ok ov \<longleftrightarrow> om_sorted (ov_sources ov) \<and>
     (\<forall>(i, st)\<in>set (ov_sources ov). sd_id (so_descriptor st) = i) \<and>
     length (ov_sources ov) \<le> unat (max_sources (ov_limits ov))"

definition lineage_ok :: "observatory \<Rightarrow> bool" where
  "lineage_ok ov \<longleftrightarrow> om_sorted (ov_incarnations ov) \<and>
     (\<forall>(i, seen)\<in>set (ov_incarnations ov). length seen \<le> unat (max_incarnations_per_source (ov_limits ov))) \<and>
     om_sorted (ov_revisions ov) \<and> length (ov_revisions ov) \<le> unat (max_subjects (ov_limits ov))"

definition evidence_ok :: "observatory \<Rightarrow> bool" where
  "evidence_ok ov \<longleftrightarrow> index_ok (ov_records ov) (ov_index ov) \<and>
     length (ov_records ov) \<le> unat (max_evidence_records (ov_limits ov))"

definition refusals_ok :: "observatory \<Rightarrow> bool" where
  "refusals_ok ov \<longleftrightarrow> length (ov_rejected ov) \<le> unat (max_rejections_retained (ov_limits ov)) \<and>
     distinct (map rj_observation_id (ov_rejected ov)) \<and>
     length (ov_fenced_claims ov) \<le> unat (max_rejections_retained (ov_limits ov))"

definition history_ok :: "observatory \<Rightarrow> bool" where
  "history_ok ov \<longleftrightarrow> hy_capacity (ov_history ov) \<noteq> 0 \<and>
     length (hy_ring (ov_history ov)) \<le> unat (hy_capacity (ov_history ov)) \<and>
     ov_published ov = history_latest (ov_history ov)"

definition runtime_ok :: "observatory \<Rightarrow> bool" where
  "runtime_ok ov \<longleftrightarrow> sources_ok ov \<and> lineage_ok ov \<and> evidence_ok ov \<and> refusals_ok ov \<and> history_ok ov"

lemmas runtime_ok_parts = sources_ok_def lineage_ok_def evidence_ok_def refusals_ok_def history_ok_def

lemma push_bounded_ok:
  "length xs \<le> n \<Longrightarrow> length (push_bounded xs x n) \<le> n"
  "distinct (map f (xs @ [x])) \<Longrightarrow> distinct (map f (push_bounded xs x n))"
  by (auto simp: push_bounded_def length_drop_excess) (cases xs; auto simp: drop_excess_def)

lemma record_rejection_ok: "refusals_ok ov \<Longrightarrow> refusals_ok (record_rejection ob t c e ov)"
proof -
  assume ok: "refusals_ok ov"
  have "refusals_ok (ov\<lparr>ov_rejected := push_bounded (ov_rejected ov) r
      (unat (max_rejections_retained (ov_limits ov)))\<rparr>)"
    if "\<not> list_ex (\<lambda>x. rj_observation_id x = rj_observation_id r) (ov_rejected ov)" for r
  proof -
    have "rj_observation_id r \<notin> rj_observation_id ` set (ov_rejected ov)"
      using that unfolding list_ex_iff by force
    then have "distinct (map rj_observation_id (ov_rejected ov @ [r]))"
      using ok by (simp add: refusals_ok_def)
    then show ?thesis
      using ok push_bounded_ok(2)[of rj_observation_id "ov_rejected ov" r]
      by (simp add: refusals_ok_def push_bounded_ok(1))
  qed
  then show "refusals_ok (record_rejection ob t c e ov)"
    using ok unfolding record_rejection_def Let_def by simp
qed

lemma record_fenced_claim_ok: "refusals_ok ov \<Longrightarrow> refusals_ok (record_fenced_claim ob t cl c e ov)"
  by (auto simp: refusals_ok_def record_fenced_claim_def Let_def push_bounded_ok)

lemma sources_put_ok:
  assumes "sources_ok ov" "map_of (ov_sources ov) i \<noteq> None \<or> length (ov_sources ov) < unat (max_sources (ov_limits ov))"
    and "sd_id (so_descriptor st) = i"
  shows "sources_ok (ov\<lparr>ov_sources := om_put i st (ov_sources ov)\<rparr>)"
proof -
  have "\<forall>(k, s)\<in>set (om_put i st (ov_sources ov)). sd_id (so_descriptor s) = k"
    using assms(1,3) om_put_set[of i st "ov_sources ov"] unfolding sources_ok_def by blast
  moreover have "length (om_put i st (ov_sources ov)) \<le> unat (max_sources (ov_limits ov))"
    using assms(1,2) length_om_put[of "ov_sources ov" i st]
    by (auto simp: sources_ok_def map_of_eq_None_iff)
  ultimately show ?thesis
    using assms(1) by (simp add: sources_ok_def om_sorted_put)
qed

lemma adjust_source_ok:
  assumes "sources_ok ov" "\<And>st. so_descriptor (f st) = so_descriptor st"
  shows "sources_ok (adjust_source i f ov)"
proof (cases "map_of (ov_sources ov) i")
  case (Some st)
  then have "sd_id (so_descriptor st) = i"
    using assms(1) map_of_SomeD[OF Some] by (auto simp: sources_ok_def)
  then show ?thesis using Some assms by (simp add: adjust_source_def sources_put_ok)
qed (simp add: adjust_source_def assms(1))

lemma register_source_ok:
  assumes "sources_ok ov"
  shows "sources_ok (snd (register_source d ov))"
proof -
  have "sources_ok (ov\<lparr>ov_sources := om_put (sd_id d) st (ov_sources ov)\<rparr>)"
    if "map_of (ov_sources ov) (sd_id d) \<noteq> None \<or> length (ov_sources ov) < unat (max_sources (ov_limits ov))"
      "sd_id (so_descriptor st) = sd_id d" for st
    using assms that by (rule sources_put_ok)
  then show ?thesis
    using assms by (auto simp: register_source_def Let_def om_emplace_def fresh_source_def
        split: option.splits)
qed

lemma sources_ok_cong:
  "sources_ok ov \<Longrightarrow> ov_sources ov' = ov_sources ov \<Longrightarrow> ov_config ov' = ov_config ov \<Longrightarrow> sources_ok ov'"
  by (simp add: sources_ok_def)

lemma lineage_ok_cong:
  "lineage_ok ov \<Longrightarrow> ov_incarnations ov' = ov_incarnations ov \<Longrightarrow> ov_revisions ov' = ov_revisions ov \<Longrightarrow>
     ov_config ov' = ov_config ov \<Longrightarrow> lineage_ok ov'"
  by (simp add: lineage_ok_def)

lemma seen_put_ok:
  "lineage_ok ov \<Longrightarrow> length seen \<le> unat (max_incarnations_per_source (ov_limits ov)) \<Longrightarrow>
     lineage_ok (ov\<lparr>ov_incarnations := om_put i seen (ov_incarnations ov)\<rparr>)"
  using om_put_set[of i seen "ov_incarnations ov"] by (fastforce simp: lineage_ok_def om_sorted_put)

lemma note_incarnation_ok: "lineage_ok ov \<Longrightarrow> lineage_ok (note_incarnation ob ov)"
  unfolding note_incarnation_def by (rule seen_put_ok) (simp_all add: bounded_ring_def)

lemma revision_put_ok:
  assumes "lineage_ok ov" "map_of (ov_revisions ov) k \<noteq> None \<or> length (ov_revisions ov) < unat (max_subjects (ov_limits ov))"
  shows "lineage_ok (ov\<lparr>ov_revisions := om_put k v (ov_revisions ov)\<rparr>)"
  using assms length_om_put[of "ov_revisions ov" k v]
  by (auto simp: lineage_ok_def om_sorted_put map_of_eq_None_iff split: if_splits)

lemma claim_fence_ok:
  assumes "lineage_ok ov" "claim_fence d ob c ov = (v, ov')"
  shows "lineage_ok ov'"
proof -
  let ?k = "revision_key ob c"
  obtain ov1 where ov1: "ov1 = (if map_of (ov_revisions ov) ?k = None \<and>
      length (ov_revisions ov) < unat (max_subjects (ov_limits ov))
    then ov\<lparr>ov_revisions := om_emplace ?k 0 (ov_revisions ov)\<rparr> else ov)" by blast
  have "lineage_ok ov1"
    using assms(1) revision_put_ok[OF assms(1), of ?k 0] by (simp add: ov1 om_emplace_def)
  then have "lineage_ok (ov1\<lparr>ov_revisions := om_put ?k (cl_revision c) (ov_revisions ov1)\<rparr>)"
    if "map_of (ov_revisions ov1) ?k \<noteq> None" using that by (intro revision_put_ok) simp_all
  with \<open>lineage_ok ov1\<close> show ?thesis
    using assms unfolding claim_fence_def Let_def ov1[symmetric]
    by (auto split: if_splits option.splits)
qed

lemma publish_ok:
  assumes "history_ok ov"
  shows "history_ok (snd (publish t ov))"
proof -
  have c: "0 < unat (hy_capacity (ov_history ov))" using assms by (simp add: history_ok_def unat_gt_0)
  have "history_ok (ov\<lparr>ov_history := history_append s now (ov_history ov),
      ov_published := Some (set_publication (history_next (ov_history ov)) now s)\<rparr>)" for s now
    using c assms by (auto simp: history_ok_def history_append_def evict_oldest_drop Let_def
        history_latest_def)
  then have step: "history_ok ov'" if "ov_history ov' = history_append s now (ov_history ov)"
      "ov_published ov' = Some (set_publication (history_next (ov_history ov)) now s)" for ov' s now
    using that by (simp add: history_ok_def)
  have keep: "history_ok ov'" if "ov_history ov' = ov_history ov" "ov_published ov' = ov_published ov" for ov'
    using that assms by (simp add: history_ok_def)
  show ?thesis
    unfolding publish_def clock_now_def Let_def case_prod_conv
    by (auto simp: frame_simps split: option.splits intro: keep step)
qed

lemma accept_observation_ok:
  assumes "runtime_ok ov"
  shows "runtime_ok (accept_observation ob t st ov)"
proof -
  let ?r = "\<lparr>or_observation = ob, or_received_at = t, or_recovered = False,
    or_recovery_epoch = ov_restart_epoch ov\<rparr>"
  obtain ov1 where ov1: "ov1 = journal_write_unless_failed (journal_append ?r) ov" by blast
  have 1: "runtime_ok ov1" using assms by (simp add: ov1 runtime_ok_def runtime_ok_parts frame_simps)
  obtain ov2 where ov2: "ov2 = store_record ?r ov1" by blast
  have "evidence_ok ov2"
    using 1 index_ok_emplace[of "ov_records ov1" "ov_index ov1" ?r]
      evict_evidence_records(2)[of "ov1\<lparr>ov_index := om_emplace (content_digest ob)
        (length (ov_records ov1)) (ov_index ov1), ov_records := ov_records ov1 @ [?r]\<rparr>"]
      evict_evidence_bounded[of "ov1\<lparr>ov_index := om_emplace (content_digest ob)
        (length (ov_records ov1)) (ov_index ov1), ov_records := ov_records ov1 @ [?r]\<rparr>"]
    by (simp add: evidence_ok_def ov2 store_record_def runtime_ok_def frame_simps)
  then have 2: "runtime_ok ov2"
    using 1 by (simp add: runtime_ok_def sources_ok_def lineage_ok_def refusals_ok_def history_ok_def
        ov2 store_record_def frame_simps)
  obtain ov3 where ov3: "ov3 = (if si_id (so_incarnation st) \<noteq> ob_incarnation ob
      then note_incarnation ob ov2 else ov2)" by blast
  have 3: "runtime_ok ov3"
    using 2 note_incarnation_ok[of ov2 ob]
    by (auto simp: runtime_ok_def ov3 note_incarnation_def sources_ok_def evidence_ok_def
        refusals_ok_def history_ok_def)
  have "runtime_ok (adjust_source (ob_source ob) (advance_source ob t) ov3)"
    using 3 adjust_source_ok[of ov3 "advance_source ob t" "ob_source ob"]
    by (simp add: runtime_ok_def lineage_ok_def evidence_ok_def refusals_ok_def history_ok_def
        advance_source_def Let_def frame_simps)
  then show ?thesis
    unfolding accept_observation_def Let_def ov1[symmetric] ov2[symmetric] ov3[symmetric]
    by (simp add: runtime_ok_def runtime_ok_parts)
qed

lemma runtime_ok_congs:
  "evidence_ok ov \<Longrightarrow> ov_records ov' = ov_records ov \<Longrightarrow> ov_index ov' = ov_index ov \<Longrightarrow>
     ov_config ov' = ov_config ov \<Longrightarrow> evidence_ok ov'"
  "refusals_ok ov \<Longrightarrow> ov_rejected ov' = ov_rejected ov \<Longrightarrow> ov_fenced_claims ov' = ov_fenced_claims ov \<Longrightarrow>
     ov_config ov' = ov_config ov \<Longrightarrow> refusals_ok ov'"
  "history_ok ov \<Longrightarrow> ov_history ov' = ov_history ov \<Longrightarrow> ov_published ov' = ov_published ov \<Longrightarrow> history_ok ov'"
  by (simp_all add: runtime_ok_parts)

lemmas runtime_congs = sources_ok_cong lineage_ok_cong runtime_ok_congs

lemma claim_fence_fields:
  "claim_fence d ob c ov = (v, ov') \<Longrightarrow> ov_fenced_claims ov' = ov_fenced_claims ov"
  by (auto simp: claim_fence_def Let_def split: if_splits option.splits)

lemma action_ok: "runtime_action ov ov' \<Longrightarrow> runtime_ok ov \<Longrightarrow> runtime_ok ov'"
proof (induction rule: runtime_action.induct)
  case (act_clock ov)
  then show ?case by (auto simp: runtime_ok_def frame_simps intro: runtime_congs)
next
  case (act_publish ov t)
  then show ?case
    by (auto simp: runtime_ok_def frame_simps intro: publish_ok runtime_congs)
next
  case (act_reject ov ob t code reason)
  then show ?case
    by (auto simp: runtime_ok_def frame_simps intro: record_rejection_ok runtime_congs)
next
  case (act_fence ov ob t c code reason)
  then show ?case
    by (auto simp: runtime_ok_def frame_simps intro: record_fenced_claim_ok runtime_congs)
next
  case (act_register ov d)
  then show ?case
    by (auto simp: runtime_ok_def frame_simps intro: register_source_ok runtime_congs)
next
  case (act_count_fenced ov i)
  then show ?case
    by (auto simp: runtime_ok_def frame_simps intro: adjust_source_ok runtime_congs)
next
  case (act_count_duplicate ov i)
  then show ?case
    by (auto simp: runtime_ok_def frame_simps intro: adjust_source_ok runtime_congs)
next
  case (act_count ov a b c e)
  then show ?case by (auto simp: runtime_ok_def intro: runtime_congs)
next
  case (act_seen ov i)
  have "lineage_ok (ov\<lparr>ov_incarnations := om_emplace i [] (ov_incarnations ov)\<rparr>)"
    using act_seen seen_put_ok[of ov "[]" i] by (simp add: runtime_ok_def om_emplace_def split: option.split)
  then show ?case using act_seen by (auto simp: runtime_ok_def intro: runtime_congs)
next
  case (act_claim d ob c ov verdict ov')
  then show ?case
    using claim_fence_ok[OF _ act_claim(1)] claim_fence_same[OF act_claim(1)] claim_fence_fields[OF act_claim(1)]
    by (auto simp: runtime_ok_def same_admission_def intro: runtime_congs)
next
  case (act_accept ov ob st t)
  then show ?case by (intro accept_observation_ok)
next
  case (act_shutdown ov)
  then show ?case by (auto simp: runtime_ok_def shutdown_def intro: runtime_congs)
qed

lemma actions_ok: "runtime_actions ov ov' \<Longrightarrow> runtime_ok ov \<Longrightarrow> runtime_ok ov'"
  by (induction rule: rtranclp_induct) (auto dest: action_ok)

section \<open>Opening\<close>

text \<open>
  Recovery does not enforce the bounds on evidence and sources; the rest of the invariant holds
  of any opened runtime.
\<close>

definition opened_ok :: "observatory \<Rightarrow> bool" where
  "opened_ok ov \<longleftrightarrow> om_sorted (ov_sources ov) \<and>
     (\<forall>(i, st)\<in>set (ov_sources ov). sd_id (so_descriptor st) = i) \<and>
     lineage_ok ov \<and> index_ok (ov_records ov) (ov_index ov) \<and> refusals_ok ov \<and> history_ok ov"

lemma opened_runtime_ok:
  "opened_ok ov \<Longrightarrow> length (ov_records ov) \<le> unat (max_evidence_records (ov_limits ov)) \<Longrightarrow>
   length (ov_sources ov) \<le> unat (max_sources (ov_limits ov)) \<Longrightarrow> runtime_ok ov"
  by (simp add: opened_ok_def runtime_ok_def sources_ok_def evidence_ok_def)

lemma new_observatory_ok: "opened_ok (new_observatory cfg clock)"
  by (simp add: opened_ok_def runtime_ok_parts new_observatory_def history_reset_def history_latest_def
      index_ok_def digest_entries_def)

lemma restore_record_ok: "opened_ok ov \<Longrightarrow> opened_ok (restore_record r ov)"
  using index_ok_emplace[of "ov_records ov" "ov_index ov" "mark_recovered (ov_restart_epoch ov) r"]
  by (simp add: opened_ok_def restore_record_def Let_def lineage_ok_def refusals_ok_def history_ok_def)

lemma rebuild_source_ok:
  assumes "opened_ok ov"
  shows "opened_ok (rebuild_source r ov)"
proof -
  let ?i = "ob_source (or_observation r)"
  have put: "opened_ok (ov'\<lparr>ov_sources := om_put ?i st (ov_sources ov')\<rparr>)"
    if "opened_ok ov'" "sd_id (so_descriptor st) = ?i" for ov' st
    using that om_put_set[of ?i st "ov_sources ov'"]
    by (fastforce simp: opened_ok_def om_sorted_put lineage_ok_def refusals_ok_def history_ok_def)
  have seen: "opened_ok (ov\<lparr>ov_incarnations := om_put ?i s (ov_incarnations ov)\<rparr>)"
    if "length s \<le> unat (max_incarnations_per_source (ov_limits ov))" for s
    using seen_put_ok[of ov s ?i] assms that
    by (simp add: opened_ok_def refusals_ok_def history_ok_def)
  have short: "length (seen_incarnations ov ?i) \<le> unat (max_incarnations_per_source (ov_limits ov))"
    using assms by (auto simp: opened_ok_def lineage_ok_def seen_incarnations_def dest: map_of_SomeD
        split: option.split)
  have known: "sd_id (so_descriptor st) = ?i" if "map_of (ov_sources ov) ?i = Some st" for st
    using assms map_of_SomeD[OF that] by (auto simp: opened_ok_def)
  have same: "so_descriptor (rebuild_state e r st) = so_descriptor st" for e st
    by (simp add: rebuild_state_def Let_def)
  show ?thesis
    unfolding rebuild_source_def Let_def
    by (rule put; auto simp: same short bounded_ring_def assms known fresh_source_def default_descriptor_def
        id_is_nil_def u128_is_zero_def nil_u128_def intro!: seen split: option.splits)
qed

lemma fold_opened_ok:
  "opened_ok ov \<Longrightarrow> (\<And>x ov. opened_ok ov \<Longrightarrow> opened_ok (f x ov)) \<Longrightarrow> opened_ok (fold f xs ov)"
  by (induction xs arbitrary: ov) simp_all

lemma opened_ok_cong:
  "opened_ok ov \<Longrightarrow> ov_sources ov' = ov_sources ov \<Longrightarrow> ov_config ov' = ov_config ov \<Longrightarrow>
   ov_incarnations ov' = ov_incarnations ov \<Longrightarrow> ov_revisions ov' = ov_revisions ov \<Longrightarrow>
   ov_records ov' = ov_records ov \<Longrightarrow> ov_index ov' = ov_index ov \<Longrightarrow> ov_rejected ov' = ov_rejected ov \<Longrightarrow>
   ov_fenced_claims ov' = ov_fenced_claims ov \<Longrightarrow> ov_history ov' = ov_history ov \<Longrightarrow>
   ov_published ov' = ov_published ov \<Longrightarrow> opened_ok ov'"
  by (simp add: opened_ok_def runtime_ok_parts)

lemma recover_evidence_ok: "opened_ok ov \<Longrightarrow> opened_ok (recover_evidence j ov)"
proof -
  assume "opened_ok ov"
  then have "opened_ok (ov\<lparr>ov_restart_count := jn_restart_count j + 1,
      ov_restart_epoch := jn_restart_epoch j + 1\<rparr>)" by (rule opened_ok_cong) simp_all
  then show ?thesis
    unfolding recover_evidence_def Let_def
    by (intro fold_opened_ok rebuild_source_ok restore_record_ok)
qed

text \<open>What attaching a journal did, once it succeeded.\<close>

definition recovered_state :: "journal \<Rightarrow> observatory \<Rightarrow> observatory" where
  "recovered_state j ov =
     (if oc_recover_on_open (ov_config ov) \<and> jn_recovered_records j \<noteq> []
      then recover_evidence j (ov\<lparr>ov_journal := Some j, ov_recovery := jn_recovery j\<rparr>)
      else if oc_recover_on_open (ov_config ov)
      then ov\<lparr>ov_journal := Some j, ov_recovery := jn_recovery j,
        ov_restart_count := jn_restart_count j, ov_restart_epoch := jn_restart_epoch j + 1\<rparr>
      else ov\<lparr>ov_journal := Some j, ov_recovery := jn_recovery j\<rparr>)"

definition journal_options_of :: "observatory_config \<Rightarrow> journal_options" where
  "journal_options_of cfg =
     (oc_journal cfg)\<lparr>jo_fabric := oc_fabric cfg, jo_limits := p_limits (oc_policy cfg)\<rparr>"

lemma attach_journal_eq:
  "attach_journal d faults ov =
     (case journal_open (oc_journal_path (ov_config ov)) (journal_options_of (ov_config ov)) d faults of
        (Inl e, j) \<Rightarrow> Inl e
      | (Inr _, j) \<Rightarrow> (let ov2 = recovered_state j ov
          in Inr (journal_write (append_restart_marker (ov_restart_epoch ov2) (ov_restart_count ov2)
            (fst (clock_now ov2))) (snd (clock_now ov2)))))"
  unfolding attach_journal_def journal_options_of_def[symmetric] recovered_state_def Let_def
  by (simp add: clock_now_def cong: if_cong split: prod.split sum.split)

lemma recovered_state_ok:
  assumes "opened_ok ov"
  shows "opened_ok (recovered_state j ov)"
proof -
  have base: "opened_ok (ov\<lparr>ov_journal := Some j, ov_recovery := jn_recovery j\<rparr>)"
    by (rule opened_ok_cong[OF assms]) simp_all
  have "opened_ok (ov\<lparr>ov_journal := Some j, ov_recovery := jn_recovery j,
        ov_restart_count := jn_restart_count j, ov_restart_epoch := jn_restart_epoch j + 1\<rparr>)"
    by (rule opened_ok_cong[OF assms]) simp_all
  then show ?thesis using base recover_evidence_ok[OF base] by (simp add: recovered_state_def)
qed

lemma attach_journal_ok:
  assumes "opened_ok ov" "attach_journal d faults ov = Inr ov1"
  shows "opened_ok ov1"
proof -
  have "opened_ok (journal_write w (snd (clock_now (recovered_state j ov))))" for w j
    by (rule opened_ok_cong[OF recovered_state_ok[OF assms(1)]]) (simp_all add: frame_simps)
  then show ?thesis
    using assms(2) by (auto simp: attach_journal_eq Let_def split: prod.splits sum.splits)
qed

lemma observatory_open_ok:
  assumes "observatory_open cfg clock d faults = Inr ov"
  shows "opened_ok ov"
proof -
  obtain ov1 where ov1: "(if oc_journal_path cfg = [] then Inr (new_observatory cfg clock)
      else attach_journal d faults (new_observatory cfg clock)) = Inr ov1"
    and ov: "ov = snd (publish (fst (clock_now ov1)) (snd (clock_now ov1)))"
    using assms by (auto simp: observatory_open_def rbind_Inr_iff case_prod_beta split: if_splits)
  have "opened_ok ov1"
  proof (cases "oc_journal_path cfg = []")
    case True
    then show ?thesis using ov1 new_observatory_ok[of cfg clock] by simp
  next
    case False
    then have "attach_journal d faults (new_observatory cfg clock) = Inr ov1" using ov1 by simp
    then show ?thesis by (rule attach_journal_ok[OF new_observatory_ok])
  qed
  then have "opened_ok (snd (clock_now ov1))" by (rule opened_ok_cong) (simp_all add: frame_simps)
  then show ?thesis
    using publish_ok[of "snd (clock_now ov1)" "fst (clock_now ov1)"]
    by (auto simp: ov opened_ok_def frame_simps intro: runtime_congs)
qed

end
