(* ===== verification/Fab_Lineage.thy ===== *)
theory Fab_Lineage
  imports Fab_Invariant "HOL-Library.Sublist"
begin

text \<open>
  What the fences of the runtime achieve: the generation and epoch of a source never go back,
  no sequence of an incarnation is accepted twice while the ring of incarnations has room, what
  is refused leaves the evidence and the cursors alone, and a replay is recognised.
\<close>

section \<open>Cursors\<close>

text \<open>Generation first, then epoch.\<close>

definition cursor_le :: "source_state \<Rightarrow> source_state \<Rightarrow> bool" where
  "cursor_le st st' \<longleftrightarrow> so_last_generation st < so_last_generation st' \<or>
     so_last_generation st = so_last_generation st' \<and> so_last_epoch st \<le> so_last_epoch st'"

lemma cursor_le_refl [simp]: "cursor_le st st"
  by (simp add: cursor_le_def)

lemma cursor_le_trans: "cursor_le a b \<Longrightarrow> cursor_le b c \<Longrightarrow> cursor_le a c"
  by (auto simp: cursor_le_def)

definition sources_advance :: "observatory \<Rightarrow> observatory \<Rightarrow> bool" where
  "sources_advance ov ov' \<longleftrightarrow> (\<forall>i st. map_of (ov_sources ov) i = Some st \<longrightarrow>
     (\<exists>st'. map_of (ov_sources ov') i = Some st' \<and> cursor_le st st'))"

lemma sources_advance_refl: "sources_advance ov ov"
  by (simp add: sources_advance_def)

lemma sources_advance_trans: "sources_advance a b \<Longrightarrow> sources_advance b c \<Longrightarrow> sources_advance a c"
  unfolding sources_advance_def by (meson cursor_le_trans)

lemma sources_advance_same: "ov_sources ov' = ov_sources ov \<Longrightarrow> sources_advance ov ov'"
  by (simp add: sources_advance_def)

lemma adjust_source_lookup:
  "om_sorted (ov_sources ov) \<Longrightarrow> map_of (ov_sources (adjust_source i f ov)) k =
     (if k = i then map_option f (map_of (ov_sources ov) i) else map_of (ov_sources ov) k)"
  by (auto simp: adjust_source_def map_of_om_put split: option.split)

lemma adjust_source_advance:
  assumes "om_sorted (ov_sources ov)"
    and "\<And>st. map_of (ov_sources ov) i = Some st \<Longrightarrow> cursor_le st (f st)"
  shows "sources_advance ov (adjust_source i f ov)"
  using assms by (auto simp: sources_advance_def adjust_source_lookup)

lemma register_source_advance:
  assumes "om_sorted (ov_sources ov)"
  shows "sources_advance ov (snd (register_source d ov))"
proof -
  have put: "sources_advance ov (ov\<lparr>ov_sources := om_put i st' (ov_sources ov)\<rparr>)"
    if "\<And>st. map_of (ov_sources ov) i = Some st \<Longrightarrow> cursor_le st st'" for i st'
    using that assms by (auto simp: sources_advance_def map_of_om_put)
  show ?thesis
    unfolding register_source_def Let_def
    by (auto simp: sources_advance_refl om_emplace_def cursor_le_def intro!: put split: option.splits)
qed

text \<open>Where acceptance leaves sources and evidence.\<close>

lemma accept_sources:
  "ov_sources (accept_observation ob t st ov) =
     ov_sources (adjust_source (ob_source ob) (advance_source ob t) ov)"
  by (simp add: accept_observation_def Let_def adjust_source_def frame_simps store_record_def
      note_incarnation_def split: option.split)

lemma accept_incarnations:
  "ov_incarnations (accept_observation ob t st ov) =
     (if si_id (so_incarnation st) \<noteq> ob_incarnation ob then ov_incarnations (note_incarnation ob ov)
      else ov_incarnations ov)"
  by (simp add: accept_observation_def Let_def frame_simps store_record_def note_incarnation_def
      seen_incarnations_def)

definition accepted_record :: "observation \<Rightarrow> time_point \<Rightarrow> restart_epoch \<Rightarrow> observation_record" where
  "accepted_record ob t epoch = \<lparr>or_observation = ob, or_received_at = t, or_recovered = False,
     or_recovery_epoch = epoch\<rparr>"

lemma accept_records:
  "ov_records (accept_observation ob t st ov) =
     (let rs = ov_records ov @ [accepted_record ob t (ov_restart_epoch ov)];
          bound = unat (max_evidence_records (ov_limits ov))
      in if length rs \<le> bound then rs else kept_records bound rs)"
  by (simp add: accept_observation_def Let_def frame_simps store_record_def note_incarnation_def
      evict_evidence_records accepted_record_def)

lemma accept_advance:
  assumes "om_sorted (ov_sources ov)" "map_of (ov_sources ov) (ob_source ob) = Some st"
    and "admission_of ov st ob = Admit"
  shows "sources_advance ov (accept_observation ob t st ov)"
proof -
  have "so_last_generation st < ob_generation ob \<or>
      so_last_generation st = ob_generation ob \<and> so_last_epoch st \<le> ob_epoch ob"
    using assms(3) by (auto simp: admission_of_def Let_def not_less le_less split: if_splits)
  then have "cursor_le st (advance_source ob t st)"
    by (auto simp: cursor_le_def advance_source_def Let_def)
  then have "sources_advance ov (adjust_source (ob_source ob) (advance_source ob t) ov)"
    using assms(1,2) by (intro adjust_source_advance) simp_all
  then show ?thesis by (simp add: sources_advance_def accept_sources)
qed

lemma action_advance: "runtime_action ov ov' \<Longrightarrow> om_sorted (ov_sources ov) \<Longrightarrow>
    sources_advance ov ov' \<and> om_sorted (ov_sources ov')"
proof (induction rule: runtime_action.induct)
  case (act_register ov d)
  then show ?case
    by (auto simp: register_source_advance) (auto simp: register_source_def Let_def om_sorted_put
        om_sorted_emplace split: option.split)
next
  case (act_count_fenced ov i)
  then show ?case
    by (auto simp: adjust_source_advance cursor_le_def) (auto simp: adjust_source_def om_sorted_put split: option.split)
next
  case (act_count_duplicate ov i)
  then show ?case
    by (auto simp: adjust_source_advance cursor_le_def) (auto simp: adjust_source_def om_sorted_put split: option.split)
next
  case (act_claim d ob c ov verdict ov')
  then show ?case using claim_fence_same[OF act_claim(1)]
    by (simp add: same_admission_def sources_advance_same)
next
  case (act_accept ov ob st t)
  then show ?case
    by (auto simp: accept_advance) (auto simp: accept_sources adjust_source_def om_sorted_put split: option.split)
qed (auto simp: frame_simps sources_advance_same shutdown_def)

lemma actions_advance: "runtime_actions ov ov' \<Longrightarrow> om_sorted (ov_sources ov) \<Longrightarrow>
    sources_advance ov ov' \<and> om_sorted (ov_sources ov')"
proof (induction rule: rtranclp_induct)
  case base
  then show ?case by (simp add: sources_advance_refl)
next
  case (step y z)
  then show ?case using action_advance[OF step(2)] sources_advance_trans by blast
qed

section \<open>No sequence is accepted twice\<close>

definition source_records :: "source_id \<Rightarrow> observation_record list \<Rightarrow> observation_record list" where
  "source_records i rs = filter (\<lambda>r. ob_source (or_observation r) = i) rs"

definition replay_key :: "observation_record \<Rightarrow> incarnation_id \<times> source_sequence" where
  "replay_key r = (ob_incarnation (or_observation r), ob_sequence (or_observation r))"

text \<open>
  While the ring of the incarnations of \<open>i\<close> has room, it knows every incarnation in the
  evidence, and the current one never reported beyond the last sequence.
\<close>

definition unique_ok :: "source_id \<Rightarrow> observatory \<Rightarrow> bool" where
  "unique_ok i ov \<longleftrightarrow>
     length (seen_incarnations ov i) < unat (max_incarnations_per_source (ov_limits ov)) \<longrightarrow>
     distinct (map replay_key (source_records i (ov_records ov))) \<and>
     (case map_of (ov_sources ov) i of
        None \<Rightarrow> source_records i (ov_records ov) = []
      | Some st \<Rightarrow>
          (id_is_nil (si_id (so_incarnation st)) \<or>
           si_id (so_incarnation st) \<in> set (seen_incarnations ov i)) \<and>
          (\<forall>r\<in>set (source_records i (ov_records ov)).
             fst (replay_key r) \<in> set (seen_incarnations ov i) \<and>
             (fst (replay_key r) = si_id (so_incarnation st) \<longrightarrow>
                snd (replay_key r) \<le> so_last_sequence st)))"

lemma kept_records_subseq: "subseq (kept_records bound rs) rs"
proof -
  have "subseq (kept_records bound rs) (map snd (enumerate 0 rs))"
    unfolding kept_records_def by (intro subseq_map subseq_filter_left)
  then show ?thesis by simp
qed

text \<open>What eviction drops and keeps.\<close>

lemma enumerate_nth: "(i, r) \<in> set (enumerate 0 rs) \<Longrightarrow> i < length rs \<and> r = rs ! i"
  by (auto simp: set_conv_nth nth_enumerate_eq)

lemma evict_evidence_spec:
  "\<exists>gone. mset (ov_records ov) = mset (ov_records (evict_evidence ov)) + mset gone \<and>
    subseq (ov_records (evict_evidence ov)) (ov_records ov) \<and>
    length (ov_records (evict_evidence ov)) \<le> unat (max_evidence_records (ov_limits ov)) \<and>
    length gone \<le> max (length (ov_records ov) - unat (max_evidence_records (ov_limits ov)))
      (unat (max_evidence_records (ov_limits ov)) div 16) \<and>
    (\<forall>g\<in>set gone. \<forall>k\<in>set (ov_records (evict_evidence ov)). eviction_key g \<le> eviction_key k)"
proof -
  let ?rs = "ov_records ov" and ?b = "unat (max_evidence_records (ov_limits ov))"
  show ?thesis
  proof (cases "length ?rs \<le> ?b")
    case True
    then have "ov_records (evict_evidence ov) = ?rs" by (simp add: evict_evidence_records Let_def)
    then show ?thesis using True by (intro exI[of _ "[]"]) simp
  next
    case False
    let ?S = "set (evicted_positions ?b ?rs)"
    let ?P = "\<lambda>x :: nat \<times> observation_record. fst x \<in> ?S" and ?E = "enumerate 0 ?rs"
    let ?gone = "map snd (filter ?P ?E)"
    have kept: "ov_records (evict_evidence ov) = kept_records ?b ?rs"
      using False by (simp add: evict_evidence_records Let_def)
    have keep: "kept_records ?b ?rs = map snd (filter (\<lambda>x. \<not> ?P x) ?E)"
      by (simp add: kept_records_def case_prod_unfold)
    have "mset ?E = mset (filter (\<lambda>x. \<not> ?P x) ?E) + mset (filter ?P ?E)"
      by (metis mset_filter multiset_partition union_commute)
    then have "image_mset snd (mset ?E) = image_mset snd (mset (filter (\<lambda>x. \<not> ?P x) ?E) + mset (filter ?P ?E))"
      by (rule arg_cong)
    then have "image_mset snd (mset ?E) = mset (kept_records ?b ?rs) + mset ?gone"
      by (simp only: keep image_mset_union mset_map)
    moreover have "mset ?rs = image_mset snd (mset ?E)" by (metis map_snd_enumerate mset_map)
    ultimately have parts: "mset ?rs = mset (kept_records ?b ?rs) + mset ?gone" by simp
    have "length ?gone \<le> max (length ?rs - ?b) (?b div 16)"
    proof -
      have "length ?rs = length (kept_records ?b ?rs) + length ?gone"
        using arg_cong[OF parts, of size] by (simp only: size_union size_mset)
      then have "length ?gone = length ?rs - length (kept_records ?b ?rs)" by (simp only: add_diff_cancel_left')
      also have "\<dots> \<le> eviction_count (length ?rs) ?b" by (simp add: length_kept_records)
      also have "\<dots> \<le> max (length ?rs - ?b) (?b div 16)" by (auto simp: eviction_count_def Let_def)
      finally show ?thesis .
    qed
    moreover have "eviction_key g \<le> eviction_key k" if "g \<in> set ?gone" "k \<in> set (kept_records ?b ?rs)" for g k
      using that evicted_before_kept[of _ ?b ?rs] unfolding keep by (auto dest!: enumerate_nth)
    ultimately show ?thesis
      using parts evict_evidence_bounded[of ov] kept_records_subseq[of ?b ?rs] unfolding kept by blast
  qed
qed

lemma distinct_subseq: "subseq xs ys \<Longrightarrow> distinct ys \<Longrightarrow> distinct xs"
  by (auto simp: subseq_conv_nths intro: distinct_nthsI)

text \<open>The invariant survives dropping records and anything that keeps cursors and incarnations.\<close>

lemma unique_ok_shrink:
  assumes "unique_ok i ov" "subseq (ov_records ov') (ov_records ov)"
    and "map_of (ov_sources ov') i = map_of (ov_sources ov) i"
    and "seen_incarnations ov' i = seen_incarnations ov i" "ov_config ov' = ov_config ov"
  shows "unique_ok i ov'"
proof -
  have sub: "subseq (source_records i (ov_records ov')) (source_records i (ov_records ov))"
    unfolding source_records_def using assms(2) by (rule subseq_filter)
  then have "distinct (map replay_key (source_records i (ov_records ov)))
      \<Longrightarrow> distinct (map replay_key (source_records i (ov_records ov')))"
    by (meson subseq_map distinct_subseq)
  moreover have "set (source_records i (ov_records ov')) \<subseteq> set (source_records i (ov_records ov))"
    using sub by (auto dest: list_emb_set)
  ultimately show ?thesis
    using assms unfolding unique_ok_def by (auto split: option.splits)
qed

text \<open>One more record of \<open>i\<close> that passed the fences.\<close>

lemma unique_ok_append:
  assumes ok: "unique_ok i ov" and st: "map_of (ov_sources ov) i = Some st"
    and ob: "ob_source (or_observation r) = i" "\<not> id_is_nil (fst (replay_key r))"
    and fresh: "if si_id (so_incarnation st) = fst (replay_key r)
      then so_last_sequence st < snd (replay_key r) \<and> seen_incarnations ov' i = seen_incarnations ov i
      else fst (replay_key r) \<notin> set (seen_incarnations ov i) \<and> seen_incarnations ov' i =
        bounded_ring (unat (max_incarnations_per_source (ov_limits ov)))
          (seen_incarnations ov i @ [fst (replay_key r)])"
    and after: "ov_records ov' = ov_records ov @ [r]" "ov_config ov' = ov_config ov"
      "map_of (ov_sources ov') i = Some st'" "si_id (so_incarnation st') = fst (replay_key r)"
      "so_last_sequence st' = snd (replay_key r)"
  shows "unique_ok i ov'"
proof -
  let ?seen = "seen_incarnations ov i" and ?seen' = "seen_incarnations ov' i"
  let ?rs = "source_records i (ov_records ov)" and ?max = "unat (max_incarnations_per_source (ov_limits ov))"
  have rs: "source_records i (ov_records ov') = ?rs @ [r]"
    using ob(1) after(1) by (simp add: source_records_def)
  have room: "length ?seen < ?max \<and> set ?seen \<subseteq> set ?seen' \<and>
      (si_id (so_incarnation st) \<noteq> fst (replay_key r) \<longrightarrow> fst (replay_key r) \<in> set ?seen')"
    if "length ?seen' < ?max"
    using that fresh by (auto simp: bounded_ring_def split: if_splits)
  show ?thesis
    unfolding unique_ok_def
  proof
    assume "length ?seen' < unat (max_incarnations_per_source (ov_limits ov'))"
    then have seen': "length ?seen' < ?max" by (simp add: after(2))
    then have held: "distinct (map replay_key ?rs)"
      "id_is_nil (si_id (so_incarnation st)) \<or> si_id (so_incarnation st) \<in> set ?seen"
      "\<forall>r\<in>set ?rs. fst (replay_key r) \<in> set ?seen \<and>
         (fst (replay_key r) = si_id (so_incarnation st) \<longrightarrow> snd (replay_key r) \<le> so_last_sequence st)"
      using ok room[OF seen'] st by (auto simp: unique_ok_def)
    have "replay_key r \<notin> replay_key ` set ?rs"
    proof (cases "si_id (so_incarnation st) = fst (replay_key r)")
      case True
      then show ?thesis using held(3) fresh by force
    next
      case False
      then show ?thesis using held(3) fresh by force
    qed
    moreover have "fst (replay_key r) \<in> set ?seen'"
      using room[OF seen'] held(2) ob(2) by (cases "si_id (so_incarnation st) = fst (replay_key r)") auto
    moreover have "\<forall>x\<in>set ?rs. fst (replay_key x) = fst (replay_key r) \<longrightarrow> snd (replay_key x) \<le> snd (replay_key r)"
      using held(3) fresh by (cases "si_id (so_incarnation st) = fst (replay_key r)") force+
    ultimately show "distinct (map replay_key (source_records i (ov_records ov'))) \<and>
     (case map_of (ov_sources ov') i of
        None \<Rightarrow> source_records i (ov_records ov') = []
      | Some st \<Rightarrow>
          (id_is_nil (si_id (so_incarnation st)) \<or> si_id (so_incarnation st) \<in> set ?seen') \<and>
          (\<forall>r\<in>set (source_records i (ov_records ov')). fst (replay_key r) \<in> set ?seen' \<and>
             (fst (replay_key r) = si_id (so_incarnation st) \<longrightarrow>
                snd (replay_key r) \<le> so_last_sequence st)))"
      using held(1,3) room[OF seen'] by (auto simp: rs after(2-5))
  qed
qed

lemma admit_fences:
  assumes "admission_of ov st ob = Admit"
  shows "if si_id (so_incarnation st) = ob_incarnation ob then so_last_sequence st < ob_sequence ob
    else ob_incarnation ob \<notin> set (seen_incarnations ov (ob_source ob))"
  using assms by (auto simp: admission_of_def Let_def not_le split: if_splits)

lemma precheck_valid: "precheck ov t ob = None \<Longrightarrow> observation_validate (ov_limits ov) ob = Inr ()"
  by (auto simp: precheck_def split: sum.splits if_splits)

lemma accept_unique:
  assumes ok: "unique_ok i ov" and so: "om_sorted (ov_sources ov)" "om_sorted (ov_incarnations ov)"
    and st: "map_of (ov_sources ov) (ob_source ob) = Some st" and adm: "admission_of ov st ob = Admit"
    and pre: "precheck ov t ob = None"
  shows "unique_ok i (accept_observation ob t st ov)"
proof -
  let ?ov' = "accept_observation ob t st ov"
  let ?r = "accepted_record ob t (ov_restart_epoch ov)"
  obtain ov1 where ov1: "ov1 = ?ov'\<lparr>ov_records := ov_records ov @ [?r]\<rparr>" by blast
  have config: "ov_config ?ov' = ov_config ov"
    by (simp add: accept_observation_def Let_def frame_simps store_record_def note_incarnation_def)
  have same1: "ov_sources ov1 = ov_sources ?ov'" "ov_incarnations ov1 = ov_incarnations ?ov'"
    "ov_config ov1 = ov_config ov" "ov_records ov1 = ov_records ov @ [?r]"
    by (simp_all add: ov1 config)
  have sources: "map_of (ov_sources ov1) k = (if k = ob_source ob then Some (advance_source ob t st)
      else map_of (ov_sources ov) k)" for k
    using so(1) st by (simp add: same1 accept_sources adjust_source_lookup)
  have seen: "seen_incarnations ov1 k = (if k = ob_source ob \<and> si_id (so_incarnation st) \<noteq> ob_incarnation ob
      then bounded_ring (unat (max_incarnations_per_source (ov_limits ov)))
        (seen_incarnations ov k @ [ob_incarnation ob]) else seen_incarnations ov k)" for k
    using so(2) by (auto simp: seen_incarnations_def[of ov1] same1 accept_incarnations note_incarnation_def
        map_of_om_put) (auto simp: seen_incarnations_def)
  have "unique_ok i ov1"
  proof (cases "i = ob_source ob")
    case True
    have "\<not> id_is_nil (ob_incarnation ob)" using precheck_valid[OF pre] by (simp add: observation_validate_ok)
    moreover have key: "replay_key ?r = (ob_incarnation ob, ob_sequence ob)"
      by (simp add: replay_key_def accepted_record_def)
    moreover have "ob_source (or_observation ?r) = ob_source ob" by (simp add: accepted_record_def)
    moreover have "si_id (so_incarnation (advance_source ob t st)) = ob_incarnation ob"
      "so_last_sequence (advance_source ob t st) = ob_sequence ob"
      by (simp_all add: advance_source_def Let_def)
    moreover have "map_of (ov_sources ov1) (ob_source ob) = Some (advance_source ob t st)"
      by (simp only: sources simp_thms if_True)
    moreover have "if si_id (so_incarnation st) = ob_incarnation ob
      then so_last_sequence st < ob_sequence ob \<and>
        seen_incarnations ov1 (ob_source ob) = seen_incarnations ov (ob_source ob)
      else ob_incarnation ob \<notin> set (seen_incarnations ov (ob_source ob)) \<and>
        seen_incarnations ov1 (ob_source ob) = bounded_ring (unat (max_incarnations_per_source (ov_limits ov)))
          (seen_incarnations ov (ob_source ob) @ [ob_incarnation ob])"
      using admit_fences[OF adm] by (auto simp only: seen split: if_splits)
    ultimately show ?thesis
      using ok st same1(3,4) unfolding True
      by (intro unique_ok_append[where ov = ov and ov' = ov1 and st = st and r = ?r
            and st' = "advance_source ob t st"]) (simp_all only: fst_conv snd_conv simp_thms)
  next
    case False
    have "source_records i (ov_records ov1) = source_records i (ov_records ov)"
      using False by (simp add: same1 source_records_def accepted_record_def)
    moreover have "map_of (ov_sources ov1) i = map_of (ov_sources ov) i"
      "seen_incarnations ov1 i = seen_incarnations ov i"
      using False by (simp_all only: sources seen if_False simp_thms)
    ultimately show ?thesis using ok unfolding unique_ok_def by (simp only: same1(3))
  qed
  moreover have "subseq (ov_records ?ov') (ov_records ov1)"
    by (simp add: same1 accept_records Let_def kept_records_subseq)
  ultimately show ?thesis
    by (rule unique_ok_shrink) (simp_all add: same1 config seen_incarnations_def)
qed

text \<open>Every other action keeps evidence, cursors and rings.\<close>

lemma register_keeps_cursor:
  assumes "om_sorted (ov_sources ov)" "map_of (ov_sources ov) i = Some st"
  shows "\<exists>st'. map_of (ov_sources (snd (register_source d ov))) i = Some st' \<and>
    so_incarnation st' = so_incarnation st \<and> so_last_sequence st' = so_last_sequence st"
  using assms by (auto simp: register_source_def Let_def om_emplace_def map_of_om_put split: option.split)

lemma register_new_source:
  assumes "om_sorted (ov_sources ov)" "map_of (ov_sources ov) i = None"
    "map_of (ov_sources (snd (register_source d ov))) i = Some st'"
  shows "id_is_nil (si_id (so_incarnation st'))"
  using assms by (auto simp: register_source_def Let_def om_emplace_def map_of_om_put fresh_source_def
      id_is_nil_def nil_u128_def u128_is_zero_def split: option.splits if_splits)

lemma unique_ok_cursors:
  assumes "unique_ok i ov" "ov_records ov' = ov_records ov" "ov_config ov' = ov_config ov"
    "seen_incarnations ov' i = seen_incarnations ov i"
    and "\<And>st. map_of (ov_sources ov) i = Some st \<Longrightarrow> \<exists>st'. map_of (ov_sources ov') i = Some st' \<and>
      so_incarnation st' = so_incarnation st \<and> so_last_sequence st' = so_last_sequence st"
    and "\<And>st'. map_of (ov_sources ov) i = None \<Longrightarrow> map_of (ov_sources ov') i = Some st' \<Longrightarrow>
      id_is_nil (si_id (so_incarnation st'))"
  shows "unique_ok i ov'"
  using assms(1) unfolding unique_ok_def assms(2-4)
  by (cases "map_of (ov_sources ov) i"; cases "map_of (ov_sources ov') i")
     (use assms(5,6) in force)+

lemma claim_fence_keeps:
  "claim_fence d ob c ov = (v, ov') \<Longrightarrow> ov_sources ov' = ov_sources ov \<and>
     ov_incarnations ov' = ov_incarnations ov \<and> ov_records ov' = ov_records ov \<and> ov_config ov' = ov_config ov"
  using claim_fence_same by (simp add: same_admission_def)

lemma adjust_keeps_cursor:
  assumes "om_sorted (ov_sources ov)" "\<And>st. so_incarnation (f st) = so_incarnation st"
    "\<And>st. so_last_sequence (f st) = so_last_sequence st" "unique_ok k ov"
  shows "unique_ok k (adjust_source i f ov)"
  using assms(4)
  by (rule unique_ok_cursors)
     (auto simp: frame_simps seen_incarnations_def adjust_source_lookup[OF assms(1)] assms(2,3) split: if_splits)

lemma action_unique:
  "runtime_action ov ov' \<Longrightarrow> om_sorted (ov_sources ov) \<Longrightarrow> om_sorted (ov_incarnations ov) \<Longrightarrow>
     unique_ok i ov \<Longrightarrow> unique_ok i ov'"
proof (induction rule: runtime_action.induct)
  case (act_register ov d)
  show ?case
  proof (rule unique_ok_cursors[OF act_register(3)], goal_cases)
    case (4 st)
    then show ?case by (rule register_keeps_cursor[OF act_register(1)])
  next
    case (5 st')
    then show ?case by (rule register_new_source[OF act_register(1)])
  qed (simp_all add: frame_simps seen_incarnations_def)
next
  case (act_count_fenced ov k)
  then show ?case by (intro adjust_keeps_cursor) simp_all
next
  case (act_count_duplicate ov k)
  then show ?case by (intro adjust_keeps_cursor) simp_all
next
  case (act_seen ov k)
  have "seen_incarnations (ov\<lparr>ov_incarnations := om_emplace k [] (ov_incarnations ov)\<rparr>) i = seen_incarnations ov i"
    using act_seen(2) by (auto simp: seen_incarnations_def om_emplace_def map_of_om_put split: option.splits)
  then show ?case by (intro unique_ok_shrink[OF act_seen(3)]) simp_all
next
  case (act_claim d ob c ov verdict ov')
  show ?case using claim_fence_keeps[OF act_claim(1)]
    by (intro unique_ok_shrink[OF act_claim(4)]) (simp_all add: seen_incarnations_def)
next
  case (act_accept ov ob st t)
  then show ?case by (intro accept_unique)
qed (erule unique_ok_shrink; simp add: frame_simps seen_incarnations_def shutdown_def)+

lemma actions_unique:
  assumes "runtime_actions ov ov'" "runtime_ok ov" "unique_ok i ov"
  shows "unique_ok i ov'"
proof -
  have "runtime_ok ov' \<and> unique_ok i ov'"
    using assms(1)
  proof (induction rule: rtranclp_induct)
    case base
    then show ?case using assms(2,3) by simp
  next
    case (step y z)
    have "om_sorted (ov_sources y)" "om_sorted (ov_incarnations y)"
      using step(3) by (simp_all add: runtime_ok_def sources_ok_def lineage_ok_def)
    then show ?case using step action_ok action_unique by blast
  qed
  then show ?thesis by simp
qed

lemma new_observatory_unique: "unique_ok i (new_observatory cfg clock)"
  by (simp add: unique_ok_def new_observatory_def source_records_def seen_incarnations_def)

text \<open>A runtime opened without a journal starts empty.\<close>

lemma open_in_memory:
  assumes "observatory_open cfg clock d faults = Inr ov" "oc_journal_path cfg = []"
  shows "runtime_actions (new_observatory cfg clock) ov"
  using assms clock_publish_actions[of "new_observatory cfg clock" "fst (clock_now (new_observatory cfg clock))"]
  by (auto simp: observatory_open_def rbind_Inr_iff case_prod_beta split: if_splits)

lemma new_observatory_runtime_ok: "runtime_ok (new_observatory cfg clock)"
  by (intro opened_runtime_ok[OF new_observatory_ok]) (simp_all add: new_observatory_def)

section \<open>What is not accepted leaves the evidence alone\<close>

lemma settle_frame [frame_simps]:
  "ov_records (snd (settle options t outcome ov)) = ov_records ov"
  "ov_index (snd (settle options t outcome ov)) = ov_index ov"
  "ov_sources (snd (settle options t outcome ov)) = ov_sources ov"
  "ov_incarnations (snd (settle options t outcome ov)) = ov_incarnations ov"
  "ov_config (snd (settle options t outcome ov)) = ov_config ov"
  "ig_disposition (fst (settle options t outcome ov)) = ig_disposition outcome"
  by (simp_all add: settle_def case_prod_beta frame_simps split: ingest_options.split)

lemma refuse_frame:
  "ov_records (snd (snd (refuse ob t options code message ov))) = ov_records ov"
  "ov_index (snd (snd (refuse ob t options code message ov))) = ov_index ov"
  "ov_sources (snd (snd (refuse ob t options code message ov))) = ov_sources ov"
  "ig_disposition (fst (snd (refuse ob t options code message ov))) = ID_Rejected"
  by (simp_all add: refuse_def Let_def frame_simps new_outcome_def)

text \<open>Cursors and incarnations of every source known before are as they were.\<close>

definition cursors_kept :: "observatory \<Rightarrow> observatory \<Rightarrow> bool" where
  "cursors_kept ov ov' \<longleftrightarrow> (\<forall>i st. map_of (ov_sources ov) i = Some st \<longrightarrow>
     (\<exists>st'. map_of (ov_sources ov') i = Some st' \<and> so_incarnation st' = so_incarnation st \<and>
        so_last_sequence st' = so_last_sequence st \<and> so_last_generation st' = so_last_generation st \<and>
        so_last_epoch st' = so_last_epoch st))"

lemma cursors_kept_same: "ov_sources ov' = ov_sources ov \<Longrightarrow> cursors_kept ov ov'"
  by (simp add: cursors_kept_def)

lemma cursors_kept_trans: "cursors_kept a b \<Longrightarrow> cursors_kept b c \<Longrightarrow> cursors_kept a c"
  unfolding cursors_kept_def by (metis (no_types))

lemma cursors_kept_adjust:
  assumes "om_sorted (ov_sources ov)" "ov_sources ov' = ov_sources (adjust_source i f ov)"
    and "\<And>st. so_incarnation (f st) = so_incarnation st \<and> so_last_sequence (f st) = so_last_sequence st \<and>
      so_last_generation (f st) = so_last_generation st \<and> so_last_epoch (f st) = so_last_epoch st"
  shows "cursors_kept ov ov'"
  using assms by (auto simp: cursors_kept_def adjust_source_lookup)

lemma ensure_source_keeps:
  assumes "om_sorted (ov_sources ov)" "ensure_source ob ov = (r, ov')"
  shows "cursors_kept ov ov' \<and> om_sorted (ov_sources ov')"
  using assms
  by (auto simp: ensure_source_def register_source_def auto_descriptor_def Let_def cursors_kept_def
      om_emplace_def map_of_om_put om_sorted_put split: option.splits if_splits sum.splits)

lemma ends_keeps:
  assumes "ingest_ends ob t options st ov r" "om_sorted (ov_sources ov)"
    and "ig_disposition (fst (snd r)) \<noteq> ID_Accepted"
  shows "ov_records (snd (snd r)) = ov_records ov \<and> ov_index (snd (snd r)) = ov_index ov \<and>
    cursors_kept ov (snd (snd r))"
  using assms(1)
proof cases
  case (ends_refused code message)
  show ?thesis
    unfolding ends_refused(1)
    by (auto simp: refuse_frame frame_simps intro: cursors_kept_adjust[OF assms(2)])
next
  case (ends_replayed outcome n)
  show ?thesis
    unfolding ends_replayed(1)
    by (auto simp: frame_simps intro: cursors_kept_adjust[OF assms(2)])
next
  case (ends_fenced outcome ov' code reason n)
  have same: "ov_sources ov' = ov_sources ov" "ov_records ov' = ov_records ov" "ov_index ov' = ov_index ov"
    using ends_fenced(5) by (simp_all add: same_admission_def)
  then have "cursors_kept ov ov'" by (simp add: cursors_kept_same)
  moreover have "cursors_kept ov' (snd (snd r))"
    unfolding ends_fenced(1)
    by (rule cursors_kept_adjust[where f = "\<lambda>st. st\<lparr>so_fenced := so_fenced st + 1\<rparr>" and i = "ob_source ob"])
       (simp_all add: same assms(2) frame_simps)
  ultimately show ?thesis
    using cursors_kept_trans unfolding ends_fenced(1) by (simp add: frame_simps same)
next
  case (ends_accepted outcome ov')
  then show ?thesis using assms(3) by (simp add: frame_simps)
qed

lemma ingest_keeps:
  assumes "om_sorted (ov_sources ov)" "ingest ob options ov = (r, outcome, ov')"
    and "ig_disposition outcome \<noteq> ID_Accepted"
  shows "ov_records ov' = ov_records ov \<and> ov_index ov' = ov_index ov \<and> cursors_kept ov ov'"
proof -
  have clock: "ov_sources ov1 = ov_sources ov \<and> ov_records ov1 = ov_records ov \<and> ov_index ov1 = ov_index ov"
    if "clock_now ov = (t, ov1)" for t ov1 using that by (auto simp: clock_now_def)
  show ?thesis
    using ingest_runs[of ob options ov] unfolding assms(2)
  proof cases
    case (runs_refused t ov1 code message)
    then show ?thesis
      using clock[OF runs_refused(2)] refuse_frame[of ob t options code message ov1]
      by (metis cursors_kept_same snd_conv)
  next
    case (runs_unknown t ov1 e ov2)
    have "cursors_kept ov ov2"
      using clock[OF runs_unknown(2)] ensure_source_keeps[OF _ runs_unknown(4)] assms(1)
      by (metis cursors_kept_same cursors_kept_trans)
    moreover have "ov' = snd (snd (refuse ob t options (st_code e) (st_message e) ov2))"
      using runs_unknown(1) by (metis snd_conv)
    moreover have "cursors_kept ov2 (snd (snd (refuse ob t options (st_code e) (st_message e) ov2)))"
      by (rule cursors_kept_same) (rule refuse_frame)
    ultimately show ?thesis
      using clock[OF runs_unknown(2)] ensure_source_frame[OF runs_unknown(4)]
      by (auto simp: refuse_frame intro: cursors_kept_trans)
  next
    case (runs_known t ov1 st ov2)
    let ?s = "note_seen ob st ov2"
    have kept: "cursors_kept ov ov2" "om_sorted (ov_sources ov2)"
      using clock[OF runs_known(1)] ensure_source_keeps[OF _ runs_known(3)] assms(1)
      by (metis cursors_kept_same cursors_kept_trans)+
    have "ov_records ov' = ov_records ?s \<and> ov_index ov' = ov_index ?s \<and> cursors_kept ?s ov'"
      using ends_keeps[OF runs_known(4)] kept(2) assms(3) by (simp add: frame_simps)
    moreover have "cursors_kept ov2 ?s" by (rule cursors_kept_same) (simp add: frame_simps)
    ultimately show ?thesis
      using kept(1) clock[OF runs_known(1)] ensure_source_frame[OF runs_known(3)]
      by (auto simp: frame_simps intro: cursors_kept_trans)
  qed
qed

text \<open>The status is an error exactly for a refusal, and it says what the outcome says.\<close>

lemma refuse_status:
  assumes "refuse ob t options code message ov = (r, outcome, ov')"
  shows "\<exists>e. r = Inl e \<and> st_code e = ig_code outcome \<and> st_message e = ig_explanation outcome \<and>
    length (st_message e) \<le> 512 \<and> ig_disposition outcome = ID_Rejected"
  using assms
  by (auto simp: refuse_def Let_def settle_def err_def bounded_text_def new_outcome_def case_prod_beta
      split: ingest_options.splits)

lemma ingest_status:
  assumes "ingest ob options ov = (r, outcome, ov')"
  shows "(case r of
      Inl e \<Rightarrow> ig_disposition outcome = ID_Rejected \<and> st_code e = ig_code outcome \<and>
        st_message e = ig_explanation outcome \<and> length (st_message e) \<le> 512
    | Inr _ \<Rightarrow> ig_disposition outcome \<noteq> ID_Rejected)"
  using ingest_runs[of ob options ov] unfolding assms
proof cases
  case (runs_refused t ov1 code message)
  then show ?thesis using refuse_status[OF runs_refused(1)[symmetric]] by auto
next
  case (runs_unknown t ov1 e ov2)
  then show ?thesis using refuse_status[OF runs_unknown(1)[symmetric]] by auto
next
  case (runs_known t ov1 st ov2)
  from runs_known(4) show ?thesis
  proof cases
    case (ends_refused code message)
    then show ?thesis using refuse_status[OF ends_refused(1)[symmetric]] by auto
  next
    case (ends_fenced out ov3 code reason n)
    have "ig_disposition (fst (outcome, ov')) = ID_Fenced"
      unfolding ends_fenced(2) by (simp add: frame_simps ends_fenced(4))
    then show ?thesis using ends_fenced(1) by simp
  next
    case (ends_accepted out ov3)
    have "ig_disposition (fst (outcome, ov')) = ID_Accepted"
      unfolding ends_accepted(2) by (simp add: frame_simps ends_accepted(4))
    then show ?thesis using ends_accepted(1) by simp
  qed simp
qed

section \<open>Acceptance and replay\<close>

text \<open>The state in which an accepted observation was accepted.\<close>

lemma ingest_accepted:
  assumes "ingest ob options ov = (r, outcome, ov')" "ig_disposition outcome = ID_Accepted"
  shows "\<exists>t st ov1 out. map_of (ov_sources ov1) (ob_source ob) = Some st \<and> admission_of ov1 st ob = Admit \<and>
    precheck ov1 t ob = None \<and> ov_records ov1 = ov_records ov \<and> ov_config ov1 = ov_config ov \<and>
    runtime_actions ov ov1 \<and> ov' = snd (settle options t out (accept_observation ob t st ov1))"
  using ingest_runs[of ob options ov] unfolding assms(1)
proof cases
  case (runs_refused t ov1 code message)
  have "ig_disposition (fst (snd (r, outcome, ov'))) = ID_Rejected"
    unfolding runs_refused(1) by (rule refuse_frame)
  then show ?thesis using assms(2) by simp
next
  case (runs_unknown t ov1 e ov2)
  have "ig_disposition (fst (snd (r, outcome, ov'))) = ID_Rejected"
    unfolding runs_unknown(1) by (rule refuse_frame)
  then show ?thesis using assms(2) by simp
next
  case (runs_known t ov1 st ov2)
  have st: "map_of (ov_sources ov2) (ob_source ob) = Some st"
    using ensure_source_ends(2)[OF runs_known(3)] by simp
  have clock: "ov1 = snd (clock_now ov)" using runs_known(1) by simp
  show ?thesis
    using runs_known(4)
  proof cases
    case (ends_refused code message)
    have "ig_disposition (fst (snd (r, outcome, ov'))) = ID_Rejected"
      unfolding ends_refused(1) by (rule refuse_frame)
    then show ?thesis using assms(2) by simp
  next
    case (ends_replayed n)
    then show ?thesis using assms(2) by simp
  next
    case (ends_fenced out ov3 code reason n)
    have "ig_disposition (fst (outcome, ov')) = ID_Fenced"
      unfolding ends_fenced(2) by (simp add: frame_simps ends_fenced(4))
    then show ?thesis using assms(2) by simp
  next
    case (ends_accepted out ov3)
    have "runtime_actions ov ov3"
      using ensure_source_ends(1)[OF runs_known(3)] note_seen_actions[of ov2 ob st] ends_accepted(5)
        act_clock[of ov] unfolding clock by (meson action_into rtranclp_trans)
    moreover have "ov_config ov3 = ov_config ov" "ov_records ov3 = ov_records ov" "ov_sources ov3 = ov_sources ov2"
      using ends_accepted(6) ensure_source_frame[OF runs_known(3)]
      by (simp_all add: same_admission_def frame_simps clock)
    moreover have "precheck ov3 t ob = None"
      using runs_known(2) precheck_same[of ov3 ov1] calculation(2) by (simp add: clock frame_simps)
    moreover have "ov' = snd (settle options t out (accept_observation ob t st ov3))"
      using ends_accepted(2) by (metis snd_conv)
    ultimately show ?thesis
      using st ends_accepted(3) admission_of_same[OF ends_accepted(6)]
      by (intro exI[of _ t] exI[of _ st] exI[of _ ov3] exI[of _ out]) simp
  qed
qed

text \<open>An accepted observation that comes again, with nothing in between, is a duplicate.\<close>

lemma replay_admission:
  assumes "map_of (ov_sources ov) (ob_source ob) = Some st" "si_id (so_incarnation st) = ob_incarnation ob"
    and "so_last_sequence st = ob_sequence ob" "map_of (ov_index ov) (content_digest ob) \<noteq> None"
  shows "admission_of ov st ob = Replay"
  using assms by (simp add: admission_of_def Let_def)

lemma ingest_replay:
  assumes ok: "runtime_ok ov" and ing: "ingest ob options ov = (r, outcome, ov1)"
    and acc: "ig_disposition outcome = ID_Accepted"
    and room: "length (ov_records ov) < unat (max_evidence_records (ov_limits ov))"
    and again: "precheck (snd (clock_now ov1)) (fst (clock_now ov1)) ob = None"
  shows "\<exists>outcome' ov2. ingest ob options' ov1 = (Inr (), outcome', ov2) \<and>
    ig_disposition outcome' = ID_Duplicate \<and> ov_records ov2 = ov_records ov1 \<and>
    ov_published ov2 = ov_published ov1 \<and> ov_journal ov2 = ov_journal ov1"
proof -
  obtain t st ov0 out where a: "map_of (ov_sources ov0) (ob_source ob) = Some st"
      "admission_of ov0 st ob = Admit" "precheck ov0 t ob = None" "ov_records ov0 = ov_records ov"
      "ov_config ov0 = ov_config ov" "runtime_actions ov ov0"
      "ov1 = snd (settle options t out (accept_observation ob t st ov0))"
    using ingest_accepted[OF ing acc] by blast
  have ok0: "runtime_ok ov0" using actions_ok[OF a(6) ok] .
  have ok1: "runtime_ok ov1"
    using actions_ok[OF ingest_actions ok, of ob options] ing by simp
  let ?st = "advance_source ob t st" and ?c = "snd (clock_now ov1)"
  have st: "map_of (ov_sources ?c) (ob_source ob) = Some ?st"
    using ok0 a(1) by (simp add: a(7) frame_simps accept_sources adjust_source_lookup runtime_ok_def sources_ok_def)
  have "ov_records ov1 = ov_records ov @ [accepted_record ob t (ov_restart_epoch ov0)]"
    using room by (simp add: a(4,5,7) frame_simps accept_records Let_def)
  then have "content_digest ob \<in> (\<lambda>r. content_digest (or_observation r)) ` set (ov_records ov1)"
    by (simp add: accepted_record_def)
  then have known: "map_of (ov_index ?c) (content_digest ob) \<noteq> None"
    using ok1 index_ok_known[of "ov_records ov1" "ov_index ov1" "content_digest ob"]
    by (simp add: frame_simps runtime_ok_def evidence_ok_def)
  have inc: "si_id (so_incarnation ?st) = ob_incarnation ob" "so_last_sequence ?st = ob_sequence ob"
    by (simp_all add: advance_source_def Let_def)
  have "note_seen ob ?st ?c = ?c" by (simp add: note_seen_def inc)
  moreover have "ensure_source ob ?c = (Inr ?st, ?c)" using st by (simp add: ensure_source_def)
  ultimately have "ingest_ends ob (fst (clock_now ov1)) options' ?st ?c (ingest ob options' ov1)"
    using ingest_known_ends[of ob "fst (clock_now ov1)" options' ?st ?c] again
    by (simp add: ingest_def case_prod_beta)
  then show ?thesis
  proof cases
    case (ends_replayed outcome' n)
    then show ?thesis by (simp add: frame_simps)
  qed (use replay_admission[OF st inc known] in simp_all)
qed

end
