(* ===== verification/Fab_Durability.thy ===== *)
theory Fab_Durability
  imports Fab_Recovery
begin

text \<open>
  What the journal promises: a log of payloads laid out over the parts as a hash-chained
  sequence of frames, the invariant of the writer, and the refinement of recovery to that log.
\<close>

section \<open>Reading back what was written\<close>

lemma length_put [simp]: "length (put_u32 v) = 4" "length (put_u64 w) = 8"
  by (simp_all add: put_u32_def put_u64_def)

lemma word32_of_bytes:
  "push_bit 24 (ucast (ucast (drop_bit 24 v) :: byte)) OR
   push_bit 16 (ucast (ucast (drop_bit 16 v) :: byte)) OR
   push_bit 8 (ucast (ucast (drop_bit 8 v) :: byte)) OR ucast (ucast v :: byte) = (v :: 32 word)"
  (is "?joined = v")
proof (rule bit_word_eqI)
  fix n assume "n < LENGTH(32)"
  then consider "n < 8" | "8 \<le> n" "n < 16" | "16 \<le> n" "n < 24" | "24 \<le> n" "n < 32"
    by fastforce
  then show "bit ?joined n = bit v n"
    by cases (auto simp: bit_or_iff bit_push_bit_iff bit_ucast_iff bit_drop_bit_eq)
qed

lemma word64_of_halves:
  "push_bit 32 (ucast (ucast (drop_bit 32 w) :: 32 word)) OR ucast (ucast w :: 32 word) = (w :: 64 word)"
  (is "?joined = w")
proof (rule bit_word_eqI)
  fix n assume "n < LENGTH(64)"
  then consider "n < 32" | "32 \<le> n" "n < 64" by fastforce
  then show "bit ?joined n = bit w n"
    by cases (auto simp: bit_or_iff bit_push_bit_iff bit_ucast_iff bit_drop_bit_eq)
qed

lemma get_u32_put: "length a = n \<Longrightarrow> get_u32 (a @ put_u32 v @ r) n = v"
  by (simp add: get_u32_def put_u32_def nth_append ucast_and_255 word32_of_bytes)

lemma get_u64_put: "length a = n \<Longrightarrow> get_u64 (a @ put_u64 v @ r) n = v"
  using get_u32_put[of a n "ucast (drop_bit 32 v)"] get_u32_put[of "a @ put_u32 (ucast (drop_bit 32 v))" "n + 4"]
  by (simp add: get_u64_def put_u64_def ucast_and_mask32 word64_of_halves)

lemma slice_append: "length a = m \<Longrightarrow> length b = n \<Longrightarrow> slice m n (a @ b @ r) = b"
  by (simp add: slice_def)

section \<open>Frames\<close>

type_synonym entry = "record_kind \<times> byte list"

fun frames :: "digest256 \<Rightarrow> 64 word \<Rightarrow> entry list \<Rightarrow> byte list" where
  "frames chain n [] = []"
| "frames chain n ((kind, payload) # es) = record_header kind payload chain (n + 1) @ payload @
     frames (compute_chain chain (sha256 payload) kind (n + 1)) (n + 1) es"

fun chain_after :: "digest256 \<Rightarrow> 64 word \<Rightarrow> entry list \<Rightarrow> digest256" where
  "chain_after chain n [] = chain"
| "chain_after chain n ((kind, payload) # es) =
     chain_after (compute_chain chain (sha256 payload) kind (n + 1)) (n + 1) es"

text \<open>Payloads that the reader accepts: not empty, below the bound and below 2 to the 32.\<close>

definition fits :: "64 word \<Rightarrow> entry \<Rightarrow> bool" where
  "fits bound e \<longleftrightarrow> snd e \<noteq> [] \<and> length (snd e) \<le> unat bound \<and> length (snd e) < 2 ^ 32"

lemma length_compute_chain [simp]: "length (compute_chain a b k n) = 32"
  by (simp add: compute_chain_def)

lemma length_chain_after: "length c = 32 \<Longrightarrow> length (chain_after c n es) = 32"
  by (induction c n es rule: chain_after.induct) simp_all

lemma length_record_header [simp]:
  "length chain = 32 \<Longrightarrow> length (record_header k p chain n) = journal_record_header_bytes"
  by (simp add: record_header_def journal_record_header_bytes_def)

lemma record_header_fields:
  assumes "length chain = 32"
  shows "get_u32 (record_header k p chain n) 0 = of_nat (length p)"
    and "get_u32 (record_header k p chain n) 4 = crc32c p"
    and "record_header k p chain n ! 8 = k"
    and "get_u64 (record_header k p chain n) 12 = n"
    and "slice 20 32 (record_header k p chain n) = chain"
    and "slice 52 32 (record_header k p chain n) = sha256 p"
    and "slice 84 32 (record_header k p chain n) = compute_chain chain (sha256 p) k n"
proof -
  let ?l = "put_u32 (of_nat (length p))" and ?c = "put_u32 (crc32c p)" and ?z = "replicate 3 (0::byte)"
  let ?m = "compute_chain chain (sha256 p) k n"
  show "get_u32 (record_header k p chain n) 0 = of_nat (length p)"
    using get_u32_put[of "[]" 0] by (simp add: record_header_def)
  show "get_u32 (record_header k p chain n) 4 = crc32c p"
    using get_u32_put[of ?l 4] by (simp add: record_header_def)
  show "record_header k p chain n ! 8 = k"
    by (simp add: record_header_def nth_append)
  show "get_u64 (record_header k p chain n) 12 = n"
    using get_u64_put[of "?l @ ?c @ [k] @ ?z" 12] by (simp add: record_header_def)
  show "slice 20 32 (record_header k p chain n) = chain"
    using slice_append[of "?l @ ?c @ [k] @ ?z @ put_u64 n" 20 chain 32] assms
    by (simp add: record_header_def)
  show "slice 52 32 (record_header k p chain n) = sha256 p"
    using slice_append[of "?l @ ?c @ [k] @ ?z @ put_u64 n @ chain" 52 "sha256 p" 32] assms
    by (simp add: record_header_def)
  show "slice 84 32 (record_header k p chain n) = ?m"
    using slice_append[of "?l @ ?c @ [k] @ ?z @ put_u64 n @ chain @ sha256 p" 84 ?m 32 "[]"] assms
    by (simp add: record_header_def)
qed

section \<open>Recovery of one part\<close>

definition records_in :: "limits \<Rightarrow> entry list \<Rightarrow> observation_record list" where
  "records_in l es = concat (map (\<lambda>(kind, payload).
     if kind = kind_observation
     then (case decode_observation_record payload l of Inr r \<Rightarrow> [r] | Inl _ \<Rightarrow> []) else []) es)"

lemma records_in_simps [simp]:
  "records_in l [] = []"
  "records_in l (es @ fs) = records_in l es @ records_in l fs"
  by (simp_all add: records_in_def)

lemma records_in_Cons: "records_in l (e # es) = records_in l [e] @ records_in l es"
  by (simp add: records_in_def)

text \<open>What reading a well-formed record leaves alone.\<close>

definition quiet :: "journal \<Rightarrow> journal \<Rightarrow> bool" where
  "quiet j j' \<longleftrightarrow> jn_options j' = jn_options j \<and> jn_disk j' = jn_disk j \<and>
     jn_faults j' = jn_faults j \<and> jn_open j' = jn_open j \<and>
     rr_corrupt (jn_recovery j') = rr_corrupt (jn_recovery j) \<and>
     rr_truncated (jn_recovery j') = rr_truncated (jn_recovery j)"

lemma quiet_refl [simp]: "quiet j j"
  by (simp add: quiet_def)

lemma quiet_trans: "quiet a b \<Longrightarrow> quiet b c \<Longrightarrow> quiet a c"
  by (simp add: quiet_def)

abbreviation recovery_bound :: "journal \<Rightarrow> nat" where
  "recovery_bound j \<equiv> unat (jo_max_recovered_observations (jn_options j))"

lemma recover_record_quiet:
  assumes "recover_record offset kind payload j = (stop, j')"
    and "length (jn_recovered_records j) +
      length (records_in (jo_limits (jn_options j)) [(kind, payload)]) \<le> recovery_bound j"
  shows "\<not> stop" "quiet j j'" "jn_chain j' = jn_chain j"
    and "jn_recovered_records j' =
      jn_recovered_records j @ records_in (jo_limits (jn_options j)) [(kind, payload)]"
  using assms
  by (auto simp: recover_record_def records_in_def quiet_def rejected_record_def diagnose_def
      split: if_splits sum.splits prod.splits)

lemma unat_ucast_up: "unat (ucast (w :: 32 word) :: 64 word) = unat w"
  using unat_lt2p[of w] by (simp add: unsigned_ucast_eq unsigned_take_bit_eq take_bit_nat_eq_self)

lemma fits_word:
  assumes "fits bound (kind, payload)"
  shows "unat (of_nat (length payload) :: 32 word) = length payload"
    and "(of_nat (length payload) :: 32 word) \<noteq> 0"
    and "\<not> ucast (of_nat (length payload) :: 32 word) > bound"
proof -
  show len: "unat (of_nat (length payload) :: 32 word) = length payload"
    using assms by (simp add: fits_def unat_of_nat_small)
  show "(of_nat (length payload) :: 32 word) \<noteq> 0"
    using len assms by (auto simp: fits_def)
  show "\<not> ucast (of_nat (length payload) :: 32 word) > bound"
    using assms len by (simp add: fits_def word_less_nat_alt unat_ucast_up)
qed

lemma scan_record_frame:
  assumes "length chain = 32" "fits (jo_max_record_bytes (jn_options j)) (kind, payload)"
    and "length pre = pos"
    and bs_def: "bs = pre @ record_header kind payload chain m @ payload @ rest"
    and next_def: "succ_chain = compute_chain chain (sha256 payload) kind m"
  shows "scan_record newest bs pos offset chain j =
    (let j = on_report (\<lambda>p. p\<lparr>rr_records_read := rr_records_read p + 1\<rparr>) j;
         (stop, j) = recover_record offset kind payload (j\<lparr>jn_chain := succ_chain, jn_chain_initialised := True\<rparr>)
     in Some \<lparr>st_stop = stop, st_chain = succ_chain,
          st_consumed = journal_record_header_bytes + length payload,
          st_advance = unat (of_nat journal_record_header_bytes + of_nat (length payload) :: 32 word),
          st_journal = on_report (\<lambda>p. p\<lparr>rr_records_accepted := length (jn_recovered_records j)\<rparr>) j\<rparr>)"
proof -
  have header: "slice pos journal_record_header_bytes bs = record_header kind payload chain m"
    using assms(1,3) unfolding bs_def by (intro slice_append) simp_all
  note [simp] = fits_word[OF assms(2)]
  have body: "slice (pos + journal_record_header_bytes) (length payload) bs = payload"
    using slice_append[of "pre @ record_header kind payload chain m" "pos + journal_record_header_bytes"
        payload "length payload" rest] assms(1,3) by (simp add: bs_def)
  have "record_header kind payload chain m \<noteq> []"
    using length_record_header[OF assms(1), of kind payload m]
    by (auto simp: journal_record_header_bytes_def)
  then show ?thesis
    using assms(1)
    by (simp add: scan_record_def header record_header_fields[OF assms(1)] body next_def Let_def)
qed

lemma scan_records_end:
  "length bs \<le> pos \<Longrightarrow> scan_records newest bs pos offset chain j = (False, chain, j)"
  by (simp add: scan_records.simps[of newest bs] scan_record_def slice_def)

lemma scan_frames:
  assumes "length chain = 32" "length pre = pos"
    and "\<forall>e\<in>set es. fits (jo_max_record_bytes (jn_options j)) e"
    and "length (jn_recovered_records j) + length (records_in (jo_limits (jn_options j)) es)
      \<le> recovery_bound j"
  shows "\<exists>offset' j'. scan_records newest (pre @ frames chain n es @ rest) pos offset chain j =
       scan_records newest (pre @ frames chain n es @ rest) (pos + length (frames chain n es)) offset'
         (chain_after chain n es) j' \<and> quiet j j' \<and>
     jn_recovered_records j' = jn_recovered_records j @ records_in (jo_limits (jn_options j)) es \<and>
     jn_chain j' = (if es = [] then jn_chain j else chain_after chain n es)"
  using assms
proof (induction chain n es arbitrary: pre pos offset j rule: frames.induct)
  case (1 chain n)
  then show ?case by (intro exI[of _ offset] exI[of _ j]) simp
next
  case (2 chain n kind payload es)
  let ?header = "record_header kind payload chain (n + 1)"
  let ?next = "compute_chain chain (sha256 payload) kind (n + 1)"
  let ?bs = "pre @ frames chain n ((kind, payload) # es) @ rest"
  let ?j0 = "(on_report (\<lambda>p. p\<lparr>rr_records_read := rr_records_read p + 1\<rparr>) j)
    \<lparr>jn_chain := ?next, jn_chain_initialised := True\<rparr>"
  obtain stop j1 where rec: "recover_record offset kind payload ?j0 = (stop, j1)"
    by (cases "recover_record offset kind payload ?j0")
  have q: "\<not> stop" "quiet ?j0 j1" "jn_chain j1 = ?next"
    "jn_recovered_records j1 = jn_recovered_records j @ records_in (jo_limits (jn_options j)) [(kind, payload)]"
    using recover_record_quiet[OF rec] 2(5)
    by (simp_all add: records_in_Cons[of _ "(kind, payload)" es])
  obtain j2 where j2_def: "j2 = on_report (\<lambda>p. p\<lparr>rr_records_accepted := length (jn_recovered_records j1)\<rparr>) j1"
    by blast
  have q2: "quiet j j2" "jn_chain j2 = ?next"
    "jn_recovered_records j2 = jn_recovered_records j @ records_in (jo_limits (jn_options j)) [(kind, payload)]"
    "jn_options j2 = jn_options j"
    using q by (simp_all add: j2_def quiet_def)
  have bs: "?bs = pre @ ?header @ payload @ (frames ?next (n + 1) es @ rest)" by simp
  have "scan_record newest ?bs pos offset chain j = Some \<lparr>st_stop = stop, st_chain = ?next,
      st_consumed = journal_record_header_bytes + length payload,
      st_advance = unat (of_nat journal_record_header_bytes + of_nat (length payload) :: 32 word),
      st_journal = j2\<rparr>"
    using scan_record_frame[OF 2(2) _ 2(3) bs refl, of j newest offset] 2(4) rec
    by (simp add: j2_def)
  then have step: "scan_records newest ?bs pos offset chain j =
     scan_records newest ?bs (pos + (journal_record_header_bytes + length payload))
       (offset + unat (of_nat journal_record_header_bytes + of_nat (length payload) :: 32 word)) ?next j2"
    using q(1) by (subst scan_records.simps) (simp del: frames.simps)
  have "\<exists>offset' j'. scan_records newest ((pre @ ?header @ payload) @ frames ?next (n + 1) es @ rest)
        (pos + (journal_record_header_bytes + length payload))
        (offset + unat (of_nat journal_record_header_bytes + of_nat (length payload) :: 32 word)) ?next j2 =
      scan_records newest ((pre @ ?header @ payload) @ frames ?next (n + 1) es @ rest)
        (pos + (journal_record_header_bytes + length payload) + length (frames ?next (n + 1) es)) offset'
        (chain_after ?next (n + 1) es) j' \<and> quiet j2 j' \<and>
      jn_recovered_records j' = jn_recovered_records j2 @ records_in (jo_limits (jn_options j2)) es \<and>
      jn_chain j' = (if es = [] then jn_chain j2 else chain_after ?next (n + 1) es)"
    using 2(2-5) q2
    by (intro "2.IH") (simp_all add: records_in_Cons[of _ "(kind, payload)" es])
  then obtain offset' j' where
    ih: "scan_records newest ?bs (pos + (journal_record_header_bytes + length payload))
        (offset + unat (of_nat journal_record_header_bytes + of_nat (length payload) :: 32 word)) ?next j2 =
      scan_records newest ?bs
        (pos + (journal_record_header_bytes + length payload) + length (frames ?next (n + 1) es)) offset'
        (chain_after ?next (n + 1) es) j'" "quiet j2 j'"
      "jn_recovered_records j' = jn_recovered_records j2 @ records_in (jo_limits (jn_options j)) es"
      "jn_chain j' = (if es = [] then jn_chain j2 else chain_after ?next (n + 1) es)"
    unfolding bs append.assoc q2(4) by blast
  have pos: "pos + (journal_record_header_bytes + length payload) + length (frames ?next (n + 1) es) =
      pos + length (frames chain n ((kind, payload) # es))"
    using 2(2) by simp
  show ?case
    using ih q2 step quiet_trans[OF q2(1) ih(2)] unfolding pos
    by (intro exI[of _ offset'] exI[of _ j'])
       (simp add: records_in_Cons[of _ "(kind, payload)" es])
qed

text \<open>A part that ends inside a record: nothing is taken from the torn record.\<close>

lemma scan_record_short_header:
  assumes "slice pos journal_record_header_bytes bs = h" "h \<noteq> []"
    and "length h \<noteq> journal_record_header_bytes"
  shows "scan_record newest bs pos offset chain j = Some (halt chain (truncated_tail newest bs offset
    (length h) ''record-header-truncated'' ''journal ends inside a record header'') j)"
  using assms by (simp add: scan_record_def Let_def)

lemma scan_record_short_payload:
  assumes "length chain = 32" "fits (jo_max_record_bytes (jn_options j)) (kind, payload)"
    and "slice pos journal_record_header_bytes bs = record_header kind payload chain m"
    and "slice (pos + journal_record_header_bytes) (length payload) bs = q" "length q \<noteq> length payload"
  shows "scan_record newest bs pos offset chain j = Some (halt chain (truncated_tail newest bs offset
    (length q) ''record-payload-truncated'' ''journal ends inside a record payload'') j)"
proof -
  have "record_header kind payload chain m \<noteq> []"
    using length_record_header[OF assms(1), of kind payload m]
    by (auto simp: journal_record_header_bytes_def)
  then show ?thesis
    using assms by (simp add: scan_record_def record_header_fields fits_word[OF assms(2)] Let_def)
qed

lemma scan_torn:
  assumes "length chain = 32" "length pre = pos"
    and "fits (jo_max_record_bytes (jn_options j)) (kind, payload)"
    and "0 < k" "k < journal_record_header_bytes + length payload"
    and bs: "bs = pre @ take k (record_header kind payload chain m @ payload)"
  shows "\<exists>j'. scan_records newest bs pos offset chain j = (True, chain, j') \<and>
     jn_recovered_records j' = jn_recovered_records j \<and> jn_chain j' = jn_chain j \<and>
     jn_options j' = jn_options j \<and> jn_disk j' = jn_disk j \<and> jn_faults j' = jn_faults j \<and>
     rr_truncated (jn_recovery j') \<and>
     rr_corrupt (jn_recovery j') = (rr_corrupt (jn_recovery j) \<or> \<not> newest)"
proof -
  let ?h = "record_header kind payload chain m"
  have lh: "length ?h = journal_record_header_bytes"
    using assms(1) by simp
  have "\<exists>n code detail. scan_record newest bs pos offset chain j =
      Some (halt chain (truncated_tail newest bs offset n code detail) j)"
  proof (cases "k < journal_record_header_bytes")
    case True
    then have "slice pos journal_record_header_bytes bs = take k ?h" "take k ?h \<noteq> []"
      "length (take k ?h) \<noteq> journal_record_header_bytes"
      using assms(2,4) lh by (auto simp: slice_def bs)
    then show ?thesis using scan_record_short_header by blast
  next
    case False
    then have "slice pos journal_record_header_bytes bs = ?h"
      "slice (pos + journal_record_header_bytes) (length payload) bs =
        take (k - journal_record_header_bytes) payload"
      "length (take (k - journal_record_header_bytes) payload) \<noteq> length payload"
      using assms(2,5) lh by (auto simp: slice_def bs)
    then show ?thesis using scan_record_short_payload[OF assms(1,3)] by blast
  qed
  then show ?thesis
    by (subst scan_records.simps) (auto simp: halt_def truncated_tail_def diagnose_def Let_def)
qed

section \<open>The parts on disk\<close>

lemma length_magic: "length journal_magic = 8"
  by (simp add: journal_magic_def)

lemma length_header_prefix: "length c = 32 \<Longrightarrow> length (header_prefix f c) = 124"
  by (simp add: header_prefix_def length_magic)

lemma length_header_bytes [simp]: "length c = 32 \<Longrightarrow> length (header_bytes f c) = journal_header_bytes"
  by (simp add: header_bytes_def length_header_prefix journal_header_bytes_def)

lemma header_bytes_fields:
  assumes "length c = 32"
  shows "slice 0 8 (header_bytes f c @ r) = journal_magic"
    and "get_u32 (header_bytes f c @ r) 8 = journal_format_version"
    and "get_u32 (header_bytes f c @ r) 12 = of_nat journal_header_bytes"
    and "get_u64 (header_bytes f c @ r) 16 = u_hi (id_value f)"
    and "get_u64 (header_bytes f c @ r) 24 = u_lo (id_value f)"
    and "slice 40 32 (header_bytes f c @ r) = c"
    and "get_u32 (header_bytes f c @ r) 124 = crc32c (slice 0 124 (header_bytes f c @ r))"
proof -
  let ?v = "put_u32 journal_format_version" and ?n = "put_u32 (of_nat journal_header_bytes)"
  let ?hi = "put_u64 (u_hi (id_value f))" and ?lo = "put_u64 (u_lo (id_value f))"
  show "slice 0 8 (header_bytes f c @ r) = journal_magic"
    using slice_append[of "[]" 0 journal_magic 8] by (simp add: header_bytes_def header_prefix_def length_magic)
  show "get_u32 (header_bytes f c @ r) 8 = journal_format_version"
    using get_u32_put[of journal_magic 8] by (simp add: header_bytes_def header_prefix_def length_magic)
  show "get_u32 (header_bytes f c @ r) 12 = of_nat journal_header_bytes"
    using get_u32_put[of "journal_magic @ ?v" 12]
    by (simp add: header_bytes_def header_prefix_def length_magic)
  show "get_u64 (header_bytes f c @ r) 16 = u_hi (id_value f)"
    using get_u64_put[of "journal_magic @ ?v @ ?n" 16]
    by (simp add: header_bytes_def header_prefix_def length_magic)
  show "get_u64 (header_bytes f c @ r) 24 = u_lo (id_value f)"
    using get_u64_put[of "journal_magic @ ?v @ ?n @ ?hi" 24]
    by (simp add: header_bytes_def header_prefix_def length_magic)
  show "slice 40 32 (header_bytes f c @ r) = c"
    using slice_append[of "journal_magic @ ?v @ ?n @ ?hi @ ?lo @ put_u64 0" 40 c 32] assms
    by (simp add: header_bytes_def header_prefix_def length_magic)
  have "slice 0 124 (header_bytes f c @ r) = header_prefix f c"
    using slice_append[of "[]" 0 "header_prefix f c" 124] length_header_prefix[OF assms]
    by (simp add: header_bytes_def)
  then show "get_u32 (header_bytes f c @ r) 124 = crc32c (slice 0 124 (header_bytes f c @ r))"
    using get_u32_put[of "header_prefix f c" 124 "crc32c (header_prefix f c)" r]
      length_header_prefix[OF assms]
    by (simp add: header_bytes_def)
qed

definition part_bytes :: "fabric_id \<Rightarrow> digest256 \<Rightarrow> entry list \<Rightarrow> byte list" where
  "part_bytes f c es = header_bytes f c @ frames c 0 es"

text \<open>One step of recovery on a part whose header is in order.\<close>

definition part_opened :: "fabric_id \<Rightarrow> journal \<Rightarrow> journal" where
  "part_opened f j = (on_report (\<lambda>r. r\<lparr>rr_format_supported := True\<rparr>)
     (on_report (\<lambda>r. r\<lparr>rr_format_version := journal_format_version\<rparr>)
     (on_report (\<lambda>r. r\<lparr>rr_parts_recovered := rr_parts_recovered r + 1\<rparr>) j)))\<lparr>jn_last_fabric := f\<rparr>"

lemma recover_part:
  assumes "length c = 32" "jn_disk j p = Some (header_bytes f c @ body)"
    and "jo_fabric (jn_options j) = f" "chain = None \<or> chain = Some c"
  shows "recover_parts (p # ps) chain j =
    (let (stop, running, j') = scan_records (ps = []) (header_bytes f c @ body) journal_header_bytes
           journal_header_bytes c (part_opened f j);
         j'' = on_report (\<lambda>r. r\<lparr>rr_file_bytes := rr_file_bytes r + length (header_bytes f c @ body)\<rparr>) j'
     in if stop then (Inr (), j'') else recover_parts ps (Some running) j'')"
  (is "_ = ?thesis_rhs")
proof -
  have "BasicId (Uint128 (u_hi (id_value f)) (u_lo (id_value f))) = f" by (cases f) simp
  moreover have "journal_header_bytes - 4 = 124" by (simp add: journal_header_bytes_def)
  ultimately have "recover_parts (p # ps) chain j = ?thesis_rhs" if "chain = None \<or> chain = Some c"
    using that assms(1-3) header_bytes_fields[OF assms(1), of f body]
    by (elim disjE) (simp_all add: part_opened_def Let_def cong: if_cong)
  then show ?thesis using assms(4) .
qed

subsection \<open>A log over several parts\<close>

fun chain_end :: "digest256 \<Rightarrow> entry list list \<Rightarrow> digest256" where
  "chain_end c [] = c"
| "chain_end c (es # L) = chain_end (chain_after c 0 es) L"

text \<open>
  The parts \<open>ps\<close>, oldest first, hold the logs \<open>L\<close>, each chained to the one before; behind the
  last one come the bytes \<open>tail\<close>.
\<close>

fun laid_out ::
  "fabric_id \<Rightarrow> digest256 \<Rightarrow> disk \<Rightarrow> nat list \<Rightarrow> entry list list \<Rightarrow> byte list \<Rightarrow> bool" where
  "laid_out f c d [] L tail \<longleftrightarrow> L = []"
| "laid_out f c d (p # ps) [] tail \<longleftrightarrow> False"
| "laid_out f c d (p # ps) (es # L) tail \<longleftrightarrow>
     d p = Some (part_bytes f c es @ (if ps = [] then tail else [])) \<and>
     laid_out f (chain_after c 0 es) d ps L tail"

definition torn_tail :: "64 word \<Rightarrow> digest256 \<Rightarrow> byte list \<Rightarrow> bool" where
  "torn_tail bound chain bs \<longleftrightarrow> bs = [] \<or> (\<exists>kind payload m k. fits bound (kind, payload) \<and> 0 < k \<and>
     k < journal_record_header_bytes + length payload \<and>
     bs = take k (record_header kind payload chain m @ payload))"

lemma torn_tail_Nil [simp]: "torn_tail bound chain []"
  by (simp add: torn_tail_def)

lemma length_chain_end: "length c = 32 \<Longrightarrow> length (chain_end c L) = 32"
  by (induction c L rule: chain_end.induct) (simp_all add: length_chain_after)

lemma chain_end_append [simp]: "chain_end c (L @ M) = chain_end (chain_end c L) M"
  by (induction c L rule: chain_end.induct) simp_all

lemma chain_after_append:
  "chain_after c n (es @ fs) = chain_after (chain_after c n es) (n + of_nat (length es)) fs"
  by (induction c n es rule: chain_after.induct) (simp_all add: ac_simps)

lemma frames_append:
  "frames c n (es @ fs) = frames c n es @ frames (chain_after c n es) (n + of_nat (length es)) fs"
  by (induction c n es rule: frames.induct) (simp_all add: ac_simps)

lemma chain_end_empty: "concat L = [] \<Longrightarrow> chain_end c L = c"
  by (induction c L rule: chain_end.induct) simp_all

lemma part_opened_simps [simp]:
  "jn_options (part_opened f j) = jn_options j" "jn_faults (part_opened f j) = jn_faults j" "jn_disk (part_opened f j) = jn_disk j"
  "jn_chain (part_opened f j) = jn_chain j"
  "jn_recovered_records (part_opened f j) = jn_recovered_records j"
  "rr_corrupt (jn_recovery (part_opened f j)) = rr_corrupt (jn_recovery j)"
  "rr_truncated (jn_recovery (part_opened f j)) = rr_truncated (jn_recovery j)"
  by (simp_all add: part_opened_def)

text \<open>
  The part of the journal that recovery of a sound disk determines: \<open>rs\<close> are the records
  found, \<open>torn\<close> says whether the last part ends inside a record.
\<close>

definition recovered_to ::
  "journal \<Rightarrow> journal \<Rightarrow> observation_record list \<Rightarrow> bool \<Rightarrow> digest256 \<Rightarrow> bool" where
  "recovered_to j j' rs torn chain \<longleftrightarrow>
     jn_recovered_records j' = jn_recovered_records j @ rs \<and> jn_chain j' = chain \<and>
     jn_options j' = jn_options j \<and> jn_disk j' = jn_disk j \<and> jn_faults j' = jn_faults j \<and>
     rr_corrupt (jn_recovery j') = rr_corrupt (jn_recovery j) \<and>
     rr_truncated (jn_recovery j') = (rr_truncated (jn_recovery j) \<or> torn)"

lemma scan_part:
  assumes "length c = 32" "\<forall>e\<in>set es. fits (jo_max_record_bytes (jn_options j)) e"
    and "length (jn_recovered_records j) + length (records_in (jo_limits (jn_options j)) es)
      \<le> recovery_bound j"
    and "torn_tail (jo_max_record_bytes (jn_options j)) (chain_after c 0 es) tail" "tail = [] \<or> newest"
  shows "\<exists>j'. scan_records newest (part_bytes f c es @ tail) journal_header_bytes journal_header_bytes c j =
       (tail \<noteq> [], chain_after c 0 es, j') \<and>
     recovered_to j j' (records_in (jo_limits (jn_options j)) es) (tail \<noteq> [])
       (if es = [] then jn_chain j else chain_after c 0 es)"
proof -
  let ?bs = "part_bytes f c es @ tail" and ?fin = "chain_after c 0 es"
  have lh: "length (header_bytes f c) = journal_header_bytes"
    using assms(1) by simp
  obtain offset' j1 where scan: "scan_records newest ?bs journal_header_bytes journal_header_bytes c j =
      scan_records newest ?bs (journal_header_bytes + length (frames c 0 es)) offset' ?fin j1"
    and q: "quiet j j1" "jn_recovered_records j1 = jn_recovered_records j @ records_in (jo_limits (jn_options j)) es"
      "jn_chain j1 = (if es = [] then jn_chain j else ?fin)"
    using scan_frames[OF assms(1) lh assms(2,3), of newest 0 tail journal_header_bytes]
    by (auto simp: part_bytes_def)
  have pre: "length (part_bytes f c es) = journal_header_bytes + length (frames c 0 es)"
    using lh by (simp add: part_bytes_def)
  show ?thesis
  proof (cases "tail = []")
    case True
    then have "scan_records newest ?bs (journal_header_bytes + length (frames c 0 es)) offset' ?fin j1 =
        (False, ?fin, j1)"
      using pre by (intro scan_records_end) simp
    then show ?thesis
      using True scan q by (auto simp: recovered_to_def quiet_def)
  next
    case False
    then obtain kind payload m k where torn: "fits (jo_max_record_bytes (jn_options j1)) (kind, payload)"
        "0 < k" "k < journal_record_header_bytes + length payload"
        "tail = take k (record_header kind payload ?fin m @ payload)"
      using assms(4) q(1) unfolding torn_tail_def by (auto simp: quiet_def)
    show ?thesis
      using scan_torn[OF length_chain_after[OF assms(1)] pre torn(1,2,3), of ?bs 0 es m newest offset']
        torn(4) False scan q assms(5)
      by (auto simp: recovered_to_def quiet_def)
  qed
qed

theorem recover_parts_laid_out:
  assumes "length c = 32" "jo_fabric (jn_options j) = f" "chain = None \<or> chain = Some c"
    and "laid_out f c (jn_disk j) ps L tail" "ps \<noteq> []"
    and "\<forall>es\<in>set L. \<forall>e\<in>set es. fits (jo_max_record_bytes (jn_options j)) e"
    and "length (jn_recovered_records j) + length (records_in (jo_limits (jn_options j)) (concat L))
      \<le> recovery_bound j"
    and "torn_tail (jo_max_record_bytes (jn_options j)) (chain_end c L) tail"
  shows "\<exists>j'. recover_parts ps chain j = (Inr (), j') \<and>
     recovered_to j j' (records_in (jo_limits (jn_options j)) (concat L)) (tail \<noteq> [])
       (if concat L = [] then jn_chain j else chain_end c L)"
  using assms
proof (induction ps arbitrary: L c chain j)
  case Nil
  then show ?case by simp
next
  case (Cons p ps)
  then obtain es M where L: "L = es # M" by (cases L) auto
  let ?tail = "if ps = [] then tail else []" and ?fin = "chain_after c 0 es"
  let ?l = "jo_limits (jn_options j)" and ?o = "part_opened f j"
  have M: "ps = [] \<longleftrightarrow> M = []"
    using Cons.prems(4) by (cases ps; cases M) (auto simp: L)
  have bytes: "jn_disk j p = Some (header_bytes f c @ frames c 0 es @ ?tail)"
    using Cons.prems(4) by (simp add: L part_bytes_def)
  have bound: "length (jn_recovered_records ?o) + length (records_in (jo_limits (jn_options ?o)) es)
      \<le> recovery_bound ?o"
    using Cons.prems(7) by (simp add: L)
  have fit: "\<forall>e\<in>set es. fits (jo_max_record_bytes (jn_options ?o)) e"
    using Cons.prems(6) by (simp add: L)
  have torn: "torn_tail (jo_max_record_bytes (jn_options ?o)) ?fin ?tail"
    using Cons.prems(8) M by (cases "ps = []") (simp_all add: L)
  obtain j1 where scan: "scan_records (ps = []) (header_bytes f c @ frames c 0 es @ ?tail)
        journal_header_bytes journal_header_bytes c ?o = (?tail \<noteq> [], ?fin, j1)"
    and r1: "recovered_to ?o j1 (records_in ?l es) (?tail \<noteq> []) (if es = [] then jn_chain j else ?fin)"
    using scan_part[OF Cons.prems(1) fit bound torn, of "ps = []" f]
    by (cases "ps = []") (auto simp: part_bytes_def cong: if_cong)
  obtain j2 where j2: "j2 = on_report (\<lambda>r. r\<lparr>rr_file_bytes := rr_file_bytes r +
      length (header_bytes f c @ frames c 0 es @ ?tail)\<rparr>) j1" by blast
  have step: "recover_parts (p # ps) chain j =
      (if ?tail \<noteq> [] then (Inr (), j2) else recover_parts ps (Some ?fin) j2)"
    using recover_part[OF Cons.prems(1) bytes Cons.prems(2,3)] by (simp add: scan j2)
  have r2: "recovered_to j j2 (records_in ?l es) (?tail \<noteq> []) (if es = [] then jn_chain j else ?fin)"
    using r1 by (simp add: recovered_to_def j2)
  show ?case
  proof (cases "ps = []")
    case True
    then show ?thesis
      using step r2 M by (auto simp: L)
  next
    case False
    then have "laid_out f ?fin (jn_disk j2) ps M tail" "jo_fabric (jn_options j2) = f"
      using Cons.prems(2,4) r2 by (simp_all add: L recovered_to_def)
    then obtain j' where "recover_parts ps (Some ?fin) j2 = (Inr (), j')"
      and r3: "recovered_to j2 j' (records_in (jo_limits (jn_options j2)) (concat M)) (tail \<noteq> [])
         (if concat M = [] then jn_chain j2 else chain_end ?fin M)"
      using Cons.IH[of ?fin j2 "Some ?fin" M] Cons.prems(1,6-8) False r2
      by (auto simp: L recovered_to_def length_chain_after)
    then show ?thesis
      using step False r2 by (auto simp: L recovered_to_def chain_end_empty)
  qed
qed

section \<open>The invariant of the writer\<close>

lemma laid_out_snoc:
  "length ps = length L \<Longrightarrow> laid_out f c d (ps @ [p]) (L @ [es]) tail \<longleftrightarrow>
     laid_out f c d ps L [] \<and> d p = Some (part_bytes f (chain_end c L) es @ tail)"
  by (induction ps L arbitrary: c rule: list_induct2) auto

lemma laid_out_cong:
  "\<forall>p\<in>set ps. d p = d' (g p) \<Longrightarrow> laid_out f c d ps L tail = laid_out f c d' (map g ps) L tail"
  by (induction f c d ps L tail rule: laid_out.induct) auto

lemma laid_out_active:
  "laid_out f c (d(0 := b)) (rev [Suc 0..<n]) M tail = laid_out f c d (rev [Suc 0..<n]) M tail"
  using laid_out_cong[of "rev [Suc 0..<n]" "d(0 := b)" d id f c M tail] by simp

lemma laid_out_present:
  "laid_out f c d ps L tail \<Longrightarrow> length ps = length L \<and> (\<forall>p\<in>set ps. d p \<noteq> None)"
  by (induction f c d ps L tail rule: laid_out.induct) auto

lemma shift_part_apply:
  "shift_part i d k = (if k = i then None else if k = Suc i then d i else d k)"
  by (auto simp: shift_part_def rename_part_def split: option.split)

lemma shift_loop:
  "0 < n \<Longrightarrow> fold shift_part (rev [1..<n]) d k =
     (if k = 1 \<and> 1 < n then None else if 2 \<le> k \<and> k \<le> n then d (k - 1) else d k)"
proof (induction n arbitrary: d)
  case 0
  then show ?case by simp
next
  case (Suc n)
  show ?case
  proof (cases "n = 0")
    case False
    then have "fold shift_part (rev [1..<Suc n]) d k = fold shift_part (rev [1..<n]) (shift_part n d) k"
      by simp
    then show ?thesis
      using Suc.IH[of "shift_part n d"] False by (auto simp: shift_part_apply)
  qed auto
qed

lemma rename_part_apply:
  "d a \<noteq> None \<Longrightarrow> rename_part a b d k = (if k = a then None else if k = b then d a else d k)"
  by (auto simp: rename_part_def)

lemma shift_parts_apply:
  assumes "1 < m" "d 0 \<noteq> None"
  shows "shift_parts m d k = (if k = 0 then None else if k < m then d (k - 1) else d k)"
proof -
  obtain X where X: "X = (fold shift_part (rev [1..<m - 1]) (d(m - 1 := None)))(1 := None)" by blast
  have at: "X i = (if i = 1 then None else if 2 \<le> i \<and> i < m then d (i - 1) else d i)" for i
    using shift_loop[of "m - 1" "d(m - 1 := None)" i] assms(1) by (auto simp: X)
  have "X 0 \<noteq> None" using at[of 0] assms(2) by simp
  moreover have "shift_parts m d = rename_part 0 1 X" using assms(1) by (simp add: shift_parts_def X)
  ultimately show ?thesis
    using at[of k] at[of 0] assms(1) by (auto simp: rename_part_apply)
qed

definition journal_fabric :: "journal \<Rightarrow> fabric_id" where
  "journal_fabric j = jo_fabric (jn_options j)"

text \<open>
  \<open>M\<close> are the logs of the rotated parts, oldest first, \<open>es\<close> the log of the active file, \<open>c\<close>
  the chain value the oldest part starts from.
\<close>

definition journal_holds ::
  "digest256 \<Rightarrow> entry list list \<Rightarrow> entry list \<Rightarrow> journal \<Rightarrow> bool" where
  "journal_holds c M es j \<longleftrightarrow>
     jn_open j \<and> jn_faults j = [] \<and> length c = 32 \<and>
     length M < unat (jo_max_files (jn_options j)) \<and>
     laid_out (journal_fabric j) c (jn_disk j) (rev [1..<length M + 1]) M [] \<and>
     (\<forall>k>length M. jn_disk j k = None) \<and>
     jn_disk j 0 = Some (part_bytes (journal_fabric j) (chain_end c M) es) \<and>
     jn_chain j = chain_end c (M @ [es]) \<and> jn_file_sequence j = of_nat (length es) \<and>
     (\<forall>e\<in>set (concat M @ es). fits (jo_max_record_bytes (jn_options j)) e)"

lemma write_all_ok:
  "jn_faults j = [] \<Longrightarrow> bs \<noteq> [] \<Longrightarrow> write_all bs j = (True, append_active bs j)"
  by (simp add: write_all_def next_outcome_def)

lemma record_header_not_Nil: "record_header k p c n \<noteq> []"
  by (simp add: record_header_def)

lemma append_record_holds:
  assumes "journal_holds c M es j" "fits (jo_max_record_bytes (jn_options j)) (kind, payload)"
  shows "\<exists>j'. append_record kind payload j = (Inr (), j') \<and>
    journal_holds c M (es @ [(kind, payload)]) j' \<and> jn_options j' = jn_options j"
proof -
  let ?h = "record_header kind payload (jn_chain j) (jn_file_sequence j + 1)"
  have faults: "jn_faults j = []" and active: "active_bytes j = part_bytes (journal_fabric j) (chain_end c M) es"
    using assms(1) by (simp_all add: journal_holds_def active_bytes_def)
  have header: "write_all ?h j = (True, append_active ?h j)"
    by (rule write_all_ok[OF faults]) (simp add: record_header_not_Nil)
  have payload: "write_all payload (append_active ?h j) = (True, append_active payload (append_active ?h j))"
    using assms(2) faults by (intro write_all_ok) (auto simp: append_active_def fits_def)
  have frame: "part_bytes f c' (es @ [(kind, payload)]) = part_bytes f c' es @
      record_header kind payload (chain_after c' 0 es) (of_nat (length es) + 1) @ payload" for f c'
    by (simp add: part_bytes_def frames_append)
  have disk: "jn_disk (append_active payload (append_active ?h j)) =
      (jn_disk j)(0 \<mapsto> part_bytes (journal_fabric j) (chain_end c M) (es @ [(kind, payload)]))"
    using assms(1) by (simp add: append_active_def active_bytes_def[of "j\<lparr>jn_disk := _\<rparr>"] active frame
        journal_holds_def)
  obtain j' where j': "j' = (append_active payload (append_active ?h j))\<lparr>
      jn_chain := compute_chain (jn_chain j) (sha256 payload) kind (jn_file_sequence j + 1),
      jn_chain_initialised := True, jn_file_sequence := jn_file_sequence j + 1,
      jn_records_written := jn_records_written (append_active payload (append_active ?h j)) + 1,
      jn_current_bytes := jn_current_bytes (append_active payload (append_active ?h j)) +
        of_nat (journal_record_header_bytes + length payload)\<rparr>" by blast
  have "append_record kind payload j = (Inr (), j')"
    by (simp add: append_record_def header payload Let_def j')
  moreover have "jn_options j' = jn_options j" "jn_open j' = jn_open j" "jn_faults j' = jn_faults j"
    "jn_chain j' = compute_chain (jn_chain j) (sha256 payload) kind (jn_file_sequence j + 1)"
    "jn_file_sequence j' = jn_file_sequence j + 1"
    by (simp_all add: j' append_active_def)
  moreover have "jn_disk j' = (jn_disk j)(0 \<mapsto> part_bytes (journal_fabric j) (chain_end c M) (es @ [(kind, payload)]))"
    using disk by (simp add: j')
  moreover have "chain_end c (M @ [es @ [(kind, payload)]]) =
      compute_chain (chain_end c (M @ [es])) (sha256 payload) kind (of_nat (length es) + 1)"
    by (simp add: chain_after_append)
  moreover have "of_nat (length (es @ [(kind, payload)])) = (of_nat (length es) + 1 :: 64 word)"
    by simp
  ultimately show ?thesis
    using assms unfolding journal_holds_def journal_fabric_def
    by (intro exI[of _ j']) (simp add: laid_out_active ball_Un del: upt_Suc chain_end_append)
qed

text \<open>A rotation starts an empty active part and drops the oldest part when all slots are used.\<close>

lemma laid_out_shift:
  "\<forall>p\<in>set ps. d' (Suc p) = d p \<Longrightarrow> laid_out f c d ps L tail \<Longrightarrow> laid_out f c d' (map Suc ps) L tail"
  using laid_out_cong[of ps d d' Suc] by auto

lemma map_Suc_rev_upt: "map Suc (rev [a..<b]) = rev [Suc a..<Suc b]"
  by (metis map_Suc_upt rev_map)

lemma laid_out_all:
  assumes "journal_holds c M es j"
  shows "laid_out (journal_fabric j) c (jn_disk j) (rev [0..<length M + 1]) (M @ [es]) []"
proof -
  have "rev [0..<length M + 1] = rev [1..<length M + 1] @ [0]"
    using upt_conv_Cons[of 0 "length M + 1"] by (simp del: upt_Suc)
  then show ?thesis
    using assms by (simp add: journal_holds_def laid_out_snoc del: upt_Suc)
qed

lemma laid_out_tl:
  "laid_out f c d (rev [0..<n + 1]) L tail \<Longrightarrow> 0 < n \<Longrightarrow>
     laid_out f (chain_after c 0 (hd L)) d (rev [0..<n]) (tl L) tail \<and> L \<noteq> []"
  by (cases L) auto

lemma rotate_holds:
  assumes "journal_holds c M es j"
  defines "full \<equiv> (length M + 1 = unat (jo_max_files (jn_options j)))"
  shows "\<exists>j'. rotate j = (Inr (), j') \<and> jn_options j' = jn_options j \<and>
    journal_holds (if full then chain_after c 0 (hd (M @ [es])) else c)
      (if full then tl (M @ [es]) else M @ [es]) [] j'"
proof -
  let ?m = "unat (jo_max_files (jn_options j))" and ?L = "M @ [es]"
  let ?d = "shift_parts ?m (jn_disk j)" and ?fin = "chain_end c (M @ [es])"
  let ?c = "if full then chain_after c 0 (hd ?L) else c" and ?M = "if full then tl ?L else ?L"
  note h = assms(1)[unfolded journal_holds_def]
  have m: "0 < ?m" "length M < ?m" using h by auto
  have "length c = 32" using h by blast
  then have len: "length c = 32" "length ?fin = 32" using length_chain_end by blast+
  obtain j' where j': "j' = j\<lparr>jn_rotations := jn_rotations j + 1,
      jn_disk := ?d(0 \<mapsto> header_bytes (journal_fabric j) ?fin), jn_open := True,
      jn_current_bytes := of_nat journal_header_bytes, jn_file_sequence := 0\<rparr>" by blast
  have header: "header_bytes (journal_fabric j) ?fin \<noteq> []"
    using length_header_bytes[OF len(2), of "journal_fabric j"] by (auto simp: journal_header_bytes_def)
  have "rotate j = (Inr (), j')"
    using h header
    by (simp add: rotate_def open_truncate_def next_outcome_def write_header_def write_all_ok
        append_active_def active_bytes_def journal_fabric_def j' Let_def)
  moreover have "?c = chain_after c 0 (hd ?L) \<and> length ?c = 32 \<or> ?c = c \<and> length ?c = 32"
    using len length_chain_after by auto
  moreover have chain: "chain_end ?c ?M = ?fin"
    by (cases M) auto
  moreover have "\<forall>k>length ?M. (?d(0 \<mapsto> header_bytes (journal_fabric j) ?fin)) k = None"
  proof (cases "?m = 1")
    case True
    then show ?thesis using h m by (auto simp: shift_parts_def full_def)
  next
    case False
    then show ?thesis using h m by (auto simp: shift_parts_apply full_def)
  qed
  moreover have "laid_out (journal_fabric j) ?c ?d (rev [Suc 0..<Suc (length ?M)]) ?M []"
  proof (cases full)
    case True
    then show ?thesis
    proof (cases "M = []")
      case False
      have "laid_out (journal_fabric j) (chain_after c 0 (hd ?L)) (jn_disk j) (rev [0..<length M]) (tl ?L) []"
        using laid_out_tl[OF laid_out_all[OF assms(1)]] False by simp
      then have "laid_out (journal_fabric j) (chain_after c 0 (hd ?L)) ?d (map Suc (rev [0..<length M])) (tl ?L) []"
        using True h False by (intro laid_out_shift[rotated]) (auto simp: shift_parts_apply full_def)
      then show ?thesis using True False by (simp add: map_Suc_rev_upt del: upt_Suc)
    qed simp
  next
    case False
    have "laid_out (journal_fabric j) c ?d (map Suc (rev [0..<length M + 1])) ?L []"
      using False m h
      by (intro laid_out_shift[OF _ laid_out_all[OF assms(1)]]) (auto simp: shift_parts_apply full_def)
    then show ?thesis using False by (simp add: map_Suc_rev_upt del: upt_Suc)
  qed
  moreover have "length ?M < ?m" using m by (auto simp: full_def)
  moreover have "\<forall>e\<in>set (concat ?M). fits (jo_max_record_bytes (jn_options j)) e"
    using h by (cases M) (auto simp: ball_Un)
  ultimately show ?thesis
    using h unfolding journal_holds_def
    by (intro exI[of _ j'])
       (auto simp: j' journal_fabric_def part_bytes_def laid_out_active simp del: upt_Suc)
qed

section \<open>The log of a journal\<close>

text \<open>
  \<open>log\<close> is everything that was ever acknowledged; the parts hold all of it unless every slot is
  used, and then a suffix of it.
\<close>

definition journal_log :: "journal \<Rightarrow> entry list \<Rightarrow> entry list \<Rightarrow> bool" where
  "journal_log j dropped kept \<longleftrightarrow> (\<exists>c M es. journal_holds c M es j \<and> kept = concat M @ es \<and>
     (dropped = [] \<or> length M + 1 = unat (jo_max_files (jn_options j))))"

lemma rotate_log:
  assumes "journal_log j dropped kept"
  shows "\<exists>j' gone rest. rotate j = (Inr (), j') \<and> jn_options j' = jn_options j \<and>
    kept = gone @ rest \<and> journal_log j' (dropped @ gone) rest"
proof -
  obtain c M es where h: "journal_holds c M es j" "kept = concat M @ es"
      "dropped = [] \<or> length M + 1 = unat (jo_max_files (jn_options j))"
    using assms by (auto simp: journal_log_def)
  let ?full = "length M + 1 = unat (jo_max_files (jn_options j))"
  obtain j' where r: "rotate j = (Inr (), j')" "jn_options j' = jn_options j"
      "journal_holds (if ?full then chain_after c 0 (hd (M @ [es])) else c)
        (if ?full then tl (M @ [es]) else M @ [es]) [] j'"
    using rotate_holds[OF h(1)] by blast
  have kept: "kept = (if ?full then hd (M @ [es]) else []) @ concat (if ?full then tl (M @ [es]) else M @ [es])"
    using h(2) by (cases M) auto
  have "length (tl (M @ [es])) = length M" by (cases M) auto
  then have "journal_log j' (dropped @ (if ?full then hd (M @ [es]) else []))
      (concat (if ?full then tl (M @ [es]) else M @ [es]))"
    unfolding journal_log_def using r(2,3) h(3)
    by (intro exI[of _ "if ?full then chain_after c 0 (hd (M @ [es])) else c"]
        exI[of _ "if ?full then tl (M @ [es]) else M @ [es]"] exI[of _ "[]"]) auto
  then show ?thesis using r kept by blast
qed

lemma append_record_log:
  assumes "journal_log j dropped kept" "fits (jo_max_record_bytes (jn_options j)) (kind, payload)"
  shows "\<exists>j'. append_record kind payload j = (Inr (), j') \<and> jn_options j' = jn_options j \<and>
    journal_log j' dropped (kept @ [(kind, payload)])"
  using assms append_record_holds unfolding journal_log_def by (metis append.assoc)

text \<open>
  A record that fits is acknowledged and appended; what a rotation dropped is a prefix of what
  was kept. Any other record is refused and nothing is written.
\<close>

lemma write_record_log:
  assumes "journal_log j dropped kept" "fits (jo_max_record_bytes (jn_options j)) (kind, payload)"
  shows "\<exists>j' gone rest. write_record kind payload j = (Inr (), j') \<and> jn_options j' = jn_options j \<and>
       kept @ [(kind, payload)] = gone @ rest \<and> journal_log j' (dropped @ gone) rest"
proof -
  have small: "length payload < 2 ^ 32" "\<not> length payload > unat (jo_max_record_bytes (jn_options j))"
    using assms(2) by (auto simp: fits_def)
  have "jn_open j" using assms(1) by (auto simp: journal_log_def journal_holds_def)
  moreover obtain total where "checked_add (of_nat journal_record_header_bytes)
      (of_nat (length payload) :: 64 word) = Some total"
    using small that[of "of_nat (116 + length payload)"] unat_of_nat_small[of "116 + length payload", where 'a = 64]
    by (simp add: checked_add_Some journal_record_header_bytes_def unat_of_nat_small)
  ultimately have eq: "write_record kind payload j = append_record kind payload j \<or>
      write_record kind payload j = (case rotate j of (Inl e, j) \<Rightarrow> (Inl e, j)
        | (Inr _, j) \<Rightarrow> append_record kind payload j)"
    using small by (simp add: write_record_def)
  obtain j1 gone rest where r: "rotate j = (Inr (), j1)" "jn_options j1 = jn_options j"
      "kept = gone @ rest" "journal_log j1 (dropped @ gone) rest"
    using rotate_log[OF assms(1)] by blast
  obtain j2 where "append_record kind payload j1 = (Inr (), j2)" "jn_options j2 = jn_options j"
      "journal_log j2 (dropped @ gone) (rest @ [(kind, payload)])"
    using append_record_log[OF r(4)] assms(2) r(2) by metis
  moreover obtain j3 where "append_record kind payload j = (Inr (), j3)" "jn_options j3 = jn_options j"
      "journal_log j3 dropped (kept @ [(kind, payload)])"
    using append_record_log[OF assms] by blast
  moreover from r(3) have "kept @ [(kind, payload)] = gone @ (rest @ [(kind, payload)])" by simp
  moreover have "kept @ [(kind, payload)] = [] @ (kept @ [(kind, payload)])" "dropped @ [] = dropped"
    by simp_all
  ultimately show ?thesis
    using eq
    by (simp add: r(1)) (elim disjE; force intro: exI[of _ gone] exI[of _ "[]"])
qed

text \<open>A sequence of writes, stopping at the first error.\<close>

fun write_entries :: "entry list \<Rightarrow> journal \<Rightarrow> unit result \<times> journal" where
  "write_entries [] j = (Inr (), j)"
| "write_entries ((kind, payload) # es) j =
     (case write_record kind payload j of
        (Inl e, j') \<Rightarrow> (Inl e, j')
      | (Inr _, j') \<Rightarrow> write_entries es j')"

lemma write_entries_log:
  assumes "journal_log j dropped kept" "\<forall>e\<in>set es. fits (jo_max_record_bytes (jn_options j)) e"
  shows "\<exists>j' gone rest. write_entries es j = (Inr (), j') \<and> jn_options j' = jn_options j \<and>
    kept @ es = gone @ rest \<and> journal_log j' (dropped @ gone) rest"
  using assms
proof (induction es arbitrary: j dropped kept)
  case Nil
  then show ?case by (auto intro: exI[of _ "[]"])
next
  case (Cons e es)
  obtain kind payload where e: "e = (kind, payload)" by (cases e)
  obtain j1 gone rest where w: "write_record kind payload j = (Inr (), j1)" "jn_options j1 = jn_options j"
      "kept @ [e] = gone @ rest" "journal_log j1 (dropped @ gone) rest"
    using write_record_log[OF Cons.prems(1), of kind payload] Cons.prems(2) by (auto simp: e)
  obtain j' gone' rest' where "write_entries es j1 = (Inr (), j')" "jn_options j' = jn_options j1"
      "rest @ es = gone' @ rest'" "journal_log j' ((dropped @ gone) @ gone') rest'"
    using Cons.IH[OF w(4)] Cons.prems(2) w(2) by auto
  moreover from this have "kept @ e # es = (gone @ gone') @ rest'"
    using w(3) by (metis append.assoc append_Cons append_Nil)
  ultimately show ?case
    using w(1,2) by (intro exI[of _ j'] exI[of _ "gone @ gone'"] exI[of _ rest']) (simp add: e)
qed

section \<open>Opening\<close>

lemma open_fresh:
  assumes "journal_open path opts Map.empty [] = (Inr (), j)"
  shows "jn_options j = opts \<and> journal_log j [] []"
proof -
  have "part_list ((new_journal opts Map.empty [])\<lparr>jn_recovery := empty_report\<rparr>) = []"
    by (simp add: part_list_def new_journal_def)
  then have recover: "recover (new_journal opts Map.empty []) =
      (Inr (), (new_journal opts Map.empty [])\<lparr>jn_recovery := empty_report, jn_chain_initialised := False\<rparr>)"
    by (simp add: recover_def)
  have seed: "length (chain_seed (jo_fabric opts)) = 32" by (simp add: chain_seed_def)
  have header: "header_bytes (jo_fabric opts) (chain_seed (jo_fabric opts)) \<noteq> []"
    using length_header_bytes[OF seed, of "jo_fabric opts"] by (auto simp: journal_header_bytes_def)
  have "jo_max_files opts \<noteq> 0" using assms by (auto simp: journal_open_def Let_def split: if_splits)
  then have files: "0 < unat (jo_max_files opts)" by (simp add: unat_gt_0)
  have "jn_options j = opts \<and> journal_holds (chain_seed (jo_fabric opts)) [] [] j"
    using assms header seed files
    by (auto simp: journal_open_def recover[unfolded new_journal_def] open_file_def open_truncate_def next_outcome_def
        write_header_def write_all_ok append_active_def active_bytes_def new_journal_def
        journal_holds_def journal_fabric_def part_bytes_def Let_def split: if_splits)
  then show ?thesis unfolding journal_log_def by force
qed

lemma recover_torn:
  assumes "journal_log j dropped kept" "opts = jn_options j"
    and "torn_tail (jo_max_record_bytes opts) (jn_chain j) tail"
    and "length (records_in (jo_limits opts) kept) \<le> unat (jo_max_recovered_observations opts)"
  shows "\<exists>j'. recover (new_journal opts ((jn_disk j)(0 \<mapsto> active_bytes j @ tail)) faults) = (Inr (), j') \<and>
    jn_recovered_records j' = records_in (jo_limits opts) kept \<and>
    rr_chain_verified (jn_recovery j') \<and> \<not> rr_corrupt (jn_recovery j') \<and>
    (rr_truncated (jn_recovery j') \<longleftrightarrow> tail \<noteq> []) \<and> jn_options j' = opts \<and>
    jn_faults j' = faults \<and> jn_disk j' = (jn_disk j)(0 \<mapsto> active_bytes j @ tail)"
proof -
  obtain c M es where h: "journal_holds c M es j" "kept = concat M @ es"
    using assms(1) by (auto simp: journal_log_def)
  note hd = h(1)[unfolded journal_holds_def]
  let ?d = "(jn_disk j)(0 \<mapsto> active_bytes j @ tail)"
  let ?j = "(new_journal opts ?d faults)\<lparr>jn_recovery := empty_report\<rparr>"
  have active: "active_bytes j = part_bytes (jo_fabric opts) (chain_end c M) es"
    using hd by (simp add: active_bytes_def journal_fabric_def assms(2))
  have present: "jn_disk j k \<noteq> None" if "0 < k" "k \<le> length M" for k
    using laid_out_present[of "journal_fabric j" c "jn_disk j" "rev [1..<length M + 1]" M "[]"] hd that by auto
  have absent: "jn_disk j k = None" if "length M < k" for k using hd that by blast
  have slots: "[1..<unat (jo_max_files opts) + 1] =
      [1..<length M + 1] @ [length M + 1..<unat (jo_max_files opts) + 1]"
    using hd upt_add_eq_append[of 1 "length M + 1" "unat (jo_max_files opts) - length M"]
    by (simp add: assms(2) del: upt_Suc)
  have parts: "part_list ?j = rev [1..<length M + 1] @ [0]"
  proof -
    have "filter (\<lambda>p. ?d p \<noteq> None) (rev [1..<length M + 1]) = rev [1..<length M + 1]"
      using present by (intro filter_True) auto
    moreover have "filter (\<lambda>p. ?d p \<noteq> None) (rev [length M + 1..<unat (jo_max_files opts) + 1]) = []"
      using absent by (intro filter_False) auto
    ultimately have "filter (\<lambda>p. ?d p \<noteq> None) (rev [1..<unat (jo_max_files opts) + 1]) =
        rev [1..<length M + 1]"
      unfolding slots by (simp only: rev_append filter_append append.simps)
    moreover have "part_list ?j = filter (\<lambda>p. ?d p \<noteq> None) (rev [1..<unat (jo_max_files opts) + 1]) @ [0]"
      by (simp only: part_list_def new_journal_def journal.simps fun_upd_same) simp
    ultimately show ?thesis by simp
  qed
  have "\<exists>j'. recover_parts (rev [1..<length M + 1] @ [0]) None ?j = (Inr (), j') \<and>
      recovered_to ?j j' (records_in (jo_limits (jn_options ?j)) (concat (M @ [es]))) (tail \<noteq> [])
        (if concat (M @ [es]) = [] then jn_chain ?j else chain_end c (M @ [es]))"
  proof (rule recover_parts_laid_out)
    show "length c = 32" using hd by blast
    show "jo_fabric (jn_options ?j) = jo_fabric opts" by (simp add: new_journal_def)
    show "laid_out (jo_fabric opts) c (jn_disk ?j) (rev [1..<length M + 1] @ [0]) (M @ [es]) tail"
      using hd active by (simp add: laid_out_snoc laid_out_active new_journal_def journal_fabric_def
          assms(2) del: upt_Suc)
    show "\<forall>es'\<in>set (M @ [es]). \<forall>e\<in>set es'. fits (jo_max_record_bytes (jn_options ?j)) e"
      using hd by (auto simp: new_journal_def assms(2))
    show "length (jn_recovered_records ?j) + length (records_in (jo_limits (jn_options ?j)) (concat (M @ [es])))
        \<le> recovery_bound ?j"
      using assms(4) h(2) by (simp add: new_journal_def)
    show "torn_tail (jo_max_record_bytes (jn_options ?j)) (chain_end c (M @ [es])) tail"
      using assms(3) hd by (simp add: new_journal_def)
  qed simp_all
  then obtain j1 where run: "recover_parts (rev [1..<length M + 1] @ [0]) None ?j = (Inr (), j1)"
    and to: "recovered_to ?j j1 (records_in (jo_limits (jn_options ?j)) (concat (M @ [es]))) (tail \<noteq> [])
        (if concat (M @ [es]) = [] then jn_chain ?j else chain_end c (M @ [es]))"
    by blast
  have "recover (new_journal opts ?d faults) =
      (Inr (), on_report (\<lambda>r. r\<lparr>rr_chain_verified := (\<not> rr_corrupt r)\<rparr>) j1)"
    unfolding recover_def Let_def parts run by simp
  moreover have "jn_recovered_records j1 = records_in (jo_limits opts) kept"
      "\<not> rr_corrupt (jn_recovery j1)" "rr_truncated (jn_recovery j1) = (tail \<noteq> [])"
      "jn_options j1 = opts" "jn_faults j1 = faults" "jn_disk j1 = ?d"
    using to h(2) by (simp_all add: recovered_to_def new_journal_def empty_report_def)
  ultimately show ?thesis by simp
qed

text \<open>Records are only dropped once every slot is used.\<close>

lemma journal_log_unused:
  assumes "journal_log j dropped kept" "k < unat (jo_max_files (jn_options j))" "jn_disk j k = None"
  shows "dropped = []"
proof (rule ccontr)
  assume "dropped \<noteq> []"
  then obtain c M es where h: "journal_holds c M es j" "length M + 1 = unat (jo_max_files (jn_options j))"
    using assms(1) by (auto simp: journal_log_def)
  note hd = h(1)[unfolded journal_holds_def]
  have "jn_disk j i \<noteq> None" if "0 < i" "i \<le> length M" for i
    using laid_out_present[of "journal_fabric j" c "jn_disk j" "rev [1..<length M + 1]" M "[]"] hd that by auto
  moreover have "jn_disk j 0 \<noteq> None" using hd by blast
  moreover have "k \<le> length M" using assms(2) h(2) by simp
  ultimately show False using assms(3) by (metis gr0I)
qed

section \<open>What the payload codec promises\<close>

lemma dec_bind_assoc: "dec_bind (dec_bind f g) h = dec_bind f (\<lambda>x. dec_bind (g x) h)"
  by (rule ext) (simp add: dec_bind_def split: sum.split prod.split)

lemma dec_bind_return: "dec_bind (dec_return v) g = g v"
  by (rule ext) (simp add: dec_bind_def dec_return_def)

lemma decode_to_end:
  assumes "reads f bs v"
  shows "fst (dec_bind f (\<lambda>v. dec_bind dec_expect_end (\<lambda>_. dec_return v)) (decoder_of bs)) = Inr v"
  using readsD[OF assms, of "decoder_of bs" "[]"]
  by (simp add: decoder_of_def dec_bind_def dec_expect_end_def cd_remaining_def dec_return_def)

lemma observation_record_read:
  assumes "wf_limits l" "wf_observation l (or_observation r)"
  shows "decode_observation_record (encode_observation_record r) l = Inr r"
proof -
  let ?body = "dec_bind (dec_tag ''observation-record'') (\<lambda>_. dec_bind (dec_expect_u8 1) (\<lambda>_.
     dec_bind (observation_decode l) (\<lambda>ob. dec_bind dec_i64 (\<lambda>received_at.
     dec_bind dec_bool (\<lambda>recovered. dec_bind dec_u64 (\<lambda>epoch.
     dec_return \<lparr>or_observation = ob, or_received_at = TimePoint received_at,
       or_recovered = recovered, or_recovery_epoch = epoch\<rparr>))))))"
  have same: "\<lparr>or_observation = or_observation r, or_received_at = TimePoint (tp_nanos (or_received_at r)),
      or_recovered = or_recovered r, or_recovery_epoch = or_recovery_epoch r\<rparr> = r"
    by simp
  have "decode_observation_record_dec l =
      dec_bind ?body (\<lambda>v. dec_bind dec_expect_end (\<lambda>_. dec_return v))"
    by (simp add: decode_observation_record_dec_def dec_bind_assoc dec_bind_return)
  moreover have "reads ?body (encode_observation_record r) r"
    unfolding encode_observation_record_def
    by (intro reads_bind[OF reads_tag] reads_bind[OF reads_expect_u8]
        reads_bind[OF reads_observation[OF assms(2,1)]] reads_bind[OF reads_i64]
        reads_bind[OF reads_bool] reads_bind_last[OF reads_u64], simp) (unfold same, rule reads_return)
  ultimately show ?thesis
    by (simp only: decode_observation_record_def decode_to_end)
qed

lemma encode_observation_record_nonempty: "encode_observation_record r \<noteq> []"
  by (simp add: encode_observation_record_def enc_tag_def enc_u8_def)

definition observation_entries :: "observation_record list \<Rightarrow> entry list" where
  "observation_entries rs = map (\<lambda>r. (kind_observation, encode_observation_record r)) rs"

lemma records_in_observations:
  assumes "wf_limits l" "\<forall>r\<in>set rs. wf_observation l (or_observation r)"
  shows "records_in l (observation_entries rs) = rs"
  using assms(2)
  by (induction rs) (simp_all add: records_in_def observation_entries_def observation_record_read[OF assms(1)])

text \<open>Appending observations one after the other, until one fails.\<close>

fun append_all :: "observation_record list \<Rightarrow> journal \<Rightarrow> unit result \<times> journal" where
  "append_all [] j = (Inr (), j)"
| "append_all (r # rs) j =
     (case journal_append r j of
        (Inl e, j') \<Rightarrow> (Inl e, j')
      | (Inr _, j') \<Rightarrow> append_all rs j')"

lemma append_all_entries: "append_all rs j = write_entries (observation_entries rs) j"
  by (induction rs arbitrary: j)
     (auto simp: observation_entries_def journal_append_def split: prod.split sum.split)

section \<open>Acknowledged evidence survives\<close>

text \<open>
  What a new journal acknowledged, read back after a stop at any point of the next write:
  a suffix of it in order, all of it while some slot is unused.
\<close>

lemma append_all_logged:
  assumes "journal_open path opts Map.empty [] = (Inr (), j0)"
    and "\<forall>r\<in>set rs. fits (jo_max_record_bytes opts) (kind_observation, encode_observation_record r)"
  shows "\<exists>j gone rest. append_all rs j0 = (Inr (), j) \<and> jn_options j = opts \<and>
    observation_entries rs = gone @ rest \<and> journal_log j gone rest"
  using write_entries_log[of j0 "[]" "[]" "observation_entries rs"] open_fresh[OF assms(1)] assms(2)
  by (auto simp: append_all_entries observation_entries_def)

lemma append_all_recovered:
  assumes opened: "journal_open path opts Map.empty [] = (Inr (), j0)"
    and fit: "\<forall>r\<in>set rs. fits (jo_max_record_bytes opts) (kind_observation, encode_observation_record r)"
    and lim: "wf_limits (jo_limits opts)"
    and wf: "\<forall>r\<in>set rs. wf_observation (jo_limits opts) (or_observation r)"
    and few: "length rs \<le> unat (jo_max_recovered_observations opts)"
  shows "\<exists>j. append_all rs j0 = (Inr (), j) \<and>
    (\<forall>tail faults. torn_tail (jo_max_record_bytes opts) (jn_chain j) tail \<longrightarrow>
    (\<exists>dropped kept j'. rs = dropped @ kept \<and>
    ((\<exists>k < unat (jo_max_files opts). jn_disk j k = None) \<longrightarrow> dropped = []) \<and>
    recover (new_journal opts ((jn_disk j)(0 \<mapsto> active_bytes j @ tail)) faults) = (Inr (), j') \<and>
    jn_recovered_records j' = kept \<and> rr_chain_verified (jn_recovery j') \<and>
    (rr_truncated (jn_recovery j') \<longleftrightarrow> tail \<noteq> [])))"
proof -
  obtain j gone rest where app: "append_all rs j0 = (Inr (), j)" and jo: "jn_options j = opts"
    and split: "observation_entries rs = gone @ rest" and log: "journal_log j gone rest"
    using append_all_logged[OF opened fit] by blast
  let ?dropped = "take (length gone) rs" and ?kept = "drop (length gone) rs"
  have rest: "rest = observation_entries ?kept" and gone: "gone = [] \<longleftrightarrow> ?dropped = []"
    using split by (auto simp: observation_entries_def map_eq_append_conv)
  have kept: "records_in (jo_limits opts) rest = ?kept"
    unfolding rest using wf by (intro records_in_observations[OF lim]) (auto dest: in_set_dropD)
  then have "length (records_in (jo_limits opts) rest) \<le> unat (jo_max_recovered_observations opts)"
    using few by simp
  note recovered = recover_torn[OF log jo[symmetric] _ this]
  note kept
  moreover have "?dropped = []" if "k < unat (jo_max_files opts)" "jn_disk j k = None" for k
    using journal_log_unused[OF log] that jo gone by blast
  moreover have "rs = ?dropped @ ?kept" by simp
  ultimately show ?thesis
    using app recovered by (intro exI[of _ j] conjI allI impI) (assumption, metis)
qed

section \<open>Compaction\<close>

lemma compact_records_frames:
  assumes "length chain = 32" "\<forall>r\<in>set rs. length (encode_observation_record r) \<le> unat bound"
  shows "compact_records bound chain sequence written rs (bs, []) =
    (Inr (written + length (frames chain sequence (observation_entries rs))),
     (bs @ frames chain sequence (observation_entries rs), []))"
  using assms
proof (induction rs arbitrary: chain sequence written bs)
  case Nil
  then show ?case by (simp add: observation_entries_def)
next
  case (Cons r rs)
  then show ?case
    by (simp add: observation_entries_def write_target_def Let_def encode_observation_record_nonempty
        record_header_not_Nil)
qed

text \<open>A single part, as compaction leaves it, is the disk of a journal whose log is its entries.\<close>

lemma one_part_log:
  assumes "length c = 32" "0 < unat (jo_max_files opts)"
    and "\<forall>e\<in>set es. fits (jo_max_record_bytes opts) e"
  shows "journal_log ((new_journal opts [0 \<mapsto> part_bytes (jo_fabric opts) c es] [])\<lparr>jn_open := True,
    jn_chain := chain_after c 0 es, jn_file_sequence := of_nat (length es)\<rparr>) [] es"
  unfolding journal_log_def journal_holds_def journal_fabric_def using assms
  by (intro exI[of _ c] exI[of _ "[]"] exI[of _ es]) (simp add: new_journal_def)

lemma compact_recovered:
  assumes "target_path \<noteq> []" "opts = jn_options j" "rs = jn_recovered_records j"
    and "0 < unat (jo_max_files opts)" "wf_limits (jo_limits opts)"
    and "\<forall>r\<in>set rs. fits (jo_max_record_bytes opts) (kind_observation, encode_observation_record r)"
    and "\<forall>r\<in>set rs. wf_observation (jo_limits opts) (or_observation r)"
    and "length rs \<le> unat (jo_max_recovered_observations opts)"
  shows "\<exists>bs. compact j target_path [] = (Inr (length bs), (bs, [])) \<and>
    (\<exists>j'. recover (new_journal opts [0 \<mapsto> bs] faults) = (Inr (), j') \<and>
       jn_recovered_records j' = rs \<and> rr_chain_verified (jn_recovery j') \<and>
       \<not> rr_truncated (jn_recovery j'))"
proof -
  let ?c = "chain_seed (jo_fabric opts)" and ?es = "observation_entries rs"
  let ?bs = "part_bytes (jo_fabric opts) ?c ?es"
  let ?j = "(new_journal opts [0 \<mapsto> ?bs] [])\<lparr>jn_open := True,
    jn_chain := chain_after ?c 0 ?es, jn_file_sequence := of_nat (length ?es)\<rparr>"
  have seed: "length ?c = 32" by (simp add: chain_seed_def)
  have header: "header_bytes (jo_fabric opts) ?c \<noteq> []"
    using length_header_bytes[OF seed, of "jo_fabric opts"] by (auto simp: journal_header_bytes_def)
  have compacted: "compact j target_path [] = (Inr (length ?bs), (?bs, []))"
    using assms(1-3,6) seed header length_header_bytes[OF seed, of "jo_fabric opts"]
    by (simp add: compact_def Let_def write_target_def compact_records_frames fits_def part_bytes_def)
  have log: "journal_log ?j [] ?es"
    using assms(4,6) seed by (intro one_part_log) (auto simp: observation_entries_def)
  have decoded: "records_in (jo_limits opts) ?es = rs"
    using assms(5,7) by (rule records_in_observations)
  obtain j' where "recover (new_journal opts [0 \<mapsto> ?bs] faults) = (Inr (), j')"
      "jn_recovered_records j' = records_in (jo_limits opts) ?es" "rr_chain_verified (jn_recovery j')"
      "\<not> rr_truncated (jn_recovery j')"
    using recover_torn[OF log, of opts "[]" faults] assms(8) decoded
    by (auto simp: new_journal_def active_bytes_def)
  then show ?thesis using compacted decoded by auto
qed

section \<open>Opening an empty disk\<close>

definition journal_options_ok :: "journal_options \<Rightarrow> bool" where
  "journal_options_ok opts \<longleftrightarrow> of_nat (journal_header_bytes + journal_record_header_bytes) \<le> jo_max_bytes opts \<and>
     jo_max_files opts \<noteq> 0 \<and> jo_max_record_bytes opts \<le> jo_max_bytes opts"

lemma open_fresh_ok:
  assumes "path \<noteq> []" "journal_options_ok opts"
  shows "\<exists>j. journal_open path opts Map.empty [] = (Inr (), j)"
proof -
  have "part_list ((new_journal opts Map.empty [])\<lparr>jn_recovery := empty_report\<rparr>) = []"
    by (simp add: part_list_def new_journal_def)
  then have recover: "recover (new_journal opts Map.empty []) =
      (Inr (), (new_journal opts Map.empty [])\<lparr>jn_recovery := empty_report, jn_chain_initialised := False\<rparr>)"
    by (simp add: recover_def)
  have seed: "length (chain_seed (jo_fabric opts)) = 32" by (simp add: chain_seed_def)
  have header: "header_bytes (jo_fabric opts) (chain_seed (jo_fabric opts)) \<noteq> []"
    using length_header_bytes[OF seed, of "jo_fabric opts"] by (auto simp: journal_header_bytes_def)
  show ?thesis
    using assms header
    by (simp add: journal_options_ok_def not_less journal_open_def Let_def recover[unfolded new_journal_def]
        open_file_def open_truncate_def next_outcome_def write_header_def write_all_ok append_active_def
        active_bytes_def new_journal_def)
qed

end
