(* ===== verification/Fab_Restart.thy ===== *)
theory Fab_Restart
  imports Fab_Lineage Fab_Durability
begin

text \<open>
  The runtime and its journal together: while journalling has not failed and nothing was
  evicted, the journal holds exactly the evidence, so a restart after a crash at any point
  restores a suffix of it, marked as recovered, and states nothing as known.
\<close>

section \<open>Markers\<close>

lemma length_restart_marker: "length (encode_restart_marker e n t) = 36"
  by (simp add: encode_restart_marker_def enc_tag_def)

lemma length_snapshot_marker: "length (sm_id m) = 32 \<Longrightarrow> length (encode_snapshot_marker m) = 81"
  by (simp add: encode_snapshot_marker_def enc_tag_def enc_bytes_def)

definition journal_room :: "journal_options \<Rightarrow> bool" where
  "journal_room opts \<longleftrightarrow> 81 \<le> unat (jo_max_record_bytes opts) \<and> unat (jo_max_record_bytes opts) < 2 ^ 32"

lemma marker_fits:
  assumes "journal_room opts"
  shows "fits (jo_max_record_bytes opts) (kind_restart_marker, encode_restart_marker e n t)"
    and "length (sm_id m) = 32 \<Longrightarrow> fits (jo_max_record_bytes opts) (kind_snapshot_marker, encode_snapshot_marker m)"
  using assms length_restart_marker[of e n t] length_snapshot_marker[of m]
  by (auto simp: fits_def journal_room_def)

section \<open>The journal holds the evidence\<close>

text \<open>A state whose journal works and has never lost evidence.\<close>

definition journalling :: "observatory \<Rightarrow> bool" where
  "journalling ov \<longleftrightarrow> \<not> ov_journal_failed ov \<and> \<not> ov_truncated ov \<and> \<not> ov_shutdown ov \<and>
     (\<forall>r\<in>set (ov_records ov). wf_observation (ov_limits ov) (or_observation r))"

definition journal_mirrors :: "observatory \<Rightarrow> journal \<Rightarrow> entry list \<Rightarrow> entry list \<Rightarrow> bool" where
  "journal_mirrors ov j dropped kept \<longleftrightarrow> ov_journal ov = Some j \<and>
     jn_options j = journal_options_of (ov_config ov) \<and> journal_log j dropped kept \<and>
     records_in (ov_limits ov) (dropped @ kept) = ov_records ov"

definition mirrored :: "observatory \<Rightarrow> bool" where
  "mirrored ov \<longleftrightarrow> (journalling ov \<longrightarrow> (\<exists>j dropped kept. journal_mirrors ov j dropped kept))"

lemma mirrored_keep:
  assumes "mirrored ov" "ov_journal ov' = ov_journal ov" "ov_journal_failed ov' = ov_journal_failed ov"
    and "ov_truncated ov' = ov_truncated ov" "ov_shutdown ov' = ov_shutdown ov"
    and "ov_records ov' = ov_records ov" "ov_config ov' = ov_config ov"
  shows "mirrored ov'"
  using assms by (simp add: mirrored_def journalling_def journal_mirrors_def)

lemma shutdown_frame [frame_simps]:
  "ov_shutdown (record_rejection ob t c e ov) = ov_shutdown ov"
  "ov_shutdown (record_fenced_claim ob t cl c e ov) = ov_shutdown ov"
  "ov_shutdown (snd (clock_now ov)) = ov_shutdown ov"
  "ov_shutdown (journal_write w ov) = ov_shutdown ov"
  "ov_shutdown (journal_write_unless_failed w ov) = ov_shutdown ov"
  "ov_shutdown (adjust_source i f ov) = ov_shutdown ov"
  "ov_shutdown (evict_evidence ov) = ov_shutdown ov"
  "ov_shutdown (snd (register_source d ov)) = ov_shutdown ov"
  by (simp_all add: record_rejection_def record_fenced_claim_def clock_now_def journal_write_def
      journal_write_unless_failed_def adjust_source_def evict_evidence_def register_source_def Let_def
      split: option.split prod.split sum.split)

lemma claim_fence_shutdown: "claim_fence d ob c ov = (v, ov') \<Longrightarrow> ov_shutdown ov' = ov_shutdown ov"
  by (auto simp: claim_fence_def Let_def split: if_splits option.splits)

text \<open>Writing an entry that fits appends it to the mirror.\<close>

lemma mirrors_write:
  assumes "journal_mirrors ov j dropped kept" "\<not> ov_journal_failed ov"
    and "fits (jo_max_record_bytes (oc_journal (ov_config ov))) (kind, payload)"
  shows "\<exists>j' dropped' kept'. ov_journal (journal_write (write_record kind payload) ov) = Some j' \<and>
    \<not> ov_journal_failed (journal_write (write_record kind payload) ov) \<and>
    jn_options j' = jn_options j \<and> journal_log j' dropped' kept' \<and>
    dropped' @ kept' = (dropped @ kept) @ [(kind, payload)]"
proof -
  have j: "ov_journal ov = Some j" "journal_log j dropped kept"
      "jo_max_record_bytes (jn_options j) = jo_max_record_bytes (oc_journal (ov_config ov))"
    using assms(1) by (simp_all add: journal_mirrors_def journal_options_of_def)
  obtain j' gone rest where "write_record kind payload j = (Inr (), j')" "jn_options j' = jn_options j"
      "kept @ [(kind, payload)] = gone @ rest" "journal_log j' (dropped @ gone) rest"
    using write_record_log[OF j(2)] assms(3) j(3) by metis
  then show ?thesis
    using j(1) assms(2) by (intro exI[of _ j'] exI[of _ "dropped @ gone"] exI[of _ rest])
      (simp add: journal_write_def)
qed

lemma records_in_marker: "kind \<noteq> kind_observation \<Longrightarrow> records_in l [(kind, payload)] = []"
  by (simp add: records_in_def)

lemma mirrored_marker:
  assumes "mirrored ov" "kind \<noteq> kind_observation"
    and "fits (jo_max_record_bytes (oc_journal (ov_config ov))) (kind, payload)"
  shows "mirrored (journal_write_unless_failed (write_record kind payload) ov)"
proof (cases "journalling ov")
  case True
  then obtain j dropped kept where m: "journal_mirrors ov j dropped kept"
    using assms(1) by (auto simp: mirrored_def)
  have ok: "\<not> ov_journal_failed ov" using True by (simp add: journalling_def)
  obtain j' dropped' kept' where w: "ov_journal (journal_write (write_record kind payload) ov) = Some j'"
      "\<not> ov_journal_failed (journal_write (write_record kind payload) ov)" "jn_options j' = jn_options j"
      "journal_log j' dropped' kept'" "dropped' @ kept' = (dropped @ kept) @ [(kind, payload)]"
    using mirrors_write[OF m ok assms(3)] by blast
  have "records_in (ov_limits ov) (dropped' @ kept') = ov_records ov"
    using m unfolding w(5) records_in_simps records_in_marker[OF assms(2)]
    by (simp add: journal_mirrors_def)
  then have "journal_mirrors (journal_write (write_record kind payload) ov) j' dropped' kept'"
    using m w by (simp add: journal_mirrors_def frame_simps)
  then show ?thesis using ok by (auto simp: mirrored_def journal_write_unless_failed_def)
next
  case False
  then have "\<not> journalling (journal_write_unless_failed (write_record kind payload) ov)"
    by (auto simp: journalling_def frame_simps journal_write_unless_failed_def journal_write_def
        split: option.splits prod.splits sum.splits if_splits)
  then show ?thesis by (simp add: mirrored_def)
qed

text \<open>Publishing either counts a skip or journals the marker of what it appends.\<close>

lemma publish_cases:
  obtains (skipped) n where "snd (publish t ov) = ov\<lparr>ov_publications_skipped := n, ov_dirty := False\<rparr>"
  | (appended) m now s n where "sm_id m = sn_id (built_snapshot (build_request_of ov t))"
    and "snd (publish t ov) = (journal_write_unless_failed (append_snapshot_marker m)
      ((snd (clock_now ov))\<lparr>ov_history := history_append (built_snapshot (build_request_of ov t)) now (ov_history ov)\<rparr>))
      \<lparr>ov_published := Some s, ov_dirty := False, ov_snapshots_published := n\<rparr>"
proof (cases "\<exists>p. ov_published ov = Some p \<and> sn_id p = sn_id (built_snapshot (build_request_of ov t))")
  case True
  then show ?thesis by (intro skipped) (auto simp: publish_def Let_def)
next
  case False
  let ?b = "built_snapshot (build_request_of ov t)" and ?now = "fst (clock_now ov)"
  let ?m = "\<lparr>sm_id = sn_id ?b, sm_generation = sn_generation ?b, sm_epoch = sn_epoch ?b,
    sm_published_at = ?now\<rparr>"
  let ?ov = "(snd (clock_now ov))\<lparr>ov_history := history_append ?b ?now (ov_history ov)\<rparr>"
  show ?thesis
    by (rule appended[where m = ?m and now = ?now and s = "set_publication (history_next (ov_history ov)) ?now ?b"
          and n = "ov_snapshots_published (journal_write_unless_failed (append_snapshot_marker ?m) ?ov) + 1"])
       (use False in \<open>auto simp: publish_def clock_now_def Let_def split: option.split\<close>)
qed

lemma mirrored_publish:
  assumes "mirrored ov" "journal_room (oc_journal (ov_config ov))"
  shows "mirrored (snd (publish t ov))"
proof -
  have id: "length (sn_id (built_snapshot rq)) = 32" for rq
    by (simp add: built_snapshot_def Let_def recompute_digest_def)
  show ?thesis
  proof (cases rule: publish_cases[of t ov])
    case (skipped n)
    show ?thesis unfolding skipped by (rule mirrored_keep[OF assms(1)]) simp_all
  next
    case (appended m now s n)
    let ?ov = "(snd (clock_now ov))\<lparr>ov_history :=
      history_append (built_snapshot (build_request_of ov t)) now (ov_history ov)\<rparr>"
    have base: "mirrored ?ov"
      by (rule mirrored_keep[OF assms(1)]) (simp_all add: frame_simps)
    have "fits (jo_max_record_bytes (oc_journal (ov_config ?ov))) (kind_snapshot_marker, encode_snapshot_marker m)"
      using marker_fits(2)[OF assms(2), of m] id appended(1) by (simp add: frame_simps)
    from mirrored_marker[OF base _ this]
    have "mirrored (journal_write_unless_failed (append_snapshot_marker m) ?ov)"
      by (simp add: append_snapshot_marker_def[abs_def])
    then show ?thesis unfolding appended(2) by (rule mirrored_keep) simp_all
  qed
qed

text \<open>Acceptance journals the record before it stores it.\<close>

lemma mirrored_accept:
  assumes "mirrored ov" "journal_room (oc_journal (ov_config ov))" "wf_limits (ov_limits ov)"
  shows "mirrored (accept_observation ob t st ov)"
proof -
  let ?r = "accepted_record ob t (ov_restart_epoch ov)" and ?acc = "accept_observation ob t st ov"
  let ?w = "journal_write (journal_append ?r) ov"
  have after: "ov_journal ?acc = ov_journal (journal_write_unless_failed (journal_append ?r) ov)"
    "ov_journal_failed ?acc = ov_journal_failed (journal_write_unless_failed (journal_append ?r) ov)"
    "ov_shutdown ?acc = ov_shutdown ov" "ov_config ?acc = ov_config ov"
    by (simp_all add: accept_observation_def Let_def frame_simps store_record_def note_incarnation_def
        accepted_record_def)
  have stored: "\<not> ov_truncated ?acc \<Longrightarrow> \<not> ov_truncated ov \<and> ov_records ?acc = ov_records ov @ [?r]"
    by (auto simp: accept_observation_def Let_def frame_simps store_record_def note_incarnation_def
        evict_evidence_def accepted_record_def split: if_splits)
  show ?thesis
    unfolding mirrored_def
  proof
    assume now: "journalling ?acc"
    have live: "\<not> ov_journal_failed ov"
      using now by (auto simp: journalling_def after journal_write_unless_failed_def split: if_splits)
    have recs: "ov_records ?acc = ov_records ov @ [?r]" "\<not> ov_truncated ov"
      using now stored by (simp_all add: journalling_def)
    have "journalling ov"
      using now live recs by (simp add: journalling_def after)
    then obtain j dropped kept where m: "journal_mirrors ov j dropped kept"
      using assms(1) by (auto simp: mirrored_def)
    have wf: "wf_observation (ov_limits ov) ob"
      using now recs(1) by (simp add: journalling_def after accepted_record_def)
    have j: "ov_journal ov = Some j" using m by (simp add: journal_mirrors_def)
    let ?e = "(kind_observation, encode_observation_record ?r)"
    show "\<exists>j dropped kept. journal_mirrors ?acc j dropped kept"
    proof (cases "length (encode_observation_record ?r) > unat (jo_max_record_bytes (jn_options j))")
      case True
      then have "ov_journal_failed ?w"
        using j by (auto simp: journal_write_def journal_append_def write_record_def err_def)
      then show ?thesis using now live by (simp add: journalling_def after journal_write_unless_failed_def)
    next
      case False
      have "jo_max_record_bytes (jn_options j) = jo_max_record_bytes (oc_journal (ov_config ov))"
        using m by (simp add: journal_mirrors_def journal_options_of_def)
      then have "fits (jo_max_record_bytes (oc_journal (ov_config ov))) ?e"
        using False assms(2) encode_observation_record_nonempty by (simp add: fits_def journal_room_def)
      then obtain j' dropped' kept' where w: "ov_journal ?w = Some j'" "\<not> ov_journal_failed ?w"
          "jn_options j' = jn_options j" "journal_log j' dropped' kept'"
          "dropped' @ kept' = (dropped @ kept) @ [?e]"
        using mirrors_write[OF m live, of kind_observation "encode_observation_record ?r"]
        by (auto simp: journal_append_def[abs_def])
      have "records_in (ov_limits ov) [?e] = [?r]"
        using observation_record_read[OF assms(3), of ?r] wf by (simp add: records_in_def accepted_record_def)
      then have "records_in (ov_limits ov) (dropped' @ kept') = ov_records ov @ [?r]"
        using m unfolding w(5) records_in_simps by (simp add: journal_mirrors_def)
      then have "journal_mirrors ?acc j' dropped' kept'"
        using m w live recs(1) by (simp add: journal_mirrors_def after journal_write_unless_failed_def)
      then show ?thesis by blast
    qed
  qed
qed

text \<open>A journal in service stays in service while what is written to it fits.\<close>

lemma marker_live:
  assumes "mirrored ov" "journalling ov"
    and "fits (jo_max_record_bytes (oc_journal (ov_config ov))) (kind, payload)"
  shows "journalling (journal_write_unless_failed (write_record kind payload) ov)"
proof -
  obtain j dropped kept where m: "journal_mirrors ov j dropped kept"
    using assms(1,2) by (auto simp: mirrored_def)
  have ok: "\<not> ov_journal_failed ov" using assms(2) by (simp add: journalling_def)
  then show ?thesis
    using mirrors_write[OF m ok assms(3)] assms(2)
    by (auto simp: journalling_def journal_write_unless_failed_def frame_simps)
qed

lemma publish_live:
  assumes "mirrored ov" "journalling ov" "journal_room (oc_journal (ov_config ov))"
  shows "journalling (snd (publish t ov))"
proof (cases rule: publish_cases[of t ov])
  case (skipped n)
  show ?thesis using assms(2) unfolding skipped by (simp add: journalling_def)
next
  case (appended m now s n)
  let ?ov = "(snd (clock_now ov))\<lparr>ov_history :=
    history_append (built_snapshot (build_request_of ov t)) now (ov_history ov)\<rparr>"
  have "length (sm_id m) = 32"
    unfolding appended(1) by (simp add: built_snapshot_def Let_def recompute_digest_def)
  then have "fits (jo_max_record_bytes (oc_journal (ov_config ?ov))) (kind_snapshot_marker, encode_snapshot_marker m)"
    using marker_fits(2)[OF assms(3)] by (simp add: frame_simps)
  moreover have "mirrored ?ov" by (rule mirrored_keep[OF assms(1)]) (simp_all add: frame_simps)
  moreover have "journalling ?ov" using assms(2) by (simp add: journalling_def frame_simps)
  ultimately have "journalling (journal_write_unless_failed (append_snapshot_marker m) ?ov)"
    unfolding append_snapshot_marker_def[abs_def] using marker_live by blast
  then show ?thesis unfolding appended(2) by (simp add: journalling_def)
qed

lemma accept_live:
  assumes "mirrored ov" "journalling ov" "journal_room (oc_journal (ov_config ov))"
    and "length (ov_records ov) < unat (max_evidence_records (ov_limits ov))"
    and "wf_observation (ov_limits ov) ob"
    and "length (encode_observation_record (accepted_record ob t (ov_restart_epoch ov)))
      \<le> unat (jo_max_record_bytes (oc_journal (ov_config ov)))"
  shows "journalling (accept_observation ob t st ov)"
proof -
  let ?r = "accepted_record ob t (ov_restart_epoch ov)"
  let ?w = "journal_write_unless_failed (journal_append ?r) ov"
  have "fits (jo_max_record_bytes (oc_journal (ov_config ov))) (kind_observation, encode_observation_record ?r)"
    using assms(3,6) encode_observation_record_nonempty by (simp add: fits_def journal_room_def)
  from marker_live[OF assms(1,2) this] have "journalling ?w"
    by (simp add: journal_append_def[abs_def])
  then show ?thesis
    using assms(4,5)
    by (auto simp: journalling_def accept_observation_def Let_def frame_simps store_record_def
        note_incarnation_def evict_evidence_def accepted_record_def)
qed

lemma action_config: "runtime_action ov ov' \<Longrightarrow> ov_config ov' = ov_config ov"
proof (induction rule: runtime_action.induct)
  case (act_claim d ob c ov verdict ov')
  then show ?case using claim_fence_same by (simp add: same_admission_def)
next
  case (act_accept ov ob st t)
  then show ?case by (simp add: accept_observation_def Let_def frame_simps store_record_def note_incarnation_def)
qed (simp_all add: frame_simps shutdown_def)

lemma action_mirrored:
  "runtime_action ov ov' \<Longrightarrow> journal_room (oc_journal (ov_config ov)) \<Longrightarrow> wf_limits (ov_limits ov) \<Longrightarrow>
     mirrored ov \<Longrightarrow> mirrored ov'"
proof (induction rule: runtime_action.induct)
  case (act_publish ov t)
  then show ?case by (intro mirrored_publish)
next
  case (act_claim d ob c ov verdict ov')
  show ?case
    using claim_fence_same[OF act_claim(1)] claim_fence_shutdown[OF act_claim(1)]
    by (intro mirrored_keep[OF act_claim(4)]) (simp_all add: same_admission_def)
next
  case (act_accept ov ob st t)
  then show ?case by (intro mirrored_accept)
next
  case (act_shutdown ov)
  show ?case
    using act_shutdown(3) by (auto simp: shutdown_def mirrored_def journalling_def)
qed (erule mirrored_keep; simp add: frame_simps)+

lemma actions_mirrored:
  assumes "runtime_actions ov ov'" "journal_room (oc_journal (ov_config ov))" "wf_limits (ov_limits ov)"
    and "mirrored ov"
  shows "mirrored ov' \<and> ov_config ov' = ov_config ov"
  using assms(1)
proof (induction rule: rtranclp_induct)
  case base
  then show ?case using assms(4) by simp
next
  case (step y z)
  then show ?case using action_mirrored[OF step(2)] action_config[OF step(2)] assms(2,3) by simp
qed

section \<open>The first start\<close>

lemma open_fresh_recovered:
  assumes "journal_open path opts Map.empty [] = (Inr (), j)"
  shows "jn_recovered_records j = []"
proof -
  have "part_list ((new_journal opts Map.empty [])\<lparr>jn_recovery := empty_report\<rparr>) = []"
    by (simp add: part_list_def new_journal_def)
  then have recover: "recover (new_journal opts Map.empty []) =
      (Inr (), (new_journal opts Map.empty [])\<lparr>jn_recovery := empty_report, jn_chain_initialised := False\<rparr>)"
    by (simp add: recover_def)
  have "header_bytes f c \<noteq> []" for f c by (simp add: header_bytes_def header_prefix_def journal_magic_def)
  then show ?thesis
    using assms
    by (auto simp: journal_open_def recover[unfolded new_journal_def] open_file_def open_truncate_def
        next_outcome_def write_header_def write_all_ok append_active_def active_bytes_def new_journal_def
        Let_def split: if_splits)
qed

text \<open>The state a runtime starts in once its journal is open.\<close>

definition started :: "journal \<Rightarrow> observatory_config \<Rightarrow> (nat \<Rightarrow> time_point) \<Rightarrow> observatory" where
  "started j cfg clock =
     (let ov2 = recovered_state j (new_observatory cfg clock);
          ov1 = journal_write (append_restart_marker (ov_restart_epoch ov2) (ov_restart_count ov2)
            (fst (clock_now ov2))) (snd (clock_now ov2))
      in snd (publish (fst (clock_now ov1)) (snd (clock_now ov1))))"

lemma open_with_journal:
  assumes "oc_journal_path cfg \<noteq> []"
  shows "observatory_open cfg clock d faults = Inr ov \<longleftrightarrow>
    \<not> id_is_nil (oc_fabric cfg) \<and> policy_validate (oc_policy cfg) = Inr () \<and>
    (\<exists>j. journal_open (oc_journal_path cfg) (journal_options_of cfg) d faults = (Inr (), j) \<and>
       ov = started j cfg clock)"
proof -
  obtain r j where o: "journal_open (oc_journal_path cfg) (journal_options_of cfg) d faults = (r, j)"
    by fastforce
  have cfg: "ov_config (new_observatory cfg clock) = cfg" by (simp add: new_observatory_def)
  have "attach_journal d faults (new_observatory cfg clock) =
    (case r of Inl e \<Rightarrow> Inl e | Inr _ \<Rightarrow> (let ov2 = recovered_state j (new_observatory cfg clock)
          in Inr (journal_write (append_restart_marker (ov_restart_epoch ov2) (ov_restart_count ov2)
            (fst (clock_now ov2))) (snd (clock_now ov2)))))"
    unfolding attach_journal_eq cfg o by (simp split: sum.split)
  then show ?thesis
    unfolding observatory_open_def o using assms
    by (cases r) (auto simp: rbind_Inr_iff started_def Let_def case_prod_beta)
qed

lemma mirrored_first_start:
  assumes "observatory_open cfg clock Map.empty [] = Inr ov" "oc_journal_path cfg \<noteq> []"
    and "journal_room (oc_journal cfg)"
  shows "mirrored ov \<and> journalling ov \<and> ov_config ov = cfg \<and> ov_records ov = []"
proof -
  let ?new = "new_observatory cfg clock"
  have cfg: "ov_config ?new = cfg" by (simp add: new_observatory_def)
  obtain j where j: "journal_open (oc_journal_path cfg) (journal_options_of cfg) Map.empty [] = (Inr (), j)"
    and ov: "ov = started j cfg clock"
    using assms(1) unfolding open_with_journal[OF assms(2)] by blast
  let ?two = "snd (clock_now (recovered_state j ?new))"
  have two: "ov_journal ?two = Some j" "ov_config ?two = cfg" "ov_records ?two = []"
    "\<not> ov_journal_failed ?two" "\<not> ov_truncated ?two" "\<not> ov_shutdown ?two"
    by (simp_all add: recovered_state_def open_fresh_recovered[OF j] frame_simps)
       (simp_all add: new_observatory_def)
  obtain mark where mark: "mark = append_restart_marker (ov_restart_epoch (recovered_state j ?new))
      (ov_restart_count (recovered_state j ?new)) (fst (clock_now (recovered_state j ?new)))" by blast
  have live: "journalling ?two" using two by (simp add: journalling_def)
  have "mirrored ?two"
    using open_fresh[OF j] two
    by (auto simp: mirrored_def journal_mirrors_def intro!: exI[of _ j] exI[of _ "[]"])
  moreover have "fits (jo_max_record_bytes (oc_journal (ov_config ?two)))
      (kind_restart_marker, encode_restart_marker e n t)" for e n t
    using marker_fits(1)[OF assms(3)] by (simp add: two)
  ultimately have "mirrored (journal_write_unless_failed mark ?two)"
      "journalling (journal_write_unless_failed mark ?two)"
    unfolding mark append_restart_marker_def[abs_def]
    using mirrored_marker[of ?two] marker_live[of ?two] live by simp_all
  then have marked: "mirrored (journal_write mark ?two)" "journalling (journal_write mark ?two)"
    using two(4) by (simp_all add: journal_write_unless_failed_def)
  let ?one = "snd (clock_now (journal_write mark ?two))"
  have one: "mirrored ?one" "journalling ?one" "ov_config ?one = cfg" "ov_records ?one = []"
    using marked two(2,3) mirrored_keep[OF marked(1), of ?one]
    by (simp_all add: frame_simps journalling_def)
  have "ov = snd (publish (fst (clock_now (journal_write mark ?two))) ?one)"
    unfolding ov started_def Let_def mark ..
  then show ?thesis
    using mirrored_publish[OF one(1)] publish_live[OF one(1,2)] one(3,4) assms(3)
    by (simp add: frame_simps)
qed

section \<open>The restart\<close>

lemma journal_open_options:
  "journal_open path opts d faults = (Inr (), j) \<Longrightarrow> path \<noteq> [] \<and> journal_options_ok opts"
  by (auto simp: journal_open_def journal_options_ok_def Let_def split: if_splits)

lemma active_bytes_long:
  assumes "journal_log j dropped kept"
  shows "journal_header_bytes \<le> length (active_bytes j)"
proof -
  obtain c M es where h: "journal_holds c M es j" using assms by (auto simp: journal_log_def)
  then have "length (chain_end c M) = 32" by (simp add: journal_holds_def length_chain_end)
  then show ?thesis
    using h by (simp add: journal_holds_def active_bytes_def part_bytes_def)
qed

text \<open>Opening the disk of a stopped journal, with a torn record behind its last one.\<close>

lemma journal_reopen:
  assumes "journal_log j dropped kept" "opts = jn_options j" "path \<noteq> []" "journal_options_ok opts"
    and "torn_tail (jo_max_record_bytes opts) (jn_chain j) tail"
    and "length (records_in (jo_limits opts) kept) \<le> unat (jo_max_recovered_observations opts)"
    and "length (active_bytes j @ tail) < 2 ^ 64"
  shows "\<exists>j'. journal_open path opts ((jn_disk j)(0 \<mapsto> active_bytes j @ tail)) [] = (Inr (), j') \<and>
    jn_recovered_records j' = records_in (jo_limits opts) kept"
proof -
  let ?d = "(jn_disk j)(0 \<mapsto> active_bytes j @ tail)"
  obtain j' where r: "recover (new_journal opts ?d []) = (Inr (), j')"
      "jn_recovered_records j' = records_in (jo_limits opts) kept" "jn_faults j' = []" "jn_disk j' = ?d"
    using recover_torn[OF assms(1,2,5,6), of "[]"] by blast
  have "\<not> (of_nat (length (active_bytes j @ tail)) :: 64 word) < of_nat journal_header_bytes"
    using active_bytes_long[OF assms(1)] assms(7)
    by (simp add: word_less_nat_alt unat_of_nat journal_header_bytes_def del: of_nat_add)
  then have "\<exists>j''. open_file False j' = (Inr (), j'') \<and> jn_recovered_records j'' = jn_recovered_records j'"
    using r by (simp add: open_file_def open_append_def next_outcome_def active_bytes_def)
  then show ?thesis
    using assms(3,4) r by (auto simp: journal_open_def journal_options_ok_def Let_def not_less)
qed

text \<open>What recovery leaves in the evidence store.\<close>

lemma restore_fold:
  "ov_records (fold restore_record rs ov) = ov_records ov @ map (mark_recovered (ov_restart_epoch ov)) rs \<and>
     ov_restart_epoch (fold restore_record rs ov) = ov_restart_epoch ov"
  by (induction rs arbitrary: ov) (simp_all add: restore_record_def Let_def)

lemma rebuild_fold:
  "ov_records (fold rebuild_source rs ov) = ov_records ov \<and>
     ov_restart_epoch (fold rebuild_source rs ov) = ov_restart_epoch ov"
  by (induction rs arbitrary: ov) (simp_all add: rebuild_source_def Let_def)

lemma started_records:
  assumes "oc_recover_on_open cfg"
  shows "ov_records (started j cfg clock) =
      map (mark_recovered (ov_restart_epoch (started j cfg clock))) (jn_recovered_records j)"
proof -
  have "ov_records (recovered_state j (new_observatory cfg clock)) =
      map (mark_recovered (ov_restart_epoch (recovered_state j (new_observatory cfg clock)))) (jn_recovered_records j)"
    using assms restore_fold rebuild_fold
    by (simp add: recovered_state_def recover_evidence_def new_observatory_def Let_def)
  then show ?thesis by (simp add: started_def Let_def frame_simps)
qed

lemma reopened_state:
  assumes start: "observatory_open cfg clock Map.empty [] = Inr ov0"
    and path: "oc_journal_path cfg \<noteq> []"
    and room: "journal_room (oc_journal cfg)" and lim: "wf_limits (p_limits (oc_policy cfg))"
    and rec: "oc_recover_on_open cfg"
    and reach: "runtime_reaches ov0 ov"
    and live: "journalling ov" and j: "ov_journal ov = Some j"
    and torn: "torn_tail (jo_max_record_bytes (oc_journal cfg)) (jn_chain j) tail"
    and few: "length (ov_records ov) \<le> unat (jo_max_recovered_observations (oc_journal cfg))"
    and short: "length (active_bytes j @ tail) < 2 ^ 64"
  shows "\<exists>dropped kept ov'. ov_records ov = dropped @ kept \<and>
    ((\<exists>k < unat (jo_max_files (oc_journal cfg)). jn_disk j k = None) \<longrightarrow> dropped = []) \<and>
    observatory_open cfg clock' ((jn_disk j)(0 \<mapsto> active_bytes j @ tail)) [] = Inr ov' \<and>
    ov_records ov' = map (mark_recovered (ov_restart_epoch ov')) kept"
proof -
  let ?opts = "journal_options_of cfg"
  have first: "mirrored ov0" "ov_config ov0 = cfg"
    using mirrored_first_start[OF start path room] by simp_all
  have "mirrored ov \<and> ov_config ov = ov_config ov0"
    using actions_mirrored[OF reaches_actions[OF reach]] first room lim by simp
  then have m: "mirrored ov" and cfg: "ov_config ov = cfg" using first(2) by simp_all
  obtain gone rest where jm: "journal_mirrors ov j gone rest"
    using m live j unfolding mirrored_def journal_mirrors_def by auto
  have jo: "jn_options j = ?opts" and log: "journal_log j gone rest"
    and split: "records_in (p_limits (oc_policy cfg)) gone @ records_in (p_limits (oc_policy cfg)) rest = ov_records ov"
    using jm by (simp_all add: journal_mirrors_def cfg)
  obtain j0 where "journal_open (oc_journal_path cfg) ?opts Map.empty [] = (Inr (), j0)"
    using start unfolding open_with_journal[OF path] by blast
  then have ok: "journal_options_ok ?opts" by (rule journal_open_options[THEN conjunct2])
  have fabric: "\<not> id_is_nil (oc_fabric cfg)" "policy_validate (oc_policy cfg) = Inr ()"
    using start unfolding open_with_journal[OF path] by blast+
  have opts: "jo_limits ?opts = p_limits (oc_policy cfg)"
      "jo_max_record_bytes ?opts = jo_max_record_bytes (oc_journal cfg)"
      "jo_max_recovered_observations ?opts = jo_max_recovered_observations (oc_journal cfg)"
      "jo_max_files ?opts = jo_max_files (oc_journal cfg)"
    by (simp_all add: journal_options_of_def)
  have "length (records_in (jo_limits ?opts) rest) \<le> unat (jo_max_recovered_observations ?opts)"
    using few arg_cong[OF split, of length] by (simp add: opts)
  then obtain j' where j': "journal_open (oc_journal_path cfg) ?opts ((jn_disk j)(0 \<mapsto> active_bytes j @ tail)) [] = (Inr (), j')"
      "jn_recovered_records j' = records_in (p_limits (oc_policy cfg)) rest"
    using journal_reopen[OF log jo[symmetric] path ok _ _ short] torn by (auto simp: opts)
  have unused: "gone = []" if "k < unat (jo_max_files (oc_journal cfg))" "jn_disk j k = None" for k
    using journal_log_unused[OF log] that by (simp add: jo opts)
  have "observatory_open cfg clock' ((jn_disk j)(0 \<mapsto> active_bytes j @ tail)) [] = Inr (started j' cfg clock')"
    unfolding open_with_journal[OF path] using fabric j'(1) by blast
  moreover have "ov_records (started j' cfg clock') =
      map (mark_recovered (ov_restart_epoch (started j' cfg clock'))) (records_in (p_limits (oc_policy cfg)) rest)"
    using started_records[OF rec, of j' clock'] j'(2) by simp
  ultimately show ?thesis
    using split unused
    by (intro exI[of _ "records_in (p_limits (oc_policy cfg)) gone"]
        exI[of _ "records_in (p_limits (oc_policy cfg)) rest"] exI[of _ "started j' cfg clock'"]) auto
qed

text \<open>A fresh start after a restart knows nothing unless the policy lets recovered evidence count.\<close>

lemma recovered_never_known:
  assumes "snapshot_build rq = Some s" "policy_validate (rq_policy rq) = Inr ()"
    and "\<not> allow_recovered_as_fresh (p_freshness (rq_policy rq))"
    and "\<forall>r\<in>set (rq_records rq). or_recovered r"
    and "t \<in> set (sn_subjects s)" "a \<in> set (sb_aspects t)"
  shows "as_truth a \<noteq> TS_Known"
proof
  assume "as_truth a = TS_Known"
  then obtain v where card: "unat (min_distinct_fresh_sources (coverage_for (p_truth (rq_policy rq)) (aspect_value (as_aspect a))))
      \<le> card {ob_source (or_observation r) | r. \<exists>cl. backs rq (su_id (sb_identity t)) (as_aspect a) v r cl}"
    by (rule known_backed[OF assms(1,5,6)])
  have "{ob_source (or_observation r) | r. \<exists>cl. backs rq (su_id (sb_identity t)) (as_aspect a) v r cl} = {}"
    using assms(3,4) by (auto simp: backs_def)
  moreover have "truth_policy_validate (p_truth (rq_policy rq)) = Inr ()"
    using assms(2) by (simp add: policy_validate_def Let_def split: if_splits)
  ultimately show False
    using card coverage_for_positive by (simp add: unat_eq_zero)
qed

lemma started_published:
  "\<exists>rq i t. ov_published (started j cfg clock) = Some (set_publication i t (built_snapshot rq)) \<and>
     rq_fabric rq = oc_fabric cfg \<and> rq_policy rq = oc_policy cfg \<and>
     rq_records rq = ov_records (started j cfg clock)"
proof -
  obtain ov2 where ov2: "ov2 = recovered_state j (new_observatory cfg clock)" by blast
  obtain ov1 where ov1: "ov1 = journal_write (append_restart_marker (ov_restart_epoch ov2)
      (ov_restart_count ov2) (fst (clock_now ov2))) (snd (clock_now ov2))" by blast
  have "ov_published (fold restore_record rs ov) = ov_published ov \<and>
      ov_config (fold restore_record rs ov) = ov_config ov" for rs ov
    by (induction rs arbitrary: ov) (simp_all add: restore_record_def Let_def)
  moreover have "ov_published (fold rebuild_source rs ov) = ov_published ov \<and>
      ov_config (fold rebuild_source rs ov) = ov_config ov" for rs ov
    by (induction rs arbitrary: ov) (simp_all add: rebuild_source_def Let_def)
  ultimately have "ov_published ov2 = None \<and> ov_config ov2 = cfg"
    by (simp add: ov2 recovered_state_def recover_evidence_def new_observatory_def Let_def)
  then have pub: "ov_published (snd (clock_now ov1)) = None" "ov_config (snd (clock_now ov1)) = cfg"
    by (simp_all add: ov1 journal_write_def clock_now_def split: option.split prod.split sum.split)
  let ?ov = "snd (clock_now ov1)"
  let ?rq = "build_request_of ?ov (fst (clock_now ov1))"
  have "started j cfg clock = snd (publish (fst (clock_now ov1)) ?ov)"
    by (simp add: started_def Let_def ov2 ov1)
  moreover have "ov_published (snd (publish (fst (clock_now ov1)) ?ov)) =
      Some (set_publication (history_next (ov_history ?ov)) (fst (clock_now ?ov)) (built_snapshot ?rq))"
    using pub(1) by (simp add: publish_def clock_now_def Let_def)
  moreover have "ov_records (snd (publish t ov)) = ov_records ov" for t ov by (simp add: frame_simps)
  ultimately show ?thesis
    using pub(2) by (intro exI[of _ ?rq] exI[of _ "history_next (ov_history ?ov)"]
      exI[of _ "fst (clock_now ?ov)"]) (simp add: build_request_of_def)
qed

text \<open>Whatever the disk holds, the snapshot published at opening states nothing as known.\<close>

lemma reopened_knows_nothing:
  assumes "observatory_open cfg clock d faults = Inr ov" "oc_journal_path cfg \<noteq> []"
    and "oc_recover_on_open cfg" "\<not> allow_recovered_as_fresh (p_freshness (oc_policy cfg))"
  shows "\<exists>s. ov_published ov = Some s \<and>
    (\<forall>t\<in>set (sn_subjects s). \<forall>a\<in>set (sb_aspects t). as_truth a \<noteq> TS_Known)"
proof -
  obtain j where ov: "ov = started j cfg clock"
    and fabric: "\<not> id_is_nil (oc_fabric cfg)" and valid: "policy_validate (oc_policy cfg) = Inr ()"
    using assms(1) unfolding open_with_journal[OF assms(2)] by blast
  obtain rq i t where rq: "ov_published ov = Some (set_publication i t (built_snapshot rq))"
      "rq_fabric rq = oc_fabric cfg" "rq_policy rq = oc_policy cfg" "rq_records rq = ov_records ov"
    unfolding ov using started_published by blast
  have built: "snapshot_build rq = Some (built_snapshot rq)"
    using fabric rq(2) by (simp add: snapshot_build_def built_snapshot_def Let_def)
  have "\<forall>r\<in>set (rq_records rq). or_recovered r"
    unfolding rq(4) ov started_records[OF assms(3)] by (auto simp: mark_recovered_def)
  then show ?thesis
    using recovered_never_known[OF built] rq assms(4) valid
    by (simp add: set_publication_def)
qed

end
