(* ===== verification/Fab_Samples.thy ===== *)
theory Fab_Samples
  imports Fab_Snapshot
begin

text \<open>
  Concrete data at which the properties are applied: one source reports the operational
  health of one device under the default policy. Digests are never evaluated: at most one
  record is retained, so no two digests are compared.
\<close>

definition sample_source :: source_id where
  "sample_source = BasicId (Uint128 0 7)"

definition sample_subject :: subject_identity where
  "sample_subject = subject_default\<lparr>su_kind := EK_Device, su_id := EntityId (Uint128 0 5)\<rparr>"

definition sample_aspect :: aspect_id where
  "sample_aspect = AspectId ''operational.health'' D_OperationalState"

definition sample_claim :: claim where
  "sample_claim = \<lparr>cl_subject = sample_subject, cl_aspect = sample_aspect, cl_value = VText ''ok'',
     cl_supported = True, cl_revision = 0\<rparr>"

definition sample_observation :: observation where
  "sample_observation = \<lparr>ob_schema = ''v1'', ob_fabric = BasicId (Uint128 0 1),
     ob_source = sample_source, ob_incarnation = BasicId (Uint128 0 9), ob_sequence = 1,
     ob_generation = 3, ob_epoch = 2, ob_observed_at = TimePoint 1000, ob_claims = [sample_claim],
     ob_causal = [], ob_metadata = []\<rparr>"

definition sample_record :: observation_record where
  "sample_record = \<lparr>or_observation = sample_observation, or_received_at = TimePoint 2000,
     or_recovered = False, or_recovery_epoch = 0\<rparr>"

definition sample_request :: build_request where
  "sample_request = \<lparr>rq_fabric = BasicId (Uint128 0 1), rq_policy = default_policy,
     rq_evaluation_time = TimePoint 5000, rq_restart_epoch = 0, rq_restart_count = 0,
     rq_records = [sample_record], rq_rejected = [], rq_fenced_claims = [], rq_sources = [],
     rq_evidence_truncated = False\<rparr>"

definition sample_claim_record :: claim_record where
  "sample_claim_record = make_claim_record sample_request sample_record sample_claim"

definition sample_aspect_state :: aspect_state where
  "sample_aspect_state = build_aspect default_policy (sample_aspect, [sample_claim_record])"

definition sample_subject_state :: subject_state where
  "sample_subject_state = \<lparr>sb_identity = sample_subject, sb_parent = None,
     sb_topology_truth = TS_Unknown, sb_worst_truth = TS_Known, sb_aspects = [sample_aspect_state]\<rparr>"

definition sample_snapshot :: snapshot where
  "sample_snapshot = (let s = build_body sample_request in s\<lparr>sn_id := recompute_digest s\<rparr>)"

lemmas sample_data = sample_source_def sample_subject_def sample_aspect_def sample_claim_def
  sample_observation_def sample_record_def sample_request_def

lemmas default_values = default_policy_def default_limits_def default_value_limits_def

lemma sample_order: "canonical_order (rq_records sample_request) = [sample_record]"
  by (simp add: canonical_order_def sample_request_def)

lemma sample_freshness:
  "evaluate_freshness (TimePoint 1000) (TimePoint 5000) (p_freshness default_policy) False = FV_Fresh"
  by (simp add: evaluate_freshness_def saturating_difference_def default_policy_def
      less_eq_time_point_def less_eq_duration_def word_sle_eq i64_max_def)

lemma sample_claim_record_fields [simp]:
  "is_assertive sample_claim_record" "is_current sample_claim_record"
  "rc_value sample_claim_record = VText ''ok''" "rc_source sample_claim_record = sample_source"
  "rc_incarnation sample_claim_record = BasicId (Uint128 0 9)"
  "rc_authority sample_claim_record = SA_Reported" "rc_supported sample_claim_record"
  "\<not> superseded_by_later_sequence sample_claim_record"
  "rc_sequence sample_claim_record = 1"
  using sample_order
  by (simp_all add: sample_claim_record_def make_claim_record_def is_assertive_def is_current_def
      Let_def evidence_reference_time_def less_time_point_def sample_freshness
      high_generation_def current_epoch_def current_incarnations_def update_cursor_def
      record_cursor_def cursor_newer_def fence_table_def declared_authority_def sample_data)
    (simp_all add: default_policy_def)

lemma sample_superseded:
  "mark_superseded [sample_claim_record] = [sample_claim_record]"
  by (simp add: mark_superseded_def latest_claims_def note_latest_def)

lemma sample_coverage:
  "coverage_for (p_truth default_policy) ''operational.health'' =
     \<lparr>min_distinct_fresh_sources = 1, required_authority = SA_None\<rparr>"
  by (simp add: coverage_for_def default_policy_def find_aspect_descriptor_def
      well_known_aspects_def)

lemma sample_evaluation:
  "evaluate_truth sample_aspect [sample_claim_record] (p_truth default_policy) =
     \<lparr>te_truth = TS_Known, te_agreed_value = Some (VText ''ok''), te_conflicts = [],
      te_coverage = \<lparr>distinct_fresh_sources = 1, required_distinct_fresh_sources = 1,
        best_fresh_authority = SA_Reported, cv_required_authority = SA_None, cv_satisfied = True\<rparr>\<rparr>"
  by (simp add: evaluate_truth_def sample_aspect_def sample_coverage source_set_def
      best_authority_def value_groups_def add_to_group_def om_put.simps Let_def
      less_source_authority_def less_eq_source_authority_def authority_number_def
      authority_names_def index_of.simps)

lemma default_bounds:
  "max_claims_per_subject_aspect (p_limits default_policy) = 32"
  "max_subjects (p_limits default_policy) = 1048576"
  by (simp_all add: default_policy_def default_limits_def)

lemma sample_aspect_facts [simp]:
  "as_truth sample_aspect_state = TS_Known" "as_claims sample_aspect_state = [sample_claim_record]"
  "as_agreed_value sample_aspect_state = Some (VText ''ok'')" "as_aspect sample_aspect_state = sample_aspect"
  by (simp_all add: sample_aspect_state_def build_aspect_def sample_superseded bound_claims_def
      sample_evaluation default_bounds Let_def)

lemma sample_buckets:
  "collect_buckets sample_request =
     ([(EntityId (Uint128 0 5), \<lparr>bk_identity = sample_subject,
        bk_aspects = [(sample_aspect, [sample_claim_record])]\<rparr>)], False)"
  using sample_order
  by (simp add: collect_buckets_def add_record_def add_claim_def store_claim_def sample_data
      default_policy_def default_limits_def working_set_cap_def sample_claim_record_def Let_def)

lemma sample_subject_built:
  "build_subject default_policy \<lparr>bk_identity = sample_subject,
     bk_aspects = [(sample_aspect, [sample_claim_record])]\<rparr> = sample_subject_state"
  by (simp add: build_subject_def sample_aspect_state_def[symmetric] note_aspect_def parent_of_def
      sample_subject_state_def Let_def)
     (simp add: sample_aspect_def)

lemma sample_subjects: "sn_subjects (build_body sample_request) = [sample_subject_state]"
  by (simp add: build_body_def sample_buckets Let_def sample_subject_built)
     (simp add: sample_request_def sample_subject_built)

lemma sample_build: "snapshot_build sample_request = Some sample_snapshot"
  by (simp add: snapshot_build_def sample_snapshot_def Let_def)
     (simp add: sample_request_def id_is_nil_def u128_is_zero_def)

lemma sample_snapshot_subjects [simp]: "sn_subjects sample_snapshot = [sample_subject_state]"
  using sample_subjects by (simp add: sample_snapshot_def Let_def)

lemma sample_members [simp]:
  "sample_subject_state \<in> set (sn_subjects sample_snapshot)"
  "sample_aspect_state \<in> set (sb_aspects sample_subject_state)"
  "sample_claim_record \<in> set (as_claims sample_aspect_state)"
  by (simp_all add: sample_subject_state_def)

section \<open>Other samples\<close>

definition sample_rejection :: "source_sequence \<Rightarrow> rejected_observation" where
  "sample_rejection n = \<lparr>rj_observation_id = replicate 32 0, rj_source = sample_source,
     rj_incarnation = BasicId (Uint128 0 9), rj_sequence = n, rj_generation = 3, rj_epoch = 2,
     rj_received_at = TimePoint 2000, rj_fence = SC_FencedSequence, rj_explanation = ''replay''\<rparr>"

definition plain_observation :: observation where
  "plain_observation = sample_observation\<lparr>ob_claims := []\<rparr>"

lemma plain_observation_wf: "wf_observation default_limits plain_observation"
  by (simp add: wf_observation_def plain_observation_def sample_observation_def canonicalize_def
      observation_validate_def metadata_make_def default_limits_def id_is_nil_def
      u128_is_zero_def sample_source_def)

definition sample_cause :: "byte \<Rightarrow> causal_ref" where
  "sample_cause b = \<lparr>cr_antecedent = replicate 32 b, cr_strength = CS_CorrelatesWith, cr_basis = []\<rparr>"

lemma plain_causes_valid:
  "observation_validate default_limits (canonicalize
     (plain_observation\<lparr>ob_claims := [], ob_causal := [sample_cause 1, sample_cause 2]\<rparr>)) = Inr ()"
  by (simp add: observation_validate_ok plain_observation_def sample_observation_def canonicalize_def
      default_limits_def id_is_nil_def
      u128_is_zero_def sample_source_def sample_cause_def digest_is_zero_def list_all_iff)

lemma sample_value_fits: "value_fits default_value_limits (VList [VText ''a'', VBool True])"
  by (simp add: value_fits_def default_value_limits_def value_validate.simps count_nodes.simps)

lemma sample_value_limits: "wf_value_limits default_value_limits"
  by (simp add: wf_value_limits_def default_value_limits_def)

lemma default_policy_wf: "wf_policy default_policy"
  using default_limits_wf by (simp add: wf_policy_def default_policy_def)

lemma default_policy_renamed: "default_policy\<lparr>policy_name := ''default''\<rparr> = default_policy"
  by (simp add: default_policy_def)

end
