(* ===== verification/Fab_Journal_Samples.thy ===== *)
theory Fab_Journal_Samples
  imports Fab_Samples Fab_Durability
begin

text \<open>
  A journal configuration and an observation record at which the properties of the journal
  are applied. No digest is evaluated.
\<close>

definition sample_options :: journal_options where
  "sample_options = \<lparr>jo_fabric = BasicId (Uint128 0 1), jo_max_bytes = 1048576, jo_max_files = 4,
     jo_max_record_bytes = 65536, jo_max_recovered_observations = 1000, jo_limits = default_limits\<rparr>"

definition plain_record :: observation_record where
  "plain_record = \<lparr>or_observation = plain_observation, or_received_at = TimePoint 2000,
     or_recovered = False, or_recovery_epoch = 0\<rparr>"

lemma sample_options_ok: "journal_options_ok sample_options"
  by (simp add: journal_options_ok_def sample_options_def journal_header_bytes_def
      journal_record_header_bytes_def)

lemma plain_record_fits:
  "fits (jo_max_record_bytes sample_options) (kind_observation, encode_observation_record plain_record)"
proof -
  have "length (encode_observation_record plain_record) = 164"
    by (simp add: encode_observation_record_def plain_record_def plain_observation_def
        sample_observation_def observation_encode_def enc_tag_def enc_text_def enc_bytes_def
        enc_size_def enc_bool_def bytes_of_string_def)
  then show ?thesis
    by (simp add: fits_def encode_observation_record_nonempty sample_options_def)
qed

lemma plain_record_wf:
  "wf_limits (jo_limits sample_options) \<and>
   wf_observation (jo_limits sample_options) (or_observation plain_record)"
  by (simp add: sample_options_def plain_record_def plain_observation_wf default_limits_wf)

end
