(* ===== verification/Fab_Runtime_Samples.thy ===== *)
theory Fab_Runtime_Samples
  imports Fab_Restart Fab_Journal_Samples
begin

text \<open>
  Runtime configurations, with and without a journal, and an observation they accept. Digests
  are never evaluated.
\<close>

definition sample_config :: observatory_config where
  "sample_config = \<lparr>oc_fabric = BasicId (Uint128 0 1), oc_policy = default_policy,
     oc_journal_path = ''journal'', oc_journal = sample_options, oc_recover_on_open = True\<rparr>"

definition memory_config :: observatory_config where
  "memory_config = sample_config\<lparr>oc_journal_path := []\<rparr>"

definition sample_clock :: "nat \<Rightarrow> time_point" where
  "sample_clock n = TimePoint 2000"

definition sample_report :: observation where
  "sample_report = plain_observation\<lparr>ob_schema := observation_schema\<rparr>"

lemma sample_clock_now [simp]: "ov_clock ov = sample_clock \<Longrightarrow> clock_now ov = (TimePoint 2000, ov\<lparr>ov_reads := ov_reads ov + 1\<rparr>)"
  by (simp add: clock_now_def sample_clock_def)

lemma sample_report_valid: "observation_validate default_limits sample_report = Inr ()"
  by (simp add: observation_validate_ok sample_report_def plain_observation_def sample_observation_def
      canonicalize_def observation_schema_def default_limits_def id_is_nil_def u128_is_zero_def
      sample_source_def)

lemma sample_report_wf: "wf_observation default_limits sample_report"
  using sample_report_valid
  by (simp add: wf_observation_def sample_report_def plain_observation_def sample_observation_def
      canonicalize_def observation_schema_def metadata_make_def default_limits_def)

lemma sample_report_fields:
  "ob_source sample_report = sample_source" "ob_incarnation sample_report = BasicId (Uint128 0 9)"
  "ob_sequence sample_report = 1" "ob_generation sample_report = 3" "ob_epoch sample_report = 2"
  "ob_claims sample_report = []" "ob_schema sample_report = observation_schema"
  "ob_fabric sample_report = BasicId (Uint128 0 1)" "ob_observed_at sample_report = TimePoint 1000"
  by (simp_all add: sample_report_def plain_observation_def sample_observation_def)

text \<open>A runtime under the sample policy that knows no source yet.\<close>

definition idle :: "observatory \<Rightarrow> bool" where
  "idle ov \<longleftrightarrow> ov_config ov \<in> {sample_config, memory_config} \<and> ov_sources ov = [] \<and>
     ov_incarnations ov = [] \<and> ov_records ov = []"

lemma default_policy_limits [simp]: "p_limits default_policy = default_limits"
  by (simp add: default_policy_def)

lemma idle_limits: "idle ov \<Longrightarrow> ov_limits ov = default_limits \<and> ov_policy ov = default_policy \<and>
    oc_fabric (ov_config ov) = BasicId (Uint128 0 1)"
  by (auto simp: idle_def sample_config_def memory_config_def default_policy_def)

lemma sample_precheck: "idle ov \<Longrightarrow> precheck ov (TimePoint 2000) sample_report = None"
  by (simp add: precheck_def idle_limits sample_report_valid sample_report_fields time_after_def
      less_time_point_def)

definition sample_registered :: source_state where
  "sample_registered = fresh_source \<lparr>sd_id = sample_source, sd_name = id_to_text ''src'' sample_source,
     sd_authority_name = [], sd_aspects = [], sd_max_authority = SA_Reported, sd_schema = observation_schema\<rparr>"

lemma sample_ensure:
  assumes "idle ov"
  shows "ensure_source sample_report ov = (Inr sample_registered, ov\<lparr>ov_sources := [(sample_source, sample_registered)]\<rparr>)"
proof -
  let ?d = "\<lparr>sd_id = sample_source, sd_name = id_to_text ''src'' sample_source,
     sd_authority_name = [], sd_aspects = [], sd_max_authority = SA_Reported, sd_schema = observation_schema\<rparr>"
  have lim: "auto_register_sources (p_ingest (ov_policy ov))"
      "auto_register_authority (p_ingest (ov_policy ov)) = SA_Reported"
      "0 < unat (max_sources (ov_limits ov))"
    using idle_limits[OF assms] by (simp_all add: default_policy_def default_limits_def)
  have none: "ov_sources ov = []" using assms by (simp add: idle_def)
  have auto: "auto_descriptor ov sample_report = ?d"
    by (simp add: auto_descriptor_def sample_report_fields lim)
  have "\<not> 128 < length (sd_name ?d)" "\<not> id_is_nil (sd_id ?d)"
    by (simp_all add: sample_source_def id_to_text_def id_is_nil_def u128_is_zero_def)
  moreover have "?d\<lparr>sd_aspects := sort (sd_aspects ?d)\<rparr> = ?d" by simp
  ultimately have reg: "register_source ?d ov = (Inr (), ov\<lparr>ov_sources := [(sample_source, sample_registered)]\<rparr>)"
    using none lim(3) unfolding register_source_def Let_def
    by (simp add: om_emplace_def sample_registered_def)
  show ?thesis
    unfolding ensure_source_def sample_report_fields auto reg using none lim(1) by simp
qed

text \<open>The state in which the sample observation is accepted.\<close>

definition sample_admitting :: "observatory \<Rightarrow> observatory" where
  "sample_admitting ov = ov\<lparr>ov_reads := ov_reads ov + 1, ov_sources := [(sample_source, sample_registered)],
     ov_incarnations := [(sample_source, [])]\<rparr>"

lemma sample_registered_fields:
  "si_id (so_incarnation sample_registered) = BasicId nil_u128" "so_last_sequence sample_registered = 0"
  "so_last_generation sample_registered = 0" "so_last_epoch sample_registered = 0"
  by (simp_all add: sample_registered_def fresh_source_def)

lemma sample_new_incarnation: "BasicId nil_u128 \<noteq> BasicId (Uint128 0 9)"
  by (simp add: nil_u128_def)

lemma sample_admission:
  assumes "idle ov"
  shows "admission_of (sample_admitting ov) sample_registered sample_report = Admit"
proof -
  have "max_generation_advance (p_ingest (ov_policy (sample_admitting ov))) = 1000000"
      "\<not> strict_generation_fence (p_ingest (ov_policy (sample_admitting ov)))"
    using idle_limits[OF assms] by (simp_all add: sample_admitting_def default_policy_def)
  moreover have "seen_incarnations (sample_admitting ov) sample_source = []"
    by (simp add: seen_incarnations_def sample_admitting_def)
  ultimately show ?thesis
    by (simp add: admission_of_def Let_def sample_report_fields sample_registered_fields sample_new_incarnation)
qed

lemma sample_ingest:
  assumes "idle ov" "ov_clock ov = sample_clock"
  shows "ingest sample_report DeferSnapshot ov = (Inr (),
    (new_outcome (content_digest sample_report))\<lparr>ig_disposition := ID_Accepted\<rparr>,
    (accept_observation sample_report (TimePoint 2000) sample_registered (sample_admitting ov))\<lparr>ov_dirty := True\<rparr>)"
proof -
  let ?ov = "ov\<lparr>ov_reads := ov_reads ov + 1\<rparr>"
  have idle: "idle ?ov" using assms(1) by (simp add: idle_def)
  have none: "ov_incarnations ov = []" using assms(1) by (simp add: idle_def)
  have noted: "?ov\<lparr>ov_sources := [(sample_source, sample_registered)], ov_incarnations := [(sample_source, [])]\<rparr> =
      sample_admitting ov"
    by (simp add: sample_admitting_def)
  have "ingest_known sample_report (TimePoint 2000) DeferSnapshot sample_registered
      (?ov\<lparr>ov_sources := [(sample_source, sample_registered)]\<rparr>) = (Inr (),
    (new_outcome (content_digest sample_report))\<lparr>ig_disposition := ID_Accepted\<rparr>,
    (accept_observation sample_report (TimePoint 2000) sample_registered (sample_admitting ov))\<lparr>ov_dirty := True\<rparr>)"
    using sample_admission[OF assms(1)] none noted sample_new_incarnation
    by (simp add: ingest_known_def sample_report_fields sample_registered_fields om_emplace_def settle_def
        empty_tally_def new_outcome_def)
  then show ?thesis
    using sample_precheck[OF idle] sample_ensure[OF idle] assms(2)
    by (simp add: ingest_def)
qed

section \<open>The size of the active part\<close>

lemma append_record_space:
  assumes "append_record kind payload j = (r, j')" "jn_faults j = []" "length (jn_chain j) = 32"
  shows "length (active_bytes j') \<le> length (active_bytes j) + 116 + length payload"
  using assms(1)
  by (auto simp: append_record_def Let_def write_all_ok[OF assms(2)] write_all_def next_outcome_def assms(2,3)
      append_active_def active_bytes_def record_header_not_Nil journal_record_header_bytes_def split: if_splits)

lemma rotate_space:
  assumes "rotate j = (r, j')" "jn_faults j = []" "length (jn_chain j) = 32"
  shows "length (active_bytes j') = 128 \<and> jn_faults j' = [] \<and> jn_chain j' = jn_chain j"
proof -
  have "length (header_bytes (jo_fabric (jn_options j)) (jn_chain j)) = 128"
    using length_header_bytes[OF assms(3)] by (simp add: journal_header_bytes_def)
  moreover from this have "header_bytes (jo_fabric (jn_options j)) (jn_chain j) \<noteq> []" by auto
  ultimately show ?thesis
    using assms by (auto simp: rotate_def Let_def open_truncate_def next_outcome_def write_header_def write_all_def
      append_active_def active_bytes_def journal_header_bytes_def split: if_splits)
qed

text \<open>The active part stays within \<open>n\<close> bytes.\<close>

definition part_within :: "nat \<Rightarrow> observatory \<Rightarrow> bool" where
  "part_within n ov \<longleftrightarrow> (\<forall>j. ov_journal ov = Some j \<longrightarrow> length (active_bytes j) \<le> n)"

lemma write_record_space:
  assumes "write_record kind payload j = (r, j')" "journal_log j dropped kept" "128 \<le> n"
    and "length (active_bytes j) \<le> n"
  shows "length (active_bytes j') \<le> n + 116 + length payload"
proof -
  obtain c M es where h: "journal_holds c M es j" using assms(2) by (auto simp: journal_log_def)
  then have j: "jn_faults j = []" "length (jn_chain j) = 32"
    by (simp_all add: journal_holds_def length_chain_end length_chain_after)
  obtain r1 j1 where rot: "rotate j = (r1, j1)" by fastforce
  note one = rotate_space[OF rot j]
  have "length (active_bytes (snd (append_record kind payload j1))) \<le> 128 + 116 + length payload"
    using append_record_space[of kind payload j1 "fst (append_record kind payload j1)" "snd (append_record kind payload j1)"]
      one j by simp
  moreover have "length (active_bytes (snd (append_record kind payload j))) \<le> n + 116 + length payload"
    using append_record_space[of kind payload j "fst (append_record kind payload j)" "snd (append_record kind payload j)"]
      j assms(4) by simp
  moreover have "snd (write_record kind payload j) \<in>
      {j, j1, snd (append_record kind payload j1), snd (append_record kind payload j)}"
    unfolding write_record_def rot by (simp only: split: if_split option.split sum.split prod.split) simp
  ultimately show ?thesis
    using assms(1,3,4) one by (elim insertE emptyE) simp_all
qed

lemma write_space:
  assumes "mirrored ov" "journalling ov" "128 \<le> n" "part_within n ov"
  shows "part_within (n + 116 + length payload) (journal_write_unless_failed (write_record kind payload) ov)"
proof -
  obtain j dropped kept where j: "ov_journal ov = Some j" "journal_log j dropped kept"
    using assms(1,2) by (auto simp: mirrored_def journal_mirrors_def)
  obtain r j' where w: "write_record kind payload j = (r, j')" by fastforce
  have "length (active_bytes j') \<le> n + 116 + length payload"
    using write_record_space[OF w j(2) assms(3)] assms(4) j(1) by (simp add: part_within_def)
  then show ?thesis
    using j(1) w assms(4)
    by (auto simp: part_within_def journal_write_unless_failed_def journal_write_def split: sum.split)
qed

lemma part_within_cong: "ov_journal ov' = ov_journal ov \<Longrightarrow> part_within n ov \<Longrightarrow> part_within n ov'"
  by (simp add: part_within_def)

lemma part_within_mono: "part_within n ov \<Longrightarrow> n \<le> m \<Longrightarrow> part_within m ov"
  by (auto simp: part_within_def)

lemma publish_space:
  assumes "mirrored ov" "journalling ov" "128 \<le> n" "part_within n ov"
  shows "part_within (n + 197) (snd (publish t ov))"
proof (cases rule: publish_cases[of t ov])
  case (skipped k)
  show ?thesis
    using part_within_mono[OF assms(4), of "n + 197"] unfolding skipped by (simp add: part_within_def)
next
  case (appended m now s k)
  let ?ov = "(snd (clock_now ov))\<lparr>ov_history :=
    history_append (built_snapshot (build_request_of ov t)) now (ov_history ov)\<rparr>"
  have "length (sm_id m) = 32"
    unfolding appended(1) by (simp add: built_snapshot_def Let_def recompute_digest_def)
  then have len: "length (encode_snapshot_marker m) = 81" by (rule length_snapshot_marker)
  have "mirrored ?ov" by (rule mirrored_keep[OF assms(1)]) (simp_all add: frame_simps)
  moreover have "journalling ?ov" using assms(2) by (simp add: journalling_def frame_simps)
  moreover have "part_within n ?ov" by (rule part_within_cong[OF _ assms(4)]) (simp add: frame_simps)
  ultimately have "part_within (n + 197) (journal_write_unless_failed (append_snapshot_marker m) ?ov)"
    using write_space[of ?ov n "encode_snapshot_marker m" kind_snapshot_marker] assms(3) len
    by (simp add: append_snapshot_marker_def[abs_def] add.commute)
  then show ?thesis unfolding appended(2) by (simp add: part_within_def)
qed

section \<open>Sample runs\<close>

lemma sample_room: "journal_room (oc_journal sample_config)" "oc_recover_on_open sample_config"
    "oc_journal_path sample_config \<noteq> []" "oc_journal_path memory_config = []"
    "wf_limits (p_limits (oc_policy sample_config))"
  by (simp_all add: journal_room_def sample_config_def memory_config_def sample_options_def default_limits_wf)

lemma sample_config_opens: "\<exists>ov. observatory_open sample_config sample_clock Map.empty [] = Inr ov"
proof -
  have "journal_options_ok (journal_options_of sample_config)"
    using sample_options_ok by (simp add: journal_options_of_def sample_config_def journal_options_ok_def)
  then obtain j where "journal_open (oc_journal_path sample_config) (journal_options_of sample_config) Map.empty [] = (Inr (), j)"
    using open_fresh_ok[OF sample_room(3)] by blast
  moreover have "\<not> id_is_nil (oc_fabric sample_config)" "policy_validate (oc_policy sample_config) = Inr ()"
    by (simp_all add: sample_config_def id_is_nil_def u128_is_zero_def default_policy_valid)
  ultimately show ?thesis unfolding open_with_journal[OF sample_room(3)] by blast
qed

definition sample_started :: observatory where
  "sample_started = projr (observatory_open sample_config sample_clock Map.empty [])"

definition memory_started :: observatory where
  "memory_started = projr (observatory_open memory_config sample_clock Map.empty [])"

definition after_report :: "observatory \<Rightarrow> observatory" where
  "after_report ov = snd (snd (ingest sample_report DeferSnapshot ov))"

lemma sample_opens: "observatory_open sample_config sample_clock Map.empty [] = Inr sample_started"
  using sample_config_opens by (auto simp: sample_started_def)

lemma memory_opens: "observatory_open memory_config sample_clock Map.empty [] = Inr memory_started"
proof -
  have "\<not> id_is_nil (oc_fabric memory_config)" "policy_validate (oc_policy memory_config) = Inr ()"
    by (simp_all add: memory_config_def sample_config_def id_is_nil_def u128_is_zero_def default_policy_valid)
  then show ?thesis
    by (simp add: memory_started_def observatory_open_def sample_room(4) case_prod_beta)
qed

lemma memory_idle: "idle memory_started \<and> ov_clock memory_started = sample_clock"
proof -
  let ?new = "new_observatory memory_config sample_clock"
  have new: "ov_config ?new = memory_config" "ov_sources ?new = []" "ov_incarnations ?new = []"
      "ov_records ?new = []" "ov_clock ?new = sample_clock"
    by (simp_all add: new_observatory_def)
  have started: "memory_started = snd (publish (fst (clock_now ?new)) (snd (clock_now ?new)))"
    using memory_opens by (auto simp: observatory_open_def sample_room(4) rbind_Inr_iff case_prod_beta split: if_splits)
  show ?thesis unfolding started idle_def frame_simps new by simp
qed

lemma sample_idle: "idle sample_started \<and> ov_clock sample_started = sample_clock"
proof -
  obtain j where j: "journal_open (oc_journal_path sample_config) (journal_options_of sample_config) Map.empty [] = (Inr (), j)"
    and ov: "sample_started = started j sample_config sample_clock"
    using sample_opens unfolding open_with_journal[OF sample_room(3)] by blast
  have "recovered_state j (new_observatory sample_config sample_clock) =
      (new_observatory sample_config sample_clock)\<lparr>ov_journal := Some j, ov_recovery := jn_recovery j,
        ov_restart_count := jn_restart_count j, ov_restart_epoch := jn_restart_epoch j + 1\<rparr>"
    using open_fresh_recovered[OF j] sample_room(2) by (simp add: recovered_state_def new_observatory_def)
  then show ?thesis
    by (simp only: ov started_def Let_def idle_def frame_simps) (simp add: new_observatory_def)
qed

lemma after_report:
  assumes "idle ov" "ov_clock ov = sample_clock"
  shows "runtime_reaches ov (after_report ov)"
    and "ov_records (after_report ov) = [accepted_record sample_report (TimePoint 2000) (ov_restart_epoch ov)]"
proof -
  show "runtime_reaches ov (after_report ov)"
    using step_ingest[OF sample_ingest[OF assms]] sample_ingest[OF assms] by (simp add: after_report_def)
  have none: "ov_records (sample_admitting ov) = []" "ov_restart_epoch (sample_admitting ov) = ov_restart_epoch ov"
      "unat (max_evidence_records (ov_limits (sample_admitting ov))) \<noteq> 0"
    using assms(1) idle_limits[OF assms(1)] by (simp_all add: sample_admitting_def idle_def default_limits_def)
  then show "ov_records (after_report ov) = [accepted_record sample_report (TimePoint 2000) (ov_restart_epoch ov)]"
    by (simp add: after_report_def sample_ingest[OF assms] accept_records Let_def)
qed

text \<open>The journal of the sample run serves, mirrors the evidence and stays small.\<close>

lemma sample_serves:
  "mirrored sample_started" "journalling sample_started" "ov_config sample_started = sample_config"
  using mirrored_first_start[OF sample_opens sample_room(3,1)] by simp_all

lemma fresh_part:
  assumes "journal_log j [] []"
  shows "length (active_bytes j) = 128"
proof -
  obtain c M es where h: "journal_holds c M es j" "[] = concat M @ es"
    using assms unfolding journal_log_def by blast
  then have "length (chain_end c M) = 32" by (simp add: journal_holds_def length_chain_end)
  then show ?thesis
    using h by (simp add: journal_holds_def active_bytes_def part_bytes_def journal_header_bytes_def)
qed

lemma sample_started_small: "part_within 500 sample_started"
proof -
  let ?new = "new_observatory sample_config sample_clock"
  obtain j where j: "journal_open (oc_journal_path sample_config) (journal_options_of sample_config) Map.empty [] = (Inr (), j)"
    and ov: "sample_started = started j sample_config sample_clock"
    using sample_opens unfolding open_with_journal[OF sample_room(3)] by blast
  let ?two = "snd (clock_now (recovered_state j ?new))"
  have log: "journal_log j [] []" "jn_options j = journal_options_of sample_config" using open_fresh[OF j] by simp_all
  have two: "ov_journal ?two = Some j" "ov_config ?two = sample_config" "ov_records ?two = []"
    "\<not> ov_journal_failed ?two" "\<not> ov_truncated ?two" "\<not> ov_shutdown ?two"
    by (simp_all add: recovered_state_def open_fresh_recovered[OF j] frame_simps)
       (simp_all add: new_observatory_def)
  have live: "journalling ?two" "mirrored ?two"
    using two log by (auto simp: journalling_def mirrored_def journal_mirrors_def intro!: exI[of _ j] exI[of _ "[]"])
  have small: "part_within 128 ?two" using fresh_part[OF log(1)] two(1) by (simp add: part_within_def)
  have fit: "fits (jo_max_record_bytes (oc_journal (ov_config ?two))) (kind_restart_marker, encode_restart_marker e n t)" for e n t
    using marker_fits(1)[OF sample_room(1)] two(2) by simp
  let ?w = "\<lambda>e n t. journal_write_unless_failed (write_record kind_restart_marker (encode_restart_marker e n t)) ?two"
  have w: "part_within 280 (?w e n t)" "mirrored (?w e n t)" "journalling (?w e n t)" for e n t
    using write_space[OF live(2,1) _ small, of "encode_restart_marker e n t" kind_restart_marker]
      mirrored_marker[OF live(2) _ fit] marker_live[OF live(2,1) fit]
    by (simp_all add: length_restart_marker)
  let ?one = "\<lambda>e n t. snd (clock_now (?w e n t))"
  have "part_within 280 (?one e n t)" "mirrored (?one e n t)" "journalling (?one e n t)" for e n t
    using part_within_cong[OF _ w(1), of "?one e n t"] mirrored_keep[OF w(2), of "?one e n t"] w(3)[of e n t]
    by (simp_all add: frame_simps journalling_def)
  then have "part_within 500 (snd (publish t' (?one e n t)))" for e n t t'
    using publish_space[of "?one e n t" 280 t'] part_within_mono[of 477 _ 500] by simp
  moreover have "journal_write (append_restart_marker e n t) ?two = ?w e n t" for e n t
    using two(4) by (simp add: journal_write_unless_failed_def append_restart_marker_def[abs_def])
  ultimately show ?thesis by (simp only: ov started_def Let_def)
qed

lemma sample_record_bytes: "length (encode_observation_record (accepted_record sample_report t e)) \<le> 200"
  by (simp add: encode_observation_record_def accepted_record_def sample_report_def plain_observation_def
      sample_observation_def observation_encode_def enc_tag_def enc_text_def enc_bytes_def
      enc_size_def enc_bool_def bytes_of_string_def observation_schema_def)

lemma sample_admitting_serves:
  "mirrored (sample_admitting sample_started)" "journalling (sample_admitting sample_started)"
  "part_within 500 (sample_admitting sample_started)" "ov_config (sample_admitting sample_started) = sample_config"
  "ov_records (sample_admitting sample_started) = []"
  using mirrored_keep[OF sample_serves(1), of "sample_admitting sample_started"] sample_serves(2,3)
    part_within_cong[OF _ sample_started_small, of "sample_admitting sample_started"] sample_idle
  by (simp_all add: sample_admitting_def journalling_def idle_def)

lemma sample_stopped:
  "journalling (after_report sample_started)" "part_within 1000 (after_report sample_started)"
proof -
  let ?ov = "sample_admitting sample_started" and ?t = "TimePoint 2000"
  let ?r = "accepted_record sample_report ?t (ov_restart_epoch ?ov)"
  let ?acc = "accept_observation sample_report ?t sample_registered ?ov"
  have lim: "ov_limits ?ov = default_limits"
    using sample_admitting_serves(4) by (simp add: sample_config_def)
  have "journalling ?acc"
    using accept_live[OF sample_admitting_serves(1,2), of sample_report ?t sample_registered]
      sample_admitting_serves(4,5) sample_room(1) sample_report_wf sample_record_bytes[of ?t "ov_restart_epoch ?ov"] lim
    by (simp add: default_limits_def sample_config_def sample_options_def)
  moreover have "part_within 1000 ?acc"
  proof -
    have "part_within (500 + 116 + length (encode_observation_record ?r))
        (journal_write_unless_failed (journal_append ?r) ?ov)"
      using write_space[OF sample_admitting_serves(1,2) _ sample_admitting_serves(3),
          of "encode_observation_record ?r" kind_observation]
      by (simp add: journal_append_def[abs_def])
    then have "part_within 1000 (journal_write_unless_failed (journal_append ?r) ?ov)"
      by (rule part_within_mono) (use sample_record_bytes[of ?t "ov_restart_epoch ?ov"] in simp)
    then show ?thesis
      by (rule part_within_cong[rotated])
         (simp add: accept_observation_def Let_def frame_simps store_record_def note_incarnation_def accepted_record_def)
  qed
  moreover have "after_report sample_started = ?acc\<lparr>ov_dirty := True\<rparr>"
    using sample_ingest sample_idle by (simp add: after_report_def)
  ultimately show "journalling (after_report sample_started)" "part_within 1000 (after_report sample_started)"
    by (simp_all add: journalling_def part_within_def)
qed

end
