(* ===== verification/Fab_Reader_Samples.thy ===== *)
theory Fab_Reader_Samples
  imports Fab_Query Fab_Diff Fab_Pipeline Fab_Runtime_Samples
begin

text \<open>
  Concrete inputs for the readers and for the ingest pipeline: a hierarchy query over the sample
  snapshot, two subjects that name each other as parent, and a pipeline with one worker.
\<close>

section \<open>Queries\<close>

definition sample_hierarchy_query :: hierarchy_query where
  "sample_hierarchy_query = \<lparr>hq_root_kind = None, hq_root = None, hq_max_depth = 0, hq_limit = 0,
     hq_include_unattached = True\<rparr>"

lemma sample_effective_depth:
  "effective (hq_max_depth sample_hierarchy_query) (max_hierarchy_depth default_limits) \<noteq> - 1"
  by (simp add: effective_def sample_hierarchy_query_def default_limits_def)

definition sample_member :: "64 word \<Rightarrow> 64 word \<Rightarrow> subject_state" where
  "sample_member i parent = sample_subject_state\<lparr>sb_identity := sample_subject\<lparr>su_id := EntityId (Uint128 0 i)\<rparr>,
     sb_parent := Some (EntityId (Uint128 0 parent))\<rparr>"

text \<open>Two entities, each below the other.\<close>

definition cyclic_snapshot :: snapshot where
  "cyclic_snapshot = sample_snapshot\<lparr>sn_subjects := [sample_member 5 6, sample_member 6 5]\<rparr>"

lemma cyclic_snapshot_facts:
  "distinct (ids_of (sn_subjects cyclic_snapshot))"
  "climb (parent_in (sn_subjects cyclic_snapshot)) (Suc 1) (EntityId (Uint128 0 5)) = Some (EntityId (Uint128 0 5))"
  by (simp_all add: cyclic_snapshot_def sample_member_def parent_in_def subject_by_id_def attached_def)

section \<open>Differences\<close>

lemma sample_claims_wf:
  "\<forall>r\<in>set (rq_records sample_request). \<forall>c\<in>set (ob_claims (or_observation r)).
     wf_aspect (cl_aspect c) \<and> value_wf (cl_value c)"
proof -
  have "wf_aspect sample_aspect" by (simp add: wf_aspect_def sample_aspect_def) code_simp
  then show ?thesis by (simp add: sample_request_def sample_record_def sample_observation_def sample_claim_def)
qed

section \<open>A pipeline with one worker\<close>

definition sample_pipeline_config :: pipeline_config where
  "sample_pipeline_config = \<lparr>pc_workers = 1, pc_max_queue = 2, pc_publish_per_observation = False\<rparr>"

definition sample_shard :: shard where
  "sample_shard = \<lparr>sh_queue = [], sh_capacity = 2, sh_peak_depth = 0, sh_stopping = False, sh_discard = False\<rparr>"

definition sample_pipeline :: pipeline where
  "sample_pipeline = \<lparr>pl_config = sample_pipeline_config, pl_shards = [sample_shard], pl_workers = [Waiting],
     pl_observatory = memory_started, pl_counters = zero_stats\<lparr>ps_workers := 1\<rparr>, pl_running = True,
     pl_control = Serving, pl_uncounted = 0\<rparr>"

lemma sample_pipeline_new: "new_pipeline memory_started sample_pipeline_config = Some sample_pipeline"
  using idle_limits[OF conjunct1[OF memory_idle]]
  by (simp add: new_pipeline_def sample_pipeline_config_def sample_pipeline_def sample_shard_def default_limits_def)

lemma sample_shard_of: "length (pl_shards p) = 1 \<Longrightarrow> shard_of p ob = 0"
  by (simp add: shard_of_def shard_for_def)

text \<open>One observation queued.\<close>

definition sample_queued :: pipeline where
  "sample_queued = sample_pipeline\<lparr>pl_shards := [sample_shard\<lparr>sh_queue := [sample_report], sh_peak_depth := 1\<rparr>],
     pl_uncounted := 1\<rparr>"

lemma sample_enqueue: "enqueue sample_report sample_pipeline = (Inr (), sample_queued)"
  using sample_shard_of[of sample_pipeline sample_report]
  by (simp add: enqueue_def sample_queued_def sample_pipeline_def sample_shard_def update_shard_def Let_def)

lemma sample_run_queued: "pipeline_run sample_pipeline [Enqueued sample_report] sample_queued"
  using run_step[OF run_start do_enqueue[OF sample_enqueue]] by simp

text \<open>It is taken and ingested.\<close>

definition sample_taken :: pipeline where
  "sample_taken = worker_take 0 sample_queued"

definition sample_processed :: pipeline where
  "sample_processed = worker_ingest 0 sample_report sample_taken"

lemma sample_run_processed:
  "pipeline_run sample_pipeline [Enqueued sample_report, Quiet, Ingested sample_report] sample_processed"
proof -
  have awake: "0 < length (pl_workers sample_queued)" "pl_workers sample_queued ! 0 = Waiting"
    "worker_awake (pl_shards sample_queued ! 0)"
    "\<not> (sh_discard (pl_shards sample_queued ! 0) \<and> sh_stopping (pl_shards sample_queued ! 0))"
    by (simp_all add: sample_queued_def sample_pipeline_def sample_shard_def worker_awake_def)
  then have "pipeline_run sample_pipeline [Enqueued sample_report, Quiet] sample_taken"
    using run_step[OF sample_run_queued do_work[OF take_item[OF awake]]] by (simp add: sample_taken_def)
  moreover have "0 < length (pl_workers sample_taken)" "pl_workers sample_taken ! 0 = Working sample_report"
    by (simp_all add: sample_taken_def worker_take_def sample_queued_def sample_pipeline_def sample_shard_def
        set_worker_def update_shard_def)
  ultimately show ?thesis
    using run_step[OF _ do_work[OF ingest_item]] by (fastforce simp: sample_processed_def)
qed

lemma sample_worker_options: "worker_options sample_pipeline = DeferSnapshot"
  by (simp add: worker_options_def sample_pipeline_def sample_pipeline_config_def)

text \<open>Shutdown has marked the shard and starts to join, the observation still queued.\<close>

definition sample_joining :: pipeline where
  "sample_joining = (stop_shard Drain 0 (sample_queued\<lparr>pl_control := Stopping Drain 0\<rparr>))\<lparr>pl_control := Joining Drain 0\<rparr>"

lemma sample_run_joining:
  "pipeline_run sample_pipeline [Enqueued sample_report, Quiet, Quiet, Quiet] sample_joining"
  "pl_control sample_joining = Joining Drain 0"
proof -
  let ?p1 = "sample_queued\<lparr>pl_control := Stopping Drain 0\<rparr>"
  have "pl_control sample_queued = Serving" by (simp add: sample_queued_def sample_pipeline_def)
  then have "pipeline_run sample_pipeline [Enqueued sample_report, Quiet] ?p1"
    using run_step[OF sample_run_queued do_begin] by simp
  moreover have "pipeline_step ?p1 Quiet (stop_shard Drain 0 ?p1)"
    by (rule do_stop) (simp_all add: sample_queued_def)
  ultimately have "pipeline_run sample_pipeline [Enqueued sample_report, Quiet, Quiet] (stop_shard Drain 0 ?p1)"
    using run_step by fastforce
  moreover have "pipeline_step (stop_shard Drain 0 ?p1) Quiet sample_joining"
    unfolding sample_joining_def by (rule do_stopped) (simp add: stop_shard_def sample_queued_def)
  ultimately show "pipeline_run sample_pipeline [Enqueued sample_report, Quiet, Quiet, Quiet] sample_joining"
    using run_step by fastforce
  show "pl_control sample_joining = Joining Drain 0" by (simp add: sample_joining_def)
qed

lemma sample_closes: "\<exists>es p. pipeline_run sample_pipeline es p \<and> pl_control p = Closed Drain"
  using shutdown_ends[OF sample_pipeline_new sample_run_joining] by blast

end
