(* ===== verification/Fab_Json_Samples.thy ===== *)
theory Fab_Json_Samples
  imports Fab_Utc Fab_Observation_Json Fab_Reader_Samples
begin

text \<open>
  Concrete documents on which the properties of the JSON and UTC forms are exercised, with a bound
  on the length of a compact document, and what \<^verbatim>\<open>parse_utc\<close> makes of some malformed dates.
\<close>

section \<open>Documents\<close>

lemma json_string_length: "length (json_string t) \<le> 6 * length t + 2"
proof -
  have "length (escape_char c) \<le> 6" for c by (simp add: escape_char_def)
  then have "length (concat (map escape_char t)) \<le> 6 * length t" by (induction t) (simp_all add: add_mono)
  then show ?thesis by (simp add: json_string_def)
qed

text \<open>A bound on the compact text of a document.\<close>

fun json_weight :: "json \<Rightarrow> nat" where
  "json_weight (JNumber x) = length (to_chars_double x)"
| "json_weight (JText t) = 6 * length t + 2"
| "json_weight (JArray xs) = 2 + sum_list (map (\<lambda>x. json_weight x + 1) xs)"
| "json_weight (JObject ms) = 2 + sum_list (map (\<lambda>m. json_weight (snd m) + 6 * length (fst m) + 4) ms)"
| "json_weight _ = 5"

lemma write_json_length:
  "\<not> pretty \<Longrightarrow> length (write_json pretty d j) \<le> json_weight j"
  "\<not> pretty \<Longrightarrow> length (write_items pretty d xs) \<le> sum_list (map (\<lambda>x. json_weight x + 1) xs)"
  "\<not> pretty \<Longrightarrow> length (write_members pretty d ms) \<le>
    sum_list (map (\<lambda>m. json_weight (snd m) + 6 * length (fst m) + 4) ms)"
proof (induction pretty d j and pretty d xs and pretty d ms rule: write_json_write_items_write_members.induct)
  case (4 pretty indent t)
  then show ?case using json_string_length[of t] by simp
next
  case (8 pretty indent x xs)
  then show ?case by (cases "xs = []") (simp_all add: pad_def)
next
  case (10 pretty indent k x ms)
  then show ?case using json_string_length[of k] by (cases "ms = []") (simp_all add: pad_def)
qed (simp_all add: pad_def)

lemma plain_observation_json_length:
  "length (observation_to_json_text False plain_observation) \<le> jl_max_input_bytes default_json_limits"
proof -
  have "json_weight (observation_to_json plain_observation) \<le> 16777216"
    using integer_text_length(1)[of 1] integer_text_length(1)[of 2] integer_text_length(1)[of 3] integer_text_length(2)[of 1000]
    by (simp add: observation_to_json_def json_texts_def plain_observation_def sample_observation_def id_to_text_def)
  then show ?thesis
    using write_json_length(1)[of False 0 "observation_to_json plain_observation"]
    by (simp add: observation_to_json_text_def json_to_text_def default_json_limits_def)
qed

section \<open>Dates\<close>

text \<open>Days past the end of a month, other separators, and years outside the range of a time point.\<close>

lemma calendar_is_not_checked:
  "parse_utc ''2023-02-31T00:00:00Z'' = parse_utc ''2023-03-03T00:00:00Z''"
  "parse_utc ''2023-03-03T00x00y00Z'' = parse_utc ''2023-03-03T00:00:00Z''"
  "parse_utc ''9999-01-01T00:00:00Z'' = None" "parse_utc ''1677-09-21T00:12:43.145224192Z'' = None"
  by code_simp+

end
