(* ===== verification/Fab_Service_Samples.thy ===== *)
theory Fab_Service_Samples
  imports Fab_Tool Fab_Json_Samples
begin

text \<open>
  Concrete runs on which the properties of the service are exercised: a request that carries the
  plain observation, an observation file of one line, two threads, and an explained subject. The
  responses of a pretty server are not framed, and its failures are not counted.
\<close>

section \<open>A request\<close>

lemma memory_limits: "ov_limits memory_started = default_limits"
  using memory_idle idle_limits by blast

lemma plain_json_weight: "json_weight (observation_to_json plain_observation) \<le> 60000"
  using integer_text_length(1)[of 1] integer_text_length(1)[of 2] integer_text_length(1)[of 3] integer_text_length(2)[of 1000]
  by (simp add: observation_to_json_def json_texts_def plain_observation_def sample_observation_def id_to_text_def)

lemma plain_json_fits:
  "json_fits default_json_limits 0 (observation_to_json plain_observation)"
  "json_fits default_json_limits 1 (observation_to_json plain_observation)"
  "json_nodes (observation_to_json plain_observation) \<le> 60000"
  using integer_text_length(1)[of 1] integer_text_length(1)[of 2] integer_text_length(1)[of 3] integer_text_length(2)[of 1000]
  by (simp_all add: observation_to_json_def json_texts_def plain_observation_def sample_observation_def
      default_json_limits_def id_to_text_def)

lemma plain_bases_fit: "bases_fit default_limits plain_observation"
  by (simp add: bases_fit_def plain_observation_def sample_observation_def)

lemma plain_request_room:
  "json_fits default_json_limits 0 (ingest_request plain_observation)"
  "json_nodes (ingest_request plain_observation) \<le> jl_max_nodes default_json_limits"
  "length (json_to_text False (ingest_request plain_observation)) \<le>
     min (to_max_line_bytes default_transport_options) (jl_max_input_bytes default_json_limits)"
proof -
  show "json_fits default_json_limits 0 (ingest_request plain_observation)"
    using plain_json_fits(2) by (simp add: ingest_request_def default_json_limits_def)
  show "json_nodes (ingest_request plain_observation) \<le> jl_max_nodes default_json_limits"
    using plain_json_fits(3) by (simp add: ingest_request_def default_json_limits_def)
  show "length (json_to_text False (ingest_request plain_observation)) \<le>
      min (to_max_line_bytes default_transport_options) (jl_max_input_bytes default_json_limits)"
    using write_json_length(1)[of False 0 "ingest_request plain_observation"] plain_json_weight
    by (simp add: json_to_text_def ingest_request_def default_transport_options_def default_json_limits_def)
qed

lemma plain_one_line: "one_line default_limits plain_observation"
  using write_json_length(1)[of False 0 "observation_to_json plain_observation"] plain_json_weight plain_json_fits
    plain_observation_wf plain_bases_fit
  by (simp add: one_line_def observation_to_json_text_def json_to_text_def default_json_limits_def default_limits_def)

section \<open>Pretty responses\<close>

text \<open>An error of a pretty server stands on several lines, and its failure is not counted.\<close>

lemma starts_with_Cons: "starts_with s []" "starts_with [] (p # ps) = False"
  "starts_with (ch # s) (p # ps) \<longleftrightarrow> ch = p \<and> starts_with s ps"
  by (auto simp: starts_with_def)

lemma malformed_text: "status_code_text SC_MalformedInput = ''MalformedInput''"
  by code_simp

lemma plain_strings:
  "json_string ''MalformedInput'' = CHR 0x22 # ''MalformedInput'' @ [CHR 0x22]"
  "json_string ''ok'' = CHR 0x22 # ''ok'' @ [CHR 0x22]" "json_string ''op'' = CHR 0x22 # ''op'' @ [CHR 0x22]"
  "json_string ''code'' = CHR 0x22 # ''code'' @ [CHR 0x22]"
  "json_string ''message'' = CHR 0x22 # ''message'' @ [CHR 0x22]" "json_string ''-'' = CHR 0x22 # ''-'' @ [CHR 0x22]"
  "json_string ''empty request line'' = CHR 0x22 # ''empty request line'' @ [CHR 0x22]"
  by code_simp+

lemma pretty_errors_escape:
  "contains failure_mark (json_to_text True (error_response ''-'' SC_MalformedInput ''empty request line'')) = False"
  "newline \<in> set (json_to_text True (error_response ''-'' SC_MalformedInput ''empty request line''))"
  by (simp_all add: json_to_text_def error_response_def plain_strings malformed_text pad_def numeral_2_eq_2
      failure_mark_def del: contains.simps) (simp add: starts_with_Cons)

section \<open>Threads\<close>

text \<open>A submitter at a full shard, holding it, while a reader of the statistics holds the counters.\<close>

definition sample_threads :: "lock_thread list" where
  "sample_threads = all_started [[SubmitFull 0], [StatsCounters]]"

definition crossing_threads :: "lock_thread list" where
  "crossing_threads =
     [\<lparr>lt_held = [(ShardLock 0, Exclusive)], lt_rest = tl (tl (script (SubmitFull 0)))\<rparr>,
      \<lparr>lt_held = [(CountersLock, Exclusive)], lt_rest = tl (script StatsCounters)\<rparr>]"

lemma crossing_reached: "threads_step\<^sup>*\<^sup>* sample_threads crossing_threads"
proof -
  let ?t1 = "[\<lparr>lt_held = [(ShardLock 0, Exclusive)], lt_rest = tl (script (SubmitFull 0))\<rparr>, sample_threads ! 1]"
  let ?t2 = "[\<lparr>lt_held = [(ShardLock 0, Exclusive)], lt_rest = tl (tl (script (SubmitFull 0)))\<rparr>, sample_threads ! 1]"
  have "threads_step sample_threads ?t1"
    using threads_step.step[of 0 sample_threads "?t1 ! 0"]
    by (simp add: sample_threads_def all_started_def shard_section_def free_for_def counters_section_def)
  moreover have "threads_step ?t1 ?t2"
    using threads_step.step[of 0 ?t1 "?t2 ! 0"]
    by (simp add: sample_threads_def all_started_def shard_section_def counters_section_def)
  moreover have "threads_step ?t2 crossing_threads"
    using threads_step.step[of 1 ?t2 "crossing_threads ! 1"]
    by (simp add: sample_threads_def crossing_threads_def all_started_def shard_section_def free_for_def counters_section_def)
  ultimately show ?thesis by (meson r_into_rtranclp rtranclp_trans)
qed

end
