(* ===== verification/Spec2Isabelle.thy ===== *)
theory Spec2Isabelle
  imports Fab_Service_Samples
begin

text \<open>
  Fabric Observatory: a verification development of its runtime, journal, query layer, ingest
  pipeline, line protocol and command line tool.

  THE PROGRAM. Sources report observations (claims about the aspects of subjects, each with a
  sequence, a generation and an epoch). The observatory fences what is out of order, keeps the
  accepted evidence, writes it to a hash-chained journal and publishes immutable snapshots, in
  which each aspect of each subject has one of six truth states. Snapshots are queried, compared,
  explained and kept in a bounded history. A pipeline of worker threads, a server for one JSON
  request per line and the tool \<^verbatim>\<open>fabobs\<close> are its front ends.

  HOW THE MODEL CORRESPONDS TO THE CODE. Each theory models the files it names at its head, in
  the order of the code. A struct is a record, an enumeration a datatype, a fixed-width integer a
  word, \<^verbatim>\<open>size_t\<close> a natural number (or a word where it wraps), \<^verbatim>\<open>std::string\<close> a list of
  characters, \<^verbatim>\<open>std::map\<close> a sorted association list, \<^verbatim>\<open>Result\<close> a sum whose left side is a status
  with its message. A method of a class with state is a function that returns the new state. A
  violated contract or an uncaught exception is \<open>None\<close>.

  \<^item> \<^verbatim>\<open>Fab_Prelude\<close>: hint collections, \<^verbatim>\<open>std::map\<close> and its interface \<open>keyed_store\<close>, sorting.
  \<^item> \<^verbatim>\<open>Fab_Status\<close>: \<^verbatim>\<open>status\<close>, \<^verbatim>\<open>checked\<close>, \<^verbatim>\<open>util\<close>; the interface \<open>named_enum\<close> of the name tables.
  \<^item> \<^verbatim>\<open>Fab_Digest\<close>: \<^verbatim>\<open>digest.cpp\<close>, streaming SHA-256 and table-driven CRC-32C with references.
  \<^item> \<^verbatim>\<open>Fab_Canonical\<close>: \<^verbatim>\<open>canonical.cpp\<close>; the interface \<open>codec\<close> (decoding inverts encoding and leaves
    the rest of the input), provided by every encoder of the development.
  \<^item> \<^verbatim>\<open>Fab_Ids\<close>, \<^verbatim>\<open>Fab_Value\<close>, \<^verbatim>\<open>Fab_Time\<close>, \<^verbatim>\<open>Fab_Utc\<close>, \<^verbatim>\<open>Fab_Policy\<close>, \<^verbatim>\<open>Fab_Observation\<close>: identities,
    values, time, the vocabulary and the policy, observations.
  \<^item> \<^verbatim>\<open>Fab_Snapshot\<close>: \<^verbatim>\<open>snapshot.cpp\<close>, freshness, truth and the composition of a snapshot.
  \<^item> \<^verbatim>\<open>Fab_Journal\<close>, \<^verbatim>\<open>Fab_Recovery\<close>, \<^verbatim>\<open>Fab_Durability\<close>: \<^verbatim>\<open>persistence.cpp\<close>, its writer, its reader, and
    what the file promises. The disk maps the number of a part to its bytes; a schedule of write
    faults is an argument.
  \<^item> \<^verbatim>\<open>Fab_History\<close>, \<^verbatim>\<open>Fab_Query\<close>, \<^verbatim>\<open>Fab_Diff\<close>, \<^verbatim>\<open>Fab_Display\<close>, \<^verbatim>\<open>Fab_Explanation\<close>: the readers of
    snapshots, and the texts shown to people.
  \<^item> \<^verbatim>\<open>Fab_Observatory\<close>: the runtime (\<^verbatim>\<open>observatory.cpp\<close>), one record, one function per operation;
    \<^verbatim>\<open>Fab_Facade\<close>: its reading operations; \<^verbatim>\<open>Fab_Runtime\<close>, \<^verbatim>\<open>Fab_Invariant\<close>, \<^verbatim>\<open>Fab_Lineage\<close>,
    \<^verbatim>\<open>Fab_Restart\<close>: frames, steps and actions, the invariant of every reachable state, fences,
    restart.
  \<^item> \<^verbatim>\<open>Fab_Pipeline\<close>: \<^verbatim>\<open>ingest.cpp\<close>, a step per critical section; \<^verbatim>\<open>Fab_Locks\<close>: \<^verbatim>\<open>lock_audit.cpp\<close> and
    the locking of all critical sections.
  \<^item> \<^verbatim>\<open>Fab_Number\<close>, \<^verbatim>\<open>Fab_Json\<close>, \<^verbatim>\<open>Fab_Json_Form\<close>, \<^verbatim>\<open>Fab_Json_Value\<close>, \<^verbatim>\<open>Fab_Observation_Json\<close>,
    \<^verbatim>\<open>Fab_Json_Io\<close>, \<^verbatim>\<open>Fab_Printable\<close>: \<^verbatim>\<open>json.cpp\<close> and \<^verbatim>\<open>json_io.cpp\<close>: doubles as decimal text,
    documents, parser and writer, the interface \<open>json_form\<close> (what is written is read back), values,
    observations, the results of every operation, and the absence of control characters.
  \<^item> \<^verbatim>\<open>Fab_Transport\<close>, \<^verbatim>\<open>Fab_Served\<close>, \<^verbatim>\<open>Fab_Framing\<close>: \<^verbatim>\<open>transport.cpp\<close>, the effect of a request, and
    the server loop against its specification on lines.
  \<^item> \<^verbatim>\<open>Fab_Arguments\<close>, \<^verbatim>\<open>Fab_Cli\<close>, \<^verbatim>\<open>Fab_Tool\<close>: \<^verbatim>\<open>fabobs_main.cpp\<close>, arguments and files, the
    commands, and what they leave behind.
  \<^item> The theories named \<open>Samples\<close> hold the concrete inputs of the witnesses.
\<close>

text \<open>
  WHAT THE PROPERTIES SHOW, in groups.
  \<^item> Snapshots: what is stated as known is backed by fresh evidence of enough sources; the order of
    arrival does not matter; truth follows its specification; no claim is invented; an
    explanation names the worst truth.
  \<^item> Journal: acknowledged evidence survives a crash at any byte, rotation and compaction.
  \<^item> Runtime: an invariant of all reachable states, monotone lineage, no sequence accepted twice,
    refusals change nothing, eviction drops the oldest, a restart restores the evidence and
    states nothing as known.
  \<^item> Formats: observations and values in binary and JSON form, JSON documents, dates; digests and
    checksums against their definitions; a parser that always returns.
  \<^item> Readers: hierarchies list the forest, distances are exact, queries return the first matches,
    differences report every change.
  \<^item> Concurrency: the pipeline refines a sequential runtime, shutdown ends and accounts for every
    observation, and no schedule of the critical sections deadlocks.
  \<^item> Service: a request is one operation, each line is answered once, an observation sent to the
    server is the observation ingested, and the tool changes evidence in two commands only.

  BOUNDS AND FUEL. \<open>value_decode\<close> gets one unit of fuel more than there are unread bytes, and each
  nested value consumes one; \<open>json_fuel\<close> is twice the length of the input plus one, and each call of
  the parser but one per value consumes a character (\<open>json_parser_returns\<close>). The loops over parts,
  lines, tokens and topology are terminating functions with the length of what is left, or the
  subjects not visited, as measure.

  ARGUMENTS OF THE MODEL. The clock (a function from the number of a reading to a time; the tool's
  manual clock is constant), the disk and the outcomes of its writes, the texts of files, standard
  input, the report of the lock auditor, the identity of the build.

  NOT MODELLED. The file system calls behind the disk and their caching; memory exhaustion; thread
  creation and the fairness of the scheduler (a liveness property says that a step exists and
  that every step makes progress); data races, which the critical sections exclude where the
  locks are taken (two places where they are not are listed as findings); the macros of
  \<^verbatim>\<open>export.hpp\<close>; tests, benchmarks and build files.
\<close>

text \<open>
  C1: When a snapshot states an aspect as Known, the stated value is backed by at least the
  required number of distinct sources, each with a supported, unfenced claim of exactly this
  value in a retained observation of the current generation whose evidence age is within the
  freshness window.
\<close>

theorem known_is_backed:
  assumes "snapshot_build rq = Some s" "t \<in> set (sn_subjects s)" "a \<in> set (sb_aspects t)"
    and "as_truth a = TS_Known"
  shows "\<exists>v. as_agreed_value a = Some v \<and>
    unat (min_distinct_fresh_sources (coverage_for (p_truth (rq_policy rq)) (aspect_value (as_aspect a))))
      \<le> card {ob_source (or_observation r) | r. \<exists>cl. backs rq (su_id (sb_identity t)) (as_aspect a) v r cl}"
  by (rule known_backed[OF assms]) blast

lemma known_is_backed_witness:
  "\<exists>v. as_agreed_value sample_aspect_state = Some v \<and>
    unat (min_distinct_fresh_sources (coverage_for (p_truth (rq_policy sample_request))
      (aspect_value (as_aspect sample_aspect_state))))
      \<le> card {ob_source (or_observation r) | r. \<exists>cl. backs sample_request
          (su_id (sb_identity sample_subject_state)) (as_aspect sample_aspect_state) v r cl}"
  by (rule known_is_backed[OF sample_build]) simp_all

text \<open>
  C2: Two build requests that hold the same evidence in any order of arrival, free of ties,
  yield the same snapshot, identifier included.
\<close>

theorem snapshot_order_independent:
  assumes "same_evidence a b" "tie_free a"
  shows "snapshot_build a = snapshot_build b"
  using assms by (rule snapshot_build_order)

lemma snapshot_order_independent_witness:
  "snapshot_build (sample_request\<lparr>rq_rejected := [sample_rejection 1, sample_rejection 2]\<rparr>) =
   snapshot_build (sample_request\<lparr>rq_rejected := [sample_rejection 2, sample_rejection 1]\<rparr>)"
  by (rule snapshot_order_independent) (simp_all add: same_evidence_def tie_free_def sample_request_def)

text \<open>
  C3: The grouping algorithm that evaluates an aspect computes the declarative truth of the
  set of its claims: Unknown without claims, Unsupported without support, Stale without
  assertive claims, Conflicting when assertive claims disagree, and otherwise Known or
  Incomplete as the coverage requires.
\<close>

theorem truth_follows_specification:
  "te_truth (evaluate_truth aspect claims p) =
     truth_spec (coverage_for p (aspect_value aspect)) (set claims)"
  by (rule evaluate_truth_refines)







text \<open>
  C7: After supersession at most one claim of each source incarnation about an aspect is not
  marked as superseded by a later one, and no claim of the same incarnation has a higher
  sequence.
\<close>

theorem one_current_statement_per_incarnation:
  assumes "i < length claims" "j < length claims"
    and "\<not> superseded_by_later_sequence (mark_superseded claims ! i)"
    and "claim_lineage (claims ! j) = claim_lineage (claims ! i)"
  shows "rc_sequence (claims ! j) \<le> rc_sequence (claims ! i) \<and>
    (superseded_by_later_sequence (mark_superseded claims ! j) \<or> i = j)"
  using mark_superseded_latest[OF assms] mark_superseded_unique[OF assms(1,2,3)] assms(4) by metis

lemma one_current_statement_per_incarnation_witness:
  "rc_sequence ([sample_claim_record] ! 0) \<le> rc_sequence ([sample_claim_record] ! 0) \<and>
    (superseded_by_later_sequence (mark_superseded [sample_claim_record] ! 0) \<or> (0::nat) = 0)"
  by (rule one_current_statement_per_incarnation) (simp_all add: sample_superseded)

text \<open>
  C8: Every claim listed in a snapshot is the image of a claim that a retained observation
  made about this subject and this aspect; only its supersession mark may have been added.
\<close>

theorem snapshot_claims_have_origin:
  assumes "snapshot_build rq = Some s" "t \<in> set (sn_subjects s)" "a \<in> set (sb_aspects t)"
    and "c \<in> set (as_claims a)"
  shows "\<exists>r\<in>set (rq_records rq). \<exists>cl\<in>set (ob_claims (or_observation r)).
     su_id (cl_subject cl) = su_id (sb_identity t) \<and> cl_aspect cl = as_aspect a \<and>
     (c = make_claim_record rq r cl \<or>
      c = (make_claim_record rq r cl)\<lparr>superseded_by_later_sequence := True\<rparr>)"
  using assms by (rule snapshot_claim_origin)

lemma snapshot_claims_have_origin_witness:
  "\<exists>r\<in>set (rq_records sample_request). \<exists>cl\<in>set (ob_claims (or_observation r)).
     su_id (cl_subject cl) = su_id (sb_identity sample_subject_state) \<and>
     cl_aspect cl = as_aspect sample_aspect_state \<and>
     (sample_claim_record = make_claim_record sample_request r cl \<or>
      sample_claim_record = (make_claim_record sample_request r cl)\<lparr>superseded_by_later_sequence := True\<rparr>)"
  by (rule snapshot_claims_have_origin[OF sample_build]) simp_all

text \<open>
  C9: Decoding the canonical encoding of a valid observation, whatever bytes follow it,
  returns this observation and stops exactly behind it.
\<close>

theorem observation_round_trip:
  assumes "wf_observation l ob" "wf_limits l"
  shows "observation_decode l (decoder_of (observation_encode ob @ rest)) =
     (Inr ob, \<lparr>cd_data = observation_encode ob @ rest,
       cd_position = length (observation_encode ob), cd_ok = True\<rparr>)"
  using codec.decode_encode[OF observation_codec[OF assms(2)] assms(1)] by (simp add: decoder_of_def)

lemma observation_round_trip_witness:
  "observation_decode default_limits (decoder_of (observation_encode plain_observation @ [1, 2])) =
     (Inr plain_observation, \<lparr>cd_data = observation_encode plain_observation @ [1, 2],
       cd_position = length (observation_encode plain_observation), cd_ok = True\<rparr>)"
  by (rule observation_round_trip) (rule plain_observation_wf default_limits_wf)+

text \<open>
  C10: Whatever bytes are decoded, a successful result is a canonical, validated observation
  whose subjects agree with their typed text and whose metadata is sorted and unique.
\<close>

theorem decoded_observations_are_valid:
  assumes "1 \<le> max_depth (value_bounds l)" "1 \<le> max_total_nodes (value_bounds l)"
    and "observation_decode l d = (Inr ob, d')"
  shows "wf_observation l ob"
  using observation_decode_yields[OF assms(1,2)] assms(3) unfolding yields_def by blast

lemma decoded_observations_are_valid_witness: "wf_observation default_limits plain_observation"
  using observation_codec.decode_encode[OF plain_observation_wf, of "[]"]
  by (intro decoded_observations_are_valid[where d = "decoder_of (observation_encode plain_observation @ [])"])
     (simp_all add: default_limits_def default_value_limits_def)



text \<open>
  C12: Decoding the canonical encoding of a value that fits the limits returns this value and
  stops exactly behind it.
\<close>

theorem value_round_trip:
  assumes "value_fits l v" "wf_value_limits l"
  shows "value_decode l (decoder_of (value_encode v @ rest)) =
     (Inr v, \<lparr>cd_data = value_encode v @ rest, cd_position = length (value_encode v), cd_ok = True\<rparr>)"
  using readsD[OF reads_value[OF assms], of "decoder_of (value_encode v @ rest)" rest]
  by (simp add: decoder_of_def)

lemma value_round_trip_witness:
  "value_decode default_value_limits (decoder_of (value_encode (VList [VText ''a'', VBool True]) @ [9])) =
     (Inr (VList [VText ''a'', VBool True]),
      \<lparr>cd_data = value_encode (VList [VText ''a'', VBool True]) @ [9],
       cd_position = length (value_encode (VList [VText ''a'', VBool True])), cd_ok = True\<rparr>)"
  by (rule value_round_trip) (rule sample_value_fits sample_value_limits)+

text \<open>
  C13: Every JSON document within the limits of the parser, written plain or indented, is read
  back unchanged: strings with every escape, all finite numbers bit for bit, arrays and
  objects in order.
\<close>

theorem json_document_round_trip:
  assumes "json_fits l 0 j" "json_nodes j \<le> jl_max_nodes l" "length (json_to_text pretty j) \<le> jl_max_input_bytes l"
  shows "parse_json (json_to_text pretty j) l = Inr j"
  using assms by (rule parse_json_to_text)

lemma json_document_round_trip_witness:
  "parse_json (json_to_text True (JObject [(''a'', JArray [JText [CHR 0x22, CHR 0x0A], JBool True, JNull])])) default_json_limits =
    Inr (JObject [(''a'', JArray [JText [CHR 0x22, CHR 0x0A], JBool True, JNull])])"
  by (rule json_document_round_trip)
    (simp_all add: default_json_limits_def json_to_text_def json_string_def escape_char_def pad_def)

text \<open>
  C14: The parser returns on every input, malformed inputs included: twice the length of the
  input plus one calls are always enough, so the result never depends on the bound of the
  recursion.
\<close>

theorem json_parser_returns: "run_parser l input = Some (parse_json input l)"
  by (rule run_parser_returns)

text \<open>
  C15: Feeding a message in any chunks to the streaming hasher gives the digest of the padded
  message by the block-wise definition of SHA-256.
\<close>

theorem sha256_streaming_correct: "sha256_chunks chunks = sha256_spec (concat chunks)"
  by (rule sha256_chunks_concat)

text \<open>
  C16: The table-driven CRC-32C equals the bit-serial division by the reflected Castagnoli
  polynomial.
\<close>

theorem crc32c_table_correct: "crc32c data = crc32c_serial data"
  by (rule crc32c_eq_serial)

text \<open>
  C17: The UTC text of every time point from the second full second of the representable range
  on is read back to the nanosecond, times before the epoch included.
\<close>

theorem utc_text_round_trip:
  assumes "- 9223372036000000000 \<le> sint (tp_nanos p)"
  shows "parse_utc (format_utc p) = Some (Inr p)"
  using assms by (rule utc_round_trip)

lemma utc_text_round_trip_witness:
  "parse_utc (format_utc (TimePoint 1700000000123456789)) = Some (Inr (TimePoint 1700000000123456789))"
  by (rule utc_text_round_trip) simp



text \<open>
  C19: Whatever bytes the journal holds and whatever writes fail, a runtime that opens under a
  policy that does not trust recovered evidence publishes a first snapshot in which no aspect
  is known.
\<close>

theorem restart_knows_nothing:
  assumes "observatory_open cfg clock d faults = Inr ov" "oc_journal_path cfg \<noteq> []"
    and "oc_recover_on_open cfg" "\<not> allow_recovered_as_fresh (p_freshness (oc_policy cfg))"
  shows "\<exists>s. ov_published ov = Some s \<and>
    (\<forall>t\<in>set (sn_subjects s). \<forall>a\<in>set (sb_aspects t). as_truth a \<noteq> TS_Known)"
  using assms by (rule reopened_knows_nothing)

lemma restart_knows_nothing_witness:
  "\<exists>s. ov_published sample_started = Some s \<and>
    (\<forall>t\<in>set (sn_subjects s). \<forall>a\<in>set (sb_aspects t). as_truth a \<noteq> TS_Known)"
  by (rule restart_knows_nothing[OF sample_opens sample_room(3,2)])
     (simp add: sample_config_def default_policy_def)



text \<open>
  C21: Whatever operations run, a registered source stays registered and its generation, and
  its epoch within a generation, never go back.
\<close>

theorem source_lineage_never_regresses:
  assumes "observatory_open cfg clock d faults = Inr ov0" "runtime_reaches ov0 ov"
    and "runtime_reaches ov ov'" "map_of (ov_sources ov) i = Some st"
  shows "\<exists>st'. map_of (ov_sources ov') i = Some st' \<and> cursor_le st st'"
proof -
  have "om_sorted (ov_sources ov0)" using observatory_open_ok[OF assms(1)] by (simp add: opened_ok_def)
  then have "om_sorted (ov_sources ov)" using actions_advance[OF reaches_actions[OF assms(2)]] by simp
  then show ?thesis
    using actions_advance[OF reaches_actions[OF assms(3)]] assms(4) by (auto simp: sources_advance_def)
qed

lemma source_lineage_never_regresses_witness:
  "\<exists>st'. map_of (ov_sources (after_report memory_started)) sample_source = Some st' \<and>
    cursor_le (the (map_of (ov_sources (after_report memory_started)) sample_source)) st'"
proof -
  have "\<exists>st. map_of (ov_sources (after_report memory_started)) sample_source = Some st"
    using memory_idle by (simp add: after_report_def sample_ingest accept_sources adjust_source_def
        sample_admitting_def sample_report_fields map_of_om_put)
  moreover have "runtime_reaches memory_started (after_report memory_started)"
    using after_report(1) memory_idle by simp
  ultimately show ?thesis
    using source_lineage_never_regresses[OF memory_opens _ rtranclp.rtrancl_refl] by (metis option.sel)
qed



text \<open>
  C23: An observation is refused with an error status exactly when its disposition is
  rejected, the status carries the code and the bounded text of the outcome, and an
  observation that is not accepted, for whatever reason, leaves the evidence, its index and
  the cursors of every source as they were.
\<close>

theorem refused_evidence_changes_nothing:
  assumes "runtime_ok ov" "ingest ob options ov = (r, outcome, ov')"
    and "ig_disposition outcome \<noteq> ID_Accepted"
  shows "ov_records ov' = ov_records ov \<and> ov_index ov' = ov_index ov \<and> cursors_kept ov ov' \<and>
    (case r of Inl e \<Rightarrow> ig_disposition outcome = ID_Rejected \<and> st_code e = ig_code outcome \<and>
        st_message e = ig_explanation outcome \<and> length (st_message e) \<le> 512
      | Inr _ \<Rightarrow> ig_disposition outcome \<noteq> ID_Rejected)"
  using ingest_keeps[OF _ assms(2,3)] ingest_status[OF assms(2)] assms(1)
  by (simp add: runtime_ok_def sources_ok_def)

lemma refused_evidence_changes_nothing_witness:
  "ov_records (snd (snd (ingest (sample_report\<lparr>ob_schema := ''other''\<rparr>) DeferSnapshot memory_started))) =
     ov_records memory_started"
proof -
  let ?ob = "sample_report\<lparr>ob_schema := ''other''\<rparr>"
  have lim: "ov_limits ov = default_limits" if "ov_config ov = ov_config memory_started" for ov
    using that memory_idle idle_limits[of memory_started] by simp
  have "observation_validate default_limits ?ob = Inr ()"
    by (simp add: observation_validate_ok sample_report_def plain_observation_def sample_observation_def
        canonicalize_def id_is_nil_def u128_is_zero_def sample_source_def default_limits_def)
  then obtain code message where "precheck (snd (clock_now memory_started)) (TimePoint 2000) ?ob = Some (code, message)"
    using lim[of "snd (clock_now memory_started)"]
    by (simp add: precheck_def observation_schema_def frame_simps)
  then have eq: "ingest ?ob DeferSnapshot memory_started =
      refuse ?ob (TimePoint 2000) DeferSnapshot code message (snd (clock_now memory_started))"
    using memory_idle by (simp add: ingest_def)
  obtain r outcome ov' where r: "refuse ?ob (TimePoint 2000) DeferSnapshot code message (snd (clock_now memory_started)) =
      (r, outcome, ov')"
    by (metis prod.collapse)
  then have ing: "ingest ?ob DeferSnapshot memory_started = (r, outcome, ov')" using eq by simp
  have "ig_disposition outcome \<noteq> ID_Accepted"
    using refuse_frame(4)[of ?ob "TimePoint 2000" DeferSnapshot code message "snd (clock_now memory_started)"]
    unfolding r by simp
  moreover have "runtime_ok memory_started"
    using opened_runtime_ok[OF observatory_open_ok[OF memory_opens]] memory_idle by (simp add: idle_def)
  ultimately show ?thesis using refused_evidence_changes_nothing[OF _ ing] ing by simp
qed

text \<open>
  C24: Eviction splits the evidence into the survivors, in their order and at most as many as
  configured, and the dropped records, none of which was received after a survivor; it drops
  no more than the overflow or a sixteenth of the bound.
\<close>

theorem eviction_drops_the_oldest:
  "\<exists>gone. mset (ov_records ov) = mset (ov_records (evict_evidence ov)) + mset gone \<and>
    subseq (ov_records (evict_evidence ov)) (ov_records ov) \<and>
    length (ov_records (evict_evidence ov)) \<le> unat (max_evidence_records (ov_limits ov)) \<and>
    length gone \<le> max (length (ov_records ov) - unat (max_evidence_records (ov_limits ov)))
      (unat (max_evidence_records (ov_limits ov)) div 16) \<and>
    (\<forall>g\<in>set gone. \<forall>k\<in>set (ov_records (evict_evidence ov)). eviction_key g \<le> eviction_key k)"
  using evict_evidence_spec by blast

lemma eviction_drops_the_oldest_witness:
  "\<exists>gone. mset (ov_records (after_report memory_started)) =
    mset (ov_records (evict_evidence (after_report memory_started))) + mset gone"
  using eviction_drops_the_oldest[of "after_report memory_started"] by blast

text \<open>
  C25: On a built snapshot the explicit-stack traversal of a hierarchy query lists exactly the
  first nodes, as many as the limit allows, of the observed forest in preorder, children and
  roots in ascending order and subtrees cut at the depth bound; the cycle counter it keeps
  never moves.
\<close>

theorem hierarchy_lists_forest:
  assumes "snapshot_build rq = Some s" "effective (hq_max_depth q) (max_hierarchy_depth l) \<noteq> - 1"
  shows "listed (execute_hierarchy s q l) = take (unat (effective (hq_limit q) (max_query_results l)))
      (concat (map (\<lambda>i. preorder (sn_subjects s) (unat (effective (hq_max_depth q) (max_hierarchy_depth l))) i 0)
        (selected_roots q (sn_subjects s)))) \<and>
    hr_cycles_detected (execute_hierarchy s q l) = 0"
  using snapshot_ids_distinct[OF assms(1)] assms(2) by (rule hierarchy_preorder)

lemma hierarchy_lists_forest_witness:
  "listed (execute_hierarchy sample_snapshot sample_hierarchy_query default_limits) =
      take (unat (effective (hq_limit sample_hierarchy_query) (max_query_results default_limits)))
      (concat (map (\<lambda>i. preorder (sn_subjects sample_snapshot)
        (unat (effective (hq_max_depth sample_hierarchy_query) (max_hierarchy_depth default_limits))) i 0)
        (selected_roots sample_hierarchy_query (sn_subjects sample_snapshot)))) \<and>
    hr_cycles_detected (execute_hierarchy sample_snapshot sample_hierarchy_query default_limits) = 0"
  by (rule hierarchy_lists_forest[OF sample_build sample_effective_depth])

text \<open>
  C26: An entity on a cycle of the observed topology appears in no hierarchy result, and the
  result does not report the cycle.
\<close>

theorem cycles_are_silently_omitted:
  assumes "distinct (map (\<lambda>t. su_id (sb_identity t)) (sn_subjects s))"
    and "effective (hq_max_depth q) (max_hierarchy_depth l) \<noteq> - 1"
    and "climb (parent_in (sn_subjects s)) (Suc n) i = Some i"
  shows "i \<notin> fst ` set (listed (execute_hierarchy s q l)) \<and> hr_cycles_detected (execute_hierarchy s q l) = 0"
  using cycle_not_listed[OF assms] hierarchy_preorder[OF assms(1,2)] by blast

lemma cycles_are_silently_omitted_witness:
  "EntityId (Uint128 0 5) \<notin> fst ` set (listed (execute_hierarchy cyclic_snapshot sample_hierarchy_query default_limits)) \<and>
   hr_cycles_detected (execute_hierarchy cyclic_snapshot sample_hierarchy_query default_limits) = 0"
  by (rule cycles_are_silently_omitted[OF cyclic_snapshot_facts(1) sample_effective_depth cyclic_snapshot_facts(2)])

text \<open>
  C27: The bounded ancestor walk of the subtree filter answers a depth exactly when that is
  the number of parent steps to the first meeting with the root and it is within the bound,
  whatever cycles the parent relation has.
\<close>

theorem subtree_distance_exact:
  "depth_from_root parents start root bound = Some d \<longleftrightarrow>
     d \<le> unat bound \<and> first_meeting (map_of parents) start root d"
  by (rule depth_from_root_exact)

text \<open>
  C28: A filtered query returns the first rows, up to the limit, of the subjects that match
  and have a selected aspect, in snapshot order, and a result that is not marked truncated
  holds all of them.
\<close>

theorem query_returns_first_matches:
  "qr_subjects (execute_query s f l) =
      take (unat (effective (qf_limit f) (max_query_results l))) (matching_rows f l s) \<and>
   (qr_truncated (execute_query s f l) \<or> qr_subjects (execute_query s f l) = matching_rows f l s)"
  using query_rows query_complete by (rule conjI)


text \<open>
  C30: However the clients, the workers, cancellation and shutdown interleave, the runtime
  behind the pipeline is the one obtained by ingesting the logged observations one after the
  other, and of each source a prefix of what was queued has been ingested, in the order of
  queueing.
\<close>

theorem pipeline_is_linearizable:
  assumes "new_pipeline ov cfg = Some p0" "pipeline_run p0 es p"
  shows "pl_observatory p = ingest_all (worker_options p0) (ingested es) ov \<and>
    (\<exists>rest. from_source i (enqueued es) = from_source i (ingested es) @ rest)"
  using run_invariants[OF assms] run_source_order[OF assms] by blast

lemma pipeline_is_linearizable_witness:
  "pl_observatory sample_processed = ingest_all DeferSnapshot [sample_report] memory_started \<and>
   (\<exists>rest. from_source sample_source [sample_report] = from_source sample_source [sample_report] @ rest)"
  using pipeline_is_linearizable[OF sample_pipeline_new sample_run_processed, of sample_source]
  by (simp add: sample_worker_options ingested_def enqueued_def)

text \<open>
  C31: Once the pipeline is closed every queued observation was ingested or dropped, exactly
  once; the counters say so as soon as no client is between its push and its counting; and
  nothing was dropped unless cancellation or a discarding shutdown asked for it.
\<close>

theorem shutdown_accounts_for_everything:
  assumes "new_pipeline ov cfg = Some p0" "pipeline_run p0 es p" "pl_control p = Closed mode"
  shows "mset (enqueued es) = mset (ingested es) + mset (dropped es) \<and>
    (pl_uncounted p \<noteq> 0 \<or> ps_submitted (pl_counters p) = processed p + ps_discarded (pl_counters p)) \<and>
    (asked_to_discard es p \<or> dropped es = [])"
  using assms by (rule closed_accounts)

lemma shutdown_accounts_for_everything_witness:
  "\<exists>es p. pipeline_run sample_pipeline es p \<and> pl_control p = Closed Drain \<and>
    mset (enqueued es) = mset (ingested es) + mset (dropped es)"
  using sample_closes shutdown_accounts_for_everything[OF sample_pipeline_new] by blast

text \<open>
  C32: When shutdown joins the workers, no schedule of the workers is longer than the work
  left, no worker that has not returned is stuck while the others wait, and the run can be
  completed to a closed pipeline.
\<close>

theorem shutdown_terminates:
  assumes "new_pipeline ov cfg = Some p0" "pipeline_run p0 es p" "pl_control p = Joining mode j"
  shows "(\<forall>n p'. worker_run n p p' \<longrightarrow> n \<le> work_left p \<and>
      (set (pl_workers p') \<subseteq> {Returned} \<or> (\<exists>e p''. worker_step p' e p''))) \<and>
    (\<exists>fs p'. pipeline_run p0 (es @ fs) p' \<and> pl_control p' = Closed mode)"
  using assms by (rule shutdown_ends)

lemma shutdown_terminates_witness:
  "\<exists>fs p'. pipeline_run sample_pipeline ([Enqueued sample_report, Quiet, Quiet, Quiet] @ fs) p' \<and>
     pl_control p' = Closed Drain"
  using shutdown_terminates[OF sample_pipeline_new sample_run_joining] by blast



text \<open>
  C34: The explanation of a subject of a built snapshot has the worst truth state the snapshot
  records for it, one reason per aspect and one line per claim, in snapshot order, each list
  cut at the configured number of lines and nowhere else.
\<close>

theorem explanation_tells_the_worst:
  assumes "snapshot_build rq = Some s" "t \<in> set (sn_subjects s)" "sb_aspects t \<noteq> []"
  shows "ex_truth (explain_subject s (sb_identity t) None l) = sb_worst_truth t \<and>
    ex_reasons (explain_subject s (sb_identity t) None l) =
      take (unat (max_explanation_lines l)) (reason_lines (sb_aspects t)) \<and>
    ex_evidence (explain_subject s (sb_identity t) None l) =
      take (unat (max_explanation_lines l)) (evidence_lines (sb_aspects t))"
  using assms by (rule explanation_of_subject)

lemma explanation_tells_the_worst_witness:
  "ex_truth (explain_subject sample_snapshot (sb_identity sample_subject_state) None default_limits) =
     sb_worst_truth sample_subject_state"
proof -
  have "sample_aspect_state \<in> set (sb_aspects sample_subject_state)" by simp
  then have "sb_aspects sample_subject_state \<noteq> []" by (metis empty_iff list.set(1))
  then show ?thesis using explanation_tells_the_worst[OF sample_build, of sample_subject_state default_limits] by simp
qed





text \<open>
  C38: Every run of the tool leaves the observatory it opened in a state the runtime reaches,
  shut down or not, and every command but ingest and serve leaves the evidence as it was, on
  all error exits and uncaught exceptions too.
\<close>

theorem tool_commands_only_read:
  "case parse_arguments argv of
     Inl e \<Rightarrow> tr_observatory (tool_main env argv) = None
   | Inr a \<Rightarrow> left_by runtime_reaches env a (tool_main env argv) \<and>
       (ag_command a = ''ingest'' \<or> ag_command a = ''serve'' \<or> left_by only_reads env a (tool_main env argv))"
  by (rule tool_spec)

text \<open>
  C39: The ingest command exits with success exactly when the observatory opened, the named
  file was readable and every observation in it valid, the batch was admitted, and none of its
  observations was rejected.
\<close>

theorem ingest_exit_code_is_exact:
  "tr_exit (command_ingest env a) = Some exit_ok \<longleftrightarrow>
   (\<exists>o' path obs b ov'. open_observatory env a = Inr o' \<and> input_path a = Some path \<and>
      load_observations (te_files env) path (ag_single a ''observations'' \<noteq> None) (ov_limits (op_observatory o')) = Inr obs \<and>
      ingest_batch obs PublishSnapshot (op_observatory o') = (Inr b, ov') \<and> length (br_outcomes b) = length obs \<and>
      list_all (\<lambda>x. ig_disposition x \<noteq> ID_Rejected) (br_outcomes b))"
  by (rule command_ingest_exit)

text \<open>
  C40: A file of valid observations, one compact document per line, loads as exactly these
  observations in order, as long as each line and their number are within the limits.
\<close>

theorem observation_file_loads:
  assumes "wf_limits l" "\<forall>ob\<in>set obs. one_line l ob" "length obs \<le> unat (max_batch_observations l)"
    and "files path = Some (server_output (map (observation_to_json_text False) obs))"
  shows "load_observations files path True l = Inr obs"
  using assms by (rule load_written)

lemma observation_file_loads_witness:
  "load_observations [''in'' \<mapsto> server_output [observation_to_json_text False plain_observation]] ''in'' True default_limits =
     Inr [plain_observation]"
  by (rule observation_file_loads) (simp_all add: default_limits_wf plain_one_line, simp add: default_limits_def)

end
